(* ===== verification/Prelude.thy ===== *)
theory Prelude
  imports Main "HOL-Library.Word"
begin

unbundle bit_operations_syntax

text \<open>
  Shared vocabulary of the development: names for the C integer types, the status codes of
  \<^verbatim>\<open>core/include/osdp/osdp_types.h\<close>, the little-endian helpers of
  \<^verbatim>\<open>core/src/shared/pack.h\<close>, the collections of simplification rules the component theories
  fill, and the facts about lists, buffers and machine words that several components use.

  Conventions. A \<open>uint8_t\<close> is a \<open>byte\<close> (an 8-bit word); \<open>uint16_t\<close> and \<open>uint32_t\<close> are
  16 and 32-bit words, so that arithmetic on them wraps exactly as in C. A \<open>size_t\<close> is a
  \<open>nat\<close>: it counts bytes of buffers that exist in memory. A pointer to bytes that the code
  may find to be NULL is a \<open>byte list option\<close>; it always comes with the length the code keeps
  beside it. An out-parameter is part of the returned value, so the checks of the code that
  such a pointer is not NULL have no counterpart.
\<close>

section \<open>Types\<close>

type_synonym byte = "8 word"
type_synonym u16 = "16 word"
type_synonym u32 = "32 word"
type_synonym bytes = "byte list"
type_synonym bytes_ptr = "byte list option"

datatype osdp_status =
    OSDP_OK
  | OSDP_ERR_INVALID_ARG
  | OSDP_ERR_BUFFER_TOO_SMALL
  | OSDP_ERR_TRUNCATED
  | OSDP_ERR_BAD_SOM
  | OSDP_ERR_BAD_LENGTH
  | OSDP_ERR_BAD_CTRL
  | OSDP_ERR_BAD_CRC
  | OSDP_ERR_BAD_CHECKSUM
  | OSDP_ERR_BAD_PAYLOAD
  | OSDP_ERR_NOT_SUPPORTED
  | OSDP_ERR_BUSY

text \<open>A fallible operation returns its status as \<open>Inl\<close>, or its result as \<open>Inr\<close> where the
  code returns \<open>OSDP_OK\<close>.\<close>

type_synonym 'a result = "osdp_status + 'a"

named_theorems osdp_consts "the numeric constants of the headers"
named_theorems codec_defs "the defining equations of the payload codecs"
named_theorems pack_simps "round trips of the little-endian helpers"
named_theorems frame_simps "facts about the layout of a frame"
named_theorems frame_rules "what an operation leaves unchanged"

section \<open>Little-endian packing\<close>

definition osdp_pack_read_u16le :: "bytes \<Rightarrow> u16" where
  "osdp_pack_read_u16le p = ucast (p ! 0) OR push_bit 8 (ucast (p ! 1))"

definition osdp_pack_read_u32le :: "bytes \<Rightarrow> u32" where
  "osdp_pack_read_u32le p =
     ucast (p ! 0) OR push_bit 8 (ucast (p ! 1)) OR push_bit 16 (ucast (p ! 2))
       OR push_bit 24 (ucast (p ! 3))"

definition osdp_pack_write_u16le :: "u16 \<Rightarrow> bytes" where
  "osdp_pack_write_u16le v = [ucast (v AND 0xFF), ucast (drop_bit 8 v AND 0xFF)]"

definition osdp_pack_write_u32le :: "u32 \<Rightarrow> bytes" where
  "osdp_pack_write_u32le v =
     [ucast (v AND 0xFF), ucast (drop_bit 8 v AND 0xFF),
      ucast (drop_bit 16 v AND 0xFF), ucast (drop_bit 24 v AND 0xFF)]"

section \<open>Generic facts\<close>

subsection \<open>Words\<close>

lemma ucast_low_byte [simp]: "ucast (v AND 0xFF) = (ucast v :: byte)" for v :: "'a::len word"
proof -
  have "ucast (v AND 0xFF) = (ucast (v AND mask 8) :: byte)"
    by (simp add: mask_eq_exp_minus_1)
  also have "\<dots> = ucast v"
    by (rule bit_word_eqI) (auto simp: bit_ucast_iff bit_and_iff bit_mask_iff dest: bit_imp_le_length)
  finally show ?thesis .
qed

lemma byte_bit_high [simp]:
  "\<not> bit (b :: byte) (8 + n)" "\<not> bit (b :: byte) (16 + n)" "\<not> bit (b :: byte) (24 + n)"
  by (auto dest: bit_imp_le_length)

lemma word_xor_cancel [simp]:
  "(a XOR b = a XOR c) = (b = c)" "(b XOR a = c XOR a) = (b = c)" for a b c :: "'a::len word"
  by (metis xor.assoc xor.commute xor_self_eq xor.right_neutral)+

lemma unat_byte_lt [simp]: "unat (b :: byte) < 256"
  using unsigned_less [of b, where 'a = nat] by simp

lemma unat_u16_lt [simp]: "unat (v :: u16) < 65536"
  using unsigned_less [of v, where 'a = nat] by simp

lemma unat_u32_lt [simp]: "unat (v :: u32) < 4294967296"
  using unsigned_less [of v, where 'a = nat] by simp

text \<open>The same bounds in a form the simplifier does not discharge by itself, to feed into proofs.\<close>

lemma unat_byte_le: "unat (b :: byte) \<le> 255"
  using unat_byte_lt [of b] by linarith

lemma unat_u16_le: "unat (v :: u16) \<le> 65535"
  using unat_u16_lt [of v] by linarith

lemma write_u16le_length [simp]: "length (osdp_pack_write_u16le v) = 2"
  by (simp add: osdp_pack_write_u16le_def)

lemma write_u32le_length [simp]: "length (osdp_pack_write_u32le v) = 4"
  by (simp add: osdp_pack_write_u32le_def)

lemma read_write_u16le [simp, pack_simps]:
  "osdp_pack_read_u16le (osdp_pack_write_u16le v @ rest) = v"
  by (rule bit_word_eqI)
    (auto simp: osdp_pack_read_u16le_def osdp_pack_write_u16le_def bit_or_iff bit_push_bit_iff
      bit_ucast_iff bit_drop_bit_eq)

lemma read_write_u16le_nil [simp, pack_simps]:
  "osdp_pack_read_u16le (osdp_pack_write_u16le v) = v"
  using read_write_u16le [of v "[]"] by simp

lemma read_write_u32le [simp, pack_simps]:
  "osdp_pack_read_u32le (osdp_pack_write_u32le v @ rest) = v"
proof (rule bit_word_eqI)
  fix n assume n: "n < LENGTH(32)"
  consider "n < 8" | "8 \<le> n" "n < 16" | "16 \<le> n" "n < 24" | "24 \<le> n"
    by linarith
  then show "bit (osdp_pack_read_u32le (osdp_pack_write_u32le v @ rest)) n = bit v n"
    by cases (use n in \<open>auto simp: osdp_pack_read_u32le_def osdp_pack_write_u32le_def
        bit_or_iff bit_push_bit_iff bit_ucast_iff bit_drop_bit_eq\<close>)
qed

lemma read_write_u32le_nil [simp, pack_simps]:
  "osdp_pack_read_u32le (osdp_pack_write_u32le v) = v"
  using read_write_u32le [of v "[]"] by simp

lemma write_read_u16le [pack_simps]:
  "osdp_pack_write_u16le (osdp_pack_read_u16le (a # b # rest)) = [a, b]"
  by (auto simp: osdp_pack_write_u16le_def osdp_pack_read_u16le_def intro!: bit_word_eqI
      simp: bit_or_iff bit_push_bit_iff bit_ucast_iff bit_drop_bit_eq
      dest: bit_imp_le_length)

lemma write_read_u32le [pack_simps]:
  "osdp_pack_write_u32le (osdp_pack_read_u32le (a # b # c # d # rest)) = [a, b, c, d]"
  by (auto simp: osdp_pack_write_u32le_def osdp_pack_read_u32le_def intro!: bit_word_eqI
      simp: bit_or_iff bit_push_bit_iff bit_ucast_iff bit_drop_bit_eq
      dest: bit_imp_le_length)

end
