(* ===== verification/Integrity.thy ===== *)
theory Integrity
  imports Prelude
begin

unbundle bit_operations_syntax

text \<open>
  The two check-character algorithms of the protocol: the 8-bit checksum of
  \<^verbatim>\<open>core/src/shared/checksum.c\<close> and the table-driven CRC-16 of
  \<^verbatim>\<open>core/src/shared/crc16.c\<close>. The lemmas show that the checksum is the two's complement of
  the byte sum, that the table is the one the CCITT polynomial 0x1021 generates bit by bit,
  and that neither check survives the corruption of a single byte.
\<close>

section \<open>Checksum\<close>

fun checksum_loop :: "byte \<Rightarrow> bytes \<Rightarrow> byte" where
  "checksum_loop acc [] = acc"
| "checksum_loop acc (d # data) = checksum_loop (acc + d) data"

definition osdp_checksum :: "bytes_ptr \<Rightarrow> nat \<Rightarrow> byte" where
  "osdp_checksum data len =
     (case data of None \<Rightarrow> 0
      | Some bs \<Rightarrow> word_of_int (- sint (checksum_loop 0 (take len bs))))"

section \<open>CRC-16\<close>

definition osdp_crc16_table :: "u16 list" where
  "osdp_crc16_table = [
   0x0000, 0x1021, 0x2042, 0x3063, 0x4084, 0x50A5, 0x60C6, 0x70E7,
   0x8108, 0x9129, 0xA14A, 0xB16B, 0xC18C, 0xD1AD, 0xE1CE, 0xF1EF,
   0x1231, 0x0210, 0x3273, 0x2252, 0x52B5, 0x4294, 0x72F7, 0x62D6,
   0x9339, 0x8318, 0xB37B, 0xA35A, 0xD3BD, 0xC39C, 0xF3FF, 0xE3DE,
   0x2462, 0x3443, 0x0420, 0x1401, 0x64E6, 0x74C7, 0x44A4, 0x5485,
   0xA56A, 0xB54B, 0x8528, 0x9509, 0xE5EE, 0xF5CF, 0xC5AC, 0xD58D,
   0x3653, 0x2672, 0x1611, 0x0630, 0x76D7, 0x66F6, 0x5695, 0x46B4,
   0xB75B, 0xA77A, 0x9719, 0x8738, 0xF7DF, 0xE7FE, 0xD79D, 0xC7BC,
   0x48C4, 0x58E5, 0x6886, 0x78A7, 0x0840, 0x1861, 0x2802, 0x3823,
   0xC9CC, 0xD9ED, 0xE98E, 0xF9AF, 0x8948, 0x9969, 0xA90A, 0xB92B,
   0x5AF5, 0x4AD4, 0x7AB7, 0x6A96, 0x1A71, 0x0A50, 0x3A33, 0x2A12,
   0xDBFD, 0xCBDC, 0xFBBF, 0xEB9E, 0x9B79, 0x8B58, 0xBB3B, 0xAB1A,
   0x6CA6, 0x7C87, 0x4CE4, 0x5CC5, 0x2C22, 0x3C03, 0x0C60, 0x1C41,
   0xEDAE, 0xFD8F, 0xCDEC, 0xDDCD, 0xAD2A, 0xBD0B, 0x8D68, 0x9D49,
   0x7E97, 0x6EB6, 0x5ED5, 0x4EF4, 0x3E13, 0x2E32, 0x1E51, 0x0E70,
   0xFF9F, 0xEFBE, 0xDFDD, 0xCFFC, 0xBF1B, 0xAF3A, 0x9F59, 0x8F78,
   0x9188, 0x81A9, 0xB1CA, 0xA1EB, 0xD10C, 0xC12D, 0xF14E, 0xE16F,
   0x1080, 0x00A1, 0x30C2, 0x20E3, 0x5004, 0x4025, 0x7046, 0x6067,
   0x83B9, 0x9398, 0xA3FB, 0xB3DA, 0xC33D, 0xD31C, 0xE37F, 0xF35E,
   0x02B1, 0x1290, 0x22F3, 0x32D2, 0x4235, 0x5214, 0x6277, 0x7256,
   0xB5EA, 0xA5CB, 0x95A8, 0x8589, 0xF56E, 0xE54F, 0xD52C, 0xC50D,
   0x34E2, 0x24C3, 0x14A0, 0x0481, 0x7466, 0x6447, 0x5424, 0x4405,
   0xA7DB, 0xB7FA, 0x8799, 0x97B8, 0xE75F, 0xF77E, 0xC71D, 0xD73C,
   0x26D3, 0x36F2, 0x0691, 0x16B0, 0x6657, 0x7676, 0x4615, 0x5634,
   0xD94C, 0xC96D, 0xF90E, 0xE92F, 0x99C8, 0x89E9, 0xB98A, 0xA9AB,
   0x5844, 0x4865, 0x7806, 0x6827, 0x18C0, 0x08E1, 0x3882, 0x28A3,
   0xCB7D, 0xDB5C, 0xEB3F, 0xFB1E, 0x8BF9, 0x9BD8, 0xABBB, 0xBB9A,
   0x4A75, 0x5A54, 0x6A37, 0x7A16, 0x0AF1, 0x1AD0, 0x2AB3, 0x3A92,
   0xFD2E, 0xED0F, 0xDD6C, 0xCD4D, 0xBDAA, 0xAD8B, 0x9DE8, 0x8DC9,
   0x7C26, 0x6C07, 0x5C64, 0x4C45, 0x3CA2, 0x2C83, 0x1CE0, 0x0CC1,
   0xEF1F, 0xFF3E, 0xCF5D, 0xDF7C, 0xAF9B, 0xBFBA, 0x8FD9, 0x9FF8,
   0x6E17, 0x7E36, 0x4E55, 0x5E74, 0x2E93, 0x3EB2, 0x0ED1, 0x1EF0]"

definition OSDP_CRC16_INIT :: u16 where
  "OSDP_CRC16_INIT = 0x1D0F"

definition crc16_step :: "u16 \<Rightarrow> byte \<Rightarrow> u16" where
  "crc16_step crc d =
     (let idx = (ucast ((drop_bit 8 crc XOR ucast d) AND 0xFF) :: byte)
      in push_bit 8 crc XOR (osdp_crc16_table ! unat idx))"

fun osdp_crc16_loop :: "u16 \<Rightarrow> bytes \<Rightarrow> u16" where
  "osdp_crc16_loop crc [] = crc"
| "osdp_crc16_loop crc (d # data) = osdp_crc16_loop (crc16_step crc d) data"

definition osdp_crc16_update :: "u16 \<Rightarrow> bytes_ptr \<Rightarrow> nat \<Rightarrow> u16" where
  "osdp_crc16_update crc data len =
     (case data of None \<Rightarrow> crc | Some bs \<Rightarrow> osdp_crc16_loop crc (take len bs))"

definition osdp_crc16 :: "bytes_ptr \<Rightarrow> nat \<Rightarrow> u16" where
  "osdp_crc16 data len = osdp_crc16_update OSDP_CRC16_INIT data len"

section \<open>The checksum is the two's complement of the byte sum\<close>

lemma checksum_loop_sum_list: "checksum_loop acc data = acc + sum_list data"
  by (induction data arbitrary: acc) (simp_all add: add.assoc)

lemma osdp_checksum_eq: "osdp_checksum (Some bs) len = - sum_list (take len bs)"
  by (simp add: osdp_checksum_def checksum_loop_sum_list)

section \<open>The table is generated by the polynomial\<close>

text \<open>One bit of the shift-and-exclusive-or division by the polynomial 0x1021, and one byte of
  it: the reference algorithm of the protocol's annex C.\<close>

definition crc_bit :: "u16 \<Rightarrow> u16" where
  "crc_bit r = push_bit 1 r XOR (if bit r 15 then 0x1021 else 0)"

definition crc_byte :: "u16 \<Rightarrow> byte \<Rightarrow> u16" where
  "crc_byte crc d = (crc_bit ^^ 8) (crc XOR push_bit 8 (ucast d))"

lemma crc_bit_xor: "crc_bit (x XOR y) = crc_bit x XOR crc_bit y"
  by (rule bit_word_eqI) (auto simp: crc_bit_def bit_simps)

lemma crc_bits_xor: "(crc_bit ^^ n) (x XOR y) = (crc_bit ^^ n) x XOR (crc_bit ^^ n) y"
  by (induction n) (simp_all add: crc_bit_xor)

lemma crc_bits_low:
  "(\<And>i. bit y i \<Longrightarrow> i + n < 16) \<Longrightarrow> (crc_bit ^^ n) y = push_bit n y"
proof (induction n)
  case (Suc n)
  then have "(crc_bit ^^ n) y = push_bit n y"
    by (metis add_Suc_right less_SucI Suc_lessD)
  moreover have "\<not> bit (push_bit n y) 15"
    using Suc.prems [of "15 - n"] by (auto simp: bit_push_bit_iff)
  ultimately show ?case
    by (simp add: crc_bit_def [of "push_bit n y"] push_bit_push_bit)
qed simp

lemma crc16_table_length: "length osdp_crc16_table = 256"
  by (simp add: osdp_crc16_table_def)

text \<open>The table in layers: the entries for the \<open>k\<close>-bit indices, each layer doubling the one
  before it.\<close>

fun crc_layer :: "nat \<Rightarrow> u16 list" where
  "crc_layer 0 = [0]"
| "crc_layer (Suc k) = concat (map (\<lambda>x. [crc_bit x, crc_bit x XOR 0x1021]) (crc_layer k))"

abbreviation crc_entry :: "nat \<Rightarrow> u16" where
  "crc_entry i \<equiv> (crc_bit ^^ 8) (push_bit 8 (word_of_nat i))"

lemma crc_bits_8:
  "(crc_bit ^^ 8) x =
     crc_bit (crc_bit (crc_bit (crc_bit (crc_bit (crc_bit (crc_bit (crc_bit x)))))))"
  by (simp add: eval_nat_numeral)

lemma crc_layer_numeral:
  "crc_layer (numeral k) =
     concat (map (\<lambda>x. [crc_bit x, crc_bit x XOR 0x1021]) (crc_layer (pred_numeral k)))"
  by (simp add: numeral_eq_Suc)

lemma crc_entry_one: "crc_entry 1 = 0x1021"
  by (simp add: crc_bits_8 crc_bit_def)

lemma word_of_nat_bound:
  "i < 2 ^ n \<Longrightarrow> bit (word_of_nat i :: 'a::len word) j \<Longrightarrow> j < n"
  by (metis bit_of_nat_iff bit_take_bit_iff take_bit_nat_eq_self)

lemma crc_entry_double: "i < 128 \<Longrightarrow> crc_entry (2 * i) = crc_bit (crc_entry i)"
proof -
  assume i: "i < 128"
  have low: "\<not> bit (push_bit 8 (word_of_nat i :: u16)) 15"
    using word_of_nat_bound [of i 7 7] i by (auto simp: bit_push_bit_iff)
  have "push_bit 8 (word_of_nat (2 * i) :: u16) = push_bit 1 (push_bit 8 (word_of_nat i))"
    by (simp add: push_bit_eq_mult)
  also have "\<dots> = crc_bit (push_bit 8 (word_of_nat i))"
    using low by (simp add: crc_bit_def)
  finally show ?thesis
    by (simp add: funpow_swap1)
qed

lemma crc_entry_odd: "i < 128 \<Longrightarrow> crc_entry (2 * i + 1) = crc_bit (crc_entry i) XOR 0x1021"
proof -
  assume i: "i < 128"
  have "(word_of_nat (2 * i + 1) :: u16) = word_of_nat (2 * i) XOR 1"
    by (simp add: xor_one_eq)
  then have "push_bit 8 (word_of_nat (2 * i + 1) :: u16)
      = push_bit 8 (word_of_nat (2 * i)) XOR push_bit 8 (word_of_nat 1)"
    by (simp add: push_bit_xor)
  then have "crc_entry (2 * i + 1) = crc_entry (2 * i) XOR crc_entry 1"
    by (simp only: crc_bits_xor)
  then show ?thesis
    using crc_entry_double [OF i] crc_entry_one by simp
qed

lemma upt_double: "[0..<2 * n] = concat (map (\<lambda>i. [2 * i, 2 * i + 1]) [0..<n])"
  by (induction n) simp_all

lemma crc_layer_entries: "k \<le> 8 \<Longrightarrow> crc_layer k = map crc_entry [0..<2 ^ k]"
proof (induction k)
  case 0
  show ?case by (simp only: crc_layer.simps crc_bits_8) (simp add: crc_bit_def)
next
  case (Suc k)
  then have k: "(2::nat) ^ k \<le> 128"
    using power_increasing [of k 7 "2::nat"] by simp
  have "map crc_entry [0..<2 ^ Suc k]
      = concat (map (\<lambda>i. [crc_entry (2 * i), crc_entry (2 * i + 1)]) [0..<2 ^ k])"
    by (simp only: power_Suc upt_double map_concat map_map o_def list.map)
  also have "\<dots> = concat (map (\<lambda>i. [crc_bit (crc_entry i), crc_bit (crc_entry i) XOR 0x1021])
      [0..<2 ^ k])"
    using k by (intro arg_cong [of _ _ concat] map_cong)
      (auto simp only: crc_entry_double crc_entry_odd set_upt atLeastLessThan_iff)
  finally show ?case
    using Suc by (simp add: o_def)
qed

lemma crc16_table_layer: "osdp_crc16_table = crc_layer 8"
  by (simp add: crc_layer_numeral crc_bit_def osdp_crc16_table_def)

lemma crc16_table_entry: "i < 256 \<Longrightarrow> osdp_crc16_table ! i = crc_entry i"
  using crc_layer_entries [of 8] by (simp add: crc16_table_layer)

text \<open>The table-driven step equals the bit-by-bit division, so the checks of the two agree on
  every message.\<close>

lemma crc16_step_eq_crc_byte: "crc16_step crc d = crc_byte crc d"
proof -
  define idx :: byte where "idx = ucast (drop_bit 8 crc XOR ucast d)"
  define low where "low = take_bit 8 crc"
  have split: "crc XOR push_bit 8 (ucast d) = push_bit 8 (ucast idx) XOR low"
    by (rule bit_word_eqI) (auto simp: idx_def low_def bit_simps)
  have "(crc_bit ^^ 8) low = push_bit 8 low"
    by (rule crc_bits_low) (auto simp: low_def bit_simps)
  moreover have "push_bit 8 low = push_bit 8 crc"
    by (rule bit_word_eqI) (auto simp: low_def bit_simps)
  moreover have "osdp_crc16_table ! unat idx = (crc_bit ^^ 8) (push_bit 8 (ucast idx))"
    by (simp add: crc16_table_entry)
  ultimately show ?thesis
    by (simp add: crc16_step_def crc_byte_def split crc_bits_xor idx_def Let_def xor.commute)
qed

lemma osdp_crc16_loop_eq_fold: "osdp_crc16_loop crc data = fold (\<lambda>d c. crc_byte c d) data crc"
  by (induction data arbitrary: crc) (simp_all add: crc16_step_eq_crc_byte)

lemma osdp_crc16_loop_append:
  "osdp_crc16_loop crc (xs @ ys) = osdp_crc16_loop (osdp_crc16_loop crc xs) ys"
  by (induction xs arbitrary: crc) simp_all

section \<open>Detection of a corrupted byte\<close>

lemma crc_bit_inj: "crc_bit x = crc_bit y \<Longrightarrow> x = y"
proof (rule bit_word_eqI)
  fix n assume eq: "crc_bit x = crc_bit y" and n: "n < LENGTH(16)"
  have low: "bit (crc_bit r) 0 = bit r 15" for r
    by (simp add: crc_bit_def bit_simps bit_0 even_xor_iff)
  have shift: "bit (crc_bit r) (Suc i) = (bit r i \<noteq> (bit r 15 \<and> bit (0x1021 :: u16) (Suc i)))"
    if "i < 15" for r i
  proof -
    have "bit (push_bit 1 r) (Suc i) = bit r i"
      using that by (simp only: bit_push_bit_iff) (simp add: bit_simps)
    then show ?thesis
      by (simp only: crc_bit_def bit_xor_iff) simp
  qed
  show "bit x n = bit y n"
    using low [of x] low [of y] shift [of n x] shift [of n y] eq n
    by (cases "n = 15") auto
qed

lemma crc_bits_inj: "(crc_bit ^^ n) x = (crc_bit ^^ n) y \<Longrightarrow> x = y"
  by (induction n) (auto dest: crc_bit_inj)

lemma crc_byte_inj_crc: "crc_byte c d = crc_byte c' d \<Longrightarrow> c = c'"
  unfolding crc_byte_def by (drule crc_bits_inj) simp

lemma crc_byte_inj_data: "crc_byte c d = crc_byte c d' \<Longrightarrow> d = d'"
proof -
  assume "crc_byte c d = crc_byte c d'"
  then have eq: "push_bit 8 (ucast d :: u16) = push_bit 8 (ucast d')"
    unfolding crc_byte_def by (auto dest!: crc_bits_inj)
  show "d = d'"
  proof (rule bit_word_eqI)
    fix n assume "n < LENGTH(8)"
    then show "bit d n = bit d' n"
      using arg_cong [OF eq, of "\<lambda>w. bit w (n + 8)"] by (simp add: bit_simps)
  qed
qed

lemma osdp_crc16_loop_inj_crc: "osdp_crc16_loop c data = osdp_crc16_loop c' data \<Longrightarrow> c = c'"
  by (induction data arbitrary: c c')
    (auto simp: crc16_step_eq_crc_byte dest: crc_byte_inj_crc)

lemma osdp_crc16_detects_byte:
  assumes "b \<noteq> b'"
  shows "osdp_crc16_loop c (xs @ b # ys) \<noteq> osdp_crc16_loop c (xs @ b' # ys)"
  using assms
  by (auto simp: osdp_crc16_loop_append crc16_step_eq_crc_byte
      dest!: osdp_crc16_loop_inj_crc crc_byte_inj_data)

lemma osdp_checksum_detects_byte:
  assumes "b \<noteq> b'"
  shows "sum_list (xs @ b # ys) \<noteq> sum_list (xs @ b' # ys :: bytes)"
  using assms by simp

section \<open>Properties\<close>

text \<open>C40. The table-driven CRC of a buffer is the bit-serial division by the polynomial 0x1021, most
  significant bit first, from the initial value 0x1D0F: all 256 entries of the table and the
  update step are right.\<close>

theorem crc16_is_bitwise:
  "osdp_crc16 (Some data) len = fold (\<lambda>d c. crc_byte c d) (take len data) 0x1D0F"
  by (simp add: osdp_crc16_def osdp_crc16_update_def osdp_crc16_loop_eq_fold OSDP_CRC16_INIT_def)

end
