(* ===== verification/Frame.thy ===== *)
theory Frame
  imports Integrity
begin

unbundle bit_operations_syntax

text \<open>
  Framing: \<^verbatim>\<open>core/include/osdp/osdp_frame.h\<close> and \<^verbatim>\<open>core/src/shared/frame.c\<close>. The record
  \<open>osdp_frame\<close> is the decoded frame; \<open>osdp_frame_decode\<close> and \<open>osdp_frame_build\<close> are the two
  directions of the codec, and \<open>osdp_frame_max_payload\<close> and \<open>osdp_frame_payload_offset\<close> the
  two sizing questions a sender asks. The lemmas show that the two directions are inverse to
  each other, that the decoder reads no byte outside the frame it was given, that the builder
  never writes past its buffer, and that the sizing answers are exact.
\<close>

section \<open>Constants\<close>

abbreviation (input) OSDP_SOM :: byte where "OSDP_SOM \<equiv> 0x53"
abbreviation (input) OSDP_CONFIG_ADDR :: byte where "OSDP_CONFIG_ADDR \<equiv> 0x7F"
abbreviation (input) OSDP_BROADCAST_ADDR :: byte where "OSDP_BROADCAST_ADDR \<equiv> OSDP_CONFIG_ADDR"
abbreviation (input) OSDP_REPLY_FLAG :: byte where "OSDP_REPLY_FLAG \<equiv> 0x80"
abbreviation (input) OSDP_ADDR_MASK :: byte where "OSDP_ADDR_MASK \<equiv> 0x7F"
abbreviation (input) OSDP_CTRL_SQN_MASK :: byte where "OSDP_CTRL_SQN_MASK \<equiv> 0x03"
abbreviation (input) OSDP_CTRL_USE_CRC :: byte where "OSDP_CTRL_USE_CRC \<equiv> 0x04"
abbreviation (input) OSDP_CTRL_SCB :: byte where "OSDP_CTRL_SCB \<equiv> 0x08"
abbreviation (input) OSDP_CTRL_RESERVED :: byte where "OSDP_CTRL_RESERVED \<equiv> 0xF0"
abbreviation (input) OSDP_FRAME_HEADER_LEN :: nat where "OSDP_FRAME_HEADER_LEN \<equiv> 5"
abbreviation (input) OSDP_FRAME_MIN_LEN_CKSUM :: nat where "OSDP_FRAME_MIN_LEN_CKSUM \<equiv> 7"
abbreviation (input) OSDP_FRAME_MIN_LEN_CRC :: nat where "OSDP_FRAME_MIN_LEN_CRC \<equiv> 8"
abbreviation (input) OSDP_FRAME_MAX_LEN :: nat where "OSDP_FRAME_MAX_LEN \<equiv> 1440"
abbreviation (input) OSDP_FRAME_MARK :: byte where "OSDP_FRAME_MARK \<equiv> 0xFF"
abbreviation (input) OSDP_FRAME_MARK_LEN :: nat where "OSDP_FRAME_MARK_LEN \<equiv> 1"
abbreviation (input) OSDP_SCB_MIN_LEN :: nat where "OSDP_SCB_MIN_LEN \<equiv> 2"
abbreviation (input) OSDP_FRAME_MAC_LEN :: nat where "OSDP_FRAME_MAC_LEN \<equiv> 4"
abbreviation (input) OSDP_FRAME_MAC_LEN_SC2 :: nat where "OSDP_FRAME_MAC_LEN_SC2 \<equiv> 16"

abbreviation (input) OSDP_SCS_11 :: byte where "OSDP_SCS_11 \<equiv> 0x11"
abbreviation (input) OSDP_SCS_12 :: byte where "OSDP_SCS_12 \<equiv> 0x12"
abbreviation (input) OSDP_SCS_13 :: byte where "OSDP_SCS_13 \<equiv> 0x13"
abbreviation (input) OSDP_SCS_14 :: byte where "OSDP_SCS_14 \<equiv> 0x14"
abbreviation (input) OSDP_SCS_15 :: byte where "OSDP_SCS_15 \<equiv> 0x15"
abbreviation (input) OSDP_SCS_16 :: byte where "OSDP_SCS_16 \<equiv> 0x16"
abbreviation (input) OSDP_SCS_17 :: byte where "OSDP_SCS_17 \<equiv> 0x17"
abbreviation (input) OSDP_SCS_18 :: byte where "OSDP_SCS_18 \<equiv> 0x18"
abbreviation (input) OSDP_SCS_25 :: byte where "OSDP_SCS_25 \<equiv> 0x25"
abbreviation (input) OSDP_SCS_27 :: byte where "OSDP_SCS_27 \<equiv> 0x27"
abbreviation (input) OSDP_SCS_28 :: byte where "OSDP_SCS_28 \<equiv> 0x28"

definition osdp_scb_mac_len :: "byte \<Rightarrow> nat" where
  "osdp_scb_mac_len scb_type =
     (if scb_type \<ge> OSDP_SCS_15 \<and> scb_type \<le> OSDP_SCS_18 then OSDP_FRAME_MAC_LEN
      else if scb_type \<ge> OSDP_SCS_25 \<and> scb_type \<le> OSDP_SCS_28 then OSDP_FRAME_MAC_LEN_SC2
      else 0)"

definition osdp_scb_has_mac :: "byte \<Rightarrow> bool" where
  "osdp_scb_has_mac scb_type \<longleftrightarrow> osdp_scb_mac_len scb_type \<noteq> 0"

definition osdp_scb_is_encrypted :: "byte \<Rightarrow> bool" where
  "osdp_scb_is_encrypted scb_type \<longleftrightarrow>
     scb_type = OSDP_SCS_17 \<or> scb_type = OSDP_SCS_18 \<or>
     scb_type = OSDP_SCS_27 \<or> scb_type = OSDP_SCS_28"

section \<open>The frame\<close>

datatype osdp_integrity = OSDP_INTEGRITY_CHECKSUM | OSDP_INTEGRITY_CRC

record osdp_frame =
  fr_address :: byte
  fr_reply :: bool
  fr_sequence :: byte
  fr_integrity :: osdp_integrity
  fr_has_scb :: bool
  fr_scb_length :: byte
  fr_scb_type :: byte
  fr_scb_data :: bytes_ptr
  fr_scb_data_len :: nat
  fr_code :: byte
  fr_payload :: bytes_ptr
  fr_payload_len :: nat
  fr_mac :: bytes_ptr
  fr_mac_len :: nat
  fr_raw :: bytes_ptr
  fr_raw_len :: nat

text \<open>The frame after \<open>memset(&f, 0, sizeof f)\<close>, with which every sender starts.\<close>

definition zero_frame :: osdp_frame where
  "zero_frame = \<lparr>fr_address = 0, fr_reply = False, fr_sequence = 0,
     fr_integrity = OSDP_INTEGRITY_CHECKSUM, fr_has_scb = False, fr_scb_length = 0,
     fr_scb_type = 0, fr_scb_data = None, fr_scb_data_len = 0, fr_code = 0,
     fr_payload = None, fr_payload_len = 0, fr_mac = None, fr_mac_len = 0,
     fr_raw = None, fr_raw_len = 0\<rparr>"

definition integrity_size :: "osdp_integrity \<Rightarrow> nat" where
  "integrity_size i = (if i = OSDP_INTEGRITY_CRC then 2 else 1)"

section \<open>Decoder\<close>

text \<open>The optional security control block: its position is fixed, right behind the header. The
  result is the advanced cursor and the four SCB fields.\<close>

definition decode_scb ::
  "bytes \<Rightarrow> nat \<Rightarrow> nat \<Rightarrow> bool \<Rightarrow> (nat \<times> byte \<times> byte \<times> bytes_ptr \<times> nat) result" where
  "decode_scb buf len isize has_scb =
     (let cursor = OSDP_FRAME_HEADER_LEN in
      if has_scb then
        if cursor + OSDP_SCB_MIN_LEN > len then Inl OSDP_ERR_TRUNCATED
        else
          let scb_length = buf ! cursor; scb_type = buf ! (cursor + 1) in
          if unat scb_length < OSDP_SCB_MIN_LEN then Inl OSDP_ERR_BAD_LENGTH
          else if cursor + unat scb_length + 1 + isize > len then Inl OSDP_ERR_BAD_LENGTH
          else
            let scb_data_len = unat scb_length - OSDP_SCB_MIN_LEN;
                scb_data = (if scb_data_len > 0
                  then Some (take scb_data_len (drop (cursor + OSDP_SCB_MIN_LEN) buf)) else None)
            in Inr (cursor + unat scb_length, scb_length, scb_type, scb_data, scb_data_len)
      else Inr (cursor, 0, 0, None, 0))"

text \<open>The bytes between the code byte and the check characters, split into payload and MAC.\<close>

definition decode_payload ::
  "bytes \<Rightarrow> nat \<Rightarrow> nat \<Rightarrow> bool \<Rightarrow> byte \<Rightarrow> (bytes_ptr \<times> nat \<times> bytes_ptr \<times> nat) result" where
  "decode_payload buf payload_start payload_end has_scb scb_type =
     (if payload_end < payload_start then Inl OSDP_ERR_TRUNCATED
      else
        let payload_len = payload_end - payload_start;
            tag = (if has_scb then osdp_scb_mac_len scb_type else 0)
        in if tag > 0 \<and> payload_len < tag then Inl OSDP_ERR_BAD_PAYLOAD
           else
             let mac = (if tag > 0 then Some (take tag (drop (payload_end - tag) buf)) else None);
                 plen = payload_len - tag;
                 payload = (if plen > 0 then Some (take plen (drop payload_start buf)) else None)
             in Inr (payload, plen, mac, tag))"

definition decode_identity ::
  "byte \<Rightarrow> byte \<Rightarrow> bytes \<Rightarrow> nat \<Rightarrow> osdp_frame \<Rightarrow> osdp_frame" where
  "decode_identity addr_byte ctrl buf len out =
     out\<lparr>fr_address := addr_byte AND OSDP_ADDR_MASK,
         fr_reply := addr_byte AND OSDP_REPLY_FLAG \<noteq> 0,
         fr_sequence := ctrl AND OSDP_CTRL_SQN_MASK,
         fr_integrity := (if ctrl AND OSDP_CTRL_USE_CRC \<noteq> 0
            then OSDP_INTEGRITY_CRC else OSDP_INTEGRITY_CHECKSUM),
         fr_raw := Some (take len buf),
         fr_raw_len := len\<rparr>"

definition decode_check :: "bytes \<Rightarrow> nat \<Rightarrow> bool \<Rightarrow> osdp_status" where
  "decode_check buf payload_end use_crc =
     (if use_crc then
        if osdp_pack_read_u16le (drop payload_end buf) \<noteq> osdp_crc16 (Some buf) payload_end
        then OSDP_ERR_BAD_CRC else OSDP_OK
      else if buf ! payload_end \<noteq> osdp_checksum (Some buf) payload_end
        then OSDP_ERR_BAD_CHECKSUM else OSDP_OK)"

definition frame_decode_bytes ::
  "bytes \<Rightarrow> nat \<Rightarrow> osdp_frame \<Rightarrow> osdp_status \<times> osdp_frame" where
  "frame_decode_bytes buf len out =
    (if len < OSDP_FRAME_MIN_LEN_CKSUM then (OSDP_ERR_TRUNCATED, out)
     else if buf ! 0 \<noteq> OSDP_SOM then (OSDP_ERR_BAD_SOM, out)
     else
       let addr_byte = buf ! 1;
           len_field = osdp_pack_read_u16le (drop 2 buf)
       in
       if unat len_field \<noteq> len then (OSDP_ERR_BAD_LENGTH, out)
       else if unat len_field > OSDP_FRAME_MAX_LEN then (OSDP_ERR_BAD_LENGTH, out)
       else
         let ctrl = buf ! 4 in
         if ctrl AND OSDP_CTRL_RESERVED \<noteq> 0 then (OSDP_ERR_BAD_CTRL, out)
         else
           let use_crc = (ctrl AND OSDP_CTRL_USE_CRC \<noteq> 0);
               has_scb = (ctrl AND OSDP_CTRL_SCB \<noteq> 0);
               isize = (if use_crc then 2 else 1);
               min_required = (if use_crc then OSDP_FRAME_MIN_LEN_CRC
                               else OSDP_FRAME_MIN_LEN_CKSUM)
           in
           if len < min_required then (OSDP_ERR_TRUNCATED, out)
           else
             case decode_scb buf len isize has_scb of
               Inl e \<Rightarrow> (e, out)
             | Inr (cursor, scb_length, scb_type, scb_data, scb_data_len) \<Rightarrow>
                 if cursor + 1 + isize > len then (OSDP_ERR_TRUNCATED, out)
                 else
                   let code = buf ! cursor;
                       payload_start = cursor + 1;
                       payload_end = len - isize
                   in
                   (case decode_payload buf payload_start payload_end has_scb scb_type of
                      Inl e \<Rightarrow> (e, out)
                    | Inr (payload, payload_len, mac, mac_len) \<Rightarrow>
                        let ident = decode_identity addr_byte ctrl buf len out;
                            check = decode_check buf payload_end use_crc
                        in
                        if check \<noteq> OSDP_OK then (check, ident)
                        else
                          (OSDP_OK,
                           ident\<lparr>fr_has_scb := has_scb,
                                 fr_scb_length := scb_length,
                                 fr_scb_type := scb_type,
                                 fr_scb_data := scb_data,
                                 fr_scb_data_len := scb_data_len,
                                 fr_code := code,
                                 fr_payload := payload,
                                 fr_payload_len := payload_len,
                                 fr_mac := mac,
                                 fr_mac_len := mac_len\<rparr>)))"

definition osdp_frame_decode ::
  "bytes_ptr \<Rightarrow> nat \<Rightarrow> osdp_frame \<Rightarrow> osdp_status \<times> osdp_frame" where
  "osdp_frame_decode buf len out =
     (case buf of
        None \<Rightarrow> (OSDP_ERR_INVALID_ARG, out)
      | Some b \<Rightarrow> frame_decode_bytes b len out)"

section \<open>Builder\<close>

definition frame_scb_total :: "osdp_frame \<Rightarrow> nat result" where
  "frame_scb_total f =
     (if \<not> fr_has_scb f then Inr 0
      else if unat (fr_scb_length f) < OSDP_SCB_MIN_LEN then Inl OSDP_ERR_INVALID_ARG
      else
        let expected_data_len = unat (fr_scb_length f) - OSDP_SCB_MIN_LEN in
        if fr_scb_data_len f \<noteq> expected_data_len then Inl OSDP_ERR_INVALID_ARG
        else if fr_scb_data_len f > 0 \<and> fr_scb_data f = None then Inl OSDP_ERR_INVALID_ARG
        else Inr (unat (fr_scb_length f)))"

definition frame_overhead :: "osdp_frame \<Rightarrow> (nat \<times> nat) result" where
  "frame_overhead f =
     (case frame_scb_total f of
        Inl s \<Rightarrow> Inl s
      | Inr scb_total \<Rightarrow>
          let mac_total = (if fr_has_scb f then osdp_scb_mac_len (fr_scb_type f) else 0);
              isize = integrity_size (fr_integrity f);
              frame_only = OSDP_FRAME_HEADER_LEN + scb_total + 1 + mac_total + isize
          in Inr (OSDP_FRAME_MARK_LEN + frame_only, frame_only))"

definition osdp_frame_max_payload :: "osdp_frame \<Rightarrow> nat \<Rightarrow> nat result" where
  "osdp_frame_max_payload shape buf_cap =
     (case frame_overhead shape of
        Inl s \<Rightarrow> Inl s
      | Inr (overhead, frame_overhead_only) \<Rightarrow>
          if buf_cap \<le> overhead then Inr 0
          else
            let cap_max = buf_cap - overhead in
            if frame_overhead_only < OSDP_FRAME_MAX_LEN then
              let spec_max = OSDP_FRAME_MAX_LEN - frame_overhead_only in
              Inr (if spec_max < cap_max then spec_max else cap_max)
            else Inr 0)"

definition osdp_frame_payload_offset :: "osdp_frame \<Rightarrow> nat result" where
  "osdp_frame_payload_offset f =
     (case frame_scb_total f of
        Inl s \<Rightarrow> Inl s
      | Inr scb_total \<Rightarrow> Inr (OSDP_FRAME_MARK_LEN + OSDP_FRAME_HEADER_LEN + scb_total + 1))"

text \<open>The bytes from the SOM up to the check characters, in the order the code writes them.\<close>

definition build_body :: "osdp_frame \<Rightarrow> nat \<Rightarrow> nat \<Rightarrow> bytes" where
  "build_body f tot mac_total =
     [OSDP_SOM,
      (fr_address f AND OSDP_ADDR_MASK) OR (if fr_reply f then OSDP_REPLY_FLAG else 0),
      word_of_nat (tot AND 0xFF),
      word_of_nat (drop_bit 8 tot AND 0xFF),
      (fr_sequence f AND OSDP_CTRL_SQN_MASK)
        OR (if fr_integrity f = OSDP_INTEGRITY_CRC then OSDP_CTRL_USE_CRC else 0)
        OR (if fr_has_scb f then OSDP_CTRL_SCB else 0)]
     @ (if fr_has_scb f then
          [fr_scb_length f, fr_scb_type f]
          @ (if fr_scb_data_len f > 0 then take (fr_scb_data_len f) (the (fr_scb_data f)) else [])
        else [])
     @ [fr_code f]
     @ (if fr_payload_len f > 0 then take (fr_payload_len f) (the (fr_payload f)) else [])
     @ (if mac_total > 0 then take mac_total (the (fr_mac f)) else [])"

definition check_bytes :: "osdp_integrity \<Rightarrow> bytes \<Rightarrow> bytes" where
  "check_bytes i body =
     (if i = OSDP_INTEGRITY_CRC then
        let crc = osdp_crc16 (Some body) (length body)
        in [ucast (crc AND 0xFF), ucast (drop_bit 8 crc AND 0xFF)]
      else [osdp_checksum (Some body) (length body)])"

definition osdp_frame_build :: "osdp_frame \<Rightarrow> nat \<Rightarrow> bytes result" where
  "osdp_frame_build f buf_cap =
     (if fr_address f > OSDP_BROADCAST_ADDR then Inl OSDP_ERR_INVALID_ARG
      else if fr_sequence f > OSDP_CTRL_SQN_MASK then Inl OSDP_ERR_INVALID_ARG
      else if fr_integrity f \<noteq> OSDP_INTEGRITY_CHECKSUM \<and> fr_integrity f \<noteq> OSDP_INTEGRITY_CRC
        then Inl OSDP_ERR_INVALID_ARG
      else case frame_scb_total f of
        Inl s \<Rightarrow> Inl s
      | Inr scb_total \<Rightarrow>
          if fr_payload_len f > 0 \<and> fr_payload f = None then Inl OSDP_ERR_INVALID_ARG
          else
            let mac_needed = (if fr_has_scb f then osdp_scb_mac_len (fr_scb_type f) else 0) in
            if mac_needed > 0 \<and> (fr_mac_len f \<noteq> mac_needed \<or> fr_mac f = None)
              then Inl OSDP_ERR_INVALID_ARG
            else if mac_needed = 0 \<and> fr_mac_len f \<noteq> 0 then Inl OSDP_ERR_INVALID_ARG
            else
              let isize = integrity_size (fr_integrity f);
                  tot = OSDP_FRAME_HEADER_LEN + scb_total + 1 + fr_payload_len f
                            + mac_needed + isize
              in
              if tot > OSDP_FRAME_MAX_LEN then Inl OSDP_ERR_INVALID_ARG
              else if OSDP_FRAME_MARK_LEN + tot > buf_cap then Inl OSDP_ERR_BUFFER_TOO_SMALL
              else
                let body = build_body f tot mac_needed
                in Inr (OSDP_FRAME_MARK # body @ check_bytes (fr_integrity f) body))"

section \<open>Header bytes\<close>

lemma less_8_cases: "n < (8 :: nat) \<Longrightarrow> n \<in> {0, 1, 2, 3, 4, 5, 6, 7}"
  by auto

lemma byte_eqI:
  "(\<And>n. n \<in> {0, 1, 2, 3, 4, 5, 6, 7} \<Longrightarrow> bit a n = bit b n) \<Longrightarrow> a = (b :: byte)"
proof (rule bit_word_eqI)
  fix n assume *: "\<And>n. n \<in> {0, 1, 2, 3, 4, 5, 6, 7} \<Longrightarrow> bit a n = bit b n" and "n < LENGTH(8)"
  from this(2) have "n < 8" by simp
  then show "bit a n = bit b n" by (intro * less_8_cases)
qed

lemma byte_le_mask7: "a \<le> 0x7F \<Longrightarrow> a AND 0x7F = a" for a :: byte
proof -
  assume "a \<le> 0x7F"
  then have "unat a < 2 ^ 7"
    by (simp add: word_le_nat_alt)
  then have "take_bit 7 (unat a) = unat a"
    by (simp only: take_bit_nat_eq_self_iff)
  then have "take_bit 7 a = a"
    by (metis unsigned_take_bit_eq unsigned_word_eqI)
  then show ?thesis
    by (simp add: take_bit_eq_mask mask_eq_exp_minus_1)
qed

lemma addr_byte_address:
  "a \<le> 0x7F \<Longrightarrow> (a AND 0x7F OR (if r then 0x80 else 0)) AND 0x7F = a" for a :: byte
  by (auto simp: bit_simps byte_le_mask7 bit.conj_disj_distrib2)

lemma addr_byte_reply:
  "(a AND 0x7F OR (if r then 0x80 else 0)) AND 0x80 \<noteq> 0 \<longleftrightarrow> r" for a :: byte
proof -
  have "(a AND 0x7F) AND 0x80 = 0"
    by (simp add: and.assoc)
  then show ?thesis
    by (auto simp: bit.conj_disj_distrib2)
qed

lemma addr_byte_join:
  "(b AND 0x7F) AND 0x7F OR (if b AND 0x80 \<noteq> 0 then 0x80 else 0) = b" for b :: byte
proof -
  have "b AND 0x80 = (if bit b 7 then 0x80 else 0)"
    by (rule byte_eqI) (auto simp: bit_and_iff)
  then show ?thesis
    by (intro byte_eqI) (auto simp: bit_and_iff bit_or_iff)
qed

lemma seq_le_3_cases: "s \<le> 3 \<Longrightarrow> s \<in> {0, 1, 2, 3}" for s :: byte
  by (auto simp: word_le_nat_alt word_unat_eq_iff)

definition ctrl_byte :: "byte \<Rightarrow> bool \<Rightarrow> bool \<Rightarrow> byte" where
  "ctrl_byte s crc scb = (s AND 3) OR (if crc then 4 else 0) OR (if scb then 8 else 0)"

lemma ctrl_byte_fields:
  assumes "s \<le> 3"
  shows "ctrl_byte s crc scb AND 0xF0 = 0" "ctrl_byte s crc scb AND 3 = s"
    "ctrl_byte s crc scb AND 4 \<noteq> 0 \<longleftrightarrow> crc" "ctrl_byte s crc scb AND 8 \<noteq> 0 \<longleftrightarrow> scb"
  using seq_le_3_cases [OF assms] by (auto simp: ctrl_byte_def)

lemma ctrl_byte_join:
  assumes "c AND 0xF0 = 0"
  shows "ctrl_byte (c AND 3) (c AND 4 \<noteq> 0) (c AND 8 \<noteq> 0) = c" and "c AND 3 \<le> 3"
proof -
  have hi: "\<not> bit c 4" "\<not> bit c 5" "\<not> bit c 6" "\<not> bit c 7"
    using arg_cong [OF assms, of "\<lambda>w. bit w 4"] arg_cong [OF assms, of "\<lambda>w. bit w 5"]
      arg_cong [OF assms, of "\<lambda>w. bit w 6"] arg_cong [OF assms, of "\<lambda>w. bit w 7"]
    by (simp_all add: bit_and_iff)
  have m: "c AND 4 = (if bit c 2 then 4 else 0)" "c AND 8 = (if bit c 3 then 8 else 0)"
    by (rule byte_eqI; auto simp: bit_and_iff)+
  show "ctrl_byte (c AND 3) (c AND 4 \<noteq> 0) (c AND 8 \<noteq> 0) = c"
    unfolding m ctrl_byte_def by (rule byte_eqI) (use hi in \<open>auto simp: bit_and_iff bit_or_iff\<close>)
  show "c AND 3 \<le> 3"
    by (rule word_and_le1)
qed

section \<open>The layout of a frame\<close>

text \<open>A frame as the concatenation of its fields, and the frame structure that describes it.\<close>

definition frame_body :: "byte \<Rightarrow> nat \<Rightarrow> byte \<Rightarrow> bytes \<Rightarrow> byte \<Rightarrow> bytes \<Rightarrow> bytes \<Rightarrow> bytes" where
  "frame_body addr tot ctrl scb code payload mac =
     OSDP_SOM # addr # osdp_pack_write_u16le (word_of_nat tot) @ ctrl # scb @ code # payload @ mac"

definition ptr_of :: "bytes \<Rightarrow> bytes_ptr" where
  "ptr_of bs = (if bs = [] then None else Some bs)"

lemma len_field_bytes:
  "[word_of_nat (n AND 0xFF), word_of_nat (drop_bit 8 n AND 0xFF)]
     = osdp_pack_write_u16le (word_of_nat n)"
proof -
  have "(word_of_nat (n AND 0xFF) :: byte) = ucast (word_of_nat n :: u16)"
    by (rule byte_eqI) (auto simp: bit_of_nat_iff bit_ucast_iff bit_and_iff bit_0)
  moreover have "(word_of_nat (drop_bit 8 n AND 0xFF) :: byte) = ucast (drop_bit 8 (word_of_nat n :: u16))"
    by (rule byte_eqI)
      (auto simp: bit_of_nat_iff bit_ucast_iff bit_and_iff bit_drop_bit_eq bit_0)
  ultimately show ?thesis
    by (simp add: osdp_pack_write_u16le_def)
qed

lemma unat_of_nat_u16: "n < 65536 \<Longrightarrow> unat (word_of_nat n :: u16) = n"
  by (simp add: unsigned_of_nat take_bit_nat_eq_self_iff)

lemma length_frame_body [simp]:
  "length (frame_body addr tot ctrl scb code payload mac)
     = 6 + length scb + length payload + length mac"
  by (simp add: frame_body_def)

lemma frame_body_nth:
  "frame_body addr tot ctrl scb code payload mac ! 0 = OSDP_SOM"
  "frame_body addr tot ctrl scb code payload mac ! 1 = addr"
  "frame_body addr tot ctrl scb code payload mac ! 4 = ctrl"
  "frame_body addr tot ctrl scb code payload mac ! (5 + length scb) = code"
  "i < length scb \<Longrightarrow> frame_body addr tot ctrl scb code payload mac ! (5 + i) = scb ! i"
  by (simp_all add: frame_body_def nth_append nth_Cons' osdp_pack_write_u16le_def)

lemma frame_body_drop:
  "drop (5 + k) (frame_body addr tot ctrl scb code payload mac @ rest)
     = drop k (scb @ code # payload @ mac @ rest)"
  by (simp add: frame_body_def osdp_pack_write_u16le_def eval_nat_numeral)

lemma frame_body_len_field:
  "osdp_pack_read_u16le (drop 2 (frame_body addr tot ctrl scb code payload mac @ rest))
     = word_of_nat tot"
  by (simp add: frame_body_def)

lemma check_bytes_crc:
  "check_bytes OSDP_INTEGRITY_CRC body = osdp_pack_write_u16le (osdp_crc16 (Some body) (length body))"
  by (simp add: check_bytes_def osdp_pack_write_u16le_def Let_def)

lemma check_bytes_cksum: "check_bytes OSDP_INTEGRITY_CHECKSUM body = [- sum_list body]"
  by (simp add: check_bytes_def osdp_checksum_eq)

lemma decode_check_append:
  assumes "length chk = (if use_crc then 2 else 1)"
  shows "decode_check (body @ chk) (length body) use_crc =
    (if chk = check_bytes (if use_crc then OSDP_INTEGRITY_CRC else OSDP_INTEGRITY_CHECKSUM) body
     then OSDP_OK else if use_crc then OSDP_ERR_BAD_CRC else OSDP_ERR_BAD_CHECKSUM)"
proof (cases use_crc)
  case True
  then obtain a b where [simp]: "chk = [a, b]"
    using assms by (auto simp: length_Suc_conv eval_nat_numeral)
  have "[a, b] = osdp_pack_write_u16le crc \<longleftrightarrow> osdp_pack_read_u16le [a, b] = crc" for crc
    using write_read_u16le [of a b "[]"] by auto
  with True show ?thesis
    by (simp add: decode_check_def check_bytes_crc osdp_crc16_def osdp_crc16_update_def)
next
  case False
  then obtain a where [simp]: "chk = [a]"
    using assms by (auto simp: length_Suc_conv)
  from False show ?thesis
    by (simp add: decode_check_def check_bytes_def osdp_checksum_def)
qed

lemma length_check_bytes [simp]: "length (check_bytes i body) = integrity_size i"
  by (cases i) (simp_all add: check_bytes_def integrity_size_def Let_def)

text \<open>Decoding a byte list that is laid out as a frame: the decoder finds every field, and its
  verdict is whether the check characters match.\<close>

definition layout_scb :: "byte \<Rightarrow> bytes \<Rightarrow> byte \<Rightarrow> byte \<Rightarrow> bytes \<Rightarrow> bytes \<Rightarrow> bool" where
  "layout_scb ctrl scb sl st sd mac \<longleftrightarrow>
     (if ctrl AND OSDP_CTRL_SCB \<noteq> 0
      then scb = sl # st # sd \<and> unat sl = length sd + 2 \<and> length mac = osdp_scb_mac_len st
      else scb = [] \<and> mac = [] \<and> sl = 0 \<and> st = 0 \<and> sd = [])"

lemma decode_scb_layout:
  assumes "layout_scb ctrl scb sl st sd mac"
    and "length rest = isize"
    and buf_def: "buf = frame_body addr tot ctrl scb code payload mac @ rest"
  shows "decode_scb buf (length buf) isize (ctrl AND OSDP_CTRL_SCB \<noteq> 0) =
     Inr (5 + length scb, sl, st, ptr_of sd, length sd)"
proof (cases "ctrl AND OSDP_CTRL_SCB \<noteq> 0")
  case True
  with assms(1) have scb: "scb = sl # st # sd" "unat sl = length sd + 2"
    by (simp_all add: layout_scb_def)
  have nth: "buf ! 5 = sl" "buf ! 6 = st"
    using frame_body_nth(5) [of 0 scb addr tot ctrl code payload mac]
      frame_body_nth(5) [of 1 scb addr tot ctrl code payload mac]
    by (simp_all add: buf_def scb nth_append)
  have "drop 7 buf = sd @ code # payload @ mac @ rest"
    using frame_body_drop [of 2 addr tot ctrl scb code payload mac rest]
    by (simp add: buf_def scb)
  then show ?thesis
    using True assms(2) scb nth
    by (simp add: decode_scb_def Let_def ptr_of_def) (simp add: buf_def scb)
next
  case False
  then show ?thesis
    using assms(1) by (simp add: layout_scb_def decode_scb_def ptr_of_def)
qed

lemma decode_payload_layout:
  assumes "layout_scb ctrl scb sl st sd mac"
    and body_def: "body = frame_body addr tot ctrl scb code payload mac"
  shows "decode_payload (body @ rest) (6 + length scb) (length body) (ctrl AND OSDP_CTRL_SCB \<noteq> 0) st =
     Inr (ptr_of payload, length payload, ptr_of mac, length mac)"
proof -
  have p: "drop (6 + length scb) (body @ rest) = payload @ mac @ rest"
    using frame_body_drop [of "1 + length scb" addr tot ctrl scb code payload mac rest]
    by (simp add: body_def)
  then have m: "drop (6 + length scb + length payload) (body @ rest) = mac @ rest"
    by (metis add.commute append_eq_conv_conj drop_drop)
  have tag: "(if ctrl AND OSDP_CTRL_SCB \<noteq> 0 then osdp_scb_mac_len st else 0) = length mac"
    using assms(1) by (auto simp: layout_scb_def split: if_splits)
  have len: "length body = 6 + length scb + length payload + length mac"
    by (simp add: body_def)
  show ?thesis
    unfolding decode_payload_def tag len by (simp add: Let_def ptr_of_def p m del: drop_append)
qed

lemma frame_decode_layout:
  assumes scb: "layout_scb ctrl scb sl st sd mac"
    and ctrl: "ctrl AND OSDP_CTRL_RESERVED = 0"
    and i: "i = (if ctrl AND OSDP_CTRL_USE_CRC \<noteq> 0 then OSDP_INTEGRITY_CRC else OSDP_INTEGRITY_CHECKSUM)"
    and chk: "length chk = integrity_size i"
    and body: "body = frame_body addr tot ctrl scb code payload mac"
    and tot: "tot = length body + length chk" "tot \<le> OSDP_FRAME_MAX_LEN"
  shows "frame_decode_bytes (body @ chk) tot out =
    (if chk = check_bytes i body
     then (OSDP_OK, (decode_identity addr ctrl (body @ chk) tot out)
            \<lparr>fr_has_scb := ctrl AND OSDP_CTRL_SCB \<noteq> 0, fr_scb_length := sl, fr_scb_type := st,
             fr_scb_data := ptr_of sd, fr_scb_data_len := length sd, fr_code := code,
             fr_payload := ptr_of payload, fr_payload_len := length payload,
             fr_mac := ptr_of mac, fr_mac_len := length mac\<rparr>)
     else (if i = OSDP_INTEGRITY_CRC then OSDP_ERR_BAD_CRC else OSDP_ERR_BAD_CHECKSUM,
           decode_identity addr ctrl (body @ chk) tot out))"
proof -
  let ?crc = "ctrl AND OSDP_CTRL_USE_CRC \<noteq> 0"
  have isize: "(if ?crc then 2 else 1) = length chk"
    using chk i by (simp add: integrity_size_def)
  have len: "length body = 6 + length scb + length payload + length mac"
    by (simp add: body)
  have nth: "(body @ chk) ! 0 = OSDP_SOM" "(body @ chk) ! 1 = addr" "(body @ chk) ! 4 = ctrl"
    "(body @ chk) ! (5 + length scb) = code"
    using frame_body_nth(1-4) [of addr tot ctrl scb code payload mac]
    by (simp_all add: body [symmetric] len nth_append del: One_nat_def)
  have lf: "unat (osdp_pack_read_u16le (drop 2 (body @ chk))) = tot"
    unfolding body frame_body_len_field using tot(2) by (simp add: unat_of_nat_u16)
  have min: "\<not> tot < 7" "\<not> tot < (if ?crc then 8 else 7)"
    using tot(1) isize by (auto simp: len split: if_splits)
  have bc: "body @ chk = frame_body addr tot ctrl scb code payload mac @ chk"
    by (simp only: body)
  have bl: "length (body @ chk) = tot"
    by (simp only: tot(1) length_append)
  have dscb: "decode_scb (body @ chk) tot (length chk) (ctrl AND OSDP_CTRL_SCB \<noteq> 0) =
     Inr (5 + length scb, sl, st, ptr_of sd, length sd)"
    using decode_scb_layout [OF scb refl bc] unfolding bl .
  have dpay: "decode_payload (body @ chk) (5 + length scb + 1) (tot - length chk)
      (ctrl AND OSDP_CTRL_SCB \<noteq> 0) st =
     Inr (ptr_of payload, length payload, ptr_of mac, length mac)"
    using decode_payload_layout [OF scb body, of chk] tot(1) by (simp add: add.commute)
  have dchk: "decode_check (body @ chk) (tot - length chk) ?crc =
     (if chk = check_bytes i body then OSDP_OK
      else if i = OSDP_INTEGRITY_CRC then OSDP_ERR_BAD_CRC else OSDP_ERR_BAD_CHECKSUM)"
    using decode_check_append [of chk ?crc body] isize tot(1) i by simp
  have fits: "\<not> tot > 1440" "\<not> 5 + length scb + 1 + length chk > tot"
    using tot len by simp_all
  show ?thesis
    unfolding frame_decode_bytes_def Let_def nth(1-3) isize
    by (simp only: lf dscb dpay dchk nth(4) min fits ctrl simp_thms if_False if_True sum.case prod.case)
      simp
qed

section \<open>What the builder writes\<close>

definition ptr_holds :: "bytes_ptr \<Rightarrow> nat \<Rightarrow> bool" where
  "ptr_holds p n \<longleftrightarrow> (case p of None \<Rightarrow> True | Some bs \<Rightarrow> n \<le> length bs)"

definition ptr_bytes :: "bytes_ptr \<Rightarrow> nat \<Rightarrow> bytes" where
  "ptr_bytes p n = (if n > 0 then take n (the p) else [])"

text \<open>Every pointer of the template refers to as many bytes as its length field says.\<close>

definition frame_ptrs_ok :: "osdp_frame \<Rightarrow> bool" where
  "frame_ptrs_ok f \<longleftrightarrow>
     ptr_holds (fr_scb_data f) (fr_scb_data_len f) \<and>
     ptr_holds (fr_payload f) (fr_payload_len f) \<and>
     ptr_holds (fr_mac f) (fr_mac_len f)"

text \<open>The frame a receiver sees for a template: absent fields are zero, pointers refer to exactly
  their bytes, and \<open>raw\<close> is the received slice.\<close>

definition as_received :: "osdp_frame \<Rightarrow> bytes \<Rightarrow> osdp_frame" where
  "as_received f raw = f
     \<lparr>fr_scb_length := (if fr_has_scb f then fr_scb_length f else 0),
      fr_scb_type := (if fr_has_scb f then fr_scb_type f else 0),
      fr_scb_data := (if fr_has_scb f then ptr_of (ptr_bytes (fr_scb_data f) (fr_scb_data_len f))
                      else None),
      fr_scb_data_len := (if fr_has_scb f then fr_scb_data_len f else 0),
      fr_payload := ptr_of (ptr_bytes (fr_payload f) (fr_payload_len f)),
      fr_mac := ptr_of (ptr_bytes (fr_mac f) (fr_mac_len f)),
      fr_raw := Some raw, fr_raw_len := length raw\<rparr>"

lemma length_ptr_bytes [simp]:
  "ptr_holds p n \<Longrightarrow> n > 0 \<longrightarrow> p \<noteq> None \<Longrightarrow> length (ptr_bytes p n) = n"
  by (auto simp: ptr_bytes_def ptr_holds_def)

definition frame_scb_bytes :: "osdp_frame \<Rightarrow> bytes" where
  "frame_scb_bytes f =
     (if fr_has_scb f
      then fr_scb_length f # fr_scb_type f # ptr_bytes (fr_scb_data f) (fr_scb_data_len f) else [])"

definition frame_ctrl :: "osdp_frame \<Rightarrow> byte" where
  "frame_ctrl f = ctrl_byte (fr_sequence f) (fr_integrity f = OSDP_INTEGRITY_CRC) (fr_has_scb f)"

definition frame_addr :: "osdp_frame \<Rightarrow> byte" where
  "frame_addr f = (fr_address f AND OSDP_ADDR_MASK) OR (if fr_reply f then OSDP_REPLY_FLAG else 0)"

definition frame_mac_needed :: "osdp_frame \<Rightarrow> nat" where
  "frame_mac_needed f = (if fr_has_scb f then osdp_scb_mac_len (fr_scb_type f) else 0)"

lemma build_body_layout:
  "build_body f tot (frame_mac_needed f) =
     frame_body (frame_addr f) tot (frame_ctrl f) (frame_scb_bytes f) (fr_code f)
       (ptr_bytes (fr_payload f) (fr_payload_len f)) (ptr_bytes (fr_mac f) (frame_mac_needed f))"
  by (simp add: build_body_def frame_body_def frame_addr_def frame_ctrl_def ctrl_byte_def
      frame_scb_bytes_def ptr_bytes_def flip: len_field_bytes)

text \<open>When the builder succeeds, and what it then returns.\<close>

definition buildable :: "osdp_frame \<Rightarrow> nat \<Rightarrow> bool" where
  "buildable f tot \<longleftrightarrow>
     fr_address f \<le> OSDP_BROADCAST_ADDR \<and> fr_sequence f \<le> OSDP_CTRL_SQN_MASK \<and>
     (fr_has_scb f \<longrightarrow> unat (fr_scb_length f) = fr_scb_data_len f + 2 \<and>
        (fr_scb_data_len f > 0 \<longrightarrow> fr_scb_data f \<noteq> None)) \<and>
     (fr_payload_len f > 0 \<longrightarrow> fr_payload f \<noteq> None) \<and>
     fr_mac_len f = frame_mac_needed f \<and> (frame_mac_needed f > 0 \<longrightarrow> fr_mac f \<noteq> None) \<and>
     tot = 6 + (if fr_has_scb f then unat (fr_scb_length f) else 0) + fr_payload_len f
            + frame_mac_needed f + integrity_size (fr_integrity f) \<and>
     tot \<le> OSDP_FRAME_MAX_LEN"

lemma frame_scb_total_eq:
  "frame_scb_total f = Inr n \<longleftrightarrow>
     n = (if fr_has_scb f then unat (fr_scb_length f) else 0) \<and>
     (fr_has_scb f \<longrightarrow> unat (fr_scb_length f) = fr_scb_data_len f + 2 \<and>
        (fr_scb_data_len f > 0 \<longrightarrow> fr_scb_data f \<noteq> None))"
  by (auto simp: frame_scb_total_def Let_def)

lemma osdp_frame_build_eq:
  "osdp_frame_build f cap = Inr w \<longleftrightarrow>
     (\<exists>tot. buildable f tot \<and> tot < cap \<and>
       w = OSDP_FRAME_MARK # build_body f tot (frame_mac_needed f)
             @ check_bytes (fr_integrity f) (build_body f tot (frame_mac_needed f)))"
  (is "?l \<longleftrightarrow> ?r")
proof
  assume ?l
  then obtain n where n: "frame_scb_total f = Inr n"
    by (auto simp: osdp_frame_build_def split: if_splits sum.splits)
  let ?tot = "6 + n + fr_payload_len f + frame_mac_needed f + integrity_size (fr_integrity f)"
  from \<open>?l\<close> n have "fr_payload_len f > 0 \<longrightarrow> fr_payload f \<noteq> None"
    "fr_mac_len f = frame_mac_needed f \<and> (frame_mac_needed f > 0 \<longrightarrow> fr_mac f \<noteq> None)"
    "fr_address f \<le> OSDP_BROADCAST_ADDR \<and> fr_sequence f \<le> OSDP_CTRL_SQN_MASK"
    "?tot \<le> OSDP_FRAME_MAX_LEN \<and> ?tot < cap"
    "w = OSDP_FRAME_MARK # build_body f ?tot (frame_mac_needed f)
           @ check_bytes (fr_integrity f) (build_body f ?tot (frame_mac_needed f))"
    by (auto simp: osdp_frame_build_def Let_def not_less frame_mac_needed_def
        split: if_splits)
  with frame_scb_total_eq [THEN iffD1, OF n] show ?r
    by (intro exI [of _ ?tot]) (simp add: buildable_def)
next
  assume ?r
  then obtain tot where b: "buildable f tot" and *: "tot < cap"
       "w = OSDP_FRAME_MARK # build_body f tot (frame_mac_needed f)
             @ check_bytes (fr_integrity f) (build_body f tot (frame_mac_needed f))"
    by blast
  then have "frame_scb_total f = Inr (if fr_has_scb f then unat (fr_scb_length f) else 0)"
    by (simp add: frame_scb_total_eq buildable_def)
  with b * show ?l
    by (cases "fr_integrity f") (auto simp: osdp_frame_build_def buildable_def Let_def not_less
        simp flip: frame_mac_needed_def)
qed

lemma buildable_layout:
  assumes "buildable f tot" "frame_ptrs_ok f"
  shows "layout_scb (frame_ctrl f) (frame_scb_bytes f)
       (if fr_has_scb f then fr_scb_length f else 0) (if fr_has_scb f then fr_scb_type f else 0)
       (if fr_has_scb f then ptr_bytes (fr_scb_data f) (fr_scb_data_len f) else [])
       (ptr_bytes (fr_mac f) (frame_mac_needed f))"
    and "tot = length (build_body f tot (frame_mac_needed f)) + integrity_size (fr_integrity f)"
proof -
  have m: "length (ptr_bytes (fr_mac f) (frame_mac_needed f)) = frame_mac_needed f"
    using assms by (auto simp: buildable_def frame_ptrs_ok_def)
  have s: "fr_has_scb f \<Longrightarrow> length (ptr_bytes (fr_scb_data f) (fr_scb_data_len f)) = fr_scb_data_len f"
    and p: "length (ptr_bytes (fr_payload f) (fr_payload_len f)) = fr_payload_len f"
    using assms by (auto simp: buildable_def frame_ptrs_ok_def)
  have "frame_ctrl f AND OSDP_CTRL_SCB \<noteq> 0 \<longleftrightarrow> fr_has_scb f"
    using assms(1) by (simp add: frame_ctrl_def ctrl_byte_fields buildable_def)
  then show "layout_scb (frame_ctrl f) (frame_scb_bytes f)
       (if fr_has_scb f then fr_scb_length f else 0) (if fr_has_scb f then fr_scb_type f else 0)
       (if fr_has_scb f then ptr_bytes (fr_scb_data f) (fr_scb_data_len f) else [])
       (ptr_bytes (fr_mac f) (frame_mac_needed f))"
    using assms(1) m s
    by (auto simp: layout_scb_def frame_scb_bytes_def buildable_def frame_mac_needed_def)
  show "tot = length (build_body f tot (frame_mac_needed f)) + integrity_size (fr_integrity f)"
    using assms(1) m s p
    by (auto simp: build_body_layout frame_scb_bytes_def buildable_def)
qed

lemma build_decode:
  assumes b: "osdp_frame_build f cap = Inr w" and ok: "frame_ptrs_ok f"
  shows "frame_decode_bytes (tl w) (length w - 1) out = (OSDP_OK, as_received f (tl w))"
proof -
  obtain tot where bf: "buildable f tot"
    and w: "tl w = build_body f tot (frame_mac_needed f)
             @ check_bytes (fr_integrity f) (build_body f tot (frame_mac_needed f))"
      "w \<noteq> []"
    using b by (auto simp: osdp_frame_build_eq)
  note lay = buildable_layout [OF bf ok]
  have s: "fr_address f \<le> 0x7F" "fr_sequence f \<le> 3" "fr_mac_len f = frame_mac_needed f"
    "tot \<le> 1440"
    using bf by (simp_all add: buildable_def)
  have c: "frame_ctrl f AND 0xF0 = 0" "frame_ctrl f AND 3 = fr_sequence f"
    "fr_integrity f =
      (if frame_ctrl f AND 4 \<noteq> 0 then OSDP_INTEGRITY_CRC else OSDP_INTEGRITY_CHECKSUM)"
    "frame_ctrl f AND 8 \<noteq> 0 \<longleftrightarrow> fr_has_scb f"
    using s(2) by (cases "fr_integrity f"; simp add: frame_ctrl_def ctrl_byte_fields)+
  have a: "frame_addr f AND 0x7F = fr_address f" "frame_addr f AND 0x80 \<noteq> 0 \<longleftrightarrow> fr_reply f"
    using s(1) unfolding frame_addr_def by (simp_all only: addr_byte_address addr_byte_reply)
  have len: "length w - 1 = tot"
    unfolding length_tl [symmetric] w(1) length_append length_check_bytes by (rule lay(2) [symmetric])
  have lens: "length (ptr_bytes (fr_payload f) (fr_payload_len f)) = fr_payload_len f"
    "length (ptr_bytes (fr_mac f) (frame_mac_needed f)) = frame_mac_needed f"
    "fr_has_scb f \<Longrightarrow> length (ptr_bytes (fr_scb_data f) (fr_scb_data_len f)) = fr_scb_data_len f"
    using bf ok by (auto simp: buildable_def frame_ptrs_ok_def)
  have "frame_decode_bytes (tl w) tot out =
     (OSDP_OK, (decode_identity (frame_addr f) (frame_ctrl f) (tl w) tot out)
       \<lparr>fr_has_scb := fr_has_scb f,
        fr_scb_length := if fr_has_scb f then fr_scb_length f else 0,
        fr_scb_type := if fr_has_scb f then fr_scb_type f else 0,
        fr_scb_data := ptr_of (if fr_has_scb f then ptr_bytes (fr_scb_data f) (fr_scb_data_len f) else []),
        fr_scb_data_len := length (if fr_has_scb f then ptr_bytes (fr_scb_data f) (fr_scb_data_len f) else []),
        fr_code := fr_code f,
        fr_payload := ptr_of (ptr_bytes (fr_payload f) (fr_payload_len f)),
        fr_payload_len := fr_payload_len f,
        fr_mac := ptr_of (ptr_bytes (fr_mac f) (frame_mac_needed f)),
        fr_mac_len := frame_mac_needed f\<rparr>)"
    unfolding w(1)
    using frame_decode_layout [OF lay(1) c(1,3) length_check_bytes build_body_layout _ s(4),
      where out = out, unfolded length_check_bytes, OF lay(2)]
    by (simp add: c(4) lens(1,2))
  moreover have "take tot (tl w) = tl w"
    using len by simp
  ultimately show ?thesis
    unfolding len by (auto simp: as_received_def decode_identity_def a c(2) c(3) [symmetric] s(3)
        len [simplified] lens(3) ptr_of_def intro!: osdp_frame.equality)
qed

section \<open>Every accepted byte string is a built frame\<close>

lemma frame_header_bytes:
  assumes "7 \<le> length buf" "buf ! 0 = OSDP_SOM" "unat (osdp_pack_read_u16le (drop 2 buf)) = len"
  shows "take 5 buf = OSDP_SOM # buf ! 1 # osdp_pack_write_u16le (word_of_nat len) @ [buf ! 4]"
proof -
  obtain a b c d e rest where buf: "buf = a # b # c # d # e # rest"
    using assms(1) by (auto simp: eval_nat_numeral Suc_le_length_iff)
  have "word_of_nat len = osdp_pack_read_u16le (c # d # e # rest)"
    using assms(3) by (auto simp: buf)
  then show ?thesis
    using assms(2) by (simp add: buf write_read_u16le)
qed

lemma take_drop_split: "i \<le> j \<Longrightarrow> take (j - i) (drop i xs) @ drop j xs = drop i xs"
  by (metis add.commute append_take_drop_id drop_drop le_add_diff_inverse2)

lemma decode_scb_parts:
  assumes "decode_scb buf (length buf) isize has_scb = Inr (cursor, sl, st, sd, sdl)" "7 \<le> length buf"
  shows "5 \<le> cursor" "cursor + isize < length buf \<or> \<not> has_scb"
    "if has_scb then take (cursor - 5) (drop 5 buf) = sl # st # take (cursor - 7) (drop 7 buf)
        \<and> unat sl = cursor - 5 \<and> 7 \<le> cursor
      else cursor = 5 \<and> sl = 0 \<and> st = 0"
proof -
  have "drop 5 buf = buf ! 5 # buf ! 6 # drop 7 buf"
    using assms(2) by (simp add: Cons_nth_drop_Suc eval_nat_numeral)
  then have "take n (drop 5 buf) = buf ! 5 # buf ! 6 # take (n - 2) (drop 7 buf)" if "n \<ge> 2" for n
    using that by (cases n; cases "n - 1") auto
  moreover have "has_scb \<Longrightarrow> cursor = 5 + unat sl \<and> 2 \<le> unat sl \<and> sl = buf ! 5 \<and> st = buf ! 6
       \<and> cursor + isize < length buf"
    using assms(1) by (auto simp: decode_scb_def Let_def split: if_splits)
  ultimately show "5 \<le> cursor" "cursor + isize < length buf \<or> \<not> has_scb"
    "if has_scb then take (cursor - 5) (drop 5 buf) = sl # st # take (cursor - 7) (drop 7 buf)
        \<and> unat sl = cursor - 5 \<and> 7 \<le> cursor
      else cursor = 5 \<and> sl = 0 \<and> st = 0"
    using assms(1) by (cases has_scb; auto simp: decode_scb_def)+
qed

lemma decode_step_errors:
  "decode_scb buf len n has_scb \<noteq> Inl OSDP_OK"
  "decode_payload buf i j has_scb st \<noteq> Inl OSDP_OK"
  by (simp_all add: decode_scb_def decode_payload_def Let_def)

lemma frame_decode_ok_steps:
  assumes ok: "frame_decode_bytes buf len out = (OSDP_OK, f)"
  defines "n \<equiv> if buf ! 4 AND OSDP_CTRL_USE_CRC \<noteq> 0 then 2 else 1"
    and "s \<equiv> buf ! 4 AND OSDP_CTRL_SCB \<noteq> 0"
  shows "\<exists>cursor sl st sd sdl pay. 7 \<le> len \<and> buf ! 0 = OSDP_SOM
    \<and> unat (osdp_pack_read_u16le (drop 2 buf)) = len
    \<and> len \<le> OSDP_FRAME_MAX_LEN \<and> buf ! 4 AND OSDP_CTRL_RESERVED = 0
    \<and> decode_scb buf len n s = Inr (cursor, sl, st, sd, sdl) \<and> cursor + 1 + n \<le> len
    \<and> decode_payload buf (cursor + 1) (len - n) s st = Inr pay"
proof -
  have head: "7 \<le> len" "buf ! 0 = OSDP_SOM" "unat (osdp_pack_read_u16le (drop 2 buf)) = len"
    "len \<le> OSDP_FRAME_MAX_LEN" "buf ! 4 AND OSDP_CTRL_RESERVED = 0"
    "\<not> len < (if buf ! 4 AND OSDP_CTRL_USE_CRC \<noteq> 0 then 8 else 7)"
    using ok unfolding frame_decode_bytes_def Let_def by (simp_all split: if_splits)
  note ok' = ok [unfolded frame_decode_bytes_def Let_def, folded n_def s_def]
  obtain cursor sl st sd sdl where scb: "decode_scb buf len n s = Inr (cursor, sl, st, sd, sdl)"
    using ok' head decode_step_errors(1) [of buf len n s]
    by (cases "decode_scb buf len n s") auto
  then have fits: "cursor + 1 + n \<le> len"
    using ok' head by (simp split: if_splits)
  then obtain pay where "decode_payload buf (cursor + 1) (len - n) s st = Inr pay"
    using ok' head scb decode_step_errors(2) [of buf "cursor + 1" "len - n" s st]
    by (cases "decode_payload buf (cursor + 1) (len - n) s st") auto
  with head scb fits show ?thesis by blast
qed

lemma decode_ok_parts:
  assumes ok: "frame_decode_bytes buf len out = (OSDP_OK, f)" and l: "length buf = len"
  obtains addr ctrl scb sl st sd code payload mac chk
  where "layout_scb ctrl scb sl st sd mac" "ctrl AND OSDP_CTRL_RESERVED = 0"
    "length chk = (if ctrl AND OSDP_CTRL_USE_CRC \<noteq> 0 then 2 else 1)"
    "buf = frame_body addr len ctrl scb code payload mac @ chk" "len \<le> OSDP_FRAME_MAX_LEN"
proof -
  let ?c = "buf ! 4"
  let ?s = "?c AND OSDP_CTRL_SCB \<noteq> 0"
  let ?n = "if ?c AND OSDP_CTRL_USE_CRC \<noteq> 0 then 2 else 1"
  obtain cursor sl st sd sdl pay where *:
    "7 \<le> len" "buf ! 0 = OSDP_SOM" "unat (osdp_pack_read_u16le (drop 2 buf)) = len"
    "len \<le> OSDP_FRAME_MAX_LEN" "?c AND OSDP_CTRL_RESERVED = 0"
    "decode_scb buf len ?n ?s = Inr (cursor, sl, st, sd, sdl)"
    "cursor + 1 + ?n \<le> len"
    "decode_payload buf (cursor + 1) (len - ?n) ?s st = Inr pay"
    using frame_decode_ok_steps [OF ok] by blast
  define tag where "tag = (if ?s then osdp_scb_mac_len st else 0)"
  define pe where "pe = len - ?n"
  define scb where "scb = take (cursor - 5) (drop 5 buf)"
  define payload where "payload = take (pe - tag - (cursor + 1)) (drop (cursor + 1) buf)"
  define mac where "mac = take (pe - (pe - tag)) (drop (pe - tag) buf)"
  have tag: "cursor + 1 + tag \<le> pe"
    using *(7,8) by (auto simp: decode_payload_def tag_def pe_def Let_def split: if_splits)
  note p = decode_scb_parts [OF *(6) [folded l], unfolded l, OF *(1)]
  have "buf = take 5 buf @ drop 5 buf"
    by simp
  also have "drop 5 buf = scb @ drop cursor buf"
    using p(1) by (simp only: scb_def take_drop_split)
  also have "drop cursor buf = buf ! cursor # drop (cursor + 1) buf"
    using tag l by (simp add: Cons_nth_drop_Suc pe_def)
  also have "drop (cursor + 1) buf = payload @ drop (pe - tag) buf"
    using tag by (simp only: payload_def take_drop_split)
  also have "drop (pe - tag) buf = mac @ drop pe buf"
    by (simp only: mac_def take_drop_split)
  also have "take 5 buf = OSDP_SOM # buf ! 1 # osdp_pack_write_u16le (word_of_nat len) @ [?c]"
    using *(1-3) l by (intro frame_header_bytes) simp_all
  finally have buf: "buf = frame_body (buf ! 1) len ?c scb (buf ! cursor) payload mac @ drop pe buf"
    by (simp add: frame_body_def)
  have "length mac = tag"
    using tag l by (simp add: mac_def pe_def)
  then have "layout_scb ?c scb sl st (if ?s then take (cursor - 7) (drop 7 buf) else []) mac"
    using p(1,3) l *(7) by (auto simp: layout_scb_def scb_def tag_def split: if_splits)
  moreover have "length (drop pe buf) = ?n"
    using *(7) l by (simp add: pe_def)
  ultimately show thesis
    using that [OF _ *(5) _ buf *(4)] by simp
qed

section \<open>The decoder stays inside the frame\<close>

lemma take_drop_append: "i + n \<le> length b \<Longrightarrow> take n (drop i (b @ junk)) = take n (drop i b)"
  by simp

lemma decode_scb_append:
  assumes "7 \<le> length b"
  shows "decode_scb (b @ junk) (length b) n has_scb = decode_scb b (length b) n has_scb"
proof -
  have "(b @ junk) ! 5 = b ! 5" "(b @ junk) ! (5 + 1) = b ! (5 + 1)"
    using assms by (simp_all add: nth_append)
  moreover have "take (k - 2) (drop (5 + 2) (b @ junk)) = take (k - 2) (drop (5 + 2) b)"
    if "\<not> 5 + k + 1 + n > length b" for k
    using that by simp
  ultimately show ?thesis
    unfolding decode_scb_def Let_def by (simp del: drop_append take_append)
qed

lemma decode_payload_append:
  "j \<le> length b \<Longrightarrow> decode_payload (b @ junk) i j has_scb st = decode_payload b i j has_scb st"
  by (auto simp: decode_payload_def Let_def)

lemma decode_check_append2:
  "j + (if use_crc then 2 else 1) \<le> length b
     \<Longrightarrow> decode_check (b @ junk) j use_crc = decode_check b j use_crc"
  by (cases use_crc) (simp_all add: decode_check_def osdp_pack_read_u16le_def osdp_crc16_def
      osdp_crc16_update_def osdp_checksum_def nth_append)

lemma frame_decode_append:
  "frame_decode_bytes (b @ junk) (length b) out = frame_decode_bytes b (length b) out"
proof (cases "7 \<le> length b")
  case True
  have nth: "(b @ junk) ! 0 = b ! 0" "(b @ junk) ! 1 = b ! 1" "(b @ junk) ! 4 = b ! 4"
    using True by (auto simp: nth_append)
  have rd: "osdp_pack_read_u16le (drop 2 (b @ junk)) = osdp_pack_read_u16le (drop 2 b)"
    using True by (simp add: osdp_pack_read_u16le_def nth_append)
  have ident: "decode_identity a c (b @ junk) (length b) out = decode_identity a c b (length b) out" for a c
    by (simp add: decode_identity_def)
  have code: "(b @ junk) ! i = b ! i" if "\<not> i + 1 + (if crc then 2 else 1) > length b" for i crc
    using that by (simp add: nth_append split: if_splits)
  have chk: "decode_check (b @ junk) (length b - (if crc then 2 else 1)) crc =
     decode_check b (length b - (if crc then 2 else 1)) crc" for crc
    using True by (intro decode_check_append2) auto
  show ?thesis
    unfolding frame_decode_bytes_def Let_def nth rd ident decode_scb_append [OF True] chk
      decode_payload_append [OF diff_le_self]
    by (simp only: code cong: if_cong sum.case_cong prod.case_cong)
qed (simp add: frame_decode_bytes_def)

lemma frame_decode_take:
  "len \<le> length buf \<Longrightarrow> frame_decode_bytes buf len out = frame_decode_bytes (take len buf) len out"
  using frame_decode_append [of "take len buf" "drop len buf" out] by (simp add: min_absorb2)

section \<open>Rebuilding an accepted frame\<close>

lemma decode_ok_frame:
  assumes ok: "frame_decode_bytes buf len out = (OSDP_OK, f)" and l: "length buf = len"
  obtains addr ctrl scb sl st sd code payload mac
  where "layout_scb ctrl scb sl st sd mac" "ctrl AND OSDP_CTRL_RESERVED = 0"
    "len \<le> OSDP_FRAME_MAX_LEN"
    "buf = frame_body addr len ctrl scb code payload mac
        @ check_bytes (fr_integrity f) (frame_body addr len ctrl scb code payload mac)"
    "fr_integrity f = (if ctrl AND OSDP_CTRL_USE_CRC \<noteq> 0 then OSDP_INTEGRITY_CRC
                       else OSDP_INTEGRITY_CHECKSUM)"
    "f = \<lparr>fr_address = addr AND OSDP_ADDR_MASK, fr_reply = (addr AND OSDP_REPLY_FLAG \<noteq> 0),
        fr_sequence = ctrl AND OSDP_CTRL_SQN_MASK,
        fr_integrity = (if ctrl AND OSDP_CTRL_USE_CRC \<noteq> 0 then OSDP_INTEGRITY_CRC
                        else OSDP_INTEGRITY_CHECKSUM),
        fr_has_scb = (ctrl AND OSDP_CTRL_SCB \<noteq> 0), fr_scb_length = sl, fr_scb_type = st,
        fr_scb_data = ptr_of sd, fr_scb_data_len = length sd, fr_code = code,
        fr_payload = ptr_of payload, fr_payload_len = length payload,
        fr_mac = ptr_of mac, fr_mac_len = length mac,
        fr_raw = Some buf, fr_raw_len = len\<rparr>"
proof -
  obtain addr ctrl scb sl st sd code payload mac chk
    where p: "layout_scb ctrl scb sl st sd mac" "ctrl AND OSDP_CTRL_RESERVED = 0"
      "length chk = (if ctrl AND OSDP_CTRL_USE_CRC \<noteq> 0 then 2 else 1)"
      "buf = frame_body addr len ctrl scb code payload mac @ chk" "len \<le> OSDP_FRAME_MAX_LEN"
    by (rule decode_ok_parts [OF ok l])
  let ?body = "frame_body addr len ctrl scb code payload mac"
  let ?i = "if ctrl AND OSDP_CTRL_USE_CRC \<noteq> 0 then OSDP_INTEGRITY_CRC else OSDP_INTEGRITY_CHECKSUM"
  have "length chk = integrity_size ?i"
    using p(3) by (simp add: integrity_size_def)
  moreover have "len = length ?body + length chk"
    using arg_cong [OF p(4), of length] l by (simp only: length_append)
  ultimately have cl: "length chk = integrity_size ?i" "len = length ?body + length chk" .
  note d = frame_decode_layout [OF p(1,2) refl cl(1) refl cl(2) p(5), where out = out]
  note d' = d [folded p(4), unfolded ok]
  have chk: "chk = check_bytes ?i ?body"
    using d' by (rule contrapos_pp) (simp add: Pair_inject)
  have f: "f = (decode_identity addr ctrl buf len out)
            \<lparr>fr_has_scb := ctrl AND OSDP_CTRL_SCB \<noteq> 0, fr_scb_length := sl, fr_scb_type := st,
             fr_scb_data := ptr_of sd, fr_scb_data_len := length sd, fr_code := code,
             fr_payload := ptr_of payload, fr_payload_len := length payload,
             fr_mac := ptr_of mac, fr_mac_len := length mac\<rparr>"
    using d' unfolding if_P [OF chk] by (simp only: prod.inject)
  have fi: "fr_integrity f = ?i"
    by (simp add: f decode_identity_def)
  then have "buf = ?body @ check_bytes (fr_integrity f) ?body"
    using p(4) chk by (simp only:)
  moreover have "take len buf = buf"
    using l by simp
  ultimately show thesis
    by (rule_tac that [OF p(1,2,5) _ fi]) (assumption, simp add: f decode_identity_def)
qed

lemma ptr_bytes_ptr_of [simp]: "ptr_bytes (ptr_of bs) (length bs) = bs"
  by (simp add: ptr_bytes_def ptr_of_def)

lemma ptr_of_eq_None [simp]: "ptr_of bs = None \<longleftrightarrow> bs = []"
  by (simp add: ptr_of_def)

lemma decode_build:
  assumes ok: "frame_decode_bytes buf len out = (OSDP_OK, f)" and l: "length buf = len"
    and cap: "len < cap"
  shows "osdp_frame_build f cap = Inr (OSDP_FRAME_MARK # buf)"
proof -
  obtain addr ctrl scb sl st sd code payload mac
    where p: "layout_scb ctrl scb sl st sd mac" "ctrl AND OSDP_CTRL_RESERVED = 0"
      "len \<le> OSDP_FRAME_MAX_LEN"
      "buf = frame_body addr len ctrl scb code payload mac
        @ check_bytes (fr_integrity f) (frame_body addr len ctrl scb code payload mac)"
      and f: "f = \<lparr>fr_address = addr AND OSDP_ADDR_MASK, fr_reply = (addr AND OSDP_REPLY_FLAG \<noteq> 0),
        fr_sequence = ctrl AND OSDP_CTRL_SQN_MASK,
        fr_integrity = (if ctrl AND OSDP_CTRL_USE_CRC \<noteq> 0 then OSDP_INTEGRITY_CRC
                        else OSDP_INTEGRITY_CHECKSUM),
        fr_has_scb = (ctrl AND OSDP_CTRL_SCB \<noteq> 0), fr_scb_length = sl, fr_scb_type = st,
        fr_scb_data = ptr_of sd, fr_scb_data_len = length sd, fr_code = code,
        fr_payload = ptr_of payload, fr_payload_len = length payload,
        fr_mac = ptr_of mac, fr_mac_len = length mac,
        fr_raw = Some buf, fr_raw_len = len\<rparr>"
    using decode_ok_frame [OF ok l] by metis
  have mac: "frame_mac_needed f = length mac"
    using p(1) by (auto simp: frame_mac_needed_def layout_scb_def f split: if_splits)
  have "frame_addr f = addr"
    using addr_byte_join by (simp add: frame_addr_def f del: and.assoc)
  moreover have "frame_ctrl f = ctrl"
    using ctrl_byte_join(1) [OF p(2)]
    by (cases "ctrl AND OSDP_CTRL_USE_CRC = 0") (simp_all add: frame_ctrl_def f)
  moreover have "frame_scb_bytes f = scb"
    using p(1) by (auto simp: frame_scb_bytes_def layout_scb_def f split: if_splits)
  moreover have "fr_code f = code" "fr_payload f = ptr_of payload" "fr_payload_len f = length payload"
    "fr_mac f = ptr_of mac"
    by (simp_all add: f)
  ultimately have body: "build_body f len (frame_mac_needed f) =
      frame_body addr len ctrl scb code payload mac"
    using build_body_layout [of f len] by (simp add: mac)
  have "len = length (frame_body addr len ctrl scb code payload mac) + integrity_size (fr_integrity f)"
    using arg_cong [OF p(4), of length] l by simp
  then have "buildable f len"
    using p(1-3) mac ctrl_byte_join(2) [OF p(2)] word_and_le1 [of addr "0x7F"]
    by (auto simp: buildable_def f layout_scb_def split: if_splits)
  then show ?thesis
    using cap p(4) body by (auto simp: osdp_frame_build_eq)
qed

lemma decode_ok_check:
  assumes ok: "frame_decode_bytes buf len out = (OSDP_OK, f)" and l: "length buf = len"
  defines "n \<equiv> integrity_size (fr_integrity f)"
  shows "drop (len - n) buf = check_bytes (fr_integrity f) (take (len - n) buf)"
    and "fr_integrity f = OSDP_INTEGRITY_CRC \<longleftrightarrow> buf ! 4 AND OSDP_CTRL_USE_CRC \<noteq> 0"
    and "4 < len - n"
proof -
  obtain addr ctrl scb sl st sd code payload mac
    where buf: "buf = frame_body addr len ctrl scb code payload mac
        @ check_bytes (fr_integrity f) (frame_body addr len ctrl scb code payload mac)" (is "_ = ?b @ ?c")
    and i: "fr_integrity f = (if ctrl AND OSDP_CTRL_USE_CRC \<noteq> 0 then OSDP_INTEGRITY_CRC
             else OSDP_INTEGRITY_CHECKSUM)"
    by (rule decode_ok_frame [OF ok l]; rule that; assumption)
  have "length buf = length ?b + n"
    unfolding n_def using arg_cong [OF buf, of length] by (simp only: length_append length_check_bytes)
  then have n: "len - n = length ?b"
    unfolding l by (metis add_diff_cancel_right')
  show "drop (len - n) buf = check_bytes (fr_integrity f) (take (len - n) buf)"
    using append_eq_conv_conj [THEN iffD1, OF buf [symmetric]] unfolding n by metis
  have "buf ! 4 = (?b @ ?c) ! 4"
    by (simp only: buf [symmetric])
  then have "buf ! 4 = ctrl"
    by (simp add: nth_append frame_body_nth)
  then show "fr_integrity f = OSDP_INTEGRITY_CRC \<longleftrightarrow> buf ! 4 AND OSDP_CTRL_USE_CRC \<noteq> 0"
    using i by simp
  show "4 < len - n"
    unfolding n by simp
qed

lemma check_bytes_update:
  assumes "i < length body" "b \<noteq> body ! i"
  shows "check_bytes ig (body[i := b]) \<noteq> check_bytes ig body"
proof -
  have upd: "body[i := b] = take i body @ b # drop (Suc i) body"
    "body = take i body @ body ! i # drop (Suc i) body"
    using assms(1) by (simp_all add: upd_conv_take_nth_drop id_take_nth_drop)
  have "osdp_crc16_loop c (body[i := b]) \<noteq> osdp_crc16_loop c body" for c
    using osdp_crc16_detects_byte [OF assms(2), of c "take i body" "drop (Suc i) body"] upd by metis
  then have "osdp_crc16 (Some (body[i := b])) (length body) \<noteq> osdp_crc16 (Some body) (length body)"
    by (simp add: osdp_crc16_def osdp_crc16_update_def)
  moreover have "osdp_pack_write_u16le a = osdp_pack_write_u16le c \<longleftrightarrow> a = c" for a c
    using read_write_u16le_nil by metis
  moreover have "sum_list (body[i := b]) \<noteq> sum_list body"
    using osdp_checksum_detects_byte [OF assms(2), of "take i body" "drop (Suc i) body"] upd by simp
  ultimately show ?thesis
    by (cases ig) (simp_all add: check_bytes_crc check_bytes_cksum)
qed

lemma decode_detects_byte:
  assumes ok: "frame_decode_bytes buf len out = (OSDP_OK, f)" and l: "length buf = len"
    and i: "i < len" "b \<noteq> buf ! i" "i = 4 \<Longrightarrow> b AND OSDP_CTRL_USE_CRC = buf ! 4 AND OSDP_CTRL_USE_CRC"
  shows "fst (frame_decode_bytes (buf[i := b]) len out') \<noteq> OSDP_OK"
proof
  assume "fst (frame_decode_bytes (buf[i := b]) len out') = OSDP_OK"
  then obtain g where g: "frame_decode_bytes (buf[i := b]) len out' = (OSDP_OK, g)"
    by (metis prod.collapse)
  note c = decode_ok_check [OF ok l]
  note c' = decode_ok_check [OF g, unfolded length_list_update, OF l]
  have "buf[i := b] ! 4 AND OSDP_CTRL_USE_CRC = buf ! 4 AND OSDP_CTRL_USE_CRC"
    using i l by (cases "i = 4") auto
  then have ig: "fr_integrity g = fr_integrity f"
    using c(2) c'(2) osdp_integrity.exhaust by metis
  define k where "k = len - integrity_size (fr_integrity f)"
  have k: "k \<le> len" by (simp add: k_def)
  show False
  proof (cases "i < k")
    case True
    then have "check_bytes (fr_integrity f) ((take k buf)[i := b]) = check_bytes (fr_integrity f) (take k buf)"
      using c(1) c'(1) k unfolding ig k_def [symmetric] by (simp add: take_update_swap)
    with check_bytes_update [of i "take k buf" b "fr_integrity f"] True i k l show False
      by simp
  next
    case False
    then have "drop k (buf[i := b]) = drop k buf"
      using c(1) c'(1) unfolding ig k_def [symmetric] by simp
    then have "buf[i := b] ! i = buf ! i"
      using False i l k by (metis drop_update_swap list_update_id not_less nth_drop nth_list_update_eq
          length_drop length_list_update le_add_diff_inverse)
    with i l show False by simp
  qed
qed

section \<open>Sizing\<close>

lemma frame_overhead_buildable:
  assumes "frame_overhead f = Inr (oh, fo)"
  shows "oh = fo + 1"
    and "fo = 6 + (if fr_has_scb f then unat (fr_scb_length f) else 0) + frame_mac_needed f
               + integrity_size (fr_integrity f)"
  using assms by (auto simp: frame_overhead_def frame_scb_total_eq Let_def frame_mac_needed_def
      split: sum.splits if_splits)

lemma osdp_frame_max_payload_eq:
  assumes "osdp_frame_max_payload f cap = Inr m"
  shows "m = min (cap - 1) 1440 - (6 + (if fr_has_scb f then unat (fr_scb_length f) else 0)
                 + frame_mac_needed f + integrity_size (fr_integrity f))"
proof -
  obtain oh fo where o: "frame_overhead f = Inr (oh, fo)"
    using assms by (auto simp: osdp_frame_max_payload_def split: sum.splits)
  show ?thesis
    using assms o frame_overhead_buildable [OF o]
    by (auto simp: osdp_frame_max_payload_def Let_def min_def split: if_splits)
qed

section \<open>Properties\<close>

text \<open>The frames and bytes at which the witnesses evaluate: a CRC-protected command to address 5
  and the same with a handshake security block.\<close>

definition ex_frame :: osdp_frame where
  "ex_frame = zero_frame\<lparr>fr_address := 5, fr_sequence := 2, fr_integrity := OSDP_INTEGRITY_CRC,
     fr_has_scb := True, fr_scb_length := 3, fr_scb_type := OSDP_SCS_11, fr_scb_data := Some [1],
     fr_scb_data_len := 1, fr_code := 0x76, fr_payload := Some [10, 20, 30], fr_payload_len := 2\<rparr>"

definition ex_wire :: bytes where
  "ex_wire = (case osdp_frame_build ex_frame 64 of Inr w \<Rightarrow> w | Inl _ \<Rightarrow> [])"

lemma ex_wire_value:
  "osdp_frame_build ex_frame 64 = Inr ex_wire"
  "ex_wire = [0xFF, 0x53, 5, 13, 0, 14, 3, 0x11, 1, 0x76, 10, 20, 0x5C, 0x2E]"
  by code_simp+

lemma ex_frame_ptrs: "frame_ptrs_ok ex_frame"
  by code_simp

lemma ex_wire_length: "length ex_wire - 1 = 13" "length (tl ex_wire) = 13" "length ex_wire = 14"
  by (simp_all add: ex_wire_value(2))

lemma ex_wire_decode:
  "osdp_frame_decode (Some (tl ex_wire)) 13 out = (OSDP_OK, as_received ex_frame (tl ex_wire))"
  using build_decode [OF ex_wire_value(1) ex_frame_ptrs] by (simp add: osdp_frame_decode_def ex_wire_length(1) del: One_nat_def)

text \<open>C14. Whatever \<open>osdp_frame_build\<close> writes, \<open>osdp_frame_decode\<close> reads back: with the marking
  byte removed, decoding succeeds and yields the template, its absent fields zeroed and its
  pointers referring to exactly the bytes they named.\<close>

theorem frame_build_decode:
  assumes "frame_ptrs_ok f" and "osdp_frame_build f cap = Inr w"
  shows "osdp_frame_decode (Some (tl w)) (length w - 1) out = (OSDP_OK, as_received f (tl w))"
  using build_decode [OF assms(2,1)] by (simp add: osdp_frame_decode_def)

theorem frame_build_decode_witness:
  "frame_ptrs_ok ex_frame \<and> osdp_frame_build ex_frame 64 = Inr ex_wire \<and>
   osdp_frame_decode (Some (tl ex_wire)) (length ex_wire - 1) zero_frame
     = (OSDP_OK, as_received ex_frame (tl ex_wire))"
  using frame_build_decode [OF ex_frame_ptrs ex_wire_value(1)] ex_frame_ptrs ex_wire_value(1) by blast

text \<open>C15. The wire format is canonical: if the decoder accepts the first \<open>len\<close> bytes of a buffer,
  then building the decoded frame reproduces exactly those bytes, behind the marking byte.\<close>

theorem frame_decode_build:
  assumes "osdp_frame_decode (Some buf) len out = (OSDP_OK, f)" and "len \<le> length buf" and "len < cap"
  shows "osdp_frame_build f cap = Inr (OSDP_FRAME_MARK # take len buf)"
  using assms frame_decode_take [OF assms(2)]
  by (intro decode_build [of "take len buf" len out]) (simp_all add: osdp_frame_decode_def)

theorem frame_decode_build_witness:
  "osdp_frame_build (as_received ex_frame (tl ex_wire)) 20 = Inr ex_wire"
  using frame_decode_build [OF ex_wire_decode, of 20] ex_wire_length(2)
  by (simp add: ex_wire_value(2))

text \<open>The decoder never looks past the \<open>len\<close> bytes it was given: its answer is the same
  whatever follows them in memory.\<close>

theorem frame_decode_no_overread:
  "osdp_frame_decode (Some (b @ junk)) (length b) out = osdp_frame_decode (Some (b @ junk')) (length b) out"
  by (simp add: osdp_frame_decode_def frame_decode_append)

text \<open>Output on failure, as the header documents it: on a failed integrity check the six identity
  fields are those of the frame and no other field has been written; on every other error the
  output is untouched.\<close>

theorem frame_decode_error_output:
  assumes "osdp_frame_decode (Some buf) len out = (s, out')" and "s \<noteq> OSDP_OK"
  shows "out' = (if s = OSDP_ERR_BAD_CRC \<or> s = OSDP_ERR_BAD_CHECKSUM
           then decode_identity (buf ! 1) (buf ! 4) buf len out else out)"
proof -
  have "decode_scb buf len n b \<noteq> Inl e" "decode_payload buf i j b st \<noteq> Inl e"
    if "e = OSDP_ERR_BAD_CRC \<or> e = OSDP_ERR_BAD_CHECKSUM" for n b e i j st
    using that by (auto simp: decode_scb_def decode_payload_def Let_def)
  then show ?thesis
    using assms
    by (auto simp: osdp_frame_decode_def frame_decode_bytes_def Let_def decode_check_def
        split: if_splits sum.splits)
qed

theorem frame_decode_error_output_witness:
  "osdp_frame_decode (Some ((tl ex_wire)[9 := 7])) 13 zero_frame
     = (OSDP_ERR_BAD_CRC, decode_identity 5 14 ((tl ex_wire)[9 := 7]) 13 zero_frame)"
proof -
  have *: "fst (osdp_frame_decode (Some ((tl ex_wire)[9 := 7])) 13 zero_frame) = OSDP_ERR_BAD_CRC"
    by code_simp
  then obtain g where "osdp_frame_decode (Some ((tl ex_wire)[9 := 7])) 13 zero_frame = (OSDP_ERR_BAD_CRC, g)"
    by (metis prod.collapse)
  with frame_decode_error_output [OF this] show ?thesis
    by (simp add: ex_wire_value(2))
qed

text \<open>C18. A built frame in which one byte is replaced, other than by a change of the bit of the control byte that
  selects the check, is rejected by the decoder, under the checksum and under the CRC. (A receiver that sees that bit
  changed applies the other check, so this case rests on chance.)\<close>

theorem frame_corruption_detected:
  assumes "frame_ptrs_ok f" and "osdp_frame_build f cap = Inr w"
    and "i < length w - 1" and "b \<noteq> tl w ! i"
    and "i = 4 \<Longrightarrow> b AND OSDP_CTRL_USE_CRC = tl w ! 4 AND OSDP_CTRL_USE_CRC"
  shows "fst (osdp_frame_decode (Some ((tl w)[i := b])) (length w - 1) out) \<noteq> OSDP_OK"
  using decode_detects_byte [OF build_decode [OF assms(2,1)] _ assms(3-5)]
  by (simp add: osdp_frame_decode_def)

theorem frame_corruption_detected_witness:
  "fst (osdp_frame_decode (Some ((tl ex_wire)[9 := 7])) 13 zero_frame) \<noteq> OSDP_OK"
  using frame_corruption_detected [OF ex_frame_ptrs ex_wire_value(1), of 9 7 zero_frame]
  unfolding ex_wire_length(1) by (simp add: ex_wire_value(2))

text \<open>The builder stays within its buffer and within the protocol's frame length, and it puts the
  payload exactly where \<open>osdp_frame_payload_offset\<close> says it will.\<close>

theorem frame_build_layout:
  assumes "frame_ptrs_ok f" and "osdp_frame_build f cap = Inr w"
  shows "length w \<le> cap \<and> length w \<le> OSDP_FRAME_MARK_LEN + OSDP_FRAME_MAX_LEN \<and>
    (\<exists>off. osdp_frame_payload_offset f = Inr off \<and>
       take (fr_payload_len f) (drop off w) = ptr_bytes (fr_payload f) (fr_payload_len f))"
proof -
  obtain tot where b: "buildable f tot" "tot < cap"
    and w: "w = OSDP_FRAME_MARK # build_body f tot (frame_mac_needed f)
             @ check_bytes (fr_integrity f) (build_body f tot (frame_mac_needed f))"
    using assms(2) by (auto simp: osdp_frame_build_eq)
  have "length w = Suc tot"
    unfolding w length_append length_check_bytes list.size
    by (simp only: buildable_layout(2) [OF b(1) assms(1), symmetric] add_Suc_right add_0_right)
  then have len: "length w \<le> cap" "length w \<le> 1441"
    using b by (auto simp: buildable_def)
  let ?n = "length (frame_scb_bytes f)"
  have "?n = (if fr_has_scb f then unat (fr_scb_length f) else 0)"
    using b(1) assms(1) by (auto simp: frame_scb_bytes_def buildable_def frame_ptrs_ok_def)
  then have off: "osdp_frame_payload_offset f = Inr (7 + ?n)"
    using b(1) frame_scb_total_eq [of f ?n]
    by (auto simp: osdp_frame_payload_offset_def buildable_def)
  have n7: "7 + ?n = Suc (5 + (1 + ?n))"
    by simp
  have "drop (7 + ?n) w = ptr_bytes (fr_payload f) (fr_payload_len f)
      @ ptr_bytes (fr_mac f) (frame_mac_needed f)
      @ check_bytes (fr_integrity f) (build_body f tot (frame_mac_needed f))"
    unfolding w n7 drop_Suc_Cons build_body_layout frame_body_drop by simp
  moreover have "length (ptr_bytes (fr_payload f) (fr_payload_len f)) = fr_payload_len f"
    using b(1) assms(1) by (auto simp: buildable_def frame_ptrs_ok_def)
  ultimately show ?thesis
    using len off by auto
qed

theorem frame_build_layout_witness:
  "length ex_wire \<le> 64 \<and> osdp_frame_payload_offset ex_frame = Inr 10 \<and> take 2 (drop 10 ex_wire) = [10, 20]"
proof -
  have "osdp_frame_payload_offset ex_frame = Inr 10"
    by code_simp
  then show ?thesis
    using frame_build_layout [OF ex_frame_ptrs ex_wire_value(1)]
    by (simp add: ex_frame_def zero_frame_def ptr_bytes_def)
qed

text \<open>\<open>osdp_frame_max_payload\<close> is exact: for a template that carries the MAC its security block
  calls for, a non-empty payload fits the buffer if and only if it is no longer than the
  answer.\<close>

theorem frame_max_payload_exact:
  assumes "osdp_frame_max_payload f cap = Inr m"
    and "fr_address f \<le> OSDP_BROADCAST_ADDR" "fr_sequence f \<le> OSDP_CTRL_SQN_MASK"
    and "fr_mac_len f = frame_mac_needed f" "frame_mac_needed f > 0 \<Longrightarrow> fr_mac f \<noteq> None"
    and "n > 0"
  shows "(\<exists>w. osdp_frame_build (f\<lparr>fr_payload := Some p, fr_payload_len := n\<rparr>) cap = Inr w) \<longleftrightarrow> n \<le> m"
proof -
  let ?g = "f\<lparr>fr_payload := Some p, fr_payload_len := n\<rparr>"
  obtain k where k: "frame_scb_total f = Inr k"
    using assms(1) by (auto simp: osdp_frame_max_payload_def frame_overhead_def split: sum.splits)
  let ?fo = "6 + k + frame_mac_needed f + integrity_size (fr_integrity f)"
  have "frame_mac_needed ?g = frame_mac_needed f"
    by (simp add: frame_mac_needed_def)
  then have "buildable ?g tot \<longleftrightarrow> tot = ?fo + n \<and> tot \<le> 1440" for tot
    using assms(2-6) frame_scb_total_eq [THEN iffD1, OF k] by (auto simp: buildable_def)
  then have "(\<exists>w. osdp_frame_build ?g cap = Inr w) \<longleftrightarrow> ?fo + n \<le> 1440 \<and> ?fo + n < cap"
    by (simp add: osdp_frame_build_eq)
  also have "\<dots> \<longleftrightarrow> n \<le> m"
    using assms(6) osdp_frame_max_payload_eq [OF assms(1)] frame_scb_total_eq [THEN iffD1, OF k]
    by (auto simp: min_def)
  finally show ?thesis .
qed

theorem frame_max_payload_exact_witness:
  "(\<exists>w. osdp_frame_build (ex_frame\<lparr>fr_payload := Some [1, 2, 3], fr_payload_len := 3\<rparr>) 15 = Inr w)
     \<longleftrightarrow> (3 :: nat) \<le> 3"
proof (rule frame_max_payload_exact)
  show "osdp_frame_max_payload ex_frame 15 = Inr 3" by code_simp
  show "fr_address ex_frame \<le> OSDP_BROADCAST_ADDR" "fr_sequence ex_frame \<le> OSDP_CTRL_SQN_MASK"
    "fr_mac_len ex_frame = frame_mac_needed ex_frame" by code_simp+
  show "fr_mac ex_frame \<noteq> None" if "frame_mac_needed ex_frame > 0"
    using that by (simp add: ex_frame_def frame_mac_needed_def osdp_scb_mac_len_def zero_frame_def)
qed simp

end
