(* ===== verification/Stream.thy ===== *)
theory Stream
  imports Frame
begin

unbundle bit_operations_syntax

text \<open>
  The push-style receive stream of \<^verbatim>\<open>core/src/shared/stream.c\<close>: a fixed array with a fill
  level, from which complete frames are cut. The state keeps the whole array, so that the
  memmove of a consume and the deferred consume of a returned frame are modelled as the code
  does them. The abstraction \<open>stream_live\<close> forgets the array and keeps the queue of bytes that
  are still to be parsed; \<open>queue_next\<close> says what the next frame of such a queue is. The locale
  \<open>frame_source\<close> is the interface the two roles use, and the interpretation at the end shows
  that the array implementation satisfies it.
\<close>

section \<open>State\<close>

abbreviation (input) OSDP_STREAM_BUFFER_LEN :: nat where "OSDP_STREAM_BUFFER_LEN \<equiv> OSDP_FRAME_MAX_LEN"

record osdp_stream =
  st_buffer :: bytes
  st_fill :: nat
  st_pending_consume :: nat

section \<open>Operations\<close>

definition osdp_stream_consume :: "osdp_stream \<Rightarrow> nat \<Rightarrow> osdp_stream" where
  "osdp_stream_consume s n =
     (if n = 0 then s
      else if n \<ge> st_fill s then s\<lparr>st_fill := 0\<rparr>
      else s\<lparr>st_buffer := take (st_fill s - n) (drop n (st_buffer s)) @ drop (st_fill s - n) (st_buffer s),
             st_fill := st_fill s - n\<rparr>)"

definition osdp_stream_apply_pending :: "osdp_stream \<Rightarrow> osdp_stream" where
  "osdp_stream_apply_pending s =
     (if st_pending_consume s > 0
      then (osdp_stream_consume s (st_pending_consume s))\<lparr>st_pending_consume := 0\<rparr> else s)"

text \<open>The loop of the resynchronisation: the index of the first start-of-message byte.\<close>

function resync_index :: "bytes \<Rightarrow> nat \<Rightarrow> nat \<Rightarrow> nat" where
  "resync_index buffer fill i =
     (if i < fill \<and> buffer ! i \<noteq> OSDP_SOM then resync_index buffer fill (i + 1) else i)"
  by pat_completeness auto
termination by (relation "measure (\<lambda>(buffer, fill, i). fill - i)") auto

declare resync_index.simps [simp del]

definition osdp_stream_resync_to_som :: "osdp_stream \<Rightarrow> nat \<times> osdp_stream" where
  "osdp_stream_resync_to_som s =
     (let i = resync_index (st_buffer s) (st_fill s) 0
      in (i, if i > 0 then osdp_stream_consume s i else s))"

definition osdp_stream_init :: "osdp_stream \<Rightarrow> osdp_stream" where
  "osdp_stream_init s = s\<lparr>st_fill := 0, st_pending_consume := 0\<rparr>"

definition osdp_stream_reset :: "osdp_stream \<Rightarrow> osdp_stream" where
  "osdp_stream_reset s = osdp_stream_init s"

text \<open>The copy loop of the feed. In C the free room is \<open>OSDP_STREAM_BUFFER_LEN - fill\<close>, which is not
  negative because the fill level never exceeds the array; the recursion stops where that would
  not hold.\<close>

function feed_loop :: "osdp_stream \<Rightarrow> bytes \<Rightarrow> osdp_stream" where
  "feed_loop s data =
     (if data = [] \<or> st_fill s > OSDP_STREAM_BUFFER_LEN then s
      else
        let s1 = (if OSDP_STREAM_BUFFER_LEN - st_fill s = 0 then osdp_stream_consume s 1 else s);
            free_room = OSDP_STREAM_BUFFER_LEN - st_fill s1;
            to_copy = (if length data < free_room then length data else free_room)
        in feed_loop
             (s1\<lparr>st_buffer := take (st_fill s1) (st_buffer s1) @ take to_copy data
                               @ drop (st_fill s1 + to_copy) (st_buffer s1),
                  st_fill := st_fill s1 + to_copy\<rparr>)
             (drop to_copy data))"
  by pat_completeness auto
termination
  by (relation "measure (\<lambda>(s, data). length data)") (auto simp: osdp_stream_consume_def)

declare feed_loop.simps [simp del]

definition osdp_stream_feed :: "osdp_stream \<Rightarrow> bytes_ptr \<Rightarrow> nat \<Rightarrow> osdp_status \<times> osdp_stream" where
  "osdp_stream_feed s data len =
     (if len = 0 then (OSDP_OK, s)
      else case data of
        None \<Rightarrow> (OSDP_ERR_INVALID_ARG, s)
      | Some bs \<Rightarrow> (OSDP_OK, feed_loop (osdp_stream_apply_pending s) (take len bs)))"

definition osdp_stream_pending :: "osdp_stream \<Rightarrow> nat" where
  "osdp_stream_pending s =
     (if st_fill s > st_pending_consume s then st_fill s - st_pending_consume s else 0)"

definition osdp_stream_next :: "osdp_stream \<Rightarrow> osdp_frame \<Rightarrow> osdp_status \<times> osdp_frame \<times> osdp_stream" where
  "osdp_stream_next s0 out =
     (let s = snd (osdp_stream_resync_to_som (osdp_stream_apply_pending s0)) in
      if st_fill s = 0 then (OSDP_ERR_TRUNCATED, out, s)
      else if st_fill s < OSDP_FRAME_HEADER_LEN then (OSDP_ERR_TRUNCATED, out, s)
      else
        let frame_len = unat (osdp_pack_read_u16le (drop 2 (st_buffer s))) in
        if frame_len < OSDP_FRAME_MIN_LEN_CKSUM \<or> frame_len > OSDP_FRAME_MAX_LEN
          then (OSDP_ERR_BAD_LENGTH, out, osdp_stream_consume s 1)
        else if st_fill s < frame_len then (OSDP_ERR_TRUNCATED, out, s)
        else
          let (r, out') = osdp_frame_decode (Some (st_buffer s)) frame_len out in
          if r \<noteq> OSDP_OK then (r, out', osdp_stream_consume s 1)
          else (OSDP_OK, out', s\<lparr>st_pending_consume := frame_len\<rparr>))"

section \<open>Every step makes progress\<close>

lemma consume_fill [simp]: "st_fill (osdp_stream_consume s n) = st_fill s - n"
  by (simp add: osdp_stream_consume_def)

lemma consume_pending [simp]: "st_pending_consume (osdp_stream_consume s n) = st_pending_consume s"
  by (simp add: osdp_stream_consume_def)

lemma apply_pending_fill [simp]:
  "st_fill (osdp_stream_apply_pending s) = osdp_stream_pending s"
  "st_pending_consume (osdp_stream_apply_pending s) = 0"
  by (simp_all add: osdp_stream_apply_pending_def osdp_stream_pending_def)

lemma resync_fill [simp]:
  "st_fill (snd (osdp_stream_resync_to_som s))
     = st_fill s - resync_index (st_buffer s) (st_fill s) 0"
  "st_pending_consume (snd (osdp_stream_resync_to_som s)) = st_pending_consume s"
  by (simp_all add: osdp_stream_resync_to_som_def Let_def)

lemma stream_pending_eq: "osdp_stream_pending s = st_fill s - st_pending_consume s"
  by (simp add: osdp_stream_pending_def)

lemma stream_next_pending:
  "osdp_stream_pending (snd (snd (osdp_stream_next s out))) \<le> osdp_stream_pending s"
  "fst (osdp_stream_next s out) \<noteq> OSDP_ERR_TRUNCATED \<Longrightarrow>
     osdp_stream_pending (snd (snd (osdp_stream_next s out))) < osdp_stream_pending s"
proof -
  obtain s1 where s1: "snd (osdp_stream_resync_to_som (osdp_stream_apply_pending s)) = s1"
    by blast
  then have "st_fill s1 \<le> osdp_stream_pending s" "st_pending_consume s1 = 0"
    by auto
  then show "osdp_stream_pending (snd (snd (osdp_stream_next s out))) \<le> osdp_stream_pending s"
    "fst (osdp_stream_next s out) \<noteq> OSDP_ERR_TRUNCATED \<Longrightarrow>
     osdp_stream_pending (snd (snd (osdp_stream_next s out))) < osdp_stream_pending s"
    unfolding osdp_stream_next_def s1 Let_def
    by (auto simp: stream_pending_eq split: prod.split)
qed

section \<open>The byte queue behind the array\<close>

definition stream_wf :: "osdp_stream \<Rightarrow> bool" where
  "stream_wf s \<longleftrightarrow> length (st_buffer s) = OSDP_STREAM_BUFFER_LEN \<and>
     st_fill s \<le> OSDP_STREAM_BUFFER_LEN \<and> st_pending_consume s \<le> st_fill s"

definition stream_live :: "osdp_stream \<Rightarrow> bytes" where
  "stream_live s = drop (st_pending_consume s) (take (st_fill s) (st_buffer s))"

lemma stream_live_length: "stream_wf s \<Longrightarrow> length (stream_live s) = osdp_stream_pending s"
  by (auto simp: stream_wf_def stream_live_def stream_pending_eq)

lemma consume_wf: "stream_wf s \<Longrightarrow> st_pending_consume s = 0 \<Longrightarrow> stream_wf (osdp_stream_consume s n)"
  by (auto simp: stream_wf_def osdp_stream_consume_def)

lemma consume_live:
  assumes "stream_wf s" "st_pending_consume s = 0"
  shows "stream_live (osdp_stream_consume s n) = drop n (stream_live s)"
proof -
  have "n < st_fill s \<Longrightarrow> take (st_fill s - n) (drop n (st_buffer s)) = drop n (take (st_fill s) (st_buffer s))"
    by (simp add: drop_take)
  then show ?thesis
    using assms by (auto simp: stream_wf_def stream_live_def osdp_stream_consume_def)
qed

lemma apply_pending_wf: "stream_wf s \<Longrightarrow> stream_wf (osdp_stream_apply_pending s)"
  by (auto simp: stream_wf_def osdp_stream_apply_pending_def osdp_stream_consume_def)

lemma apply_pending_live:
  assumes "stream_wf s"
  shows "stream_live (osdp_stream_apply_pending s) = stream_live s"
proof -
  have "stream_live (osdp_stream_consume s n\<lparr>st_pending_consume := 0\<rparr>) =
      drop n (take (st_fill s) (st_buffer s))" for n
    using assms by (auto simp: stream_wf_def stream_live_def osdp_stream_consume_def drop_take)
  then show ?thesis
    by (simp add: osdp_stream_apply_pending_def stream_live_def)
qed

text \<open>What a feed leaves of a queue: as many of the latest bytes as the array holds.\<close>

definition queue_feed :: "bytes \<Rightarrow> bytes \<Rightarrow> bytes" where
  "queue_feed q data = drop (length (q @ data) - OSDP_STREAM_BUFFER_LEN) (q @ data)"

lemma queue_feed_chunk:
  assumes "length q + length a \<le> OSDP_STREAM_BUFFER_LEN"
  shows "queue_feed (q @ a) b = queue_feed q (a @ b)"
  by (simp add: queue_feed_def)

lemma queue_feed_drop1:
  assumes "length q = OSDP_STREAM_BUFFER_LEN" "data \<noteq> []"
  shows "queue_feed (drop 1 q) data = queue_feed q data"
  using assms by (cases data) (auto simp: queue_feed_def drop_drop)

lemma feed_loop_queue:
  assumes "stream_wf s" "st_pending_consume s = 0"
  shows "stream_wf (feed_loop s data) \<and> st_pending_consume (feed_loop s data) = 0 \<and>
    stream_live (feed_loop s data) = queue_feed (stream_live s) data"
  using assms
proof (induction s data rule: feed_loop.induct)
  case (1 s data)
  show ?case
  proof (cases "data = []")
    case True
    then show ?thesis
      using 1(2,3) by (auto simp: feed_loop.simps queue_feed_def stream_wf_def stream_live_def)
  next
    case False
    define s1 where "s1 = (if OSDP_STREAM_BUFFER_LEN - st_fill s = 0 then osdp_stream_consume s 1 else s)"
    define k where "k = (if length data < OSDP_STREAM_BUFFER_LEN - st_fill s1 then length data
       else OSDP_STREAM_BUFFER_LEN - st_fill s1)"
    define s2 where "s2 = s1\<lparr>st_buffer := take (st_fill s1) (st_buffer s1) @ take k data
           @ drop (st_fill s1 + k) (st_buffer s1), st_fill := st_fill s1 + k\<rparr>"
    have s1: "stream_wf s1" "st_pending_consume s1 = 0"
      using 1(2,3) consume_wf by (auto simp: s1_def)
    have "length (stream_live s) = st_fill s"
      using 1(2,3) stream_live_length by (simp add: stream_pending_eq)
    then have q1: "queue_feed (stream_live s1) data = queue_feed (stream_live s) data"
      using 1(2,3) False consume_live [OF 1(2,3), of 1] queue_feed_drop1 [of "stream_live s" data]
      by (auto simp: s1_def stream_wf_def)
    have k: "k \<le> length data" "st_fill s1 + k \<le> OSDP_STREAM_BUFFER_LEN"
      using s1(1) by (auto simp: k_def stream_wf_def)
    have s2: "stream_wf s2" "st_pending_consume s2 = 0" "stream_live s2 = stream_live s1 @ take k data"
      using s1 k by (auto simp: s2_def stream_wf_def stream_live_def)
    have "\<not> (data = [] \<or> st_fill s > OSDP_STREAM_BUFFER_LEN)"
      using False 1(2) by (simp add: stream_wf_def)
    note IH = 1(1) [OF this s1_def refl k_def, folded s2_def, OF s2(1,2)]
    have "feed_loop s data = feed_loop s2 (drop k data)"
      using False 1(2) by (subst feed_loop.simps) (simp add: Let_def s2_def k_def s1_def stream_wf_def)
    moreover have "queue_feed (stream_live s2) (drop k data) = queue_feed (stream_live s1) data"
      using queue_feed_chunk [of "stream_live s1" "take k data" "drop k data"] s1 k s2(3)
        stream_live_length [OF s1(1)]
      by (simp add: stream_pending_eq)
    ultimately show ?thesis
      using IH q1 by simp
  qed
qed

lemma resync_index_eq:
  assumes "fill \<le> length b" "i \<le> fill"
  shows "resync_index b fill i = i + length (takeWhile (\<lambda>x. x \<noteq> OSDP_SOM) (drop i (take fill b)))"
  using assms
proof (induction b fill i rule: resync_index.induct)
  case (1 b fill i)
  show ?case
  proof (cases "i < fill")
    case True
    then have "drop i (take fill b) = b ! i # drop (Suc i) (take fill b)"
      using 1(2) by (metis Cons_nth_drop_Suc length_take min.absorb2 nth_take)
    then show ?thesis
      using 1 True by (subst resync_index.simps) simp
  qed (use 1 in \<open>simp add: resync_index.simps\<close>)
qed

lemma resync_live:
  assumes "stream_wf s" "st_pending_consume s = 0"
  defines "s1 \<equiv> snd (osdp_stream_resync_to_som s)"
  shows "stream_wf s1" "st_pending_consume s1 = 0"
    "stream_live s1 = dropWhile (\<lambda>x. x \<noteq> OSDP_SOM) (stream_live s)"
proof -
  have i: "resync_index (st_buffer s) (st_fill s) 0 = length (takeWhile (\<lambda>x. x \<noteq> OSDP_SOM) (stream_live s))"
    using assms(1,2) resync_index_eq [of "st_fill s" "st_buffer s" 0]
    by (simp add: stream_wf_def stream_live_def)
  have s1: "s1 = osdp_stream_consume s (length (takeWhile (\<lambda>x. x \<noteq> OSDP_SOM) (stream_live s)))"
    unfolding s1_def osdp_stream_resync_to_som_def Let_def i by (simp add: osdp_stream_consume_def)
  show "stream_wf s1" "st_pending_consume s1 = 0"
    using assms(1,2) by (simp_all add: s1 consume_wf)
  show "stream_live s1 = dropWhile (\<lambda>x. x \<noteq> OSDP_SOM) (stream_live s)"
    by (simp add: s1 consume_live assms(1,2) dropWhile_eq_drop)
qed

text \<open>The next frame of a queue of bytes.\<close>

definition queue_next :: "bytes \<Rightarrow> osdp_frame \<Rightarrow> osdp_status \<times> osdp_frame \<times> bytes" where
  "queue_next q out =
     (let q1 = dropWhile (\<lambda>x. x \<noteq> OSDP_SOM) q in
      if length q1 < OSDP_FRAME_HEADER_LEN then (OSDP_ERR_TRUNCATED, out, q1)
      else
        let n = unat (osdp_pack_read_u16le (drop 2 q1)) in
        if n < OSDP_FRAME_MIN_LEN_CKSUM \<or> n > OSDP_FRAME_MAX_LEN then (OSDP_ERR_BAD_LENGTH, out, tl q1)
        else if length q1 < n then (OSDP_ERR_TRUNCATED, out, q1)
        else
          let (r, out') = osdp_frame_decode (Some (take n q1)) n out in
          if r \<noteq> OSDP_OK then (r, out', tl q1) else (OSDP_OK, out', drop n q1))"

lemma live_no_pending:
  assumes "stream_wf s" "st_pending_consume s = 0"
  shows "length (stream_live s) = st_fill s" "n \<le> st_fill s \<Longrightarrow> take n (stream_live s) = take n (st_buffer s)"
    "5 \<le> st_fill s \<Longrightarrow> osdp_pack_read_u16le (drop 2 (st_buffer s)) = osdp_pack_read_u16le (drop 2 (stream_live s))"
  using assms
  by (auto simp: stream_wf_def stream_live_def min_absorb1 osdp_pack_read_u16le_def)

lemma osdp_stream_next_queue:
  assumes "stream_wf s" "osdp_stream_next s out = (st, out', s')"
  shows "stream_wf s'" "queue_next (stream_live s) out = (st, out', stream_live s')"
proof -
  define s1 where "s1 = snd (osdp_stream_resync_to_som (osdp_stream_apply_pending s))"
  have s1: "stream_wf s1" "st_pending_consume s1 = 0"
    "dropWhile (\<lambda>x. x \<noteq> OSDP_SOM) (stream_live s) = stream_live s1"
    using resync_live [of "osdp_stream_apply_pending s"] apply_pending_wf [OF assms(1)]
      apply_pending_live [OF assms(1)]
    by (simp_all add: s1_def)
  note live = live_no_pending [OF s1(1,2)]
  let ?n = "unat (osdp_pack_read_u16le (drop 2 (st_buffer s1)))"
  have dec: "osdp_frame_decode (Some (st_buffer s1)) n out = osdp_frame_decode (Some (take n (stream_live s1))) n out"
    if "n \<le> st_fill s1" for n
    using that s1(1) frame_decode_take [of n "st_buffer s1" out] live(2) [OF that]
    by (simp add: osdp_frame_decode_def stream_wf_def)
  have c: "stream_wf (osdp_stream_consume s1 1)" "stream_live (osdp_stream_consume s1 1) = tl (stream_live s1)"
    using consume_wf consume_live s1 by (simp_all add: drop_Suc)
  have p: "stream_wf (s1\<lparr>st_pending_consume := n\<rparr>)"
    "stream_live (s1\<lparr>st_pending_consume := n\<rparr>) = drop n (stream_live s1)" if "n \<le> st_fill s1" for n
    using that s1(1,2) by (auto simp: stream_wf_def stream_live_def)
  show "stream_wf s'" "queue_next (stream_live s) out = (st, out', stream_live s')"
    using assms(2) s1(1) c p dec
    unfolding osdp_stream_next_def queue_next_def s1_def [symmetric] s1(3) Let_def live(1)
    by (auto simp: live(3) split: if_splits prod.splits)
qed

lemma built_frame_bytes:
  assumes "osdp_frame_build f cap = Inr w" "frame_ptrs_ok f"
  shows "w = OSDP_FRAME_MARK # tl w" "\<exists>bs. tl w = OSDP_SOM # bs"
    "unat (osdp_pack_read_u16le (drop 2 (tl w @ rest))) = length (tl w)"
    "7 \<le> length (tl w)" "length (tl w) \<le> OSDP_FRAME_MAX_LEN"
proof -
  obtain tot where b: "buildable f tot"
    and w: "w = OSDP_FRAME_MARK # build_body f tot (frame_mac_needed f)
             @ check_bytes (fr_integrity f) (build_body f tot (frame_mac_needed f))"
    using assms(1) by (auto simp: osdp_frame_build_eq)
  have len: "length (tl w) = tot"
    unfolding w list.sel length_append length_check_bytes
    by (rule buildable_layout(2) [OF b assms(2), symmetric])
  have tot: "tot \<le> 1440" "7 \<le> tot"
    using b by (auto simp: buildable_def integrity_size_def)
  have "osdp_pack_read_u16le (drop 2 (tl w @ rest)) = word_of_nat tot"
    unfolding w list.sel build_body_layout append_assoc by (rule frame_body_len_field)
  with len tot show "unat (osdp_pack_read_u16le (drop 2 (tl w @ rest))) = length (tl w)"
    "7 \<le> length (tl w)" "length (tl w) \<le> OSDP_FRAME_MAX_LEN"
    by (simp_all add: unat_of_nat_u16)
  show "w = OSDP_FRAME_MARK # tl w" "\<exists>bs. tl w = OSDP_SOM # bs"
    by (simp_all add: w build_body_def)
qed

lemma queue_next_built:
  assumes "osdp_frame_build f cap = Inr w" "frame_ptrs_ok f" "OSDP_SOM \<notin> set g"
  shows "queue_next (g @ tl w @ rest) out = (OSDP_OK, as_received f (tl w), rest)"
proof -
  note w = built_frame_bytes [OF assms(1,2)]
  have q: "dropWhile (\<lambda>x. x \<noteq> OSDP_SOM) (g @ tl w @ rest) = tl w @ rest"
    using assms(3) w(2) by (subst dropWhile_append2) auto
  have "osdp_frame_decode (Some (tl w)) (length (tl w)) out = (OSDP_OK, as_received f (tl w))"
    using build_decode [OF assms(1,2), of out] by (simp add: osdp_frame_decode_def)
  then show ?thesis
    unfolding queue_next_def q Let_def w(3) using w(4,5) by simp
qed

section \<open>The interface of a frame source\<close>

locale frame_source =
  fixes wf :: "'s \<Rightarrow> bool"
    and live :: "'s \<Rightarrow> bytes"
    and feed :: "'s \<Rightarrow> bytes_ptr \<Rightarrow> nat \<Rightarrow> osdp_status \<times> 's"
    and next_frame :: "'s \<Rightarrow> osdp_frame \<Rightarrow> osdp_status \<times> osdp_frame \<times> 's"
  assumes feed_wf: "wf s \<Longrightarrow> wf (snd (feed s (Some data) (length data)))"
    and feed_live: "wf s \<Longrightarrow> live (snd (feed s (Some data) (length data))) = queue_feed (live s) data"
    and next_wf: "wf s \<Longrightarrow> next_frame s out = (st, out', s') \<Longrightarrow> wf s'"
    and next_live: "wf s \<Longrightarrow> next_frame s out = (st, out', s') \<Longrightarrow>
      queue_next (live s) out = (st, out', live s')"
begin

text \<open>A frame behind bytes that cannot start one is delivered, and the rest of the queue kept.\<close>

lemma next_built:
  assumes "wf s" "live s = g @ tl w @ rest" "OSDP_SOM \<notin> set g"
    and "osdp_frame_build f cap = Inr w" "frame_ptrs_ok f"
  obtains s' where "next_frame s out = (OSDP_OK, as_received f (tl w), s')" "wf s'" "live s' = rest"
proof -
  obtain st out' s' where n: "next_frame s out = (st, out', s')"
    using prod_cases3 by blast
  have "(st, out', live s') = (OSDP_OK, as_received f (tl w), rest)"
    using next_live [OF assms(1) n] queue_next_built [OF assms(4,5,3), of rest out] assms(2) by simp
  with that [of s'] n next_wf [OF assms(1) n] show thesis by simp
qed

text \<open>On an empty queue there is nothing to deliver.\<close>

lemma next_empty:
  assumes "wf s" "live s = []"
  obtains s' where "next_frame s out = (OSDP_ERR_TRUNCATED, out, s')"
proof -
  obtain st out' s' where n: "next_frame s out = (st, out', s')"
    using prod_cases3 by blast
  with next_live [OF assms(1) n] assms(2) that show thesis
    by (simp add: queue_next_def)
qed

text \<open>Feeding keeps the latest bytes that fit.\<close>

lemma feed_append:
  assumes "wf s" "length (live s) + length data \<le> OSDP_STREAM_BUFFER_LEN"
  shows "live (snd (feed s (Some data) (length data))) = live s @ data"
  using assms by (simp add: feed_live queue_feed_def)

end

lemma feed_wf_any: "stream_wf s \<Longrightarrow> stream_wf (snd (osdp_stream_feed s p n))"
  using feed_loop_queue [OF apply_pending_wf]
  by (auto simp: osdp_stream_feed_def osdp_stream_apply_pending_def split: option.splits)

interpretation rx: frame_source stream_wf stream_live osdp_stream_feed osdp_stream_next
proof
  fix s :: osdp_stream and data
  assume wf: "stream_wf s"
  note ap = apply_pending_wf [OF wf] apply_pending_live [OF wf]
  have len: "length (stream_live s) \<le> 1440"
    using wf by (auto simp: stream_wf_def stream_live_def)
  show "stream_wf (snd (osdp_stream_feed s (Some data) (length data)))"
    using feed_loop_queue [of "osdp_stream_apply_pending s" data] ap wf
    by (simp add: osdp_stream_feed_def)
  show "stream_live (snd (osdp_stream_feed s (Some data) (length data))) = queue_feed (stream_live s) data"
    using feed_loop_queue [of "osdp_stream_apply_pending s" data] ap len
    by (auto simp: osdp_stream_feed_def queue_feed_def)
qed (auto dest: osdp_stream_next_queue)

section \<open>Draining a stream\<close>

text \<open>The receive loop the header prescribes: take frames until the stream reports that it needs more
  bytes. The list holds every status and frame the loop body sees.\<close>

function stream_drain :: "osdp_stream \<Rightarrow> osdp_frame \<Rightarrow> (osdp_status \<times> osdp_frame) list \<times> osdp_stream" where
  "stream_drain s f =
     (let (r, f', s') = osdp_stream_next s f in
      if r = OSDP_ERR_TRUNCATED then ([], s')
      else let (l, s'') = stream_drain s' f' in ((r, f') # l, s''))"
  by pat_completeness auto
termination
proof (relation "measure (\<lambda>(s, f). osdp_stream_pending s)", goal_cases)
  case (2 s f x r y f' s')
  then show ?case
    using stream_next_pending(2) [of s f] by (cases "osdp_stream_next s f") auto
qed simp

declare stream_drain.simps [simp del]

lemma stream_drain_built:
  assumes "stream_wf s" "stream_live s = concat (map snd fws)"
    and "\<forall>(f, w) \<in> set fws. frame_ptrs_ok f \<and> (\<exists>cap. osdp_frame_build f cap = Inr w)"
  shows "fst (stream_drain s out) = map (\<lambda>(f, w). (OSDP_OK, as_received f (tl w))) fws"
  using assms
proof (induction fws arbitrary: s out)
  case Nil
  then obtain s' where "osdp_stream_next s out = (OSDP_ERR_TRUNCATED, out, s')"
    using rx.next_empty [of s out] by auto
  then show ?case
    by (simp add: stream_drain.simps)
next
  case (Cons fw fws)
  obtain f w where fw: "fw = (f, w)" by force
  with Cons.prems(3) obtain cap where b: "osdp_frame_build f cap = Inr w" "frame_ptrs_ok f"
    by auto
  have "stream_live s = [OSDP_FRAME_MARK] @ tl w @ concat (map snd fws)"
    using Cons.prems(2) fw built_frame_bytes(1) [OF b] by simp
  then obtain s' where "osdp_stream_next s out = (OSDP_OK, as_received f (tl w), s')"
    "stream_wf s'" "stream_live s' = concat (map snd fws)"
    using rx.next_built [OF Cons.prems(1) _ _ b, of "[OSDP_FRAME_MARK]" "concat (map snd fws)" out]
    by auto
  with Cons.IH [of s' "as_received f (tl w)"] Cons.prems(3) fw show ?case
    by (subst stream_drain.simps) (auto split: prod.split)
qed

text \<open>One frame and nothing else.\<close>

lemma stream_one_frame:
  assumes "stream_wf s" "stream_live s = b" "osdp_frame_build f cap = Inr b" "frame_ptrs_ok f"
  obtains rx1 rx2 where "stream_wf rx1" "stream_live rx1 = []" "stream_wf rx2" "stream_live rx2 = []"
    "osdp_stream_next s zero_frame = (OSDP_OK, as_received f (tl b), rx1)"
    "osdp_stream_next rx1 zero_frame = (OSDP_ERR_TRUNCATED, zero_frame, rx2)"
proof -
  have "stream_live s = [OSDP_FRAME_MARK] @ tl b @ []"
    using assms(2) built_frame_bytes(1) [OF assms(3,4)] by simp
  then obtain rx1 where n1: "osdp_stream_next s zero_frame = (OSDP_OK, as_received f (tl b), rx1)"
      "stream_wf rx1" "stream_live rx1 = []"
    using rx.next_built [OF assms(1) _ _ assms(3,4), of "[OSDP_FRAME_MARK]" "[]" zero_frame] by auto
  obtain rx2 where n2: "osdp_stream_next rx1 zero_frame = (OSDP_ERR_TRUNCATED, zero_frame, rx2)"
    by (rule rx.next_empty [OF n1(2,3)])
  have "stream_wf rx2" "stream_live rx2 = []"
    using rx.next_wf [OF n1(2) n2] rx.next_live [OF n1(2) n2] n1(3) by (simp_all add: queue_next_def)
  with that n1 n2 show ?thesis by blast
qed

section \<open>Properties\<close>

definition ex_stream :: osdp_stream where
  "ex_stream = osdp_stream_init \<lparr>st_buffer = replicate 1440 0, st_fill = 7, st_pending_consume = 0\<rparr>"

lemma ex_stream_wf: "stream_wf ex_stream" "stream_live ex_stream = []"
  by (simp_all add: ex_stream_def osdp_stream_init_def stream_wf_def stream_live_def)

text \<open>The array stream implements a bounded byte queue. A feed keeps the invariant (the fill level
  stays inside the array) and leaves the queue followed by the new bytes, of which the oldest
  are dropped when they exceed the array.\<close>

theorem stream_feed_refines:
  assumes "stream_wf s"
  shows "fst (osdp_stream_feed s (Some data) (length data)) = OSDP_OK \<and>
    stream_wf (snd (osdp_stream_feed s (Some data) (length data))) \<and>
    stream_live (snd (osdp_stream_feed s (Some data) (length data))) = queue_feed (stream_live s) data"
  using rx.feed_wf [OF assms] rx.feed_live [OF assms] by (simp add: osdp_stream_feed_def)

theorem stream_feed_refines_witness:
  "stream_live (snd (osdp_stream_feed ex_stream (Some [1, 2, 3]) 3)) = [1, 2, 3]"
  using stream_feed_refines [OF ex_stream_wf(1), of "[1, 2, 3]"] ex_stream_wf(2)
  by (simp add: queue_feed_def eval_nat_numeral)

text \<open>Taking a frame from the stream is taking a frame from the queue: status, frame and remaining
  bytes agree with \<open>queue_next\<close>, whatever the array still holds behind the fill level, and the
  invariant is kept.\<close>

theorem stream_next_refines:
  assumes "stream_wf s" and "osdp_stream_next s out = (st, out', s')"
  shows "stream_wf s' \<and> queue_next (stream_live s) out = (st, out', stream_live s')"
  using rx.next_wf [OF assms] rx.next_live [OF assms] by simp

theorem stream_next_refines_witness:
  "\<exists>s'. osdp_stream_next ex_stream zero_frame = (OSDP_ERR_TRUNCATED, zero_frame, s') \<and> stream_wf s'"
proof -
  obtain s' where n: "osdp_stream_next ex_stream zero_frame = (OSDP_ERR_TRUNCATED, zero_frame, s')"
    using rx.next_empty [OF ex_stream_wf] by metis
  with stream_next_refines [OF ex_stream_wf(1) n] show ?thesis by blast
qed

text \<open>C19. Back-to-back frames are delivered completely and in order: if the stream holds the wire images
  of any list of buildable frames, marking bytes included, the receive loop terminates after
  yielding exactly those frames.\<close>

theorem stream_delivers_all:
  assumes "stream_wf s" and "stream_live s = []"
    and "\<forall>(f, w) \<in> set fws. frame_ptrs_ok f \<and> (\<exists>cap. osdp_frame_build f cap = Inr w)"
    and "length (concat (map snd fws)) \<le> OSDP_STREAM_BUFFER_LEN"
  shows "fst (stream_drain (snd (osdp_stream_feed s (Some (concat (map snd fws)))
            (length (concat (map snd fws))))) out)
       = map (\<lambda>(f, w). (OSDP_OK, as_received f (tl w))) fws"
  using assms rx.feed_append [of s "concat (map snd fws)"]
  by (intro stream_drain_built rx.feed_wf) simp_all

theorem stream_delivers_all_witness:
  "fst (stream_drain (snd (osdp_stream_feed ex_stream (Some (ex_wire @ ex_wire)) 28)) zero_frame)
     = [(OSDP_OK, as_received ex_frame (tl ex_wire)), (OSDP_OK, as_received ex_frame (tl ex_wire))]"
  using stream_delivers_all [OF ex_stream_wf, of "[(ex_frame, ex_wire), (ex_frame, ex_wire)]" zero_frame]
    ex_frame_ptrs ex_wire_value(1) ex_wire_length(3)
  by auto

text \<open>C31. The receive loop always makes progress: a call that reports anything but a truncated stream has
  consumed at least one byte, and no call ever adds bytes. This holds in every state, so the
  loop over \<open>osdp_stream_next\<close> runs at most once per buffered byte.\<close>

theorem stream_next_progress:
  "osdp_stream_pending (snd (snd (osdp_stream_next s out)))
     + (if fst (osdp_stream_next s out) = OSDP_ERR_TRUNCATED then 0 else 1) \<le> osdp_stream_pending s"
  using stream_next_pending [of s out] by auto

text \<open>A frame that a receiver can no longer see: a header whose length field is 7 but whose control
  byte selects the CRC makes the decoder itself answer "truncated". The stream skips one byte
  and passes that status on, so the receive loop stops although the complete frame behind the
  bad header is still in the queue.\<close>

theorem stream_truncated_hides_frame:
  assumes "stream_wf s" and "stream_live s = [OSDP_SOM, a, 7, 0, OSDP_CTRL_USE_CRC, x, y] @ w"
    and "osdp_frame_build f cap = Inr w" and "frame_ptrs_ok f" "OSDP_SOM \<notin> {a, x, y}"
  shows "\<exists>s'. stream_drain s out = ([], s') \<and>
     (\<exists>s''. osdp_stream_next s' out = (OSDP_OK, as_received f (tl w), s''))"
proof -
  obtain st out' s' where n: "osdp_stream_next s out = (st, out', s')"
    using prod_cases3 by blast
  let ?q = "[a, 7, 0, OSDP_CTRL_USE_CRC, x, y, OSDP_FRAME_MARK] @ tl w"
  have "queue_next (stream_live s) out = (OSDP_ERR_TRUNCATED, out, ?q)"
    using built_frame_bytes(1) [OF assms(3,4)] unfolding assms(2)
    by (simp add: queue_next_def Let_def osdp_pack_read_u16le_def osdp_frame_decode_def
        frame_decode_bytes_def)
  then have *: "st = OSDP_ERR_TRUNCATED" "stream_live s' = ?q" "stream_wf s'"
    using rx.next_live [OF assms(1) n] rx.next_wf [OF assms(1) n] by simp_all
  have "stream_drain s out = ([], s')"
    using n *(1) by (simp add: stream_drain.simps)
  moreover obtain s'' where "osdp_stream_next s' out = (OSDP_OK, as_received f (tl w), s'')"
    by (rule rx.next_built [OF *(3) _ _ assms(3,4),
        of "[a, 7, 0, OSDP_CTRL_USE_CRC, x, y, OSDP_FRAME_MARK]" "[]" out])
      (use assms(5) *(2) in auto)
  ultimately show ?thesis by blast
qed

theorem stream_truncated_hides_frame_witness:
  "\<exists>s'. stream_drain (snd (osdp_stream_feed ex_stream
         (Some ([OSDP_SOM, 5, 7, 0, OSDP_CTRL_USE_CRC, 0, 0] @ ex_wire)) 21)) zero_frame = ([], s') \<and>
     (\<exists>s''. osdp_stream_next s' zero_frame = (OSDP_OK, as_received ex_frame (tl ex_wire), s''))"
proof (rule stream_truncated_hides_frame [OF _ _ ex_wire_value(1) ex_frame_ptrs])
  let ?d = "[OSDP_SOM, 5, 7, 0, OSDP_CTRL_USE_CRC, 0, 0] @ ex_wire"
  have "length ?d = 21" by (simp add: ex_wire_length(3))
  then show "stream_wf (snd (osdp_stream_feed ex_stream (Some ?d) 21))"
    "stream_live (snd (osdp_stream_feed ex_stream (Some ?d) 21)) = ?d"
    using rx.feed_wf [OF ex_stream_wf(1), of ?d] rx.feed_append [OF ex_stream_wf(1), of ?d] ex_stream_wf(2)
    by simp_all
qed simp

end
