(* ===== verification/Codec.thy ===== *)
theory Codec
  imports Frame
begin

text \<open>
  The contract shared by the payload codecs of \<^verbatim>\<open>core/src/commands\<close> and
  \<^verbatim>\<open>core/src/replies\<close>. A codec is a pair of a decoder, which reads a payload pointer and its
  length, and a builder, which writes a payload into a buffer of a given capacity. The locale
  \<open>payload_codec\<close> states what the two promise to each other; its lemmas show what follows for a
  message that travels inside a frame. Every codec of the two following theories is an
  interpretation of it.
\<close>

text \<open>\<open>canon x\<close> says that the pointers of \<open>x\<close> refer to exactly the bytes they name, as a decoder leaves
  them; \<open>sendable x\<close> is what the builder demands beyond that.\<close>

locale payload_codec =
  fixes decode :: "bytes_ptr \<Rightarrow> nat \<Rightarrow> 'a result"
    and build :: "'a \<Rightarrow> nat \<Rightarrow> bytes result"
    and canon :: "'a \<Rightarrow> bool"
    and sendable :: "'a \<Rightarrow> bool"
  assumes decode_build: "canon x \<Longrightarrow> build x cap = Inr bs \<Longrightarrow> decode (ptr_of bs) (length bs) = Inr x"
    and build_decode: "decode (ptr_of bs) (length bs) = Inr x \<Longrightarrow> sendable x \<Longrightarrow> length bs \<le> cap
      \<Longrightarrow> build x cap = Inr bs"
    and build_cap: "canon x \<Longrightarrow> build x cap = Inr bs \<Longrightarrow> length bs \<le> cap \<and> sendable x"
    and decode_canon: "decode (ptr_of bs) (length bs) = Inr x \<Longrightarrow> canon x"
begin

text \<open>No two messages have the same payload, and no two payloads mean the same message.\<close>

lemma build_inj:
  assumes "canon x" "canon y" "build x cap = Inr bs" "build y cap' = Inr bs"
  shows "x = y"
  using decode_build [OF assms(1,3)] decode_build [OF assms(2,4)] by simp

lemma decode_inj:
  assumes "decode (ptr_of bs) (length bs) = Inr x" "decode (ptr_of bs') (length bs') = Inr x" "sendable x"
  shows "bs = bs'"
  using build_decode [OF assms(1,3), of "max (length bs) (length bs')"]
    build_decode [OF assms(2,3), of "max (length bs) (length bs')"]
  by simp

text \<open>A message put into a frame arrives at the decoder of the other side.\<close>

lemma through_frame:
  assumes "canon x" "build x cap = Inr bs" and "frame_ptrs_ok f"
    and "osdp_frame_build (f\<lparr>fr_payload := Some bs, fr_payload_len := length bs\<rparr>) cap' = Inr w"
  shows "\<exists>g. osdp_frame_decode (Some (tl w)) (length w - 1) out = (OSDP_OK, g) \<and>
    fr_code g = fr_code f \<and> decode (fr_payload g) (fr_payload_len g) = Inr x"
proof -
  let ?f = "f\<lparr>fr_payload := Some bs, fr_payload_len := length bs\<rparr>"
  have "frame_ptrs_ok ?f"
    using assms(3) by (simp add: frame_ptrs_ok_def ptr_holds_def)
  then have "osdp_frame_decode (Some (tl w)) (length w - 1) out = (OSDP_OK, as_received ?f (tl w))"
    using Frame.build_decode [OF assms(4)] by (simp add: osdp_frame_decode_def)
  moreover have "ptr_bytes (Some bs) (length bs) = bs"
    by (simp add: ptr_bytes_def)
  ultimately show ?thesis
    using decode_build [OF assms(1,2)] by (simp add: as_received_def)
qed

end

section \<open>Shared facts about short byte lists\<close>

lemma list_of_length:
  "length bs = Suc 0 \<Longrightarrow> \<exists>a. bs = [a]"
  "length bs = 2 \<Longrightarrow> \<exists>a b. bs = [a, b]"
  "length bs = 5 \<Longrightarrow> \<exists>a b c d e. bs = [a, b, c, d, e]"
  "length bs = 7 \<Longrightarrow> \<exists>a b c d e f g. bs = [a, b, c, d, e, f, g]"
  "length bs = 12 \<Longrightarrow> \<exists>a b c d e f g h i j k l. bs = [a, b, c, d, e, f, g, h, i, j, k, l]"
  by (auto simp: length_Suc_conv eval_nat_numeral)

lemma ptr_of_Cons [simp]: "ptr_of (a # bs) = Some (a # bs)" "ptr_of [] = None"
  by (simp_all add: ptr_of_def)

lemma ptr_of_write [simp]:
  "ptr_of (osdp_pack_write_u16le v) = Some (osdp_pack_write_u16le v)" "osdp_pack_write_u16le v \<noteq> []"
  by (simp_all add: osdp_pack_write_u16le_def)

section \<open>Lists of fixed-size records\<close>

text \<open>Several payloads are arrays of records of \<open>k\<close> bytes each. \<open>read_records\<close> is the loop of their
  decoders, \<open>concat (map enc rs)\<close> the loop of their builders.\<close>

definition read_records :: "nat \<Rightarrow> (bytes \<Rightarrow> 'r) \<Rightarrow> bytes \<Rightarrow> nat \<Rightarrow> 'r list" where
  "read_records k dec payload count = map (\<lambda>i. dec (drop (i * k) payload)) [0..<count]"

lemma read_records_0 [simp]: "read_records k dec payload 0 = []"
  by (simp add: read_records_def)

lemma read_records_Suc:
  "read_records k dec payload (Suc n) = dec payload # read_records k dec (drop k payload) n"
  by (simp add: read_records_def map_upt_Suc add.commute del: upt_Suc)

lemma length_concat_records:
  "\<forall>r. length (enc r) = k \<Longrightarrow> length (concat (map enc rs)) = length rs * k"
  by (induction rs) auto

lemma read_concat_records:
  assumes "\<forall>r. length (enc r) = k" "\<forall>r rest. dec (enc r @ rest) = r"
  shows "read_records k dec (concat (map enc rs)) (length rs) = rs"
  using assms by (induction rs) (simp_all add: read_records_Suc)

lemma concat_read_records:
  assumes "length payload = n * k" "\<forall>p. k \<le> length p \<longrightarrow> enc (dec p) = take k p"
  shows "concat (map enc (read_records k dec payload n)) = payload"
  using assms
proof (induction n arbitrary: payload)
  case (Suc n)
  then show ?case
    by (simp add: read_records_Suc)
qed simp

text \<open>The contract for a codec of such an array; \<open>empty_ok\<close> tells whether it admits an empty one.\<close>

lemma payload_codec_records:
  assumes enc: "\<And>r. length (enc r) = k" "\<And>r rest. dec (enc r @ rest) = r" "0 < k"
    and dec: "\<And>p. k \<le> length p \<Longrightarrow> enc (dec p) = take k p"
    and decode: "\<And>p n. decode p n =
      (if (n = 0 \<and> \<not> empty_ok) \<or> n mod k \<noteq> 0 then Inl OSDP_ERR_BAD_PAYLOAD
       else if n > 0 \<and> p = None then Inl OSDP_ERR_BAD_PAYLOAD
       else Inr (read_records k dec (the p) (n div k)))"
    and build: "\<And>rs cap. build rs cap =
      (if rs = [] \<and> \<not> empty_ok then Inl OSDP_ERR_INVALID_ARG
       else if length rs * k > cap then Inl OSDP_ERR_BUFFER_TOO_SMALL
       else Inr (concat (map enc rs)))"
  shows "payload_codec decode build (\<lambda>_. True) (\<lambda>rs. rs \<noteq> [] \<or> empty_ok)"
proof
  fix rs cap bs
  assume "build rs cap = Inr bs"
  then have b: "concat (map enc rs) = bs" "rs \<noteq> [] \<or> empty_ok" "length rs * k \<le> cap"
    by (auto simp: build split: if_splits)
  have l: "length bs = length rs * k"
    using enc(1) by (simp add: length_concat_records flip: b(1))
  have "read_records k dec bs (length rs) = rs"
    using read_concat_records [of enc k dec rs] enc by (simp add: b(1))
  moreover have "bs \<noteq> [] \<longleftrightarrow> rs \<noteq> []"
    using l enc(3) by auto
  ultimately show "decode (ptr_of bs) (length bs) = Inr rs"
    using b(2) enc(3) by (cases "rs = []") (auto simp: decode l ptr_of_def)
  show "length bs \<le> cap \<and> (rs \<noteq> [] \<or> empty_ok)"
    using l b by simp
next
  fix bs rs cap
  assume "decode (ptr_of bs) (length bs) = Inr rs" "length bs \<le> cap" "rs \<noteq> [] \<or> empty_ok"
  then have b: "length bs mod k = 0" "rs = read_records k dec (the (ptr_of bs)) (length bs div k)"
    by (auto simp: decode split: if_splits)
  then have "rs = read_records k dec bs (length bs div k)"
    by (cases "bs = []") (simp_all add: ptr_of_def)
  then have "concat (map enc rs) = bs" "length rs * k = length bs"
    using concat_read_records [of bs "length bs div k" k enc dec] dec b(1)
    by (auto simp: read_records_def)
  then show "build rs cap = Inr bs"
    using \<open>length bs \<le> cap\<close> \<open>rs \<noteq> [] \<or> empty_ok\<close> by (simp add: build)
qed simp

section \<open>A fixed header and a variable tail\<close>

text \<open>The other variable-length payloads are \<open>k\<close> header bytes followed by a tail, whose length the
  header may have to announce (\<open>fits\<close>). \<open>mk\<close> is the structure the decoder fills, and \<open>hdr\<close>, \<open>ptr\<close>
  and \<open>len\<close> are its header bytes, tail pointer and tail length.\<close>

lemma payload_codec_tail:
  assumes k: "0 < k"
    and short: "\<And>bs. length bs < k \<Longrightarrow> \<exists>e. decode (ptr_of bs) (length bs) = Inl e"
    and decode: "\<And>h t. length h = k \<Longrightarrow> decode (Some (h @ t)) (length h + length t) =
      (if fits h (length t) then Inr (mk h t) else Inl OSDP_ERR_BAD_PAYLOAD)"
    and build: "\<And>x cap. build x cap =
      (if \<not> fits (hdr x) (len x) then Inl OSDP_ERR_INVALID_ARG
       else if len x > 0 \<and> ptr x = None then Inl OSDP_ERR_INVALID_ARG
       else if k + len x > cap then Inl OSDP_ERR_BUFFER_TOO_SMALL
       else Inr (hdr x @ ptr_bytes (ptr x) (len x)))"
    and hdr: "\<And>x. okx x \<Longrightarrow> length (hdr x) = k"
    and mk: "\<And>x t. okx x \<Longrightarrow> ptr x = ptr_of t \<Longrightarrow> len x = length t \<Longrightarrow> fits (hdr x) (len x)
      \<Longrightarrow> mk (hdr x) t = x"
    and sel: "\<And>h t. length h = k \<Longrightarrow> fits h (length t) \<Longrightarrow> okx (mk h t) \<and> hdr (mk h t) = h
      \<and> ptr (mk h t) = ptr_of t \<and> len (mk h t) = length t"
  shows "payload_codec decode build (\<lambda>x. okx x \<and> (\<exists>d. ptr x = ptr_of d \<and> len x = length d)) (\<lambda>_. True)"
proof
  fix x cap bs
  assume "okx x \<and> (\<exists>d. ptr x = ptr_of d \<and> len x = length d)" and b: "build x cap = Inr bs"
  then obtain d where d: "okx x" "ptr x = ptr_of d" "len x = length d" by blast
  with b have bs: "bs = hdr x @ d" "fits (hdr x) (len x)" "k + len x \<le> cap"
    by (auto simp: build split: if_splits)
  then have "bs \<noteq> []" "length bs = k + len x"
    using hdr [OF d(1)] d(3) k by auto
  then show "decode (ptr_of bs) (length bs) = Inr x"
    using decode [OF hdr [OF d(1)], of d] mk [OF d bs(2)] bs d(3)
    by (auto simp: ptr_of_def)
  show "length bs \<le> cap \<and> True"
    using \<open>length bs = k + len x\<close> bs(3) by simp
next
  fix bs x
  assume x: "decode (ptr_of bs) (length bs) = Inr x"
  have "k \<le> length bs"
    using short [of bs] x by (cases "length bs < k") auto
  then have h: "length (take k bs) = k" "bs = take k bs @ drop k bs" "bs \<noteq> []"
    using k by auto
  have "decode (ptr_of bs) (length bs) = (if fits (take k bs) (length (drop k bs))
      then Inr (mk (take k bs) (drop k bs)) else Inl OSDP_ERR_BAD_PAYLOAD)"
    using decode [OF h(1), of "drop k bs"] h(3) \<open>k \<le> length bs\<close> by (simp add: ptr_of_def min_absorb2)
  with x have m: "fits (take k bs) (length (drop k bs))" "x = mk (take k bs) (drop k bs)"
    by (auto split: if_splits)
  note s = sel [OF h(1) m(1), folded m(2)]
  then show "okx x \<and> (\<exists>d. ptr x = ptr_of d \<and> len x = length d)"
    by blast
  fix cap
  assume "length bs \<le> cap"
  then show "build x cap = Inr bs"
    using s m(1) \<open>k \<le> length bs\<close> by (auto simp: build ptr_bytes_ptr_of [of "drop k bs", simplified])
qed

lemma list_head_cases:
  "length h = Suc 0 \<Longrightarrow> (\<And>a. h = [a] \<Longrightarrow> P) \<Longrightarrow> P"
  "length h = 2 \<Longrightarrow> (\<And>a b. h = [a, b] \<Longrightarrow> P) \<Longrightarrow> P"
  "length h = 3 \<Longrightarrow> (\<And>a b c. h = [a, b, c] \<Longrightarrow> P) \<Longrightarrow> P"
  "length h = 4 \<Longrightarrow> (\<And>a b c d. h = [a, b, c, d] \<Longrightarrow> P) \<Longrightarrow> P"
  "length h = 6 \<Longrightarrow> (\<And>a b c d e f. h = [a, b, c, d, e, f] \<Longrightarrow> P) \<Longrightarrow> P"
  "length h = 11 \<Longrightarrow> (\<And>a b c d e f g i j k l. h = [a, b, c, d, e, f, g, i, j, k, l] \<Longrightarrow> P) \<Longrightarrow> P"
  by (auto simp: length_Suc_conv eval_nat_numeral)

lemma ptr_of_if: "(if t = [] then None else Some t) = ptr_of t" "(if t \<noteq> [] then Some t else None) = ptr_of t"
  by (simp_all add: ptr_of_def)

lemma unat_pos_ptr:
  "unat k = length t \<Longrightarrow> (if 0 < k then Some t else None) = ptr_of t" for k :: "'a::len word"
  by (auto simp: ptr_of_def word_gt_0 unat_eq_0)

end
