(* ===== verification/Commands.thy ===== *)
theory Commands
  imports Codec
begin

unbundle bit_operations_syntax

text \<open>
  The command payload codecs: \<^verbatim>\<open>core/include/osdp/osdp_commands.h\<close> and
  \<^verbatim>\<open>core/src/commands/cmd_*.c\<close>. One record per command structure, one decoder and one builder
  per command, in the order of the header. An array a decoder fills is returned as a list; its
  capacity stays an argument (a NULL array has capacity 0). The interpretations of
  \<open>payload_codec\<close> show that every pair is inverse to each other.
\<close>

section \<open>Command codes\<close>

abbreviation (input) OSDP_CMD_POLL :: byte where "OSDP_CMD_POLL \<equiv> 0x60"
abbreviation (input) OSDP_CMD_ID :: byte where "OSDP_CMD_ID \<equiv> 0x61"
abbreviation (input) OSDP_CMD_CAP :: byte where "OSDP_CMD_CAP \<equiv> 0x62"
abbreviation (input) OSDP_CMD_LSTAT :: byte where "OSDP_CMD_LSTAT \<equiv> 0x64"
abbreviation (input) OSDP_CMD_ISTAT :: byte where "OSDP_CMD_ISTAT \<equiv> 0x65"
abbreviation (input) OSDP_CMD_OSTAT :: byte where "OSDP_CMD_OSTAT \<equiv> 0x66"
abbreviation (input) OSDP_CMD_RSTAT :: byte where "OSDP_CMD_RSTAT \<equiv> 0x67"
abbreviation (input) OSDP_CMD_OUT :: byte where "OSDP_CMD_OUT \<equiv> 0x68"
abbreviation (input) OSDP_CMD_LED :: byte where "OSDP_CMD_LED \<equiv> 0x69"
abbreviation (input) OSDP_CMD_BUZ :: byte where "OSDP_CMD_BUZ \<equiv> 0x6A"
abbreviation (input) OSDP_CMD_TEXT :: byte where "OSDP_CMD_TEXT \<equiv> 0x6B"
abbreviation (input) OSDP_CMD_COMSET :: byte where "OSDP_CMD_COMSET \<equiv> 0x6E"
abbreviation (input) OSDP_CMD_BIOREAD :: byte where "OSDP_CMD_BIOREAD \<equiv> 0x73"
abbreviation (input) OSDP_CMD_BIOMATCH :: byte where "OSDP_CMD_BIOMATCH \<equiv> 0x74"
abbreviation (input) OSDP_CMD_KEYSET :: byte where "OSDP_CMD_KEYSET \<equiv> 0x75"
abbreviation (input) OSDP_CMD_CHLNG :: byte where "OSDP_CMD_CHLNG \<equiv> 0x76"
abbreviation (input) OSDP_CMD_SCRYPT :: byte where "OSDP_CMD_SCRYPT \<equiv> 0x77"
abbreviation (input) OSDP_CMD_ACURXSIZE :: byte where "OSDP_CMD_ACURXSIZE \<equiv> 0x7B"
abbreviation (input) OSDP_CMD_FILETRANSFER :: byte where "OSDP_CMD_FILETRANSFER \<equiv> 0x7C"
abbreviation (input) OSDP_CMD_MFG :: byte where "OSDP_CMD_MFG \<equiv> 0x80"
abbreviation (input) OSDP_CMD_XWR :: byte where "OSDP_CMD_XWR \<equiv> 0xA1"
abbreviation (input) OSDP_CMD_ABORT :: byte where "OSDP_CMD_ABORT \<equiv> 0xA2"
abbreviation (input) OSDP_CMD_PIVDATA :: byte where "OSDP_CMD_PIVDATA \<equiv> 0xA3"
abbreviation (input) OSDP_CMD_GENAUTH :: byte where "OSDP_CMD_GENAUTH \<equiv> 0xA4"
abbreviation (input) OSDP_CMD_CRAUTH :: byte where "OSDP_CMD_CRAUTH \<equiv> 0xA5"
abbreviation (input) OSDP_CMD_KEEPACTIVE :: byte where "OSDP_CMD_KEEPACTIVE \<equiv> 0xA7"

section \<open>Commands without data\<close>

definition osdp_poll_decode :: "bytes_ptr \<Rightarrow> nat \<Rightarrow> unit result" where
  [codec_defs]: "osdp_poll_decode payload len = (if len \<noteq> 0 then Inl OSDP_ERR_BAD_PAYLOAD else Inr ())"

definition osdp_poll_build :: "nat \<Rightarrow> bytes result" where
  [codec_defs]: "osdp_poll_build buf_cap = Inr []"

definition osdp_lstat_decode :: "bytes_ptr \<Rightarrow> nat \<Rightarrow> unit result" where
  [codec_defs]: "osdp_lstat_decode payload len = (if len \<noteq> 0 then Inl OSDP_ERR_BAD_PAYLOAD else Inr ())"

definition osdp_lstat_build :: "nat \<Rightarrow> bytes result" where
  [codec_defs]: "osdp_lstat_build buf_cap = Inr []"

definition osdp_istat_decode :: "bytes_ptr \<Rightarrow> nat \<Rightarrow> unit result" where
  [codec_defs]: "osdp_istat_decode payload len = (if len \<noteq> 0 then Inl OSDP_ERR_BAD_PAYLOAD else Inr ())"

definition osdp_istat_build :: "nat \<Rightarrow> bytes result" where
  [codec_defs]: "osdp_istat_build buf_cap = Inr []"

definition osdp_ostat_decode :: "bytes_ptr \<Rightarrow> nat \<Rightarrow> unit result" where
  [codec_defs]: "osdp_ostat_decode payload len = (if len \<noteq> 0 then Inl OSDP_ERR_BAD_PAYLOAD else Inr ())"

definition osdp_ostat_build :: "nat \<Rightarrow> bytes result" where
  [codec_defs]: "osdp_ostat_build buf_cap = Inr []"

definition osdp_rstat_decode :: "bytes_ptr \<Rightarrow> nat \<Rightarrow> unit result" where
  [codec_defs]: "osdp_rstat_decode payload len = (if len \<noteq> 0 then Inl OSDP_ERR_BAD_PAYLOAD else Inr ())"

definition osdp_rstat_build :: "nat \<Rightarrow> bytes result" where
  [codec_defs]: "osdp_rstat_build buf_cap = Inr []"

definition osdp_abort_decode :: "bytes_ptr \<Rightarrow> nat \<Rightarrow> unit result" where
  [codec_defs]: "osdp_abort_decode payload len = (if len \<noteq> 0 then Inl OSDP_ERR_BAD_PAYLOAD else Inr ())"

definition osdp_abort_build :: "nat \<Rightarrow> bytes result" where
  [codec_defs]: "osdp_abort_build buf_cap = Inr []"

section \<open>Commands of fixed size\<close>

record osdp_id_cmd = id_id_type :: byte

definition osdp_id_decode :: "bytes_ptr \<Rightarrow> nat \<Rightarrow> osdp_id_cmd result" where
  [codec_defs]: "osdp_id_decode payload len =
     (if len \<noteq> 1 \<or> payload = None then Inl OSDP_ERR_BAD_PAYLOAD
      else Inr \<lparr>id_id_type = the payload ! 0\<rparr>)"

definition osdp_id_build :: "osdp_id_cmd \<Rightarrow> nat \<Rightarrow> bytes result" where
  [codec_defs]: "osdp_id_build c buf_cap =
     (if buf_cap < 1 then Inl OSDP_ERR_BUFFER_TOO_SMALL else Inr [id_id_type c])"

record osdp_cap_cmd = cap_reply_type :: byte

definition osdp_cap_decode :: "bytes_ptr \<Rightarrow> nat \<Rightarrow> osdp_cap_cmd result" where
  [codec_defs]: "osdp_cap_decode payload len =
     (if len \<noteq> 1 \<or> payload = None then Inl OSDP_ERR_BAD_PAYLOAD
      else Inr \<lparr>cap_reply_type = the payload ! 0\<rparr>)"

definition osdp_cap_build :: "osdp_cap_cmd \<Rightarrow> nat \<Rightarrow> bytes result" where
  [codec_defs]: "osdp_cap_build c buf_cap =
     (if buf_cap < 1 then Inl OSDP_ERR_BUFFER_TOO_SMALL else Inr [cap_reply_type c])"

abbreviation (input) OSDP_BUZ_PAYLOAD_BYTES :: nat where "OSDP_BUZ_PAYLOAD_BYTES \<equiv> 5"

record osdp_buz_cmd =
  bz_reader_no :: byte
  bz_tone_code :: byte
  bz_on_time_100ms :: byte
  bz_off_time_100ms :: byte
  bz_count :: byte

definition osdp_buz_decode :: "bytes_ptr \<Rightarrow> nat \<Rightarrow> osdp_buz_cmd result" where
  [codec_defs]: "osdp_buz_decode payload len =
     (if len \<noteq> OSDP_BUZ_PAYLOAD_BYTES \<or> payload = None then Inl OSDP_ERR_BAD_PAYLOAD
      else let p = the payload in
        Inr \<lparr>bz_reader_no = p ! 0, bz_tone_code = p ! 1, bz_on_time_100ms = p ! 2,
             bz_off_time_100ms = p ! 3, bz_count = p ! 4\<rparr>)"

definition osdp_buz_build :: "osdp_buz_cmd \<Rightarrow> nat \<Rightarrow> bytes result" where
  [codec_defs]: "osdp_buz_build c buf_cap =
     (if buf_cap < OSDP_BUZ_PAYLOAD_BYTES then Inl OSDP_ERR_BUFFER_TOO_SMALL
      else Inr [bz_reader_no c, bz_tone_code c, bz_on_time_100ms c, bz_off_time_100ms c, bz_count c])"

abbreviation (input) OSDP_COMSET_PAYLOAD_BYTES :: nat where "OSDP_COMSET_PAYLOAD_BYTES \<equiv> 5"
abbreviation (input) OSDP_COMSET_MAX_ADDR :: byte where "OSDP_COMSET_MAX_ADDR \<equiv> 0x7E"

record osdp_comset_cmd =
  cs_address :: byte
  cs_baud_rate :: u32

definition osdp_comset_decode :: "bytes_ptr \<Rightarrow> nat \<Rightarrow> osdp_comset_cmd result" where
  [codec_defs]: "osdp_comset_decode payload len =
     (if len \<noteq> OSDP_COMSET_PAYLOAD_BYTES \<or> payload = None then Inl OSDP_ERR_BAD_PAYLOAD
      else let p = the payload in
        Inr \<lparr>cs_address = p ! 0, cs_baud_rate = osdp_pack_read_u32le (drop 1 p)\<rparr>)"

definition osdp_comset_build :: "osdp_comset_cmd \<Rightarrow> nat \<Rightarrow> bytes result" where
  [codec_defs]: "osdp_comset_build c buf_cap =
     (if cs_address c > OSDP_COMSET_MAX_ADDR then Inl OSDP_ERR_INVALID_ARG
      else if buf_cap < OSDP_COMSET_PAYLOAD_BYTES then Inl OSDP_ERR_BUFFER_TOO_SMALL
      else Inr (cs_address c # osdp_pack_write_u32le (cs_baud_rate c)))"

abbreviation (input) OSDP_ACURXSIZE_PAYLOAD_BYTES :: nat where "OSDP_ACURXSIZE_PAYLOAD_BYTES \<equiv> 2"

record osdp_acurxsize_cmd = ax_max_size :: u16

definition osdp_acurxsize_decode :: "bytes_ptr \<Rightarrow> nat \<Rightarrow> osdp_acurxsize_cmd result" where
  [codec_defs]: "osdp_acurxsize_decode payload len =
     (if len \<noteq> OSDP_ACURXSIZE_PAYLOAD_BYTES \<or> payload = None then Inl OSDP_ERR_BAD_PAYLOAD
      else Inr \<lparr>ax_max_size = osdp_pack_read_u16le (the payload)\<rparr>)"

definition osdp_acurxsize_build :: "osdp_acurxsize_cmd \<Rightarrow> nat \<Rightarrow> bytes result" where
  [codec_defs]: "osdp_acurxsize_build c buf_cap =
     (if buf_cap < OSDP_ACURXSIZE_PAYLOAD_BYTES then Inl OSDP_ERR_BUFFER_TOO_SMALL
      else Inr (osdp_pack_write_u16le (ax_max_size c)))"

abbreviation (input) OSDP_KEEPACTIVE_PAYLOAD_BYTES :: nat where "OSDP_KEEPACTIVE_PAYLOAD_BYTES \<equiv> 2"

record osdp_keepactive_cmd = ka_time_ms :: u16

definition osdp_keepactive_decode :: "bytes_ptr \<Rightarrow> nat \<Rightarrow> osdp_keepactive_cmd result" where
  [codec_defs]: "osdp_keepactive_decode payload len =
     (if len \<noteq> OSDP_KEEPACTIVE_PAYLOAD_BYTES \<or> payload = None then Inl OSDP_ERR_BAD_PAYLOAD
      else Inr \<lparr>ka_time_ms = osdp_pack_read_u16le (the payload)\<rparr>)"

definition osdp_keepactive_build :: "osdp_keepactive_cmd \<Rightarrow> nat \<Rightarrow> bytes result" where
  [codec_defs]: "osdp_keepactive_build c buf_cap =
     (if buf_cap < OSDP_KEEPACTIVE_PAYLOAD_BYTES then Inl OSDP_ERR_BUFFER_TOO_SMALL
      else Inr (osdp_pack_write_u16le (ka_time_ms c)))"

section \<open>Arrays of records\<close>

abbreviation (input) OSDP_OUT_RECORD_BYTES :: nat where "OSDP_OUT_RECORD_BYTES \<equiv> 4"

record osdp_out_record =
  or_output_no :: byte
  or_control_code :: byte
  or_timer_100ms :: u16

definition out_record_read :: "bytes \<Rightarrow> osdp_out_record" where
  "out_record_read r = \<lparr>or_output_no = r ! 0, or_control_code = r ! 1,
     or_timer_100ms = osdp_pack_read_u16le (drop 2 r)\<rparr>"

definition out_record_bytes :: "osdp_out_record \<Rightarrow> bytes" where
  "out_record_bytes r = [or_output_no r, or_control_code r] @ osdp_pack_write_u16le (or_timer_100ms r)"

definition osdp_out_decode :: "bytes_ptr \<Rightarrow> nat \<Rightarrow> nat \<Rightarrow> osdp_out_record list result" where
  "osdp_out_decode payload len records_cap =
     (if len = 0 \<or> len mod OSDP_OUT_RECORD_BYTES \<noteq> 0 then Inl OSDP_ERR_BAD_PAYLOAD
      else if payload = None then Inl OSDP_ERR_BAD_PAYLOAD
      else
        let cnt = len div OSDP_OUT_RECORD_BYTES in
        if records_cap < cnt then Inl OSDP_ERR_BUFFER_TOO_SMALL
        else Inr (read_records OSDP_OUT_RECORD_BYTES out_record_read (the payload) cnt))"

definition osdp_out_build :: "osdp_out_record list option \<Rightarrow> nat \<Rightarrow> nat \<Rightarrow> bytes result" where
  "osdp_out_build records record_count buf_cap =
     (if record_count = 0 \<or> records = None then Inl OSDP_ERR_INVALID_ARG
      else if record_count * OSDP_OUT_RECORD_BYTES > buf_cap then Inl OSDP_ERR_BUFFER_TOO_SMALL
      else Inr (concat (map out_record_bytes (take record_count (the records)))))"

abbreviation (input) OSDP_LED_RECORD_BYTES :: nat where "OSDP_LED_RECORD_BYTES \<equiv> 14"

record osdp_led_record =
  lr_reader_no :: byte
  lr_led_no :: byte
  lr_temp_control_code :: byte
  lr_temp_on_time :: byte
  lr_temp_off_time :: byte
  lr_temp_on_color :: byte
  lr_temp_off_color :: byte
  lr_temp_timer_100ms :: u16
  lr_perm_control_code :: byte
  lr_perm_on_time :: byte
  lr_perm_off_time :: byte
  lr_perm_on_color :: byte
  lr_perm_off_color :: byte

definition led_record_read :: "bytes \<Rightarrow> osdp_led_record" where
  "led_record_read r = \<lparr>lr_reader_no = r ! 0, lr_led_no = r ! 1, lr_temp_control_code = r ! 2,
     lr_temp_on_time = r ! 3, lr_temp_off_time = r ! 4, lr_temp_on_color = r ! 5,
     lr_temp_off_color = r ! 6, lr_temp_timer_100ms = osdp_pack_read_u16le (drop 7 r),
     lr_perm_control_code = r ! 9, lr_perm_on_time = r ! 10, lr_perm_off_time = r ! 11,
     lr_perm_on_color = r ! 12, lr_perm_off_color = r ! 13\<rparr>"

definition led_record_bytes :: "osdp_led_record \<Rightarrow> bytes" where
  "led_record_bytes r =
     [lr_reader_no r, lr_led_no r, lr_temp_control_code r, lr_temp_on_time r, lr_temp_off_time r,
      lr_temp_on_color r, lr_temp_off_color r]
     @ osdp_pack_write_u16le (lr_temp_timer_100ms r)
     @ [lr_perm_control_code r, lr_perm_on_time r, lr_perm_off_time r, lr_perm_on_color r,
        lr_perm_off_color r]"

definition osdp_led_decode :: "bytes_ptr \<Rightarrow> nat \<Rightarrow> nat \<Rightarrow> osdp_led_record list result" where
  "osdp_led_decode payload len records_cap =
     (if len = 0 \<or> len mod OSDP_LED_RECORD_BYTES \<noteq> 0 then Inl OSDP_ERR_BAD_PAYLOAD
      else if payload = None then Inl OSDP_ERR_BAD_PAYLOAD
      else
        let cnt = len div OSDP_LED_RECORD_BYTES in
        if records_cap < cnt then Inl OSDP_ERR_BUFFER_TOO_SMALL
        else Inr (read_records OSDP_LED_RECORD_BYTES led_record_read (the payload) cnt))"

definition osdp_led_build :: "osdp_led_record list option \<Rightarrow> nat \<Rightarrow> nat \<Rightarrow> bytes result" where
  "osdp_led_build records record_count buf_cap =
     (if record_count = 0 \<or> records = None then Inl OSDP_ERR_INVALID_ARG
      else if record_count * OSDP_LED_RECORD_BYTES > buf_cap then Inl OSDP_ERR_BUFFER_TOO_SMALL
      else Inr (concat (map led_record_bytes (take record_count (the records)))))"

section \<open>Header and tail\<close>

abbreviation (input) OSDP_TEXT_HEADER_BYTES :: nat where "OSDP_TEXT_HEADER_BYTES \<equiv> 6"

record osdp_text_cmd =
  tx_reader_no :: byte
  tx_text_command :: byte
  tx_temp_text_time_s :: byte
  tx_row :: byte
  tx_column :: byte
  tx_text_length :: byte
  tx_text :: bytes_ptr
  tx_text_len :: nat

definition osdp_text_decode :: "bytes_ptr \<Rightarrow> nat \<Rightarrow> osdp_text_cmd result" where
  [codec_defs]: "osdp_text_decode payload len =
     (if len < OSDP_TEXT_HEADER_BYTES \<or> payload = None then Inl OSDP_ERR_BAD_PAYLOAD
      else
        let p = the payload; text_length = p ! 5 in
        if OSDP_TEXT_HEADER_BYTES + unat text_length \<noteq> len then Inl OSDP_ERR_BAD_PAYLOAD
        else Inr \<lparr>tx_reader_no = p ! 0, tx_text_command = p ! 1, tx_temp_text_time_s = p ! 2,
               tx_row = p ! 3, tx_column = p ! 4, tx_text_length = text_length,
               tx_text = (if text_length > 0
                  then Some (take (unat text_length) (drop OSDP_TEXT_HEADER_BYTES p)) else None),
               tx_text_len = unat text_length\<rparr>)"

definition osdp_text_build :: "osdp_text_cmd \<Rightarrow> nat \<Rightarrow> bytes result" where
  [codec_defs]: "osdp_text_build c buf_cap =
     (if unat (tx_text_length c) \<noteq> tx_text_len c then Inl OSDP_ERR_INVALID_ARG
      else if tx_text_len c > 0 \<and> tx_text c = None then Inl OSDP_ERR_INVALID_ARG
      else if OSDP_TEXT_HEADER_BYTES + tx_text_len c > buf_cap then Inl OSDP_ERR_BUFFER_TOO_SMALL
      else Inr ([tx_reader_no c, tx_text_command c, tx_temp_text_time_s c, tx_row c, tx_column c,
                 tx_text_length c] @ ptr_bytes (tx_text c) (tx_text_len c)))"

abbreviation (input) OSDP_KEYSET_HEADER_BYTES :: nat where "OSDP_KEYSET_HEADER_BYTES \<equiv> 2"
abbreviation (input) OSDP_KEYSET_KEY_TYPE_SCBK :: byte where "OSDP_KEYSET_KEY_TYPE_SCBK \<equiv> 1"

record osdp_keyset_cmd =
  ks_key_type :: byte
  ks_key_length :: byte
  ks_key_data :: bytes_ptr
  ks_key_data_len :: nat

definition osdp_keyset_decode :: "bytes_ptr \<Rightarrow> nat \<Rightarrow> osdp_keyset_cmd result" where
  [codec_defs]: "osdp_keyset_decode payload len =
     (if payload = None \<or> len < OSDP_KEYSET_HEADER_BYTES then Inl OSDP_ERR_BAD_PAYLOAD
      else
        let p = the payload; key_type = p ! 0; key_length = p ! 1;
            data_len = len - OSDP_KEYSET_HEADER_BYTES in
        if unat key_length \<noteq> data_len then Inl OSDP_ERR_BAD_PAYLOAD
        else Inr \<lparr>ks_key_type = key_type, ks_key_length = key_length,
               ks_key_data = (if data_len > 0
                  then Some (take data_len (drop OSDP_KEYSET_HEADER_BYTES p)) else None),
               ks_key_data_len = data_len\<rparr>)"

definition osdp_keyset_build :: "osdp_keyset_cmd \<Rightarrow> nat \<Rightarrow> bytes result" where
  [codec_defs]: "osdp_keyset_build c buf_cap =
     (if ks_key_data_len c > 255 then Inl OSDP_ERR_INVALID_ARG
      else if unat (ks_key_length c) \<noteq> ks_key_data_len c then Inl OSDP_ERR_INVALID_ARG
      else if ks_key_data_len c > 0 \<and> ks_key_data c = None then Inl OSDP_ERR_INVALID_ARG
      else if buf_cap < OSDP_KEYSET_HEADER_BYTES + ks_key_data_len c then Inl OSDP_ERR_BUFFER_TOO_SMALL
      else Inr ([ks_key_type c, ks_key_length c] @ ptr_bytes (ks_key_data c) (ks_key_data_len c)))"

abbreviation (input) OSDP_FILETRANSFER_HEADER_BYTES :: nat where "OSDP_FILETRANSFER_HEADER_BYTES \<equiv> 11"

record osdp_filetransfer_cmd =
  ftc_ft_type :: byte
  ftc_total_size :: u32
  ftc_offset :: u32
  ftc_fragment_size :: u16
  ftc_data :: bytes_ptr
  ftc_data_len :: nat

definition osdp_filetransfer_decode :: "bytes_ptr \<Rightarrow> nat \<Rightarrow> osdp_filetransfer_cmd result" where
  [codec_defs]: "osdp_filetransfer_decode payload len =
     (if len < OSDP_FILETRANSFER_HEADER_BYTES \<or> payload = None then Inl OSDP_ERR_BAD_PAYLOAD
      else
        let p = the payload; fragment_size = osdp_pack_read_u16le (drop 9 p) in
        if OSDP_FILETRANSFER_HEADER_BYTES + unat fragment_size \<noteq> len then Inl OSDP_ERR_BAD_PAYLOAD
        else Inr \<lparr>ftc_ft_type = p ! 0, ftc_total_size = osdp_pack_read_u32le (drop 1 p),
               ftc_offset = osdp_pack_read_u32le (drop 5 p), ftc_fragment_size = fragment_size,
               ftc_data = (if fragment_size > 0
                 then Some (take (unat fragment_size) (drop OSDP_FILETRANSFER_HEADER_BYTES p)) else None),
               ftc_data_len = unat fragment_size\<rparr>)"

definition osdp_filetransfer_build :: "osdp_filetransfer_cmd \<Rightarrow> nat \<Rightarrow> bytes result" where
  [codec_defs]: "osdp_filetransfer_build c buf_cap =
     (if unat (ftc_fragment_size c) \<noteq> ftc_data_len c then Inl OSDP_ERR_INVALID_ARG
      else if ftc_data_len c > 0 \<and> ftc_data c = None then Inl OSDP_ERR_INVALID_ARG
      else if OSDP_FILETRANSFER_HEADER_BYTES + ftc_data_len c > buf_cap then Inl OSDP_ERR_BUFFER_TOO_SMALL
      else Inr (ftc_ft_type c # osdp_pack_write_u32le (ftc_total_size c)
                @ osdp_pack_write_u32le (ftc_offset c) @ osdp_pack_write_u16le (ftc_fragment_size c)
                @ ptr_bytes (ftc_data c) (ftc_data_len c)))"

abbreviation (input) OSDP_MFG_HEADER_BYTES :: nat where "OSDP_MFG_HEADER_BYTES \<equiv> 3"

record osdp_mfg_cmd =
  mf_vendor_code :: bytes
  mf_data :: bytes_ptr
  mf_data_len :: nat

definition osdp_mfg_decode :: "bytes_ptr \<Rightarrow> nat \<Rightarrow> osdp_mfg_cmd result" where
  [codec_defs]: "osdp_mfg_decode payload len =
     (if len < OSDP_MFG_HEADER_BYTES \<or> payload = None then Inl OSDP_ERR_BAD_PAYLOAD
      else
        let p = the payload; data_len = len - OSDP_MFG_HEADER_BYTES in
        Inr \<lparr>mf_vendor_code = take 3 p,
             mf_data = (if data_len > 0 then Some (take data_len (drop OSDP_MFG_HEADER_BYTES p)) else None),
             mf_data_len = data_len\<rparr>)"

definition osdp_mfg_build :: "osdp_mfg_cmd \<Rightarrow> nat \<Rightarrow> bytes result" where
  [codec_defs]: "osdp_mfg_build c buf_cap =
     (if mf_data_len c > 0 \<and> mf_data c = None then Inl OSDP_ERR_INVALID_ARG
      else if OSDP_MFG_HEADER_BYTES + mf_data_len c > buf_cap then Inl OSDP_ERR_BUFFER_TOO_SMALL
      else Inr (take 3 (mf_vendor_code c) @ ptr_bytes (mf_data c) (mf_data_len c)))"

section \<open>The codecs satisfy the contract\<close>

interpretation poll: payload_codec osdp_poll_decode "\<lambda>_. osdp_poll_build" "\<lambda>_. True" "\<lambda>_. True"
  by unfold_locales (auto simp: codec_defs split: if_splits)

interpretation lstat: payload_codec osdp_lstat_decode "\<lambda>_. osdp_lstat_build" "\<lambda>_. True" "\<lambda>_. True"
  by unfold_locales (auto simp: codec_defs split: if_splits)

interpretation istat: payload_codec osdp_istat_decode "\<lambda>_. osdp_istat_build" "\<lambda>_. True" "\<lambda>_. True"
  by unfold_locales (auto simp: codec_defs split: if_splits)

interpretation ostat: payload_codec osdp_ostat_decode "\<lambda>_. osdp_ostat_build" "\<lambda>_. True" "\<lambda>_. True"
  by unfold_locales (auto simp: codec_defs split: if_splits)

interpretation rstat: payload_codec osdp_rstat_decode "\<lambda>_. osdp_rstat_build" "\<lambda>_. True" "\<lambda>_. True"
  by unfold_locales (auto simp: codec_defs split: if_splits)

interpretation abort: payload_codec osdp_abort_decode "\<lambda>_. osdp_abort_build" "\<lambda>_. True" "\<lambda>_. True"
  by unfold_locales (auto simp: codec_defs split: if_splits)

interpretation ident: payload_codec osdp_id_decode osdp_id_build "\<lambda>_. True" "\<lambda>_. True"
  by unfold_locales (auto simp: codec_defs split: if_splits dest!: list_of_length)

interpretation cap: payload_codec osdp_cap_decode osdp_cap_build "\<lambda>_. True" "\<lambda>_. True"
  by unfold_locales (auto simp: codec_defs split: if_splits dest!: list_of_length)

interpretation buz: payload_codec osdp_buz_decode osdp_buz_build "\<lambda>_. True" "\<lambda>_. True"
  by unfold_locales (auto simp: codec_defs Let_def split: if_splits dest!: list_of_length)

interpretation comset: payload_codec osdp_comset_decode osdp_comset_build "\<lambda>_. True"
    "\<lambda>c. cs_address c \<le> OSDP_COMSET_MAX_ADDR"
  by (unfold_locales, auto simp: codec_defs Let_def not_less split: if_splits,
      auto simp: pack_simps dest!: list_of_length)

interpretation acurxsize: payload_codec osdp_acurxsize_decode osdp_acurxsize_build "\<lambda>_. True" "\<lambda>_. True"
  by (unfold_locales, auto simp: codec_defs Let_def not_less split: if_splits,
      auto simp: pack_simps dest!: list_of_length)

interpretation keepactive: payload_codec osdp_keepactive_decode osdp_keepactive_build "\<lambda>_. True" "\<lambda>_. True"
  by (unfold_locales, auto simp: codec_defs Let_def not_less split: if_splits,
      auto simp: pack_simps dest!: list_of_length)

text \<open>The arrays of records, seen as lists.\<close>

lemma out_record_roundtrip:
  "length (out_record_bytes r) = 4" "out_record_read (out_record_bytes r @ rest) = r"
  "4 \<le> length p \<Longrightarrow> out_record_bytes (out_record_read p) = take 4 p"
  by (auto simp: out_record_bytes_def out_record_read_def Suc_le_length_iff eval_nat_numeral pack_simps)

interpretation outrec: payload_codec "\<lambda>p n. osdp_out_decode p n (n div OSDP_OUT_RECORD_BYTES)"
    "\<lambda>rs. osdp_out_build (Some rs) (length rs)" "\<lambda>_. True" "\<lambda>rs. rs \<noteq> [] \<or> False"
  by (rule payload_codec_records [where k = 4 and enc = out_record_bytes and dec = out_record_read])
    (auto simp: out_record_roundtrip osdp_out_decode_def osdp_out_build_def)

lemma led_record_roundtrip:
  "length (led_record_bytes r) = 14" "led_record_read (led_record_bytes r @ rest) = r"
  using read_write_u16le [of "lr_temp_timer_100ms r"
    "[lr_perm_control_code r, lr_perm_on_time r, lr_perm_off_time r, lr_perm_on_color r, lr_perm_off_color r] @ rest"]
  by (simp_all add: led_record_bytes_def led_record_read_def osdp_pack_write_u16le_def)

lemma led_record_roundtrip2:
  assumes "14 \<le> length p"
  shows "led_record_bytes (led_record_read p) = take 14 p"
proof -
  obtain a b c d e f g h i j k l m n rest
    where "p = a # b # c # d # e # f # g # h # i # j # k # l # m # n # rest"
    using assms by (auto simp: Suc_le_length_iff eval_nat_numeral)
  then show ?thesis
    by (simp add: led_record_bytes_def led_record_read_def write_read_u16le)
qed

interpretation led: payload_codec "\<lambda>p n. osdp_led_decode p n (n div OSDP_LED_RECORD_BYTES)"
    "\<lambda>rs. osdp_led_build (Some rs) (length rs)" "\<lambda>_. True" "\<lambda>rs. rs \<noteq> [] \<or> False"
  by (rule payload_codec_records [where k = 14 and enc = led_record_bytes and dec = led_record_read])
    (auto simp: led_record_roundtrip led_record_roundtrip2 osdp_led_decode_def osdp_led_build_def)

text \<open>Header and tail. The structure is canonical when its pointer refers to exactly the tail.\<close>

interpretation text_cmd: payload_codec osdp_text_decode osdp_text_build
    "\<lambda>c. True \<and> (\<exists>d. tx_text c = ptr_of d \<and> tx_text_len c = length d)" "\<lambda>_. True"
proof (rule payload_codec_tail [where k = 6 and fits = "\<lambda>h n. unat (h ! 5) = n"
      and hdr = "\<lambda>c. [tx_reader_no c, tx_text_command c, tx_temp_text_time_s c, tx_row c, tx_column c,
                 tx_text_length c]"
      and mk = "\<lambda>h t. \<lparr>tx_reader_no = h ! 0, tx_text_command = h ! 1, tx_temp_text_time_s = h ! 2,
               tx_row = h ! 3, tx_column = h ! 4, tx_text_length = h ! 5, tx_text = ptr_of t,
               tx_text_len = length t\<rparr>"])
  show "osdp_text_decode (Some (h @ t)) (length h + length t) = (if unat (h ! 5) = length t
      then Inr \<lparr>tx_reader_no = h ! 0, tx_text_command = h ! 1, tx_temp_text_time_s = h ! 2,
               tx_row = h ! 3, tx_column = h ! 4, tx_text_length = h ! 5, tx_text = ptr_of t,
               tx_text_len = length t\<rparr> else Inl OSDP_ERR_BAD_PAYLOAD)" if "length h = 6" for h t
    using that by (elim list_head_cases) (auto simp: codec_defs Let_def unat_pos_ptr)
qed (auto simp: codec_defs elim!: list_head_cases)

lemma ft_header_drop:
  "drop 9 (a # osdp_pack_write_u32le b @ osdp_pack_write_u32le c @ osdp_pack_write_u16le d)
     = osdp_pack_write_u16le d"
  "drop 5 (a # osdp_pack_write_u32le b @ osdp_pack_write_u32le c @ osdp_pack_write_u16le d)
     = osdp_pack_write_u32le c @ osdp_pack_write_u16le d"
  by (simp_all add: osdp_pack_write_u32le_def)

interpretation keyset: payload_codec osdp_keyset_decode osdp_keyset_build
    "\<lambda>c. True \<and> (\<exists>d. ks_key_data c = ptr_of d \<and> ks_key_data_len c = length d)" "\<lambda>_. True"
proof (rule payload_codec_tail [where k = 2 and fits = "\<lambda>h n. unat (h ! 1) = n"
      and hdr = "\<lambda>c. [ks_key_type c, ks_key_length c]"
      and mk = "\<lambda>h t. \<lparr>ks_key_type = h ! 0, ks_key_length = h ! 1, ks_key_data = ptr_of t,
               ks_key_data_len = length t\<rparr>"])
  show "osdp_keyset_decode (Some (h @ t)) (length h + length t) = (if unat (h ! 1) = length t
      then Inr \<lparr>ks_key_type = h ! 0, ks_key_length = h ! 1, ks_key_data = ptr_of t,
               ks_key_data_len = length t\<rparr> else Inl OSDP_ERR_BAD_PAYLOAD)" if "length h = 2" for h t
    using that by (elim list_head_cases) (auto simp: codec_defs Let_def ptr_of_def)
  show "osdp_keyset_build x cap =
      (if \<not> unat ([ks_key_type x, ks_key_length x] ! 1) = ks_key_data_len x then Inl OSDP_ERR_INVALID_ARG
       else if ks_key_data_len x > 0 \<and> ks_key_data x = None then Inl OSDP_ERR_INVALID_ARG
       else if 2 + ks_key_data_len x > cap then Inl OSDP_ERR_BUFFER_TOO_SMALL
       else Inr ([ks_key_type x, ks_key_length x] @ ptr_bytes (ks_key_data x) (ks_key_data_len x)))" for x cap
    using unat_byte_le [of "ks_key_length x"] by (auto simp: codec_defs)
qed (auto simp: codec_defs elim!: list_head_cases)

interpretation filetransfer: payload_codec osdp_filetransfer_decode osdp_filetransfer_build
    "\<lambda>c. True \<and> (\<exists>d. ftc_data c = ptr_of d \<and> ftc_data_len c = length d)" "\<lambda>_. True"
proof (rule payload_codec_tail [where k = 11 and fits = "\<lambda>h n. unat (osdp_pack_read_u16le (drop 9 h)) = n"
      and hdr = "\<lambda>c. ftc_ft_type c # osdp_pack_write_u32le (ftc_total_size c)
                @ osdp_pack_write_u32le (ftc_offset c) @ osdp_pack_write_u16le (ftc_fragment_size c)"
      and mk = "\<lambda>h t. \<lparr>ftc_ft_type = h ! 0, ftc_total_size = osdp_pack_read_u32le (drop 1 h),
               ftc_offset = osdp_pack_read_u32le (drop 5 h),
               ftc_fragment_size = osdp_pack_read_u16le (drop 9 h),
               ftc_data = ptr_of t, ftc_data_len = length t\<rparr>"])
  show "osdp_filetransfer_decode (Some (h @ t)) (length h + length t) =
     (if unat (osdp_pack_read_u16le (drop 9 h)) = length t
      then Inr \<lparr>ftc_ft_type = h ! 0, ftc_total_size = osdp_pack_read_u32le (drop 1 h),
               ftc_offset = osdp_pack_read_u32le (drop 5 h),
               ftc_fragment_size = osdp_pack_read_u16le (drop 9 h),
               ftc_data = ptr_of t, ftc_data_len = length t\<rparr> else Inl OSDP_ERR_BAD_PAYLOAD)"
    if "length h = 11" for h t
    using that
    by (elim list_head_cases)
      (auto simp: codec_defs Let_def unat_pos_ptr osdp_pack_read_u16le_def osdp_pack_read_u32le_def)
  show "osdp_filetransfer_build x cap =
      (if \<not> unat (osdp_pack_read_u16le (drop 9 (ftc_ft_type x # osdp_pack_write_u32le (ftc_total_size x)
                @ osdp_pack_write_u32le (ftc_offset x) @ osdp_pack_write_u16le (ftc_fragment_size x))))
            = ftc_data_len x then Inl OSDP_ERR_INVALID_ARG
       else if ftc_data_len x > 0 \<and> ftc_data x = None then Inl OSDP_ERR_INVALID_ARG
       else if 11 + ftc_data_len x > cap then Inl OSDP_ERR_BUFFER_TOO_SMALL
       else Inr ((ftc_ft_type x # osdp_pack_write_u32le (ftc_total_size x)
                @ osdp_pack_write_u32le (ftc_offset x) @ osdp_pack_write_u16le (ftc_fragment_size x))
                @ ptr_bytes (ftc_data x) (ftc_data_len x)))" for x cap
    unfolding ft_header_drop by (simp add: codec_defs)
qed (auto simp: codec_defs ft_header_drop pack_simps elim!: list_head_cases)

interpretation mfg: payload_codec osdp_mfg_decode osdp_mfg_build
    "\<lambda>c. length (mf_vendor_code c) = 3 \<and> (\<exists>d. mf_data c = ptr_of d \<and> mf_data_len c = length d)" "\<lambda>_. True"
  by (rule payload_codec_tail [where k = 3 and fits = "\<lambda>h n. True" and hdr = "\<lambda>c. take 3 (mf_vendor_code c)"
      and mk = "\<lambda>h t. \<lparr>mf_vendor_code = h, mf_data = ptr_of t, mf_data_len = length t\<rparr>"])
    (auto simp: codec_defs Let_def ptr_of_def)

section \<open>Properties\<close>

text \<open>An LED command arrives as it was sent: if its records fit the payload buffer and the frame
  buffer, the receiver's frame decoder accepts the frame and the receiver's LED decoder returns
  the same list of records.\<close>

theorem led_command_end_to_end:
  assumes "osdp_led_build (Some rs) (length rs) cap = Inr bs" and "frame_ptrs_ok f"
    and "osdp_frame_build (f\<lparr>fr_payload := Some bs, fr_payload_len := length bs\<rparr>) cap' = Inr w"
  shows "\<exists>g. osdp_frame_decode (Some (tl w)) (length w - 1) out = (OSDP_OK, g) \<and>
    fr_code g = fr_code f \<and>
    osdp_led_decode (fr_payload g) (fr_payload_len g) (fr_payload_len g div OSDP_LED_RECORD_BYTES) = Inr rs"
  by (rule led.through_frame [OF TrueI assms])

definition ex_led :: osdp_led_record where
  "ex_led = \<lparr>lr_reader_no = 0, lr_led_no = 1, lr_temp_control_code = 2, lr_temp_on_time = 3,
     lr_temp_off_time = 4, lr_temp_on_color = 1, lr_temp_off_color = 2, lr_temp_timer_100ms = 0x1234,
     lr_perm_control_code = 1, lr_perm_on_time = 5, lr_perm_off_time = 6, lr_perm_on_color = 2,
     lr_perm_off_color = 0\<rparr>"

theorem led_command_end_to_end_witness:
  "\<exists>bs w g. osdp_led_build (Some [ex_led, ex_led]) (length [ex_led, ex_led]) 64 = Inr bs \<and>
     osdp_frame_build (ex_frame\<lparr>fr_payload := Some bs, fr_payload_len := length bs\<rparr>) 64 = Inr w \<and>
     osdp_frame_decode (Some (tl w)) (length w - 1) zero_frame = (OSDP_OK, g) \<and>
     osdp_led_decode (fr_payload g) (fr_payload_len g) (fr_payload_len g div 14) = Inr [ex_led, ex_led]"
proof -
  let ?bs = "led_record_bytes ex_led @ led_record_bytes ex_led"
  have b: "osdp_led_build (Some [ex_led, ex_led]) (length [ex_led, ex_led]) 64 = Inr ?bs"
    by (simp add: osdp_led_build_def)
  have "buildable (ex_frame\<lparr>fr_payload := Some ?bs, fr_payload_len := length ?bs\<rparr>) 39"
    by code_simp
  then obtain w where w:
    "osdp_frame_build (ex_frame\<lparr>fr_payload := Some ?bs, fr_payload_len := length ?bs\<rparr>) 64 = Inr w"
    using osdp_frame_build_eq by fastforce
  show ?thesis
    using led_command_end_to_end [OF b ex_frame_ptrs w, of zero_frame] b w by blast
qed

text \<open>A file-transfer fragment survives its codec in both directions: the decoder inverts the builder
  on every command whose data pointer refers to exactly its data, and whatever the decoder
  accepts is what the builder emits for the decoded command.\<close>

theorem filetransfer_roundtrip:
  assumes "ftc_data c = ptr_of d" and "ftc_data_len c = length d" and "bs \<noteq> []"
  shows "(\<exists>cap. osdp_filetransfer_build c cap = Inr bs)
     \<longleftrightarrow> osdp_filetransfer_decode (Some bs) (length bs) = Inr c"
proof -
  have p: "Some bs = ptr_of bs" using assms(3) by (simp add: ptr_of_def)
  show ?thesis
    unfolding p using filetransfer.decode_build [of c _ bs] filetransfer.build_decode [of bs c] assms(1,2)
    by blast
qed

definition ex_ft :: osdp_filetransfer_cmd where
  "ex_ft = \<lparr>ftc_ft_type = 1, ftc_total_size = 4, ftc_offset = 2, ftc_fragment_size = 2,
          ftc_data = Some [0xAA, 0xBB], ftc_data_len = 2\<rparr>"

definition ex_ft_bytes :: bytes where
  "ex_ft_bytes = [1, 4, 0, 0, 0, 2, 0, 0, 0, 2, 0, 0xAA, 0xBB]"

theorem filetransfer_roundtrip_witness:
  "osdp_filetransfer_build ex_ft 20 = Inr ex_ft_bytes \<and>
   osdp_filetransfer_decode (Some ex_ft_bytes) (length ex_ft_bytes) = Inr ex_ft"
proof -
  have "osdp_filetransfer_build ex_ft 20 = Inr ex_ft_bytes"
    by code_simp
  moreover have "ftc_data ex_ft = ptr_of [0xAA, 0xBB]" "ftc_data_len ex_ft = length [0xAA, 0xBB :: byte]"
    "ex_ft_bytes \<noteq> []"
    by (simp_all add: ex_ft_def ex_ft_bytes_def)
  ultimately show ?thesis
    using filetransfer_roundtrip by blast
qed

end
