(* ===== verification/Replies.thy ===== *)
theory Replies
  imports Codec
begin

unbundle bit_operations_syntax

text \<open>
  The reply payload codecs: \<^verbatim>\<open>core/include/osdp/osdp_replies.h\<close> and
  \<^verbatim>\<open>core/src/replies/reply_*.c\<close>, and the Annex B catalogue of PD capabilities in
  \<^verbatim>\<open>reply_pdcap.c\<close>. Every pair of decoder and builder is an interpretation of
  \<open>payload_codec\<close>.
\<close>

section \<open>Reply and NAK codes\<close>

abbreviation (input) OSDP_REPLY_ACK :: byte where "OSDP_REPLY_ACK \<equiv> 0x40"
abbreviation (input) OSDP_REPLY_NAK :: byte where "OSDP_REPLY_NAK \<equiv> 0x41"
abbreviation (input) OSDP_REPLY_PDID :: byte where "OSDP_REPLY_PDID \<equiv> 0x45"
abbreviation (input) OSDP_REPLY_PDCAP :: byte where "OSDP_REPLY_PDCAP \<equiv> 0x46"
abbreviation (input) OSDP_REPLY_LSTATR :: byte where "OSDP_REPLY_LSTATR \<equiv> 0x48"
abbreviation (input) OSDP_REPLY_ISTATR :: byte where "OSDP_REPLY_ISTATR \<equiv> 0x49"
abbreviation (input) OSDP_REPLY_OSTATR :: byte where "OSDP_REPLY_OSTATR \<equiv> 0x4A"
abbreviation (input) OSDP_REPLY_RSTATR :: byte where "OSDP_REPLY_RSTATR \<equiv> 0x4B"
abbreviation (input) OSDP_REPLY_RAW :: byte where "OSDP_REPLY_RAW \<equiv> 0x50"
abbreviation (input) OSDP_REPLY_FMT :: byte where "OSDP_REPLY_FMT \<equiv> 0x51"
abbreviation (input) OSDP_REPLY_KEYPAD :: byte where "OSDP_REPLY_KEYPAD \<equiv> 0x53"
abbreviation (input) OSDP_REPLY_COM :: byte where "OSDP_REPLY_COM \<equiv> 0x54"
abbreviation (input) OSDP_REPLY_BIOREADR :: byte where "OSDP_REPLY_BIOREADR \<equiv> 0x57"
abbreviation (input) OSDP_REPLY_BIOMATCHR :: byte where "OSDP_REPLY_BIOMATCHR \<equiv> 0x58"
abbreviation (input) OSDP_REPLY_CCRYPT :: byte where "OSDP_REPLY_CCRYPT \<equiv> 0x76"
abbreviation (input) OSDP_REPLY_RMAC_I :: byte where "OSDP_REPLY_RMAC_I \<equiv> 0x78"
abbreviation (input) OSDP_REPLY_BUSY :: byte where "OSDP_REPLY_BUSY \<equiv> 0x79"
abbreviation (input) OSDP_REPLY_FTSTAT :: byte where "OSDP_REPLY_FTSTAT \<equiv> 0x7A"
abbreviation (input) OSDP_REPLY_PIVDATAR :: byte where "OSDP_REPLY_PIVDATAR \<equiv> 0x80"
abbreviation (input) OSDP_REPLY_GENAUTHR :: byte where "OSDP_REPLY_GENAUTHR \<equiv> 0x81"
abbreviation (input) OSDP_REPLY_CRAUTHR :: byte where "OSDP_REPLY_CRAUTHR \<equiv> 0x82"
abbreviation (input) OSDP_REPLY_MFGSTATR :: byte where "OSDP_REPLY_MFGSTATR \<equiv> 0x83"
abbreviation (input) OSDP_REPLY_MFGERRR :: byte where "OSDP_REPLY_MFGERRR \<equiv> 0x84"
abbreviation (input) OSDP_REPLY_MFGREP :: byte where "OSDP_REPLY_MFGREP \<equiv> 0x90"
abbreviation (input) OSDP_REPLY_XRD :: byte where "OSDP_REPLY_XRD \<equiv> 0xB1"

abbreviation (input) OSDP_NAK_BAD_CHECK :: byte where "OSDP_NAK_BAD_CHECK \<equiv> 1"
abbreviation (input) OSDP_NAK_CMD_LENGTH :: byte where "OSDP_NAK_CMD_LENGTH \<equiv> 2"
abbreviation (input) OSDP_NAK_UNKNOWN_CMD :: byte where "OSDP_NAK_UNKNOWN_CMD \<equiv> 3"
abbreviation (input) OSDP_NAK_UNEXPECTED_SEQUENCE :: byte where "OSDP_NAK_UNEXPECTED_SEQUENCE \<equiv> 4"
abbreviation (input) OSDP_NAK_UNSUPPORTED_SCB :: byte where "OSDP_NAK_UNSUPPORTED_SCB \<equiv> 5"
abbreviation (input) OSDP_NAK_ENCRYPTION_REQUIRED :: byte where "OSDP_NAK_ENCRYPTION_REQUIRED \<equiv> 6"
abbreviation (input) OSDP_NAK_RECORD_INVALID :: byte where "OSDP_NAK_RECORD_INVALID \<equiv> 9"

section \<open>Replies without data\<close>

definition osdp_ack_decode :: "bytes_ptr \<Rightarrow> nat \<Rightarrow> unit result" where
  [codec_defs]: "osdp_ack_decode payload len = (if len \<noteq> 0 then Inl OSDP_ERR_BAD_PAYLOAD else Inr ())"

definition osdp_ack_build :: "nat \<Rightarrow> bytes result" where
  [codec_defs]: "osdp_ack_build buf_cap = Inr []"

definition osdp_busy_decode :: "bytes_ptr \<Rightarrow> nat \<Rightarrow> unit result" where
  [codec_defs]: "osdp_busy_decode payload len = (if len \<noteq> 0 then Inl OSDP_ERR_BAD_PAYLOAD else Inr ())"

definition osdp_busy_build :: "nat \<Rightarrow> bytes result" where
  [codec_defs]: "osdp_busy_build buf_cap = Inr []"

section \<open>Replies of fixed size\<close>

abbreviation (input) OSDP_PDID_PAYLOAD_BYTES :: nat where "OSDP_PDID_PAYLOAD_BYTES \<equiv> 12"

record osdp_pdid =
  pi_vendor_code :: bytes
  pi_model :: byte
  pi_version :: byte
  pi_serial :: u32
  pi_firmware_major :: byte
  pi_firmware_minor :: byte
  pi_firmware_build :: byte

definition osdp_pdid_decode :: "bytes_ptr \<Rightarrow> nat \<Rightarrow> osdp_pdid result" where
  [codec_defs]: "osdp_pdid_decode payload len =
     (if len \<noteq> OSDP_PDID_PAYLOAD_BYTES \<or> payload = None then Inl OSDP_ERR_BAD_PAYLOAD
      else let p = the payload in
        Inr \<lparr>pi_vendor_code = [p ! 0, p ! 1, p ! 2], pi_model = p ! 3, pi_version = p ! 4,
             pi_serial = osdp_pack_read_u32le (drop 5 p), pi_firmware_major = p ! 9,
             pi_firmware_minor = p ! 10, pi_firmware_build = p ! 11\<rparr>)"

definition osdp_pdid_build :: "osdp_pdid \<Rightarrow> nat \<Rightarrow> bytes result" where
  [codec_defs]: "osdp_pdid_build r buf_cap =
     (if buf_cap < OSDP_PDID_PAYLOAD_BYTES then Inl OSDP_ERR_BUFFER_TOO_SMALL
      else Inr ([pi_vendor_code r ! 0, pi_vendor_code r ! 1, pi_vendor_code r ! 2, pi_model r, pi_version r]
                @ osdp_pack_write_u32le (pi_serial r)
                @ [pi_firmware_major r, pi_firmware_minor r, pi_firmware_build r]))"

record osdp_lstatr =
  ls_tamper :: byte
  ls_power :: byte

abbreviation (input) OSDP_LSTATR_PAYLOAD_BYTES :: nat where "OSDP_LSTATR_PAYLOAD_BYTES \<equiv> 2"

definition osdp_lstatr_decode :: "bytes_ptr \<Rightarrow> nat \<Rightarrow> osdp_lstatr result" where
  [codec_defs]: "osdp_lstatr_decode payload len =
     (if len \<noteq> OSDP_LSTATR_PAYLOAD_BYTES \<or> payload = None then Inl OSDP_ERR_BAD_PAYLOAD
      else Inr \<lparr>ls_tamper = the payload ! 0, ls_power = the payload ! 1\<rparr>)"

definition osdp_lstatr_build :: "osdp_lstatr \<Rightarrow> nat \<Rightarrow> bytes result" where
  [codec_defs]: "osdp_lstatr_build r buf_cap =
     (if buf_cap < OSDP_LSTATR_PAYLOAD_BYTES then Inl OSDP_ERR_BUFFER_TOO_SMALL
      else Inr [ls_tamper r, ls_power r])"

abbreviation (input) OSDP_COM_PAYLOAD_BYTES :: nat where "OSDP_COM_PAYLOAD_BYTES \<equiv> 5"

record osdp_com =
  co_address :: byte
  co_baud_rate :: u32

definition osdp_com_decode :: "bytes_ptr \<Rightarrow> nat \<Rightarrow> osdp_com result" where
  [codec_defs]: "osdp_com_decode payload len =
     (if len \<noteq> OSDP_COM_PAYLOAD_BYTES \<or> payload = None then Inl OSDP_ERR_BAD_PAYLOAD
      else let p = the payload in
        Inr \<lparr>co_address = p ! 0, co_baud_rate = osdp_pack_read_u32le (drop 1 p)\<rparr>)"

definition osdp_com_build :: "osdp_com \<Rightarrow> nat \<Rightarrow> bytes result" where
  [codec_defs]: "osdp_com_build r buf_cap =
     (if buf_cap < OSDP_COM_PAYLOAD_BYTES then Inl OSDP_ERR_BUFFER_TOO_SMALL
      else Inr (co_address r # osdp_pack_write_u32le (co_baud_rate r)))"

text \<open>The status detail of osdp_FTSTAT is an \<open>int16_t\<close>; its bit pattern is kept, \<open>sint\<close> reads it.\<close>

abbreviation (input) OSDP_FTSTAT_PAYLOAD_BYTES :: nat where "OSDP_FTSTAT_PAYLOAD_BYTES \<equiv> 7"

record osdp_ftstat =
  fs_action :: byte
  fs_delay_ms :: u16
  fs_status_detail :: "16 word"
  fs_update_msg_max :: u16

abbreviation (input) OSDP_FTSTAT_ABORT :: "16 word" where "OSDP_FTSTAT_ABORT \<equiv> -1"
abbreviation (input) OSDP_FTSTAT_OK :: "16 word" where "OSDP_FTSTAT_OK \<equiv> 0"
abbreviation (input) OSDP_FTSTAT_PROCESSED :: "16 word" where "OSDP_FTSTAT_PROCESSED \<equiv> 1"

definition osdp_ftstat_decode :: "bytes_ptr \<Rightarrow> nat \<Rightarrow> osdp_ftstat result" where
  [codec_defs]: "osdp_ftstat_decode payload len =
     (if len \<noteq> OSDP_FTSTAT_PAYLOAD_BYTES \<or> payload = None then Inl OSDP_ERR_BAD_PAYLOAD
      else let p = the payload in
        Inr \<lparr>fs_action = p ! 0, fs_delay_ms = osdp_pack_read_u16le (drop 1 p),
             fs_status_detail = osdp_pack_read_u16le (drop 3 p),
             fs_update_msg_max = osdp_pack_read_u16le (drop 5 p)\<rparr>)"

definition osdp_ftstat_build :: "osdp_ftstat \<Rightarrow> nat \<Rightarrow> bytes result" where
  [codec_defs]: "osdp_ftstat_build r buf_cap =
     (if buf_cap < OSDP_FTSTAT_PAYLOAD_BYTES then Inl OSDP_ERR_BUFFER_TOO_SMALL
      else Inr (fs_action r # osdp_pack_write_u16le (fs_delay_ms r)
                @ osdp_pack_write_u16le (fs_status_detail r) @ osdp_pack_write_u16le (fs_update_msg_max r)))"

record osdp_mfgstatr = ms_data :: byte

definition osdp_mfgstatr_decode :: "bytes_ptr \<Rightarrow> nat \<Rightarrow> osdp_mfgstatr result" where
  [codec_defs]: "osdp_mfgstatr_decode payload len =
     (if len \<noteq> 1 \<or> payload = None then Inl OSDP_ERR_BAD_PAYLOAD
      else Inr \<lparr>ms_data = the payload ! 0\<rparr>)"

definition osdp_mfgstatr_build :: "osdp_mfgstatr \<Rightarrow> nat \<Rightarrow> bytes result" where
  [codec_defs]: "osdp_mfgstatr_build r buf_cap =
     (if buf_cap < 1 then Inl OSDP_ERR_BUFFER_TOO_SMALL else Inr [ms_data r])"

record osdp_mfgerrr = me_data :: byte

definition osdp_mfgerrr_decode :: "bytes_ptr \<Rightarrow> nat \<Rightarrow> osdp_mfgerrr result" where
  [codec_defs]: "osdp_mfgerrr_decode payload len =
     (if len \<noteq> 1 \<or> payload = None then Inl OSDP_ERR_BAD_PAYLOAD
      else Inr \<lparr>me_data = the payload ! 0\<rparr>)"

definition osdp_mfgerrr_build :: "osdp_mfgerrr \<Rightarrow> nat \<Rightarrow> bytes result" where
  [codec_defs]: "osdp_mfgerrr_build r buf_cap =
     (if buf_cap < 1 then Inl OSDP_ERR_BUFFER_TOO_SMALL else Inr [me_data r])"

section \<open>Lists of status bytes\<close>

definition osdp_istatr_decode :: "bytes_ptr \<Rightarrow> nat \<Rightarrow> nat \<Rightarrow> bytes result" where
  [codec_defs]: "osdp_istatr_decode payload len statuses_cap =
     (if len > 0 \<and> payload = None then Inl OSDP_ERR_BAD_PAYLOAD
      else if len > 0 \<and> statuses_cap < len then Inl OSDP_ERR_BUFFER_TOO_SMALL
      else Inr (ptr_bytes payload len))"

definition osdp_istatr_build :: "bytes_ptr \<Rightarrow> nat \<Rightarrow> nat \<Rightarrow> bytes result" where
  [codec_defs]: "osdp_istatr_build statuses cnt buf_cap =
     (if cnt > 0 \<and> statuses = None then Inl OSDP_ERR_INVALID_ARG
      else if cnt > buf_cap then Inl OSDP_ERR_BUFFER_TOO_SMALL
      else Inr (ptr_bytes statuses cnt))"

definition osdp_ostatr_decode :: "bytes_ptr \<Rightarrow> nat \<Rightarrow> nat \<Rightarrow> bytes result" where
  [codec_defs]: "osdp_ostatr_decode payload len statuses_cap =
     (if len > 0 \<and> payload = None then Inl OSDP_ERR_BAD_PAYLOAD
      else if len > 0 \<and> statuses_cap < len then Inl OSDP_ERR_BUFFER_TOO_SMALL
      else Inr (ptr_bytes payload len))"

definition osdp_ostatr_build :: "bytes_ptr \<Rightarrow> nat \<Rightarrow> nat \<Rightarrow> bytes result" where
  [codec_defs]: "osdp_ostatr_build statuses cnt buf_cap =
     (if cnt > 0 \<and> statuses = None then Inl OSDP_ERR_INVALID_ARG
      else if cnt > buf_cap then Inl OSDP_ERR_BUFFER_TOO_SMALL
      else Inr (ptr_bytes statuses cnt))"

definition osdp_rstatr_decode :: "bytes_ptr \<Rightarrow> nat \<Rightarrow> nat \<Rightarrow> bytes result" where
  [codec_defs]: "osdp_rstatr_decode payload len statuses_cap =
     (if len > 0 \<and> payload = None then Inl OSDP_ERR_BAD_PAYLOAD
      else if len > 0 \<and> statuses_cap < len then Inl OSDP_ERR_BUFFER_TOO_SMALL
      else Inr (ptr_bytes payload len))"

definition osdp_rstatr_build :: "bytes_ptr \<Rightarrow> nat \<Rightarrow> nat \<Rightarrow> bytes result" where
  [codec_defs]: "osdp_rstatr_build statuses cnt buf_cap =
     (if cnt > 0 \<and> statuses = None then Inl OSDP_ERR_INVALID_ARG
      else if cnt > buf_cap then Inl OSDP_ERR_BUFFER_TOO_SMALL
      else Inr (ptr_bytes statuses cnt))"

section \<open>Header and tail\<close>

record osdp_nak =
  nk_error_code :: byte
  nk_details :: bytes_ptr
  nk_details_len :: nat

definition osdp_nak_decode :: "bytes_ptr \<Rightarrow> nat \<Rightarrow> osdp_nak result" where
  [codec_defs]: "osdp_nak_decode payload len =
     (if len < 1 \<or> payload = None then Inl OSDP_ERR_BAD_PAYLOAD
      else
        let p = the payload; details_len = len - 1 in
        Inr \<lparr>nk_error_code = p ! 0,
             nk_details = (if details_len > 0 then Some (take details_len (drop 1 p)) else None),
             nk_details_len = details_len\<rparr>)"

definition osdp_nak_build :: "osdp_nak \<Rightarrow> nat \<Rightarrow> bytes result" where
  [codec_defs]: "osdp_nak_build r buf_cap =
     (if nk_details_len r > 0 \<and> nk_details r = None then Inl OSDP_ERR_INVALID_ARG
      else if 1 + nk_details_len r > buf_cap then Inl OSDP_ERR_BUFFER_TOO_SMALL
      else Inr (nk_error_code r # ptr_bytes (nk_details r) (nk_details_len r)))"

abbreviation (input) OSDP_RAW_HEADER_BYTES :: nat where "OSDP_RAW_HEADER_BYTES \<equiv> 4"

record osdp_raw =
  rw_reader_no :: byte
  rw_format_code :: byte
  rw_bit_count :: u16
  rw_bit_data :: bytes_ptr
  rw_bit_data_len :: nat

text \<open>The RAW decoder fills its output before it checks the bit count, so the output is returned on
  that error too.\<close>

definition osdp_raw_decode :: "bytes_ptr \<Rightarrow> nat \<Rightarrow> osdp_raw \<Rightarrow> osdp_status \<times> osdp_raw" where
  "osdp_raw_decode payload len out =
     (if len < OSDP_RAW_HEADER_BYTES \<or> payload = None then (OSDP_ERR_BAD_PAYLOAD, out)
      else
        let p = the payload; bit_data_len = len - OSDP_RAW_HEADER_BYTES;
            r = \<lparr>rw_reader_no = p ! 0, rw_format_code = p ! 1,
                 rw_bit_count = osdp_pack_read_u16le (drop 2 p),
                 rw_bit_data = (if bit_data_len > 0
                    then Some (take bit_data_len (drop OSDP_RAW_HEADER_BYTES p)) else None),
                 rw_bit_data_len = bit_data_len\<rparr>;
            expected = (unat (rw_bit_count r) + 7) div 8
        in if rw_bit_data_len r \<noteq> expected then (OSDP_ERR_BAD_PAYLOAD, r) else (OSDP_OK, r))"

definition osdp_raw_build :: "osdp_raw \<Rightarrow> nat \<Rightarrow> bytes result" where
  "osdp_raw_build r buf_cap =
     (let expected = (unat (rw_bit_count r) + 7) div 8 in
      if rw_bit_data_len r \<noteq> expected then Inl OSDP_ERR_INVALID_ARG
      else if rw_bit_data_len r > 0 \<and> rw_bit_data r = None then Inl OSDP_ERR_INVALID_ARG
      else if OSDP_RAW_HEADER_BYTES + rw_bit_data_len r > buf_cap then Inl OSDP_ERR_BUFFER_TOO_SMALL
      else Inr ([rw_reader_no r, rw_format_code r] @ osdp_pack_write_u16le (rw_bit_count r)
                @ ptr_bytes (rw_bit_data r) (rw_bit_data_len r)))"

abbreviation (input) OSDP_KEYPAD_HEADER_BYTES :: nat where "OSDP_KEYPAD_HEADER_BYTES \<equiv> 2"

record osdp_keypad =
  kp_reader_no :: byte
  kp_digit_count :: byte
  kp_digits :: bytes_ptr
  kp_digits_len :: nat

definition osdp_keypad_decode :: "bytes_ptr \<Rightarrow> nat \<Rightarrow> osdp_keypad result" where
  [codec_defs]: "osdp_keypad_decode payload len =
     (if len < OSDP_KEYPAD_HEADER_BYTES \<or> payload = None then Inl OSDP_ERR_BAD_PAYLOAD
      else
        let p = the payload; digit_count = p ! 1 in
        if OSDP_KEYPAD_HEADER_BYTES + unat digit_count \<noteq> len then Inl OSDP_ERR_BAD_PAYLOAD
        else Inr \<lparr>kp_reader_no = p ! 0, kp_digit_count = digit_count,
               kp_digits = (if digit_count > 0
                  then Some (take (unat digit_count) (drop OSDP_KEYPAD_HEADER_BYTES p)) else None),
               kp_digits_len = unat digit_count\<rparr>)"

definition osdp_keypad_build :: "osdp_keypad \<Rightarrow> nat \<Rightarrow> bytes result" where
  [codec_defs]: "osdp_keypad_build r buf_cap =
     (if unat (kp_digit_count r) \<noteq> kp_digits_len r then Inl OSDP_ERR_INVALID_ARG
      else if kp_digits_len r > 0 \<and> kp_digits r = None then Inl OSDP_ERR_INVALID_ARG
      else if OSDP_KEYPAD_HEADER_BYTES + kp_digits_len r > buf_cap then Inl OSDP_ERR_BUFFER_TOO_SMALL
      else Inr ([kp_reader_no r, kp_digit_count r] @ ptr_bytes (kp_digits r) (kp_digits_len r)))"

abbreviation (input) OSDP_FMT_HEADER_BYTES :: nat where "OSDP_FMT_HEADER_BYTES \<equiv> 3"

record osdp_fmt =
  fm_reader_no :: byte
  fm_direction :: byte
  fm_char_count :: byte
  fm_chars :: bytes_ptr
  fm_chars_len :: nat

definition osdp_fmt_decode :: "bytes_ptr \<Rightarrow> nat \<Rightarrow> osdp_fmt result" where
  [codec_defs]: "osdp_fmt_decode payload len =
     (if len < OSDP_FMT_HEADER_BYTES \<or> payload = None then Inl OSDP_ERR_BAD_PAYLOAD
      else
        let p = the payload; char_count = p ! 2 in
        if OSDP_FMT_HEADER_BYTES + unat char_count \<noteq> len then Inl OSDP_ERR_BAD_PAYLOAD
        else Inr \<lparr>fm_reader_no = p ! 0, fm_direction = p ! 1, fm_char_count = char_count,
               fm_chars = (if char_count > 0
                  then Some (take (unat char_count) (drop OSDP_FMT_HEADER_BYTES p)) else None),
               fm_chars_len = unat char_count\<rparr>)"

definition osdp_fmt_build :: "osdp_fmt \<Rightarrow> nat \<Rightarrow> bytes result" where
  [codec_defs]: "osdp_fmt_build r buf_cap =
     (if unat (fm_char_count r) \<noteq> fm_chars_len r then Inl OSDP_ERR_INVALID_ARG
      else if fm_chars_len r > 0 \<and> fm_chars r = None then Inl OSDP_ERR_INVALID_ARG
      else if OSDP_FMT_HEADER_BYTES + fm_chars_len r > buf_cap then Inl OSDP_ERR_BUFFER_TOO_SMALL
      else Inr ([fm_reader_no r, fm_direction r, fm_char_count r] @ ptr_bytes (fm_chars r) (fm_chars_len r)))"

abbreviation (input) OSDP_MFGREP_HEADER_BYTES :: nat where "OSDP_MFGREP_HEADER_BYTES \<equiv> 3"

record osdp_mfgrep =
  mr_vendor_code :: bytes
  mr_data :: bytes_ptr
  mr_data_len :: nat

definition osdp_mfgrep_decode :: "bytes_ptr \<Rightarrow> nat \<Rightarrow> osdp_mfgrep result" where
  [codec_defs]: "osdp_mfgrep_decode payload len =
     (if len < OSDP_MFGREP_HEADER_BYTES \<or> payload = None then Inl OSDP_ERR_BAD_PAYLOAD
      else
        let p = the payload; data_len = len - OSDP_MFGREP_HEADER_BYTES in
        Inr \<lparr>mr_vendor_code = take 3 p,
             mr_data = (if data_len > 0 then Some (take data_len (drop OSDP_MFGREP_HEADER_BYTES p)) else None),
             mr_data_len = data_len\<rparr>)"

definition osdp_mfgrep_build :: "osdp_mfgrep \<Rightarrow> nat \<Rightarrow> bytes result" where
  [codec_defs]: "osdp_mfgrep_build r buf_cap =
     (if mr_data_len r > 0 \<and> mr_data r = None then Inl OSDP_ERR_INVALID_ARG
      else if OSDP_MFGREP_HEADER_BYTES + mr_data_len r > buf_cap then Inl OSDP_ERR_BUFFER_TOO_SMALL
      else Inr (take 3 (mr_vendor_code r) @ ptr_bytes (mr_data r) (mr_data_len r)))"

section \<open>Capability records\<close>

abbreviation (input) OSDP_PDCAP_RECORD_BYTES :: nat where "OSDP_PDCAP_RECORD_BYTES \<equiv> 3"

record osdp_pdcap_record =
  pc_function_code :: byte
  pc_compliance_level :: byte
  pc_num_objects :: byte

definition pdcap_record_read :: "bytes \<Rightarrow> osdp_pdcap_record" where
  "pdcap_record_read r = \<lparr>pc_function_code = r ! 0, pc_compliance_level = r ! 1, pc_num_objects = r ! 2\<rparr>"

definition pdcap_record_bytes :: "osdp_pdcap_record \<Rightarrow> bytes" where
  "pdcap_record_bytes r = [pc_function_code r, pc_compliance_level r, pc_num_objects r]"

definition osdp_pdcap_decode :: "bytes_ptr \<Rightarrow> nat \<Rightarrow> nat \<Rightarrow> osdp_pdcap_record list result" where
  "osdp_pdcap_decode payload len records_cap =
     (if len mod OSDP_PDCAP_RECORD_BYTES \<noteq> 0 then Inl OSDP_ERR_BAD_PAYLOAD
      else if len > 0 \<and> payload = None then Inl OSDP_ERR_BAD_PAYLOAD
      else
        let cnt = len div OSDP_PDCAP_RECORD_BYTES in
        if cnt > 0 \<and> records_cap < cnt then Inl OSDP_ERR_BUFFER_TOO_SMALL
        else Inr (read_records OSDP_PDCAP_RECORD_BYTES pdcap_record_read (the payload) cnt))"

definition osdp_pdcap_build :: "osdp_pdcap_record list option \<Rightarrow> nat \<Rightarrow> nat \<Rightarrow> bytes result" where
  "osdp_pdcap_build records record_count buf_cap =
     (if record_count > 0 \<and> records = None then Inl OSDP_ERR_INVALID_ARG
      else if record_count * OSDP_PDCAP_RECORD_BYTES > buf_cap then Inl OSDP_ERR_BUFFER_TOO_SMALL
      else Inr (concat (map pdcap_record_bytes (take record_count (the records)))))"

text \<open>The Annex B catalogue: per function code, which compliance levels and object counts are legal.\<close>

datatype osdp_pdcap_field_kind =
    OSDP_PDCAP_FIELD_ANY
  | OSDP_PDCAP_FIELD_RANGE
  | OSDP_PDCAP_FIELD_RANGE_OR_PRIVATE
  | OSDP_PDCAP_FIELD_BITMAP

record osdp_pdcap_field_rule =
  fu_kind :: osdp_pdcap_field_kind
  fu_a :: byte
  fu_b :: byte

record osdp_pdcap_catalog_entry =
  ce_function_code :: byte
  ce_compliance :: osdp_pdcap_field_rule
  ce_num_objects :: osdp_pdcap_field_rule

abbreviation (input) OSDP_PDCAP_ANY :: osdp_pdcap_field_rule where
  "OSDP_PDCAP_ANY \<equiv> \<lparr>fu_kind = OSDP_PDCAP_FIELD_ANY, fu_a = 0, fu_b = 0\<rparr>"
abbreviation (input) OSDP_PDCAP_RANGE :: "byte \<Rightarrow> osdp_pdcap_field_rule" where
  "OSDP_PDCAP_RANGE m \<equiv> \<lparr>fu_kind = OSDP_PDCAP_FIELD_RANGE, fu_a = m, fu_b = 0\<rparr>"
abbreviation (input) OSDP_PDCAP_ZERO :: osdp_pdcap_field_rule where
  "OSDP_PDCAP_ZERO \<equiv> OSDP_PDCAP_RANGE 0"
abbreviation (input) OSDP_PDCAP_RANGE_PRIV :: "byte \<Rightarrow> byte \<Rightarrow> osdp_pdcap_field_rule" where
  "OSDP_PDCAP_RANGE_PRIV m p \<equiv> \<lparr>fu_kind = OSDP_PDCAP_FIELD_RANGE_OR_PRIVATE, fu_a = m, fu_b = p\<rparr>"
abbreviation (input) OSDP_PDCAP_BITMAP :: "byte \<Rightarrow> osdp_pdcap_field_rule" where
  "OSDP_PDCAP_BITMAP m \<equiv> \<lparr>fu_kind = OSDP_PDCAP_FIELD_BITMAP, fu_a = m, fu_b = 0\<rparr>"

definition pdcap_entry :: "byte \<Rightarrow> osdp_pdcap_field_rule \<Rightarrow> osdp_pdcap_field_rule \<Rightarrow> osdp_pdcap_catalog_entry" where
  "pdcap_entry fc c n = \<lparr>ce_function_code = fc, ce_compliance = c, ce_num_objects = n\<rparr>"

definition k_pdcap_catalog :: "osdp_pdcap_catalog_entry list" where
  "k_pdcap_catalog = [
     pdcap_entry 1 (OSDP_PDCAP_RANGE 4) OSDP_PDCAP_ANY,
     pdcap_entry 2 (OSDP_PDCAP_RANGE 4) OSDP_PDCAP_ANY,
     pdcap_entry 3 (OSDP_PDCAP_RANGE 3) OSDP_PDCAP_ZERO,
     pdcap_entry 4 (OSDP_PDCAP_RANGE 6) OSDP_PDCAP_ANY,
     pdcap_entry 5 (OSDP_PDCAP_RANGE 2) OSDP_PDCAP_ANY,
     pdcap_entry 6 (OSDP_PDCAP_RANGE 3) OSDP_PDCAP_ANY,
     pdcap_entry 7 OSDP_PDCAP_ZERO OSDP_PDCAP_ZERO,
     pdcap_entry 8 (OSDP_PDCAP_RANGE 1) OSDP_PDCAP_ZERO,
     pdcap_entry 9 (OSDP_PDCAP_BITMAP 1) (OSDP_PDCAP_BITMAP 1),
     pdcap_entry 10 OSDP_PDCAP_ANY OSDP_PDCAP_ANY,
     pdcap_entry 11 OSDP_PDCAP_ANY OSDP_PDCAP_ANY,
     pdcap_entry 12 (OSDP_PDCAP_BITMAP 3) OSDP_PDCAP_ZERO,
     pdcap_entry 13 OSDP_PDCAP_ZERO OSDP_PDCAP_ANY,
     pdcap_entry 14 (OSDP_PDCAP_RANGE 3) OSDP_PDCAP_ZERO,
     pdcap_entry 15 (OSDP_PDCAP_RANGE 1) OSDP_PDCAP_ZERO,
     pdcap_entry 16 (OSDP_PDCAP_RANGE_PRIV 4 0x80) OSDP_PDCAP_ZERO]"

definition pdcap_field_ok :: "osdp_pdcap_field_rule \<Rightarrow> byte \<Rightarrow> bool" where
  "pdcap_field_ok rule val =
     (case fu_kind rule of
        OSDP_PDCAP_FIELD_ANY \<Rightarrow> True
      | OSDP_PDCAP_FIELD_RANGE \<Rightarrow> val \<le> fu_a rule
      | OSDP_PDCAP_FIELD_RANGE_OR_PRIVATE \<Rightarrow> val \<le> fu_a rule \<or> val \<ge> fu_b rule
      | OSDP_PDCAP_FIELD_BITMAP \<Rightarrow> val AND NOT (fu_a rule) = 0)"

text \<open>The search loop stops at the first entry with the function code, as \<open>List.find\<close> does.\<close>

definition osdp_pdcap_validate_record :: "osdp_pdcap_record \<Rightarrow> osdp_status" where
  "osdp_pdcap_validate_record record =
     (case List.find (\<lambda>e. ce_function_code e = pc_function_code record) k_pdcap_catalog of
        None \<Rightarrow> OSDP_ERR_INVALID_ARG
      | Some entry \<Rightarrow>
          if \<not> pdcap_field_ok (ce_compliance entry) (pc_compliance_level record) then OSDP_ERR_INVALID_ARG
          else if \<not> pdcap_field_ok (ce_num_objects entry) (pc_num_objects record) then OSDP_ERR_INVALID_ARG
          else OSDP_OK)"

section \<open>The codecs satisfy the contract\<close>

interpretation ack: payload_codec osdp_ack_decode "\<lambda>_. osdp_ack_build" "\<lambda>_. True" "\<lambda>_. True"
  by unfold_locales (auto simp: codec_defs split: if_splits)

interpretation busy: payload_codec osdp_busy_decode "\<lambda>_. osdp_busy_build" "\<lambda>_. True" "\<lambda>_. True"
  by unfold_locales (auto simp: codec_defs split: if_splits)

lemma pdid_drop:
  "drop 5 (a # b # c # d # e # xs) = xs"
  by simp

interpretation pdid: payload_codec osdp_pdid_decode osdp_pdid_build
    "\<lambda>r. length (pi_vendor_code r) = 3" "\<lambda>_. True"
proof
  fix x :: osdp_pdid and cap bs
  assume x: "length (pi_vendor_code x) = 3" and b: "osdp_pdid_build x cap = Inr bs"
  obtain v0 v1 v2 where v: "pi_vendor_code x = [v0, v1, v2]"
    using x by (elim list_head_cases) simp
  then have bs: "bs = [v0, v1, v2, pi_model x, pi_version x] @ osdp_pack_write_u32le (pi_serial x)
      @ [pi_firmware_major x, pi_firmware_minor x, pi_firmware_build x]" "12 \<le> cap"
    using b by (auto simp: codec_defs split: if_splits)
  have "\<exists>d1 d2 d3 d4. osdp_pack_write_u32le (pi_serial x) = [d1, d2, d3, d4]"
    by (simp add: osdp_pack_write_u32le_def)
  then obtain d1 d2 d3 d4 where d: "osdp_pack_write_u32le (pi_serial x) = [d1, d2, d3, d4]"
    by blast
  have "osdp_pack_read_u32le ([d1, d2, d3, d4] @ rest) = pi_serial x" for rest
    using read_write_u32le [of "pi_serial x" rest] by (simp add: d)
  then show "osdp_pdid_decode (ptr_of bs) (length bs) = Inr x"
    using v by (simp add: bs(1) d codec_defs)
  show "length bs \<le> cap \<and> True"
    using bs by simp
qed (auto simp: codec_defs Let_def pack_simps split: if_splits dest!: list_of_length)

interpretation lstatr: payload_codec osdp_lstatr_decode osdp_lstatr_build "\<lambda>_. True" "\<lambda>_. True"
  by unfold_locales (auto simp: codec_defs Let_def split: if_splits dest!: list_of_length)

interpretation com: payload_codec osdp_com_decode osdp_com_build "\<lambda>_. True" "\<lambda>_. True"
  by (unfold_locales, auto simp: codec_defs Let_def not_less split: if_splits,
      auto simp: pack_simps dest!: list_of_length)

lemma ftstat_drop:
  "drop 3 (a # osdp_pack_write_u16le b @ xs) = xs"
  "drop 5 (a # osdp_pack_write_u16le b @ osdp_pack_write_u16le c @ xs) = xs"
  by (simp_all add: osdp_pack_write_u16le_def)

interpretation ftstat: payload_codec osdp_ftstat_decode osdp_ftstat_build "\<lambda>_. True" "\<lambda>_. True"
  by (unfold_locales, auto simp: codec_defs Let_def not_less ftstat_drop ftstat_drop(2) [where xs = "[]", simplified]
        split: if_splits,
      auto simp: pack_simps dest!: list_of_length)

interpretation mfgstatr: payload_codec osdp_mfgstatr_decode osdp_mfgstatr_build "\<lambda>_. True" "\<lambda>_. True"
  by unfold_locales (auto simp: codec_defs split: if_splits dest!: list_of_length)

interpretation mfgerrr: payload_codec osdp_mfgerrr_decode osdp_mfgerrr_build "\<lambda>_. True" "\<lambda>_. True"
  by unfold_locales (auto simp: codec_defs split: if_splits dest!: list_of_length)

interpretation istatr: payload_codec "\<lambda>p n. osdp_istatr_decode p n n"
    "\<lambda>bs. osdp_istatr_build (Some bs) (length bs)" "\<lambda>_. True" "\<lambda>_. True"
  by unfold_locales (auto simp: codec_defs ptr_bytes_def ptr_of_def split: if_splits)

interpretation ostatr: payload_codec "\<lambda>p n. osdp_ostatr_decode p n n"
    "\<lambda>bs. osdp_ostatr_build (Some bs) (length bs)" "\<lambda>_. True" "\<lambda>_. True"
  by unfold_locales (auto simp: codec_defs ptr_bytes_def ptr_of_def split: if_splits)

interpretation rstatr: payload_codec "\<lambda>p n. osdp_rstatr_decode p n n"
    "\<lambda>bs. osdp_rstatr_build (Some bs) (length bs)" "\<lambda>_. True" "\<lambda>_. True"
  by unfold_locales (auto simp: codec_defs ptr_bytes_def ptr_of_def split: if_splits)

interpretation nak: payload_codec osdp_nak_decode osdp_nak_build
    "\<lambda>r. True \<and> (\<exists>d. nk_details r = ptr_of d \<and> nk_details_len r = length d)" "\<lambda>_. True"
  by (rule payload_codec_tail [where k = 1 and fits = "\<lambda>h n. True" and hdr = "\<lambda>r. [nk_error_code r]"
      and mk = "\<lambda>h t. \<lparr>nk_error_code = h ! 0, nk_details = ptr_of t, nk_details_len = length t\<rparr>"])
    (auto simp: codec_defs Let_def ptr_of_def elim!: list_head_cases)

interpretation mfgrep: payload_codec osdp_mfgrep_decode osdp_mfgrep_build
    "\<lambda>r. length (mr_vendor_code r) = 3 \<and> (\<exists>d. mr_data r = ptr_of d \<and> mr_data_len r = length d)" "\<lambda>_. True"
  by (rule payload_codec_tail [where k = 3 and fits = "\<lambda>h n. True" and hdr = "\<lambda>r. take 3 (mr_vendor_code r)"
      and mk = "\<lambda>h t. \<lparr>mr_vendor_code = h, mr_data = ptr_of t, mr_data_len = length t\<rparr>"])
    (auto simp: codec_defs Let_def ptr_of_def)

interpretation keypad: payload_codec osdp_keypad_decode osdp_keypad_build
    "\<lambda>r. True \<and> (\<exists>d. kp_digits r = ptr_of d \<and> kp_digits_len r = length d)" "\<lambda>_. True"
proof (rule payload_codec_tail [where k = 2 and fits = "\<lambda>h n. unat (h ! 1) = n"
      and hdr = "\<lambda>r. [kp_reader_no r, kp_digit_count r]"
      and mk = "\<lambda>h t. \<lparr>kp_reader_no = h ! 0, kp_digit_count = h ! 1, kp_digits = ptr_of t,
               kp_digits_len = length t\<rparr>"])
  show "osdp_keypad_decode (Some (h @ t)) (length h + length t) = (if unat (h ! 1) = length t
      then Inr \<lparr>kp_reader_no = h ! 0, kp_digit_count = h ! 1, kp_digits = ptr_of t,
               kp_digits_len = length t\<rparr> else Inl OSDP_ERR_BAD_PAYLOAD)" if "length h = 2" for h t
    using that by (elim list_head_cases) (auto simp: codec_defs Let_def unat_pos_ptr)
qed (auto simp: codec_defs elim!: list_head_cases)

interpretation fmt: payload_codec osdp_fmt_decode osdp_fmt_build
    "\<lambda>r. True \<and> (\<exists>d. fm_chars r = ptr_of d \<and> fm_chars_len r = length d)" "\<lambda>_. True"
proof (rule payload_codec_tail [where k = 3 and fits = "\<lambda>h n. unat (h ! 2) = n"
      and hdr = "\<lambda>r. [fm_reader_no r, fm_direction r, fm_char_count r]"
      and mk = "\<lambda>h t. \<lparr>fm_reader_no = h ! 0, fm_direction = h ! 1, fm_char_count = h ! 2,
               fm_chars = ptr_of t, fm_chars_len = length t\<rparr>"])
  show "osdp_fmt_decode (Some (h @ t)) (length h + length t) = (if unat (h ! 2) = length t
      then Inr \<lparr>fm_reader_no = h ! 0, fm_direction = h ! 1, fm_char_count = h ! 2,
               fm_chars = ptr_of t, fm_chars_len = length t\<rparr> else Inl OSDP_ERR_BAD_PAYLOAD)"
    if "length h = 3" for h t
    using that by (elim list_head_cases) (auto simp: codec_defs Let_def unat_pos_ptr)
qed (auto simp: codec_defs elim!: list_head_cases)

lemma pdcap_record_roundtrip:
  "length (pdcap_record_bytes r) = 3" "pdcap_record_read (pdcap_record_bytes r @ rest) = r"
  "3 \<le> length p \<Longrightarrow> pdcap_record_bytes (pdcap_record_read p) = take 3 p"
  by (auto simp: pdcap_record_bytes_def pdcap_record_read_def Suc_le_length_iff eval_nat_numeral)

interpretation pdcap: payload_codec "\<lambda>p n. osdp_pdcap_decode p n (n div OSDP_PDCAP_RECORD_BYTES)"
    "\<lambda>rs. osdp_pdcap_build (Some rs) (length rs)" "\<lambda>_. True" "\<lambda>rs. rs \<noteq> [] \<or> True"
  by (rule payload_codec_records [where k = 3 and enc = pdcap_record_bytes and dec = pdcap_record_read])
    (auto simp: pdcap_record_roundtrip osdp_pdcap_decode_def osdp_pdcap_build_def)

text \<open>The RAW decoder seen as a result: its output counts only with \<open>OSDP_OK\<close>.\<close>

definition zero_raw :: osdp_raw where
  "zero_raw = \<lparr>rw_reader_no = 0, rw_format_code = 0, rw_bit_count = 0, rw_bit_data = None, rw_bit_data_len = 0\<rparr>"

definition raw_decode_result :: "bytes_ptr \<Rightarrow> nat \<Rightarrow> osdp_raw result" where
  "raw_decode_result payload len =
     (case osdp_raw_decode payload len zero_raw of (s, r) \<Rightarrow> if s = OSDP_OK then Inr r else Inl s)"

interpretation raw: payload_codec raw_decode_result osdp_raw_build
    "\<lambda>r. True \<and> (\<exists>d. rw_bit_data r = ptr_of d \<and> rw_bit_data_len r = length d)" "\<lambda>_. True"
proof (rule payload_codec_tail [where k = 4
      and fits = "\<lambda>h n. n = (unat (osdp_pack_read_u16le (drop 2 h)) + 7) div 8"
      and hdr = "\<lambda>r. [rw_reader_no r, rw_format_code r] @ osdp_pack_write_u16le (rw_bit_count r)"
      and mk = "\<lambda>h t. \<lparr>rw_reader_no = h ! 0, rw_format_code = h ! 1,
               rw_bit_count = osdp_pack_read_u16le (drop 2 h), rw_bit_data = ptr_of t,
               rw_bit_data_len = length t\<rparr>"])
  show "raw_decode_result (Some (h @ t)) (length h + length t) =
     (if length t = (unat (osdp_pack_read_u16le (drop 2 h)) + 7) div 8
      then Inr \<lparr>rw_reader_no = h ! 0, rw_format_code = h ! 1,
               rw_bit_count = osdp_pack_read_u16le (drop 2 h), rw_bit_data = ptr_of t,
               rw_bit_data_len = length t\<rparr> else Inl OSDP_ERR_BAD_PAYLOAD)" if "length h = 4" for h t
    using that
    by (elim list_head_cases)
      (auto simp: raw_decode_result_def osdp_raw_decode_def Let_def ptr_of_def osdp_pack_read_u16le_def)
qed (auto simp: raw_decode_result_def osdp_raw_decode_def osdp_raw_build_def Let_def pack_simps
      elim!: list_head_cases)

section \<open>Properties\<close>

text \<open>A card read arrives as it was sent: a RAW reply whose data has exactly the bytes its bit count
  calls for passes builder, frame and both decoders unchanged.\<close>

theorem raw_reply_end_to_end:
  assumes "rw_bit_data r = ptr_of d" and "rw_bit_data_len r = length d"
    and "osdp_raw_build r cap = Inr bs" and "frame_ptrs_ok f"
    and "osdp_frame_build (f\<lparr>fr_payload := Some bs, fr_payload_len := length bs\<rparr>) cap' = Inr w"
  shows "\<exists>g. osdp_frame_decode (Some (tl w)) (length w - 1) out = (OSDP_OK, g) \<and>
    fr_code g = fr_code f \<and> osdp_raw_decode (fr_payload g) (fr_payload_len g) zero_raw = (OSDP_OK, r)"
proof -
  obtain g where "osdp_frame_decode (Some (tl w)) (length w - 1) out = (OSDP_OK, g)"
    "fr_code g = fr_code f" "raw_decode_result (fr_payload g) (fr_payload_len g) = Inr r"
    using raw.through_frame [of r, OF _ assms(3-5)] assms(1,2) by blast
  then show ?thesis
    by (auto simp: raw_decode_result_def split: if_splits prod.splits)
qed

definition ex_raw :: osdp_raw where
  "ex_raw = \<lparr>rw_reader_no = 0, rw_format_code = 1, rw_bit_count = 26,
     rw_bit_data = Some [0xDE, 0xAD, 0xBE, 0xC0], rw_bit_data_len = 4\<rparr>"

theorem raw_reply_end_to_end_witness:
  "\<exists>bs w g. osdp_raw_build ex_raw 32 = Inr bs \<and>
     osdp_frame_build (ex_frame\<lparr>fr_payload := Some bs, fr_payload_len := length bs\<rparr>) 64 = Inr w \<and>
     osdp_frame_decode (Some (tl w)) (length w - 1) zero_frame = (OSDP_OK, g) \<and>
     osdp_raw_decode (fr_payload g) (fr_payload_len g) zero_raw = (OSDP_OK, ex_raw)"
proof -
  let ?bs = "[0, 1, 26, 0, 0xDE, 0xAD, 0xBE, 0xC0] :: bytes"
  have b: "osdp_raw_build ex_raw 32 = Inr ?bs"
    by code_simp
  have "buildable (ex_frame\<lparr>fr_payload := Some ?bs, fr_payload_len := length ?bs\<rparr>) 19"
    by code_simp
  then obtain w where w:
    "osdp_frame_build (ex_frame\<lparr>fr_payload := Some ?bs, fr_payload_len := length ?bs\<rparr>) 64 = Inr w"
    using osdp_frame_build_eq by fastforce
  have "rw_bit_data ex_raw = ptr_of [0xDE, 0xAD, 0xBE, 0xC0]"
    "rw_bit_data_len ex_raw = length [0xDE, 0xAD, 0xBE, 0xC0 :: byte]"
    by (simp_all add: ex_raw_def)
  then show ?thesis
    using raw_reply_end_to_end [OF _ _ b ex_frame_ptrs w, of _ zero_frame] b w by blast
qed

end
