(* ===== verification/Dispatch.thy ===== *)
theory Dispatch
  imports Commands Replies
begin

text \<open>
  The message classifier of \<^verbatim>\<open>core/src/dispatch/dispatch_classify.c\<close>: from a decoded frame to the
  kind of message it carries, and the printable name of a kind. The lemmas show that the
  classifier separates all the codes the headers define.
\<close>

datatype (plugins only: code) osdp_message_kind =
    OSDP_MSG_UNKNOWN_COMMAND | OSDP_MSG_UNKNOWN_REPLY
  | OSDP_MSG_CMD_POLL | OSDP_MSG_CMD_ID | OSDP_MSG_CMD_CAP | OSDP_MSG_CMD_LSTAT | OSDP_MSG_CMD_ISTAT
  | OSDP_MSG_CMD_OSTAT | OSDP_MSG_CMD_RSTAT | OSDP_MSG_CMD_OUT | OSDP_MSG_CMD_LED | OSDP_MSG_CMD_BUZ
  | OSDP_MSG_CMD_TEXT | OSDP_MSG_CMD_COMSET | OSDP_MSG_CMD_BIOREAD | OSDP_MSG_CMD_BIOMATCH
  | OSDP_MSG_CMD_KEYSET | OSDP_MSG_CMD_CHLNG | OSDP_MSG_CMD_SCRYPT | OSDP_MSG_CMD_ACURXSIZE
  | OSDP_MSG_CMD_FILETRANSFER | OSDP_MSG_CMD_MFG | OSDP_MSG_CMD_XWR | OSDP_MSG_CMD_ABORT
  | OSDP_MSG_CMD_PIVDATA | OSDP_MSG_CMD_GENAUTH | OSDP_MSG_CMD_CRAUTH | OSDP_MSG_CMD_KEEPACTIVE
  | OSDP_MSG_REPLY_ACK | OSDP_MSG_REPLY_NAK | OSDP_MSG_REPLY_PDID | OSDP_MSG_REPLY_PDCAP
  | OSDP_MSG_REPLY_LSTATR | OSDP_MSG_REPLY_ISTATR | OSDP_MSG_REPLY_OSTATR | OSDP_MSG_REPLY_RSTATR
  | OSDP_MSG_REPLY_RAW | OSDP_MSG_REPLY_FMT | OSDP_MSG_REPLY_KEYPAD | OSDP_MSG_REPLY_COM
  | OSDP_MSG_REPLY_BIOREADR | OSDP_MSG_REPLY_BIOMATCHR | OSDP_MSG_REPLY_CCRYPT | OSDP_MSG_REPLY_RMAC_I
  | OSDP_MSG_REPLY_BUSY | OSDP_MSG_REPLY_FTSTAT | OSDP_MSG_REPLY_PIVDATAR | OSDP_MSG_REPLY_GENAUTHR
  | OSDP_MSG_REPLY_CRAUTHR | OSDP_MSG_REPLY_MFGSTATR | OSDP_MSG_REPLY_MFGERRR | OSDP_MSG_REPLY_MFGREP
  | OSDP_MSG_REPLY_XRD

text \<open>The cases of the two switch statements, in the order of the code.\<close>

definition reply_kinds :: "(byte \<times> osdp_message_kind) list" where
  "reply_kinds = [
     (OSDP_REPLY_ACK, OSDP_MSG_REPLY_ACK), (OSDP_REPLY_NAK, OSDP_MSG_REPLY_NAK),
     (OSDP_REPLY_PDID, OSDP_MSG_REPLY_PDID), (OSDP_REPLY_PDCAP, OSDP_MSG_REPLY_PDCAP),
     (OSDP_REPLY_LSTATR, OSDP_MSG_REPLY_LSTATR), (OSDP_REPLY_ISTATR, OSDP_MSG_REPLY_ISTATR),
     (OSDP_REPLY_OSTATR, OSDP_MSG_REPLY_OSTATR), (OSDP_REPLY_RSTATR, OSDP_MSG_REPLY_RSTATR),
     (OSDP_REPLY_RAW, OSDP_MSG_REPLY_RAW), (OSDP_REPLY_FMT, OSDP_MSG_REPLY_FMT),
     (OSDP_REPLY_KEYPAD, OSDP_MSG_REPLY_KEYPAD), (OSDP_REPLY_COM, OSDP_MSG_REPLY_COM),
     (OSDP_REPLY_BIOREADR, OSDP_MSG_REPLY_BIOREADR), (OSDP_REPLY_BIOMATCHR, OSDP_MSG_REPLY_BIOMATCHR),
     (OSDP_REPLY_CCRYPT, OSDP_MSG_REPLY_CCRYPT), (OSDP_REPLY_RMAC_I, OSDP_MSG_REPLY_RMAC_I),
     (OSDP_REPLY_BUSY, OSDP_MSG_REPLY_BUSY), (OSDP_REPLY_FTSTAT, OSDP_MSG_REPLY_FTSTAT),
     (OSDP_REPLY_PIVDATAR, OSDP_MSG_REPLY_PIVDATAR), (OSDP_REPLY_GENAUTHR, OSDP_MSG_REPLY_GENAUTHR),
     (OSDP_REPLY_CRAUTHR, OSDP_MSG_REPLY_CRAUTHR), (OSDP_REPLY_MFGSTATR, OSDP_MSG_REPLY_MFGSTATR),
     (OSDP_REPLY_MFGERRR, OSDP_MSG_REPLY_MFGERRR), (OSDP_REPLY_MFGREP, OSDP_MSG_REPLY_MFGREP),
     (OSDP_REPLY_XRD, OSDP_MSG_REPLY_XRD)]"

definition command_kinds :: "(byte \<times> osdp_message_kind) list" where
  "command_kinds = [
     (OSDP_CMD_POLL, OSDP_MSG_CMD_POLL), (OSDP_CMD_ID, OSDP_MSG_CMD_ID), (OSDP_CMD_CAP, OSDP_MSG_CMD_CAP),
     (OSDP_CMD_LSTAT, OSDP_MSG_CMD_LSTAT), (OSDP_CMD_ISTAT, OSDP_MSG_CMD_ISTAT),
     (OSDP_CMD_OSTAT, OSDP_MSG_CMD_OSTAT), (OSDP_CMD_RSTAT, OSDP_MSG_CMD_RSTAT),
     (OSDP_CMD_OUT, OSDP_MSG_CMD_OUT), (OSDP_CMD_LED, OSDP_MSG_CMD_LED), (OSDP_CMD_BUZ, OSDP_MSG_CMD_BUZ),
     (OSDP_CMD_TEXT, OSDP_MSG_CMD_TEXT), (OSDP_CMD_COMSET, OSDP_MSG_CMD_COMSET),
     (OSDP_CMD_BIOREAD, OSDP_MSG_CMD_BIOREAD), (OSDP_CMD_BIOMATCH, OSDP_MSG_CMD_BIOMATCH),
     (OSDP_CMD_KEYSET, OSDP_MSG_CMD_KEYSET), (OSDP_CMD_CHLNG, OSDP_MSG_CMD_CHLNG),
     (OSDP_CMD_SCRYPT, OSDP_MSG_CMD_SCRYPT), (OSDP_CMD_ACURXSIZE, OSDP_MSG_CMD_ACURXSIZE),
     (OSDP_CMD_FILETRANSFER, OSDP_MSG_CMD_FILETRANSFER), (OSDP_CMD_MFG, OSDP_MSG_CMD_MFG),
     (OSDP_CMD_XWR, OSDP_MSG_CMD_XWR), (OSDP_CMD_ABORT, OSDP_MSG_CMD_ABORT),
     (OSDP_CMD_PIVDATA, OSDP_MSG_CMD_PIVDATA), (OSDP_CMD_GENAUTH, OSDP_MSG_CMD_GENAUTH),
     (OSDP_CMD_CRAUTH, OSDP_MSG_CMD_CRAUTH), (OSDP_CMD_KEEPACTIVE, OSDP_MSG_CMD_KEEPACTIVE)]"

definition osdp_dispatch_classify :: "osdp_frame \<Rightarrow> osdp_message_kind" where
  "osdp_dispatch_classify frame =
     (if fr_reply frame then
        (case map_of reply_kinds (fr_code frame) of Some k \<Rightarrow> k | None \<Rightarrow> OSDP_MSG_UNKNOWN_REPLY)
      else
        (case map_of command_kinds (fr_code frame) of Some k \<Rightarrow> k | None \<Rightarrow> OSDP_MSG_UNKNOWN_COMMAND))"

primrec osdp_dispatch_name :: "osdp_message_kind \<Rightarrow> string" where
  "osdp_dispatch_name OSDP_MSG_UNKNOWN_COMMAND = ''unknown command''"
| "osdp_dispatch_name OSDP_MSG_UNKNOWN_REPLY = ''unknown reply''"
| "osdp_dispatch_name OSDP_MSG_CMD_POLL = ''osdp_POLL''"
| "osdp_dispatch_name OSDP_MSG_CMD_ID = ''osdp_ID''"
| "osdp_dispatch_name OSDP_MSG_CMD_CAP = ''osdp_CAP''"
| "osdp_dispatch_name OSDP_MSG_CMD_LSTAT = ''osdp_LSTAT''"
| "osdp_dispatch_name OSDP_MSG_CMD_ISTAT = ''osdp_ISTAT''"
| "osdp_dispatch_name OSDP_MSG_CMD_OSTAT = ''osdp_OSTAT''"
| "osdp_dispatch_name OSDP_MSG_CMD_RSTAT = ''osdp_RSTAT''"
| "osdp_dispatch_name OSDP_MSG_CMD_OUT = ''osdp_OUT''"
| "osdp_dispatch_name OSDP_MSG_CMD_LED = ''osdp_LED''"
| "osdp_dispatch_name OSDP_MSG_CMD_BUZ = ''osdp_BUZ''"
| "osdp_dispatch_name OSDP_MSG_CMD_TEXT = ''osdp_TEXT''"
| "osdp_dispatch_name OSDP_MSG_CMD_COMSET = ''osdp_COMSET''"
| "osdp_dispatch_name OSDP_MSG_CMD_BIOREAD = ''osdp_BIOREAD''"
| "osdp_dispatch_name OSDP_MSG_CMD_BIOMATCH = ''osdp_BIOMATCH''"
| "osdp_dispatch_name OSDP_MSG_CMD_KEYSET = ''osdp_KEYSET''"
| "osdp_dispatch_name OSDP_MSG_CMD_CHLNG = ''osdp_CHLNG''"
| "osdp_dispatch_name OSDP_MSG_CMD_SCRYPT = ''osdp_SCRYPT''"
| "osdp_dispatch_name OSDP_MSG_CMD_ACURXSIZE = ''osdp_ACURXSIZE''"
| "osdp_dispatch_name OSDP_MSG_CMD_FILETRANSFER = ''osdp_FILETRANSFER''"
| "osdp_dispatch_name OSDP_MSG_CMD_MFG = ''osdp_MFG''"
| "osdp_dispatch_name OSDP_MSG_CMD_XWR = ''osdp_XWR''"
| "osdp_dispatch_name OSDP_MSG_CMD_ABORT = ''osdp_ABORT''"
| "osdp_dispatch_name OSDP_MSG_CMD_PIVDATA = ''osdp_PIVDATA''"
| "osdp_dispatch_name OSDP_MSG_CMD_GENAUTH = ''osdp_GENAUTH''"
| "osdp_dispatch_name OSDP_MSG_CMD_CRAUTH = ''osdp_CRAUTH''"
| "osdp_dispatch_name OSDP_MSG_CMD_KEEPACTIVE = ''osdp_KEEPACTIVE''"
| "osdp_dispatch_name OSDP_MSG_REPLY_ACK = ''osdp_ACK''"
| "osdp_dispatch_name OSDP_MSG_REPLY_NAK = ''osdp_NAK''"
| "osdp_dispatch_name OSDP_MSG_REPLY_PDID = ''osdp_PDID''"
| "osdp_dispatch_name OSDP_MSG_REPLY_PDCAP = ''osdp_PDCAP''"
| "osdp_dispatch_name OSDP_MSG_REPLY_LSTATR = ''osdp_LSTATR''"
| "osdp_dispatch_name OSDP_MSG_REPLY_ISTATR = ''osdp_ISTATR''"
| "osdp_dispatch_name OSDP_MSG_REPLY_OSTATR = ''osdp_OSTATR''"
| "osdp_dispatch_name OSDP_MSG_REPLY_RSTATR = ''osdp_RSTATR''"
| "osdp_dispatch_name OSDP_MSG_REPLY_RAW = ''osdp_RAW''"
| "osdp_dispatch_name OSDP_MSG_REPLY_FMT = ''osdp_FMT''"
| "osdp_dispatch_name OSDP_MSG_REPLY_KEYPAD = ''osdp_KEYPAD''"
| "osdp_dispatch_name OSDP_MSG_REPLY_COM = ''osdp_COM''"
| "osdp_dispatch_name OSDP_MSG_REPLY_BIOREADR = ''osdp_BIOREADR''"
| "osdp_dispatch_name OSDP_MSG_REPLY_BIOMATCHR = ''osdp_BIOMATCHR''"
| "osdp_dispatch_name OSDP_MSG_REPLY_CCRYPT = ''osdp_CCRYPT''"
| "osdp_dispatch_name OSDP_MSG_REPLY_RMAC_I = ''osdp_RMAC_I''"
| "osdp_dispatch_name OSDP_MSG_REPLY_BUSY = ''osdp_BUSY''"
| "osdp_dispatch_name OSDP_MSG_REPLY_FTSTAT = ''osdp_FTSTAT''"
| "osdp_dispatch_name OSDP_MSG_REPLY_PIVDATAR = ''osdp_PIVDATAR''"
| "osdp_dispatch_name OSDP_MSG_REPLY_GENAUTHR = ''osdp_GENAUTHR''"
| "osdp_dispatch_name OSDP_MSG_REPLY_CRAUTHR = ''osdp_CRAUTHR''"
| "osdp_dispatch_name OSDP_MSG_REPLY_MFGSTATR = ''osdp_MFGSTATR''"
| "osdp_dispatch_name OSDP_MSG_REPLY_MFGERRR = ''osdp_MFGERRR''"
| "osdp_dispatch_name OSDP_MSG_REPLY_MFGREP = ''osdp_MFGREP''"
| "osdp_dispatch_name OSDP_MSG_REPLY_XRD = ''osdp_XRD''"

text \<open>No code and no kind occurs twice in the two tables, and no kind is in both.\<close>

lemma kind_tables:
  "distinct (map fst reply_kinds)" "distinct (map fst command_kinds)"
  "distinct (map snd reply_kinds @ map snd command_kinds @ [OSDP_MSG_UNKNOWN_REPLY, OSDP_MSG_UNKNOWN_COMMAND])"
  by code_simp+

lemma map_of_inj_kinds:
  assumes "distinct (map snd xs)" "map_of xs a = Some k" "map_of xs b = Some k"
  shows "a = b"
  using assms by (metis map_of_SomeD distinct_map fst_conv inj_onD snd_conv)

lemma map_of_kind_mem: "map_of xs a = Some k \<Longrightarrow> k \<in> set (map snd xs)"
  by (force dest: map_of_SomeD)

lemma classify_inj:
  assumes "osdp_dispatch_classify f = osdp_dispatch_classify g"
    and "osdp_dispatch_classify f \<notin> {OSDP_MSG_UNKNOWN_REPLY, OSDP_MSG_UNKNOWN_COMMAND}"
  shows "fr_reply f = fr_reply g \<and> fr_code f = fr_code g"
proof -
  have c: "\<exists>k. map_of (if fr_reply h then reply_kinds else command_kinds) (fr_code h) = Some k \<and>
      osdp_dispatch_classify h = k"
    if "osdp_dispatch_classify h \<notin> {OSDP_MSG_UNKNOWN_REPLY, OSDP_MSG_UNKNOWN_COMMAND}" for h
    using that by (auto simp: osdp_dispatch_classify_def split: option.splits if_splits)
  obtain k where k: "map_of (if fr_reply f then reply_kinds else command_kinds) (fr_code f) = Some k"
    "map_of (if fr_reply g then reply_kinds else command_kinds) (fr_code g) = Some k"
    using c [OF assms(2)] c [of g] assms by metis
  have d: "distinct (map snd reply_kinds)" "distinct (map snd command_kinds)"
    "set (map snd reply_kinds) \<inter> set (map snd command_kinds) = {}"
    using kind_tables(3) by auto
  then have "fr_reply f = fr_reply g"
    using k [THEN map_of_kind_mem] by (auto split: if_splits)
  moreover from this have "fr_code f = fr_code g"
    using k d map_of_inj_kinds by (cases "fr_reply f") auto
  ultimately show ?thesis ..
qed

end
