(* ===== verification/Capture.thy ===== *)
theory Capture
  imports Stream Dispatch
begin

unbundle bit_operations_syntax

text \<open>
  The capture reader of the parser tool: \<^verbatim>\<open>tools/osdp-parser/osdpcap.c\<close> and the loop of its
  \<^verbatim>\<open>main.c\<close>. A C string is the list of its characters before the NUL; a pointer into it is the suffix it points to.
  A character array is a list of its size, NUL included, so that an unterminated array can be
  told from a terminated one. What the program prints is a list of reports.
\<close>

section \<open>Characters and tokens\<close>

type_synonym u64 = "64 word"

abbreviation (input) NUL :: char where "NUL \<equiv> CHR 0x00"
abbreviation (input) QUOTE :: char where "QUOTE \<equiv> CHR 0x22"

abbreviation (input) OSDPCAP_MAX_DATA_LEN :: nat where "OSDPCAP_MAX_DATA_LEN \<equiv> 2048"
abbreviation (input) OSDPCAP_VERSION_LEN :: nat where "OSDPCAP_VERSION_LEN \<equiv> 16"
abbreviation (input) OSDPCAP_SOURCE_LEN :: nat where "OSDPCAP_SOURCE_LEN \<equiv> 128"

datatype osdpcap_status = OSDPCAP_OK | OSDPCAP_ERR_INVALID_ARG | OSDPCAP_ERR_EMPTY_LINE | OSDPCAP_ERR_PARSE
  | OSDPCAP_ERR_MISSING_DATA | OSDPCAP_ERR_BAD_HEX | OSDPCAP_ERR_DATA_TOO_LARGE

datatype osdpcap_io = OSDPCAP_IO_UNKNOWN | OSDPCAP_IO_INPUT | OSDPCAP_IO_OUTPUT | OSDPCAP_IO_TRACE

text \<open>\<open>cr_data\<close> holds the first \<open>data_len\<close> bytes of the array.\<close>

record osdpcap_record =
  cr_time_sec :: u64
  cr_time_nano :: u64
  cr_io :: osdpcap_io
  cr_data :: bytes
  cr_version :: string
  cr_source :: string

definition c_str :: "string \<Rightarrow> string" where
  "c_str buf = takeWhile (\<lambda>c. c \<noteq> NUL) buf"

definition is_ws :: "char \<Rightarrow> bool" where
  "is_ws c \<longleftrightarrow> c = CHR 0x20 \<or> c = CHR 0x09 \<or> c = CHR 0x0D \<or> c = CHR 0x0A"

definition skip_ws :: "string \<Rightarrow> string" where
  "skip_ws p = dropWhile is_ws p"

text \<open>The scan for a key; \<open>before\<close> is the character in front of \<open>p\<close>, if there is one.\<close>

fun find_key_from :: "char option \<Rightarrow> string \<Rightarrow> string \<Rightarrow> string option" where
  "find_key_from before [] name = None"
| "find_key_from before (c # p) name =
     (let after = drop (length name) (c # p) in
      if take (length name) (c # p) = name \<and> before = Some QUOTE \<and> after \<noteq> [] \<and> hd after = QUOTE
      then Some (tl after) else find_key_from (Some c) p name)"

definition find_key :: "string \<Rightarrow> string \<Rightarrow> string option" where
  "find_key line name = find_key_from None line name"

definition find_value :: "string \<Rightarrow> string \<Rightarrow> string option" where
  "find_value line name =
     (case find_key line name of
        None \<Rightarrow> None
      | Some p \<Rightarrow>
          (case skip_ws p of
             [] \<Rightarrow> None
           | c # q \<Rightarrow> if c \<noteq> CHR '':'' then None else Some (skip_ws q)))"

text \<open>Copying characters up to one that ends the token, as far as the array has room for them and a NUL.\<close>

fun copy_token :: "(char \<Rightarrow> bool) \<Rightarrow> nat \<Rightarrow> string \<Rightarrow> nat \<Rightarrow> string \<Rightarrow> string \<times> nat \<times> string" where
  "copy_token stop cap out i [] = (out, i, [])"
| "copy_token stop cap out i (c # p) =
     (if stop c then (out, i, c # p)
      else if i + 1 < cap then copy_token stop cap (out[i := c]) (i + 1) p
      else copy_token stop cap out i p)"

definition read_string :: "string \<Rightarrow> string \<Rightarrow> nat \<Rightarrow> string option \<times> string" where
  "read_string p out out_cap =
     (case p of
        [] \<Rightarrow> (None, out)
      | c # q \<Rightarrow>
          if c \<noteq> QUOTE then (None, out)
          else
            (case copy_token (\<lambda>c. c = QUOTE) out_cap out 0 q of
               (out1, i, []) \<Rightarrow> (None, out1)
             | (out1, i, _ # rest) \<Rightarrow> (Some rest, out1[(if i < out_cap then i else out_cap - 1) := NUL])))"

text \<open>\<open>strtoull\<close> in base 10: white space, an optional sign, digits; \<open>None\<close> when there is no digit. A value that does not
  fit is the largest one.\<close>

definition is_digit :: "char \<Rightarrow> bool" where
  "is_digit c \<longleftrightarrow> 48 \<le> (of_char c :: nat) \<and> (of_char c :: nat) \<le> 57"

definition digits_value :: "string \<Rightarrow> nat" where
  "digits_value ds = foldl (\<lambda>v d. 10 * v + (of_char d - 48)) 0 ds"

definition is_space :: "char \<Rightarrow> bool" where
  "is_space c \<longleftrightarrow> is_ws c \<or> c = CHR 0x0B \<or> c = CHR 0x0C"

definition strtoull :: "string \<Rightarrow> u64 option" where
  "strtoull s =
     (let p = dropWhile is_space s;
          neg = (p \<noteq> [] \<and> hd p = CHR ''-'');
          q = (if p \<noteq> [] \<and> (hd p = CHR ''-'' \<or> hd p = CHR ''+'') then tl p else p);
          ds = takeWhile is_digit q;
          v = digits_value ds
      in if ds = [] then None
         else if v \<ge> 2 ^ 64 then Some (- 1)
         else Some (if neg then - word_of_nat v else word_of_nat v))"

definition read_uint :: "string \<Rightarrow> u64 option" where
  "read_uint p =
     (let buf = replicate 32 NUL;
          token = (if p \<noteq> [] \<and> hd p = QUOTE
                   then (case copy_token (\<lambda>c. c = QUOTE) 32 buf 0 (tl p) of
                           (b, i, []) \<Rightarrow> None
                         | (b, i, _ # _) \<Rightarrow> Some (take i b))
                   else (case copy_token (\<lambda>c. is_ws c \<or> c = CHR '','' \<or> c = CHR ''}'') 32 buf 0 p of
                           (b, i, _) \<Rightarrow> Some (take i b)))
      in case token of
           None \<Rightarrow> None
         | Some t \<Rightarrow> if t = [] then None else strtoull t)"

section \<open>Hexadecimal text\<close>

definition hex_digit :: "char \<Rightarrow> nat option" where
  "hex_digit c =
     (let n = (of_char c :: nat) in
      if 48 \<le> n \<and> n \<le> 57 then Some (n - 48)
      else if 97 \<le> n \<and> n \<le> 102 then Some (10 + (n - 97))
      else if 65 \<le> n \<and> n \<le> 70 then Some (10 + (n - 65))
      else None)"

definition is_hex_sep :: "char \<Rightarrow> bool" where
  "is_hex_sep c \<longleftrightarrow> is_ws c \<or> c = CHR ''-''"

function decode_hex_loop :: "nat \<Rightarrow> bytes \<Rightarrow> string \<Rightarrow> osdpcap_status \<times> bytes" where
  "decode_hex_loop cap dst p =
     (case dropWhile is_hex_sep p of
        [] \<Rightarrow> (OSDPCAP_OK, dst)
      | a # q \<Rightarrow>
          (case (hex_digit a, q) of
             (Some hi, b # rest) \<Rightarrow>
               (case hex_digit b of
                  None \<Rightarrow> (OSDPCAP_ERR_BAD_HEX, dst)
                | Some lo \<Rightarrow>
                    if length dst \<ge> cap then (OSDPCAP_ERR_DATA_TOO_LARGE, dst)
                    else decode_hex_loop cap (dst @ [word_of_nat (push_bit 4 hi OR lo)]) rest)
           | _ \<Rightarrow> (OSDPCAP_ERR_BAD_HEX, dst)))"
  by pat_completeness auto
termination
proof (relation "measure (\<lambda>(cap, dst, p). length p)", goal_cases)
  case (2 cap dst p a q x y hi b rest lo)
  then show ?case
    using length_dropWhile_le [of is_hex_sep p] by auto
qed simp

declare decode_hex_loop.simps [simp del]

definition decode_hex :: "string \<Rightarrow> nat \<Rightarrow> osdpcap_status \<times> bytes" where
  "decode_hex src cap = decode_hex_loop cap [] src"

section \<open>Records\<close>

definition io_of :: "string \<Rightarrow> osdpcap_io" where
  "io_of s = (if s = ''input'' then OSDPCAP_IO_INPUT else if s = ''output'' then OSDPCAP_IO_OUTPUT
              else if s = ''trace'' then OSDPCAP_IO_TRACE else OSDPCAP_IO_UNKNOWN)"

definition parse_metadata :: "string \<Rightarrow> osdpcap_record \<Rightarrow> osdpcap_record" where
  "parse_metadata line out =
     (let uint = (\<lambda>name d. case find_value line name of
                     None \<Rightarrow> d | Some t \<Rightarrow> (case read_uint t of None \<Rightarrow> d | Some v \<Rightarrow> v));
          text = (\<lambda>name buf cap. case find_value line name of None \<Rightarrow> buf | Some v \<Rightarrow> snd (read_string v buf cap));
          io = (case find_value line ''io'' of
                  None \<Rightarrow> cr_io out
                | Some v \<Rightarrow> (case read_string v (replicate 16 NUL) 16 of
                               (None, _) \<Rightarrow> cr_io out
                             | (Some _, tmp) \<Rightarrow> io_of (c_str tmp)))
      in out\<lparr>cr_time_sec := uint ''timeSec'' (cr_time_sec out), cr_time_nano := uint ''timeNano'' (cr_time_nano out),
             cr_io := io,
             cr_version := text ''osdpTraceVersion'' (cr_version out) OSDPCAP_VERSION_LEN,
             cr_source := text ''osdpSource'' (cr_source out) OSDPCAP_SOURCE_LEN\<rparr>)"

definition osdpcap_parse_line :: "string option \<Rightarrow> osdpcap_record \<Rightarrow> osdpcap_status \<times> osdpcap_record" where
  "osdpcap_parse_line line out =
     (case line of
        None \<Rightarrow> (OSDPCAP_ERR_INVALID_ARG, out)
      | Some l \<Rightarrow>
          if skip_ws l = [] \<or> hd (skip_ws l) = CHR ''#'' then (OSDPCAP_ERR_EMPTY_LINE, out)
          else if CHR ''{'' \<notin> set l then (OSDPCAP_ERR_EMPTY_LINE, out)
          else
            let out0 = out\<lparr>cr_time_sec := 0, cr_time_nano := 0, cr_io := OSDPCAP_IO_UNKNOWN, cr_data := [],
                           cr_version := (cr_version out)[0 := NUL], cr_source := (cr_source out)[0 := NUL]\<rparr>
            in (case find_value l ''data'' of
                  None \<Rightarrow> (OSDPCAP_ERR_MISSING_DATA, out0)
                | Some v \<Rightarrow>
                    (case read_string v (replicate (OSDPCAP_MAX_DATA_LEN * 3 + 16) NUL) (OSDPCAP_MAX_DATA_LEN * 3 + 16) of
                       (None, _) \<Rightarrow> (OSDPCAP_ERR_PARSE, out0)
                     | (Some _, data_str) \<Rightarrow>
                         (case decode_hex (c_str data_str) OSDPCAP_MAX_DATA_LEN of
                            (hex_s, data) \<Rightarrow>
                              let out1 = out0\<lparr>cr_data := data\<rparr> in
                              if hex_s \<noteq> OSDPCAP_OK then (hex_s, out1)
                              else (OSDPCAP_OK, parse_metadata l out1)))))"

definition osdpcap_status_str :: "osdpcap_status \<Rightarrow> string" where
  "osdpcap_status_str s =
     (case s of
        OSDPCAP_OK \<Rightarrow> ''ok''
      | OSDPCAP_ERR_INVALID_ARG \<Rightarrow> ''invalid argument''
      | OSDPCAP_ERR_EMPTY_LINE \<Rightarrow> ''empty line''
      | OSDPCAP_ERR_PARSE \<Rightarrow> ''parse error''
      | OSDPCAP_ERR_MISSING_DATA \<Rightarrow> ''missing data field''
      | OSDPCAP_ERR_BAD_HEX \<Rightarrow> ''bad hex digit''
      | OSDPCAP_ERR_DATA_TOO_LARGE \<Rightarrow> ''data exceeds buffer'')"

definition osdpcap_io_str :: "osdpcap_io \<Rightarrow> string" where
  "osdpcap_io_str io =
     (case io of
        OSDPCAP_IO_INPUT \<Rightarrow> ''input''
      | OSDPCAP_IO_OUTPUT \<Rightarrow> ''output''
      | OSDPCAP_IO_TRACE \<Rightarrow> ''trace''
      | OSDPCAP_IO_UNKNOWN \<Rightarrow> ''unknown'')"

section \<open>The parser\<close>

definition err_name :: "osdp_status \<Rightarrow> string" where
  "err_name s =
     (case s of
        OSDP_OK \<Rightarrow> ''ok''
      | OSDP_ERR_INVALID_ARG \<Rightarrow> ''invalid_arg''
      | OSDP_ERR_BUFFER_TOO_SMALL \<Rightarrow> ''buffer_too_small''
      | OSDP_ERR_TRUNCATED \<Rightarrow> ''truncated''
      | OSDP_ERR_BAD_SOM \<Rightarrow> ''bad_som''
      | OSDP_ERR_BAD_LENGTH \<Rightarrow> ''bad_length''
      | OSDP_ERR_BAD_CTRL \<Rightarrow> ''bad_ctrl''
      | OSDP_ERR_BAD_CRC \<Rightarrow> ''bad_crc''
      | OSDP_ERR_BAD_CHECKSUM \<Rightarrow> ''bad_checksum''
      | OSDP_ERR_BAD_PAYLOAD \<Rightarrow> ''bad_payload''
      | OSDP_ERR_NOT_SUPPORTED \<Rightarrow> ''not_supported''
      | _ \<Rightarrow> ''unknown'')"

text \<open>What a line of output says; the layout of the line is left to \<^verbatim>\<open>printf\<close>.\<close>

datatype report =
    Record_line u64 u64 string bytes
  | Frame_line osdp_frame string
  | Parse_error string
  | Feed_error string
  | Decode_error string

definition print_record_header :: "osdpcap_record \<Rightarrow> report" where
  "print_record_header r = Record_line (cr_time_sec r) (cr_time_nano r) (osdpcap_io_str (cr_io r)) (cr_data r)"

definition print_frame :: "osdp_frame \<Rightarrow> report" where
  "print_frame f = Frame_line f (osdp_dispatch_name (osdp_dispatch_classify f))"

record osdp_parser =
  ps_stream :: osdp_stream
  ps_records :: nat
  ps_frames :: nat
  ps_parse_errors :: nat
  ps_decode_errors :: nat
  ps_out :: "report list"

definition say :: "report \<Rightarrow> osdp_parser \<Rightarrow> osdp_parser" where
  "say x ps = ps\<lparr>ps_out := ps_out ps @ [x]\<rparr>"

text \<open>The inner loop: all frames the stream has.\<close>

function drain_frames :: "osdp_parser \<Rightarrow> osdp_parser" where
  "drain_frames ps =
     (case osdp_stream_next (ps_stream ps) zero_frame of
        (r, f, s) \<Rightarrow>
          let ps1 = ps\<lparr>ps_stream := s\<rparr> in
          if r = OSDP_OK then drain_frames (say (print_frame f) (ps1\<lparr>ps_frames := ps_frames ps1 + 1\<rparr>))
          else if r = OSDP_ERR_TRUNCATED then ps1
          else drain_frames (say (Decode_error (err_name r)) (ps1\<lparr>ps_decode_errors := ps_decode_errors ps1 + 1\<rparr>)))"
  by pat_completeness auto
termination
proof (relation "measure (\<lambda>ps. osdp_stream_pending (ps_stream ps))", goal_cases)
  case (2 ps r y f s ps1)
  then show ?case
    using stream_next_pending(2) [of "ps_stream ps" zero_frame]
    by (cases "osdp_stream_next (ps_stream ps) zero_frame") (auto simp: say_def)
next
  case (3 ps r y f s ps1)
  then show ?case
    using stream_next_pending(2) [of "ps_stream ps" zero_frame]
    by (cases "osdp_stream_next (ps_stream ps) zero_frame") (auto simp: say_def)
qed simp

declare drain_frames.simps [simp del]

definition zero_record :: osdpcap_record where
  "zero_record = \<lparr>cr_time_sec = 0, cr_time_nano = 0, cr_io = OSDPCAP_IO_UNKNOWN, cr_data = [],
     cr_version = replicate OSDPCAP_VERSION_LEN NUL, cr_source = replicate OSDPCAP_SOURCE_LEN NUL\<rparr>"

definition parse_one_line :: "osdp_parser \<Rightarrow> string \<Rightarrow> osdp_parser" where
  "parse_one_line ps line =
     (case osdpcap_parse_line (Some line) zero_record of
        (s, r) \<Rightarrow>
          if s = OSDPCAP_ERR_EMPTY_LINE then ps
          else if s \<noteq> OSDPCAP_OK then
            say (Parse_error (osdpcap_status_str s)) (ps\<lparr>ps_parse_errors := ps_parse_errors ps + 1\<rparr>)
          else
            let ps1 = say (print_record_header r) (ps\<lparr>ps_records := ps_records ps + 1\<rparr>) in
            (case osdp_stream_feed (ps_stream ps1) (Some (cr_data r)) (length (cr_data r)) of
               (fs, st) \<Rightarrow>
                 let ps2 = ps1\<lparr>ps_stream := st\<rparr> in
                 if fs \<noteq> OSDP_OK then say (Feed_error (err_name fs)) ps2 else drain_frames ps2))"

text \<open>\<open>fgets\<close>: up to a newline, inclusive, or as much as the array holds.\<close>

abbreviation (input) LINE_CAP :: nat where "LINE_CAP \<equiv> 16384"

definition fgets :: "nat \<Rightarrow> string \<Rightarrow> string \<times> string" where
  "fgets cap input =
     (let l = take (cap - 1) input;
          h = takeWhile (\<lambda>c. c \<noteq> CHR 0x0A) l;
          n = (if length h < length l then length h + 1 else length h)
      in (take n input, drop n input))"

lemma fgets_shorter:
  assumes "input \<noteq> []" "1 < cap"
  shows "length (snd (fgets cap input)) < length input"
proof -
  define l where "l = take (cap - 1) input"
  define h where "h = takeWhile (\<lambda>c. c \<noteq> CHR 0x0A) l"
  have "0 < length l" using assms by (simp add: l_def)
  then have "0 < (if length h < length l then length h + 1 else length h)" by auto
  moreover have "snd (fgets cap input) = drop (if length h < length l then length h + 1 else length h) input"
    by (simp add: fgets_def Let_def l_def h_def del: length_take)
  ultimately show ?thesis
    using assms(1) by (simp only: length_drop length_greater_0_conv) simp
qed

function parse_lines :: "osdp_parser \<Rightarrow> string \<Rightarrow> osdp_parser" where
  "parse_lines ps input =
     (if input = [] then ps
      else (case fgets LINE_CAP input of (line, rest) \<Rightarrow> parse_lines (parse_one_line ps (c_str line)) rest))"
  by pat_completeness auto
termination
proof (relation "measure (\<lambda>(ps, input). length input)", goal_cases)
  case (2 ps input line rest)
  then show ?case
    using fgets_shorter [of input LINE_CAP] by (cases "fgets LINE_CAP input") auto
qed simp

declare parse_lines.simps [simp del]

text \<open>The exit code and the final counters.\<close>

definition parser_main :: "string \<Rightarrow> nat \<times> osdp_parser" where
  "parser_main input =
     (let ps = parse_lines \<lparr>ps_stream = osdp_stream_init \<lparr>st_buffer = replicate OSDP_STREAM_BUFFER_LEN 0, st_fill = 0,
                              st_pending_consume = 0\<rparr>,
                            ps_records = 0, ps_frames = 0, ps_parse_errors = 0, ps_decode_errors = 0, ps_out = []\<rparr> input
      in (if ps_parse_errors ps = 0 then 0 else 1, ps))"

section \<open>Hexadecimal text is decoded exactly\<close>

text \<open>The accepted texts and their bytes: pairs of hexadecimal digits, with white space and dashes anywhere between pairs.\<close>

inductive hex_text :: "string \<Rightarrow> bytes \<Rightarrow> bool" where
  empty: "hex_text [] []"
| sep: "is_hex_sep c \<Longrightarrow> hex_text s bs \<Longrightarrow> hex_text (c # s) bs"
| pair: "hex_digit a = Some hi \<Longrightarrow> hex_digit b = Some lo \<Longrightarrow> hex_text s bs \<Longrightarrow>
    hex_text (a # b # s) ((16 * word_of_nat hi + word_of_nat lo) # bs)"

inductive_cases hex_text_NilE: "hex_text [] bs"
inductive_cases hex_text_ConsE: "hex_text (c # s) bs"

lemma hex_digit_range: "hex_digit c = Some n \<Longrightarrow> n < 16"
  by (auto simp: hex_digit_def Let_def split: if_splits)

lemma hex_digit_not_sep: "hex_digit c = Some n \<Longrightarrow> \<not> is_hex_sep c"
  by (auto simp: is_hex_sep_def is_ws_def hex_digit_def)

lemma nibbles:
  assumes "lo < 16"
  shows "push_bit 4 hi OR lo = 16 * hi + (lo :: nat)"
proof -
  have "lo = take_bit 4 lo" using assms by (simp add: take_bit_nat_eq_self)
  then have "push_bit 4 hi AND lo = 0"
    by (intro bit_eqI) (metis bit_0_eq bit_and_iff bit_push_bit_iff bit_take_bit_iff bot_apply bot_bool_def not_le)
  then show ?thesis
    by (simp add: push_bit_eq_mult flip: disjunctive_add_eq_or)
qed

lemma hex_text_skip: "hex_text (dropWhile is_hex_sep s) bs \<longleftrightarrow> hex_text s bs"
proof (induction s)
  case (Cons c s)
  then show ?case
    by (auto intro: hex_text.sep elim!: hex_text_ConsE dest: hex_digit_not_sep)
qed simp

lemma hex_text_pair:
  assumes "hex_digit a = Some hi"
  shows "hex_text (a # q) bs \<longleftrightarrow>
    (\<exists>b s lo bs'. q = b # s \<and> hex_digit b = Some lo \<and> bs = (16 * word_of_nat hi + word_of_nat lo) # bs' \<and> hex_text s bs')"
  using assms hex_digit_not_sep [OF assms] by (auto elim!: hex_text_ConsE intro: hex_text.pair [OF assms])

lemma decode_hex_loop_text:
  "decode_hex_loop cap dst p = (OSDPCAP_OK, r) \<and> length dst \<le> cap
     \<longleftrightarrow> (\<exists>bs. hex_text p bs \<and> r = dst @ bs \<and> length r \<le> cap)"
proof (induction cap dst p arbitrary: r rule: decode_hex_loop.induct)
  case (1 cap dst p)
  show ?case
  proof (cases "dropWhile is_hex_sep p")
    case Nil
    then have "hex_text p bs \<longleftrightarrow> bs = []" for bs
      using hex_text_skip [of p bs, unfolded Nil] by (auto elim: hex_text_NilE intro: hex_text.empty)
    moreover have "decode_hex_loop cap dst p = (OSDPCAP_OK, dst)"
      by (subst decode_hex_loop.simps) (simp only: Nil list.case)
    ultimately show ?thesis by auto
  next
    case (Cons a q)
    then have a: "\<not> is_hex_sep a"
      using hd_dropWhile [of is_hex_sep p] by simp
    have t: "hex_text p bs \<longleftrightarrow> hex_text (a # q) bs" for bs
      using hex_text_skip [of p bs] Cons by simp
    show ?thesis
    proof (cases "\<exists>hi b s lo. hex_digit a = Some hi \<and> q = b # s \<and> hex_digit b = Some lo")
      case False
      then have "\<not> hex_text (a # q) bs" for bs
        using a by (auto elim!: hex_text_ConsE)
      moreover have "fst (decode_hex_loop cap dst p) = OSDPCAP_ERR_BAD_HEX"
        using False Cons by (subst decode_hex_loop.simps) (auto split: option.splits list.splits)
      ultimately show ?thesis by (auto simp: t)
    next
      case True
      then obtain hi b s lo where h: "hex_digit a = Some hi" "q = b # s" "hex_digit b = Some lo" by blast
      let ?x = "16 * word_of_nat hi + word_of_nat lo :: byte"
      have x: "(word_of_nat (push_bit 4 hi OR lo) :: byte) = ?x"
        using nibbles [of lo hi] hex_digit_range [OF h(3)] by simp
      have d: "decode_hex_loop cap dst p = (if length dst \<ge> cap then (OSDPCAP_ERR_DATA_TOO_LARGE, dst)
          else decode_hex_loop cap (dst @ [?x]) s)"
        using Cons h by (subst decode_hex_loop.simps) (simp only: x list.case option.case prod.case)
      have "hex_text p bs \<longleftrightarrow> (\<exists>bs'. bs = ?x # bs' \<and> hex_text s bs')" for bs
        unfolding t using hex_text_pair [OF h(1), of q bs] h by auto
      then have "(\<exists>bs. hex_text p bs \<and> r = dst @ bs \<and> length r \<le> cap)
          \<longleftrightarrow> (\<exists>bs. hex_text s bs \<and> r = (dst @ [?x]) @ bs \<and> length r \<le> cap)"
        by auto
      also have "\<dots> \<longleftrightarrow> length dst < cap \<and> (\<exists>bs. hex_text s bs \<and> r = (dst @ [?x]) @ bs \<and> length r \<le> cap)"
        by auto
      finally show ?thesis
        using 1 [OF Cons refl h(1,2,3), of r] by (auto simp: d x not_le)
    qed
  qed
qed

text \<open>The hexadecimal decoder accepts exactly the texts of the capture format and yields exactly their bytes: pairs of
  digits in either case, separated by any mixture of white space and dashes, up to the capacity.\<close>

theorem decode_hex_exact:
  "decode_hex src cap = (OSDPCAP_OK, bs) \<longleftrightarrow> hex_text src bs \<and> length bs \<le> cap"
  using decode_hex_loop_text [of cap "[]" src bs] by (simp add: decode_hex_def)

section \<open>Lines of fields\<close>

text \<open>A line of the capture format: an object of string fields, with any white space around the colons.\<close>

fun fields_text :: "string \<Rightarrow> string \<Rightarrow> (string \<times> string) list \<Rightarrow> string" where
  "fields_text colon sep [] = []"
| "fields_text colon sep ((k, v) # fs) =
     QUOTE # k @ QUOTE # colon @ QUOTE # v @ QUOTE # (if fs = [] then [] else sep) @ fields_text colon sep fs"

definition capture_line :: "string \<Rightarrow> string \<Rightarrow> (string \<times> string) list \<Rightarrow> string" where
  "capture_line colon sep fs = ''{'' @ fields_text colon sep fs @ ''}'' @ [CHR 0x0A]"

text \<open>What the reader needs of the texts between the quotes: none of them is mistaken for a key.\<close>

definition plain_text :: "string \<Rightarrow> bool" where
  "plain_text s \<longleftrightarrow> QUOTE \<notin> set s \<and> NUL \<notin> set s"

definition capture_keys :: "string list" where
  "capture_keys = [''data'', ''timeSec'', ''timeNano'', ''io'', ''osdpTraceVersion'', ''osdpSource'']"

definition colon_ok :: "string \<Rightarrow> bool" where
  "colon_ok colon \<longleftrightarrow> (\<exists>a b. colon = a @ CHR '':'' # b \<and> list_all is_ws a \<and> list_all is_ws b)"

definition fields_ok :: "string \<Rightarrow> string \<Rightarrow> (string \<times> string) list \<Rightarrow> bool" where
  "fields_ok colon sep fs \<longleftrightarrow> colon_ok colon \<and> plain_text sep \<and> sep \<notin> set capture_keys \<and>
     list_all (\<lambda>(k, v). plain_text k \<and> plain_text v \<and> v \<notin> set capture_keys) fs"

lemma name_not_quote: "QUOTE \<notin> set name \<Longrightarrow> name \<noteq> [] \<Longrightarrow> take (length name) (QUOTE # t) \<noteq> name"
  by (cases name) auto

lemma find_key_unquoted:
  assumes "QUOTE \<notin> set s" "QUOTE \<notin> set name" "name \<noteq> []" "b \<noteq> Some QUOTE"
  shows "find_key_from b (s @ QUOTE # r) name = find_key_from (Some QUOTE) r name"
  using assms(1,4)
proof (induction s arbitrary: b)
  case Nil
  show ?case using name_not_quote [OF assms(2,3), of r] by (simp add: Let_def)
next
  case (Cons c s)
  then show ?case using Cons.IH [of "Some c"] by (auto simp: Let_def)
qed

lemma find_key_quoted:
  assumes "QUOTE \<notin> set s" "QUOTE \<notin> set name" "name \<noteq> []"
  shows "find_key_from (Some QUOTE) (s @ QUOTE # r) name
      = (if s = name then Some r else find_key_from (Some QUOTE) r name)"
proof -
  show "find_key_from (Some QUOTE) (s @ QUOTE # r) name
      = (if s = name then Some r else find_key_from (Some QUOTE) r name)"
  proof (cases s)
    case Nil
    then show ?thesis using name_not_quote [OF assms(2,3), of r] assms(3) by (auto simp: Let_def)
  next
    case (Cons c s')
    have m: "take (length name) (s @ QUOTE # r) = name \<and> drop (length name) (s @ QUOTE # r) \<noteq> [] \<and>
        hd (drop (length name) (s @ QUOTE # r)) = QUOTE \<longleftrightarrow> s = name"
    proof
      assume a: "take (length name) (s @ QUOTE # r) = name \<and> drop (length name) (s @ QUOTE # r) \<noteq> [] \<and>
        hd (drop (length name) (s @ QUOTE # r)) = QUOTE"
      then obtain t where t: "s @ QUOTE # r = name @ QUOTE # t"
        by (metis append_take_drop_id list.collapse)
      then have "takeWhile (\<lambda>c. c \<noteq> QUOTE) (s @ QUOTE # r) = takeWhile (\<lambda>c. c \<noteq> QUOTE) (name @ QUOTE # t)" by simp
      with assms(1,2) show "s = name"
        by (subst (asm) (1 2) takeWhile_append2) auto
    qed auto
    show ?thesis
    proof (cases "s = name")
      case True
      then show ?thesis using Cons by (auto simp: Let_def)
    next
      case False
      have "find_key_from (Some QUOTE) (s @ QUOTE # r) name = find_key_from (Some c) (s' @ QUOTE # r) name"
        using m False unfolding Cons append_Cons find_key_from.simps Let_def by auto
      also have "\<dots> = find_key_from (Some QUOTE) r name"
        using assms Cons by (intro find_key_unquoted) auto
      finally show ?thesis using False by simp
    qed
  qed
qed

lemma find_key_skip:
  assumes "QUOTE \<notin> set s" "QUOTE \<notin> set name" "name \<noteq> []" "s \<noteq> name"
  shows "find_key_from b (s @ QUOTE # r) name = find_key_from (Some QUOTE) r name"
  using find_key_quoted [OF assms(1-3)] find_key_unquoted [OF assms(1-3)] assms(4) by (cases "b = Some QUOTE") auto

lemma find_key_none: "QUOTE \<notin> set s \<Longrightarrow> find_key_from b s name = None"
proof (induction s arbitrary: b)
  case (Cons c s)
  have "hd (drop (length name) (c # s)) \<noteq> QUOTE" if "drop (length name) (c # s) \<noteq> []"
    using that Cons.prems by (metis hd_in_set in_set_dropD)
  with Cons show ?case by (auto simp: Let_def)
qed simp

lemma capture_keysD:
  assumes "name \<in> set capture_keys"
  shows "QUOTE \<notin> set name" "name \<noteq> []" "CHR '':'' \<notin> set name" "CHR ''{'' \<notin> set name"
proof -
  have "\<forall>name \<in> set capture_keys. QUOTE \<notin> set name \<and> name \<noteq> [] \<and> CHR '':'' \<notin> set name \<and> CHR ''{'' \<notin> set name"
    by code_simp
  with assms show "QUOTE \<notin> set name" "name \<noteq> []" "CHR '':'' \<notin> set name" "CHR ''{'' \<notin> set name" by blast+
qed

lemma colonD:
  assumes "colon_ok colon"
  shows "QUOTE \<notin> set colon" "CHR '':'' \<in> set colon"
proof -
  obtain a b where c: "colon = a @ CHR '':'' # b" "list_all is_ws a" "list_all is_ws b"
    using assms by (auto simp: colon_ok_def)
  have "\<not> is_ws QUOTE" by code_simp
  with c show "QUOTE \<notin> set colon" "CHR '':'' \<in> set colon" by (auto simp: list_all_iff)
qed

lemma fields_okD:
  assumes "fields_ok colon sep ((k, v) # fs)"
  shows "QUOTE \<notin> set k" "QUOTE \<notin> set v" "v \<notin> set capture_keys" "fields_ok colon sep fs"
    "QUOTE \<notin> set sep" "sep \<notin> set capture_keys" "colon_ok colon"
  using assms by (auto simp: fields_ok_def plain_text_def)

lemma find_key_field:
  assumes "fields_ok colon sep ((k, v) # fs)" "name \<in> set capture_keys" "QUOTE \<notin> set pre" "pre \<noteq> name"
  shows "find_key_from b (pre @ fields_text colon sep ((k, v) # fs) @ post) name =
    (if k = name then Some (colon @ QUOTE # v @ QUOTE # (if fs = [] then [] else sep) @ fields_text colon sep fs @ post)
     else find_key_from (Some QUOTE) ((if fs = [] then [] else sep) @ fields_text colon sep fs @ post) name)"
proof -
  note n = capture_keysD [OF assms(2)] and f = fields_okD [OF assms(1)]
  have c: "colon \<noteq> name" using colonD(2) [OF f(7)] n(3) by auto
  have v: "v \<noteq> name" using f(3) assms(2) by auto
  show ?thesis
    by (simp add: find_key_skip [OF assms(3) n(1,2) assms(4)] find_key_quoted [OF f(1) n(1,2)]
        find_key_skip [OF colonD(1) [OF f(7)] n(1,2) c] find_key_skip [OF f(2) n(1,2) v])
qed

lemma find_key_fields:
  assumes "fields_ok colon sep fs" "name \<in> set capture_keys" "QUOTE \<notin> set pre" "pre \<noteq> name" "QUOTE \<notin> set post"
  shows "case map_of fs name of
      None \<Rightarrow> find_key_from b (pre @ fields_text colon sep fs @ post) name = None
    | Some v \<Rightarrow> \<exists>r. find_key_from b (pre @ fields_text colon sep fs @ post) name = Some (colon @ QUOTE # v @ QUOTE # r)"
  using assms
proof (induction fs arbitrary: b pre)
  case Nil
  then show ?case by (simp add: find_key_none)
next
  case (Cons kv fs)
  obtain k w where kv: "kv = (k, w)" by fastforce
  have "QUOTE \<notin> set (if fs = [] then [] else sep)" "(if fs = [] then [] else sep) \<noteq> name"
    using Cons.prems(1,2) capture_keysD(2) [of name] by (auto simp: fields_ok_def plain_text_def)
  note next_field = Cons.IH [OF fields_okD(4) [OF Cons.prems(1) [unfolded kv]] Cons.prems(2) this Cons.prems(5), of "Some QUOTE"]
  show ?case
    using next_field find_key_field [OF Cons.prems(1-4) [unfolded kv], of b post] by (cases "k = name"; cases "map_of fs name") (simp_all add: kv)
qed

lemma find_value_line:
  assumes "fields_ok colon sep fs" "name \<in> set capture_keys"
  shows "map_of fs name = None \<Longrightarrow> find_value (capture_line colon sep fs) name = None"
    and "map_of fs name = Some v \<Longrightarrow> \<exists>r. find_value (capture_line colon sep fs) name = Some (QUOTE # v @ QUOTE # r)"
proof -
  have p: "QUOTE \<notin> set ''{''" "''{'' \<noteq> name" "QUOTE \<notin> set (''}'' @ [CHR 0x0A])"
    using capture_keysD(4) [OF assms(2)] by auto
  note k = find_key_fields [OF assms p, of None, folded capture_line_def find_key_def]
  { assume "map_of fs name = None"
    with k show "find_value (capture_line colon sep fs) name = None" by (simp add: find_value_def) }
  { assume "map_of fs name = Some v"
    with k obtain r where r: "find_key (capture_line colon sep fs) name = Some (colon @ QUOTE # v @ QUOTE # r)"
      by auto
    obtain a c where c: "colon = a @ CHR '':'' # c" "list_all is_ws a" "list_all is_ws c"
      using assms(1) by (auto simp: fields_ok_def colon_ok_def)
    have "skip_ws (a @ CHR '':'' # c @ t) = CHR '':'' # c @ t" "skip_ws (c @ QUOTE # t) = QUOTE # t" for t
      using c(2,3) by (simp_all add: skip_ws_def dropWhile_append2 list_all_iff is_ws_def)
    with r show "\<exists>r. find_value (capture_line colon sep fs) name = Some (QUOTE # v @ QUOTE # r)"
      by (simp add: find_value_def c(1)) }
qed

section \<open>Values\<close>

lemma copy_token_text:
  assumes "list_all (\<lambda>c. \<not> stop c) v" "stop q" "i < cap" "length out = cap"
  shows "copy_token stop cap out i (v @ q # r) =
    (take i out @ take (cap - 1 - i) v @ drop (i + length (take (cap - 1 - i) v)) out, i + length (take (cap - 1 - i) v), q # r)"
  using assms
proof (induction v arbitrary: i out)
  case (Cons c v)
  show ?case
  proof (cases "i + 1 < cap")
    case True
    have "copy_token stop cap out i ((c # v) @ q # r) = copy_token stop cap (out[i := c]) (i + 1) (v @ q # r)"
      using Cons.prems(1) True by simp
    moreover obtain k where "cap - 1 - i = Suc k" "cap - 1 - (i + 1) = k"
      using True by (metis Suc_diff_Suc Suc_eq_plus1 diff_Suc_eq_diff_pred less_diff_conv)
    ultimately show ?thesis
      using Cons.IH [of "i + 1" "out[i := c]"] Cons.prems True by (simp add: take_Suc_conv_app_nth nth_list_update)
  next
    case False
    then show ?thesis
      using Cons.IH [of i out] Cons.prems by simp
  qed
qed simp

lemma read_string_text:
  assumes "QUOTE \<notin> set v" "length out = cap" "0 < cap"
  shows "read_string (QUOTE # v @ QUOTE # r) out cap
    = (Some r, take (cap - 1) v @ NUL # drop (Suc (length (take (cap - 1) v))) out)"
proof -
  have "list_all (\<lambda>c. c \<noteq> QUOTE) v" using assms(1) by (auto simp: list_all_iff)
  then have c: "copy_token (\<lambda>c. c = QUOTE) cap out 0 (v @ QUOTE # r) =
      (take (cap - 1) v @ drop (length (take (cap - 1) v)) out, length (take (cap - 1) v), QUOTE # r)"
    using copy_token_text [of "\<lambda>c. c = QUOTE" v QUOTE 0 cap out r] assms by simp
  have "length (take (cap - 1) v) < length out" using assms(2,3) by (cases cap) (auto simp: min_def)
  then have "drop (length (take (cap - 1) v)) out = out ! length (take (cap - 1) v) # drop (Suc (length (take (cap - 1) v))) out"
    by (rule Cons_nth_drop_Suc [symmetric])
  then show ?thesis
    using \<open>length (take (cap - 1) v) < length out\<close> assms(2)
    by (simp only: read_string_def list.case c prod.case if_True simp_thms list_update_append list_update.simps
        nat.case less_irrefl if_False diff_self_eq_0)
qed

lemma c_str_text: "NUL \<notin> set v \<Longrightarrow> c_str (v @ NUL # r) = v"
  unfolding c_str_def by (subst takeWhile_append2) auto

text \<open>Decimal numbers as a capture writes them.\<close>

fun dec :: "nat \<Rightarrow> string" where
  "dec n = (if n < 10 then [char_of (48 + n)] else dec (n div 10) @ [char_of (48 + n mod 10)])"

declare dec.simps [simp del]

lemma dec_digits: "list_all is_digit (dec n)" "dec n \<noteq> []" "digits_value (dec n) = n"
proof -
  have d: "is_digit (char_of (48 + d))" "(of_char (char_of (48 + d) :: char) :: nat) = 48 + d" if "d < 10" for d :: nat
    using that by (simp_all add: is_digit_def)
  have "list_all is_digit (dec n) \<and> dec n \<noteq> [] \<and> digits_value (dec n) = n"
  proof (induction n rule: dec.induct)
    case (1 n)
    then show ?case
      using d by (cases "n < 10") (simp_all add: dec.simps [of n] digits_value_def)
  qed
  then show "list_all is_digit (dec n)" "dec n \<noteq> []" "digits_value (dec n) = n" by blast+
qed

lemma dec_length: "n < 10 ^ Suc k \<Longrightarrow> length (dec n) \<le> Suc k"
proof (induction k arbitrary: n)
  case (Suc k)
  then show ?case
    by (cases "n < 10") (simp_all add: dec.simps [of n] Suc.IH less_mult_imp_div_less mult.commute)
qed (simp add: dec.simps)

lemma digit_plain:
  assumes "is_digit c"
  shows "\<not> is_space c" "c \<noteq> CHR ''-''" "c \<noteq> CHR ''+''" "c \<noteq> QUOTE" "c \<noteq> NUL"
  using assms by (auto simp: is_digit_def is_space_def is_ws_def)

lemma strtoull_dec: "n < 2 ^ 64 \<Longrightarrow> strtoull (dec n) = Some (word_of_nat n)"
proof -
  assume n: "n < 2 ^ 64"
  obtain c ds where c: "dec n = c # ds" "is_digit c" "list_all is_digit ds"
    using dec_digits(1,2) [of n] by (cases "dec n") auto
  have "takeWhile is_digit (dec n) = dec n"
    using dec_digits(1) [of n] by (simp add: list_all_iff takeWhile_eq_all_conv)
  moreover have "dropWhile is_space (dec n) = dec n" "hd (dec n) \<noteq> CHR ''-''" "hd (dec n) \<noteq> CHR ''+''"
    using digit_plain [OF c(2)] by (simp_all add: c(1))
  ultimately show ?thesis
    using n dec_digits(2,3) [of n] by (simp only: strtoull_def Let_def simp_thms if_False not_le [symmetric])
qed

lemma read_uint_dec:
  assumes "n < 2 ^ 64"
  shows "read_uint (QUOTE # dec n @ QUOTE # r) = Some (word_of_nat n)"
proof -
  have l: "length (dec n) \<le> 31"
    using dec_length [of n 19] assms by simp
  have "list_all (\<lambda>c. c \<noteq> QUOTE) (dec n)"
    using dec_digits(1) [of n] digit_plain(4) by (auto simp: list_all_iff)
  then have "copy_token (\<lambda>c. c = QUOTE) 32 (replicate 32 NUL) 0 (dec n @ QUOTE # r) =
      (dec n @ drop (length (dec n)) (replicate 32 NUL), length (dec n), QUOTE # r)"
    using copy_token_text [of "\<lambda>c. c = QUOTE" "dec n" QUOTE 0 32 "replicate 32 NUL" r] l by simp
  then show ?thesis
    using dec_digits(2) [of n] strtoull_dec [OF assms] by (simp add: read_uint_def Let_def)
qed

section \<open>Whole lines\<close>

lemma hex_text_plain: "hex_text h bs \<Longrightarrow> plain_text h"
proof (induction rule: hex_text.induct)
  case (sep c s bs)
  then show ?case by (auto simp: plain_text_def is_hex_sep_def is_ws_def)
next
  case (pair a hi b lo s bs)
  have "hex_digit QUOTE = None" "hex_digit NUL = None" by code_simp+
  with pair show ?case by (auto simp: plain_text_def)
qed (simp add: plain_text_def)

text \<open>The texts a record keeps of a line, truncated to the size of their arrays.\<close>

definition metadata_of :: "(string \<times> string) list \<Rightarrow> osdpcap_record \<Rightarrow> bool" where
  "metadata_of fs r \<longleftrightarrow>
     (\<forall>n. map_of fs ''timeSec'' = Some (dec n) \<and> n < 2 ^ 64 \<longrightarrow> cr_time_sec r = word_of_nat n) \<and>
     (\<forall>n. map_of fs ''timeNano'' = Some (dec n) \<and> n < 2 ^ 64 \<longrightarrow> cr_time_nano r = word_of_nat n) \<and>
     cr_io r = (case map_of fs ''io'' of None \<Rightarrow> OSDPCAP_IO_UNKNOWN | Some v \<Rightarrow> io_of (take 15 v)) \<and>
     c_str (cr_version r) = (case map_of fs ''osdpTraceVersion'' of None \<Rightarrow> [] | Some v \<Rightarrow> take 15 v) \<and>
     c_str (cr_source r) = (case map_of fs ''osdpSource'' of None \<Rightarrow> [] | Some v \<Rightarrow> take 127 v)"

lemma map_of_plain:
  assumes "fields_ok colon sep fs" "map_of fs k = Some v"
  shows "QUOTE \<notin> set v" "NUL \<notin> set v"
  using map_of_SomeD [OF assms(2)] assms(1) by (auto simp: fields_ok_def plain_text_def list_all_iff)

lemma line_uint:
  assumes "fields_ok colon sep fs" "name \<in> set capture_keys" "map_of fs name = Some (dec n)" "n < 2 ^ 64"
  shows "\<exists>t. find_value (capture_line colon sep fs) name = Some t \<and> read_uint t = Some (word_of_nat n)"
  using find_value_line(2) [OF assms(1-3)] read_uint_dec [OF assms(4)] by auto

lemma line_string:
  assumes "fields_ok colon sep fs" "name \<in> set capture_keys" "length buf = cap" "0 < cap" "c_str buf = []"
  shows "case map_of fs name of
      None \<Rightarrow> find_value (capture_line colon sep fs) name = None
    | Some v \<Rightarrow> \<exists>t r b. find_value (capture_line colon sep fs) name = Some t \<and> read_string t buf cap = (Some r, b) \<and>
        c_str b = take (cap - 1) v"
proof (cases "map_of fs name")
  case (Some v)
  obtain r where "find_value (capture_line colon sep fs) name = Some (QUOTE # v @ QUOTE # r)"
    using find_value_line(2) [OF assms(1,2) Some] by blast
  moreover have "NUL \<notin> set (take (cap - 1) v)"
    using map_of_plain(2) [OF assms(1) Some] by (meson in_set_takeD)
  ultimately show ?thesis
    using read_string_text [OF map_of_plain(1) [OF assms(1) Some] assms(3,4), of r] c_str_text Some by auto
qed (simp add: find_value_line(1) [OF assms(1,2)])

lemma line_text:
  assumes "fields_ok colon sep fs" "name \<in> set capture_keys" "length buf = cap" "0 < cap" "c_str buf = []"
  shows "c_str (case find_value (capture_line colon sep fs) name of None \<Rightarrow> buf | Some v \<Rightarrow> snd (read_string v buf cap))
    = (case map_of fs name of None \<Rightarrow> [] | Some v \<Rightarrow> take (cap - 1) v)"
  using line_string [OF assms] assms(5) by (cases "map_of fs name") auto

lemma line_io:
  assumes "fields_ok colon sep fs"
  shows "(case find_value (capture_line colon sep fs) ''io'' of
      None \<Rightarrow> d
    | Some v \<Rightarrow> (case read_string v (replicate 16 NUL) 16 of (None, _) \<Rightarrow> d | (Some _, tmp) \<Rightarrow> io_of (c_str tmp)))
    = (case map_of fs ''io'' of None \<Rightarrow> d | Some v \<Rightarrow> io_of (take 15 v))"
proof -
  have "''io'' \<in> set capture_keys" "c_str (replicate 16 NUL) = []"
    by (simp_all add: capture_keys_def c_str_def)
  from line_string [OF assms this(1) _ _ this(2)] show ?thesis
    by (cases "map_of fs ''io''") auto
qed

lemma parse_metadata_line:
  assumes "fields_ok colon sep fs" "length (cr_version out) = OSDPCAP_VERSION_LEN" "length (cr_source out) = OSDPCAP_SOURCE_LEN"
    and "c_str (cr_version out) = []" "c_str (cr_source out) = []" "cr_io out = OSDPCAP_IO_UNKNOWN"
  shows "metadata_of fs (parse_metadata (capture_line colon sep fs) out)"
    and "cr_data (parse_metadata (capture_line colon sep fs) out) = cr_data out"
proof -
  have k: "''timeSec'' \<in> set capture_keys" "''timeNano'' \<in> set capture_keys"
    "''osdpTraceVersion'' \<in> set capture_keys" "''osdpSource'' \<in> set capture_keys"
    by (simp_all add: capture_keys_def)
  note u = line_uint [OF assms(1) k(1)] line_uint [OF assms(1) k(2)]
  have "c_str (cr_version (parse_metadata (capture_line colon sep fs) out))
      = (case map_of fs ''osdpTraceVersion'' of None \<Rightarrow> [] | Some v \<Rightarrow> take 15 v)"
    using line_text [OF assms(1) k(3) assms(2) _ assms(4)] by (simp add: parse_metadata_def Let_def split: option.split)
  moreover have "c_str (cr_source (parse_metadata (capture_line colon sep fs) out))
      = (case map_of fs ''osdpSource'' of None \<Rightarrow> [] | Some v \<Rightarrow> take 127 v)"
    using line_text [OF assms(1) k(4) assms(3) _ assms(5)] by (simp add: parse_metadata_def Let_def split: option.split)
  moreover have "cr_io (parse_metadata (capture_line colon sep fs) out)
      = (case map_of fs ''io'' of None \<Rightarrow> OSDPCAP_IO_UNKNOWN | Some v \<Rightarrow> io_of (take 15 v))"
    using line_io [OF assms(1), of "cr_io out"] unfolding assms(6) [symmetric] by (simp add: parse_metadata_def Let_def)
  moreover have "cr_time_sec (parse_metadata (capture_line colon sep fs) out) = word_of_nat n"
    if "map_of fs ''timeSec'' = Some (dec n)" "n < 2 ^ 64" for n
    using u(1) [OF that] by (auto simp: parse_metadata_def Let_def)
  moreover have "cr_time_nano (parse_metadata (capture_line colon sep fs) out) = word_of_nat n"
    if "map_of fs ''timeNano'' = Some (dec n)" "n < 2 ^ 64" for n
    using u(2) [OF that] by (auto simp: parse_metadata_def Let_def)
  ultimately show "metadata_of fs (parse_metadata (capture_line colon sep fs) out)"
    unfolding metadata_of_def by blast
  show "cr_data (parse_metadata (capture_line colon sep fs) out) = cr_data out"
    by (simp add: parse_metadata_def Let_def)
qed

lemma parse_capture_line:
  assumes "fields_ok colon sep fs" "map_of fs ''data'' = Some h" "hex_text h bs" "length h < 6160"
    "length bs \<le> OSDPCAP_MAX_DATA_LEN"
    and "length (cr_version out) = OSDPCAP_VERSION_LEN" "length (cr_source out) = OSDPCAP_SOURCE_LEN"
  shows "\<exists>r. osdpcap_parse_line (Some (capture_line colon sep fs)) out = (OSDPCAP_OK, r) \<and> cr_data r = bs \<and> metadata_of fs r"
proof -
  let ?l = "capture_line colon sep fs"
  let ?out = "out\<lparr>cr_time_sec := 0, cr_time_nano := 0, cr_io := OSDPCAP_IO_UNKNOWN, cr_data := [],
    cr_version := (cr_version out)[0 := NUL], cr_source := (cr_source out)[0 := NUL]\<rparr>"
  obtain t where t: "find_value ?l ''data'' = Some (QUOTE # h @ QUOTE # t)"
    using find_value_line(2) [OF assms(1) _ assms(2)] by (auto simp: capture_keys_def)
  have p: "QUOTE \<notin> set h" "NUL \<notin> set h" using hex_text_plain [OF assms(3)] by (simp_all add: plain_text_def)
  obtain b where b: "read_string (QUOTE # h @ QUOTE # t) (replicate 6160 NUL) 6160 = (Some t, b)" "c_str b = h"
    using read_string_text [OF p(1), of "replicate 6160 NUL" 6160 t] assms(4) c_str_text [OF p(2)] by auto
  have d: "decode_hex h 2048 = (OSDPCAP_OK, bs)"
    using decode_hex_loop_text [of 2048 "[]" h bs] assms(3,5) by (simp add: decode_hex_def)
  have s: "skip_ws ?l = ?l" "?l \<noteq> []" "hd ?l = CHR ''{''" "CHR ''{'' \<in> set ?l"
    by (simp_all add: capture_line_def skip_ws_def is_ws_def)
  have c: "c_str (xs[0 := NUL]) = []" if "0 < length xs" for xs :: string
    using that by (cases xs) (simp_all add: c_str_def)
  have "metadata_of fs (parse_metadata ?l (?out\<lparr>cr_data := bs\<rparr>))" "cr_data (parse_metadata ?l (?out\<lparr>cr_data := bs\<rparr>)) = bs"
    using parse_metadata_line [OF assms(1), of "?out\<lparr>cr_data := bs\<rparr>"] assms(6,7) c [of "cr_version out"] c [of "cr_source out"]
    by auto
  moreover have "osdpcap_parse_line (Some ?l) out = (OSDPCAP_OK, parse_metadata ?l (?out\<lparr>cr_data := bs\<rparr>))"
    using s t b d by (simp add: osdpcap_parse_line_def Let_def)
  ultimately show ?thesis by blast
qed

text \<open>C39. A line of the capture format is read back, provided that no value in it spells one of the six keys, that its
  texts hold no quote and no NUL, and that the text of its data is at most 6159 characters long and stands for at most 2048
  bytes. Whatever the order of the fields and the white space around them, in either notation for the bytes, the record has
  exactly those bytes, the decimal time stamps below 2 to the 64, the direction, and the version and source as far as their arrays
  hold them.\<close>

theorem capture_line_read:
  assumes "fields_ok colon sep fs" and "map_of fs ''data'' = Some h" and "hex_text h bs"
    and "length h < 3 * OSDPCAP_MAX_DATA_LEN + 16" and "length bs \<le> OSDPCAP_MAX_DATA_LEN"
    and "length (cr_version out) = OSDPCAP_VERSION_LEN" "length (cr_source out) = OSDPCAP_SOURCE_LEN"
  shows "\<exists>r. osdpcap_parse_line (Some (capture_line colon sep fs)) out = (OSDPCAP_OK, r) \<and>
    cr_data r = bs \<and> metadata_of fs r"
  using parse_capture_line [OF assms(1-3) _ assms(5-7)] assms(4) by simp

text \<open>The example of the format description.\<close>

definition ex_fields :: "(string \<times> string) list" where
  "ex_fields = [(''timeSec'', ''1580342115''), (''timeNano'', ''984691851''), (''io'', ''trace''),
     (''data'', '' ff ff 53 80 08 00 01 4b 01 d8''), (''osdpTraceVersion'', ''1''),
     (''osdpSource'', ''libosdp-conformance 0.91-5'')]"

lemma ex_fields_ok: "fields_ok '' : '' '', '' ex_fields"
proof -
  have "colon_ok '' : ''"
    unfolding colon_ok_def by (intro exI [of _ "'' ''"]) (simp add: is_ws_def)
  then show ?thesis
    by (simp add: fields_ok_def plain_text_def ex_fields_def capture_keys_def)
qed

lemma ex_hex: "hex_text '' ff ff 53 80 08 00 01 4b 01 d8'' [0xFF, 0xFF, 0x53, 0x80, 8, 0, 1, 0x4B, 1, 0xD8]"
proof -
  have "decode_hex '' ff ff 53 80 08 00 01 4b 01 d8'' 10 = (OSDPCAP_OK, [0xFF, 0xFF, 0x53, 0x80, 8, 0, 1, 0x4B, 1, 0xD8])"
    by code_simp
  then show ?thesis
    using decode_hex_loop_text [of 10 "[]" "'' ff ff 53 80 08 00 01 4b 01 d8''"] by (auto simp: decode_hex_def)
qed

theorem capture_line_read_witness:
  "\<exists>r. osdpcap_parse_line (Some (capture_line '' : '' '', '' ex_fields)) zero_record = (OSDPCAP_OK, r) \<and>
     cr_data r = [0xFF, 0xFF, 0x53, 0x80, 8, 0, 1, 0x4B, 1, 0xD8] \<and> metadata_of ex_fields r"
  by (rule capture_line_read [OF ex_fields_ok _ ex_hex]) (simp_all add: ex_fields_def zero_record_def)

section \<open>Where the reader goes wrong\<close>

text \<open>A value that reads like a key is taken for it, and the data behind it is not found.\<close>

lemma value_taken_for_key:
  "fst (osdpcap_parse_line (Some (capture_line '':'' '','' [(''osdpSource'', ''data''), (''data'', ''53'')])) zero_record)
     = OSDPCAP_ERR_MISSING_DATA"
  by code_simp

text \<open>A version without its closing quote leaves the array without a terminating NUL, and the line is accepted.\<close>

lemma version_unterminated:
  "let line = ''{'' @ fields_text '':'' '','' [(''data'', ''53'')] @ [CHR '','', QUOTE] @ ''osdpTraceVersion'' @ [QUOTE, CHR '':'', QUOTE, CHR ''1''];
       (s, r) = osdpcap_parse_line (Some line) (zero_record\<lparr>cr_version := replicate OSDPCAP_VERSION_LEN (CHR ''x'')\<rparr>)
   in s = OSDPCAP_OK \<and> NUL \<notin> set (cr_version r)"
  by code_simp

text \<open>Hexadecimal text beyond the size of the intermediate array is dropped silently: with enough white space in front of
  it, data is accepted as empty.\<close>

lemma data_cut_off:
  assumes "fields_ok colon sep fs" "map_of fs ''data'' = Some (replicate 6159 (CHR '' '') @ ''53'')"
  shows "\<exists>r. osdpcap_parse_line (Some (capture_line colon sep fs)) out = (OSDPCAP_OK, r) \<and> cr_data r = []"
proof -
  let ?l = "capture_line colon sep fs" and ?h = "replicate 6159 (CHR '' '') @ ''53''"
  obtain t where t: "find_value ?l ''data'' = Some (QUOTE # ?h @ QUOTE # t)"
    using find_value_line(2) [OF assms(1) _ assms(2)] by (auto simp: capture_keys_def)
  have "take 6159 ?h = replicate 6159 (CHR '' '')" "length (take 6159 ?h) = 6159" by (simp_all add: take_append)
  then have b: "read_string (QUOTE # ?h @ QUOTE # t) (replicate 6160 NUL) 6160 = (Some t, replicate 6159 (CHR '' '') @ [NUL])"
    using read_string_text [of ?h "replicate 6160 NUL" 6160 t] by simp
  have c: "c_str (replicate 6159 (CHR '' '') @ [NUL]) = replicate 6159 (CHR '' '')"
    by (intro c_str_text) simp
  have "hex_text (replicate n (CHR '' '')) []" for n
    by (induction n) (auto intro: hex_text.intros simp: is_hex_sep_def is_ws_def)
  then have d: "decode_hex (replicate 6159 (CHR '' '')) 2048 = (OSDPCAP_OK, [])"
    using decode_hex_loop_text [of 2048 "[]" "replicate 6159 (CHR '' '')" "[]"] by (simp add: decode_hex_def)
  have s: "skip_ws ?l = ?l" "?l \<noteq> []" "hd ?l = CHR ''{''" "CHR ''{'' \<in> set ?l"
    by (simp_all add: capture_line_def skip_ws_def is_ws_def)
  have "cr_data (parse_metadata ?l r) = cr_data r" for r
    by (simp add: parse_metadata_def Let_def)
  then show ?thesis
    using s t b c d by (simp add: osdpcap_parse_line_def Let_def)
qed

section \<open>A capture of frames\<close>

text \<open>An entry of a capture: the fields of a line and the frame whose bytes it carries.\<close>

definition entry_ok :: "string \<Rightarrow> string \<Rightarrow> (string \<times> string) list \<Rightarrow> osdp_frame \<Rightarrow> bytes \<Rightarrow> bool" where
  "entry_ok colon sep fs f w \<longleftrightarrow> fields_ok colon sep fs \<and> CHR 0x0A \<notin> set (fields_text colon sep fs) \<and>
     length (capture_line colon sep fs) < LINE_CAP \<and>
     (\<exists>h. map_of fs ''data'' = Some h \<and> hex_text h w \<and> length h < 6160) \<and>
     frame_ptrs_ok f \<and> (\<exists>cap. osdp_frame_build f cap = Inr w) \<and> length w \<le> OSDP_STREAM_BUFFER_LEN"

definition frame_reports :: "report list \<Rightarrow> report list" where
  "frame_reports out = filter (\<lambda>x. case x of Frame_line _ _ \<Rightarrow> True | Decode_error _ \<Rightarrow> True | _ \<Rightarrow> False) out"

lemma frame_reports_simps [simp]:
  "frame_reports [] = []" "frame_reports (xs @ ys) = frame_reports xs @ frame_reports ys"
  "frame_reports (print_record_header r # xs) = frame_reports xs"
  "frame_reports (print_frame f # xs) = print_frame f # frame_reports xs"
  by (simp_all add: frame_reports_def print_record_header_def print_frame_def)

definition capture_text :: "string \<Rightarrow> string \<Rightarrow> ((string \<times> string) list \<times> osdp_frame \<times> bytes) list \<Rightarrow> string" where
  "capture_text colon sep es = concat (map (\<lambda>e. capture_line colon sep (fst e)) es)"

lemma fgets_line:
  assumes "CHR 0x0A \<notin> set l" "length l + 1 < cap"
  shows "fgets cap (l @ CHR 0x0A # rest) = (l @ [CHR 0x0A], rest)"
proof -
  obtain k where k: "cap - 1 - length l = Suc k"
    using assms(2) by (metis Suc_diff_Suc add.commute less_diff_conv plus_1_eq_Suc)
  have t: "take (cap - 1) (l @ CHR 0x0A # rest) = l @ CHR 0x0A # take k rest"
    using assms(2) k by simp
  have h: "takeWhile (\<lambda>c. c \<noteq> CHR 0x0A) (l @ CHR 0x0A # take k rest) = l"
    using assms(1) by (subst takeWhile_append2) auto
  show ?thesis
    by (simp only: fgets_def Let_def t h) simp
qed

lemma fields_text_nul: "fields_ok colon sep fs \<Longrightarrow> NUL \<notin> set (fields_text colon sep fs)"
proof (induction fs)
  case (Cons kv fs)
  obtain k v where kv: "kv = (k, v)" by fastforce
  have "NUL \<notin> set colon"
  proof -
    obtain a b where c: "colon = a @ CHR '':'' # b" "list_all is_ws a" "list_all is_ws b"
      using Cons.prems by (auto simp: fields_ok_def colon_ok_def)
    have "\<not> is_ws NUL" by code_simp
    with c show ?thesis by (auto simp: list_all_iff)
  qed
  with Cons show ?case by (auto simp: kv fields_ok_def plain_text_def)
qed simp

lemma drain_one_frame:
  assumes "stream_wf (ps_stream ps)" "stream_live (ps_stream ps) = w" "osdp_frame_build f cap = Inr w" "frame_ptrs_ok f"
  obtains s where "stream_wf s" "stream_live s = []"
    "drain_frames ps = (say (print_frame (as_received f (tl w))) ps)\<lparr>ps_stream := s, ps_frames := ps_frames ps + 1\<rparr>"
proof -
  obtain s1 s2 where s: "stream_wf s2" "stream_live s2 = []"
    "osdp_stream_next (ps_stream ps) zero_frame = (OSDP_OK, as_received f (tl w), s1)"
    "osdp_stream_next s1 zero_frame = (OSDP_ERR_TRUNCATED, zero_frame, s2)"
    by (rule stream_one_frame [OF assms])
  have "drain_frames ps = (say (print_frame (as_received f (tl w))) ps)\<lparr>ps_stream := s2, ps_frames := ps_frames ps + 1\<rparr>"
    by (subst drain_frames.simps, subst drain_frames.simps) (simp add: s(3,4) say_def)
  with that s(1,2) show thesis by blast
qed

lemma parse_entry:
  assumes "entry_ok colon sep fs f w" "stream_wf (ps_stream ps)" "stream_live (ps_stream ps) = []"
  obtains s r where "stream_wf s" "stream_live s = []"
    "parse_one_line ps (c_str (capture_line colon sep fs))
      = ps\<lparr>ps_stream := s, ps_records := ps_records ps + 1, ps_frames := ps_frames ps + 1,
           ps_out := ps_out ps @ [print_record_header r, print_frame (as_received f (tl w))]\<rparr>"
proof -
  let ?l = "capture_line colon sep fs"
  obtain h cap where e: "fields_ok colon sep fs" "map_of fs ''data'' = Some h" "hex_text h w" "length h < 6160"
    "frame_ptrs_ok f" "osdp_frame_build f cap = Inr w" "length w \<le> OSDP_STREAM_BUFFER_LEN"
    using assms(1) by (auto simp: entry_ok_def)
  have "NUL \<notin> set ?l" using fields_text_nul [OF e(1)] by (auto simp: capture_line_def)
  then have l: "c_str ?l = ?l" by (auto simp: c_str_def takeWhile_eq_all_conv)
  obtain r where r: "osdpcap_parse_line (Some ?l) zero_record = (OSDPCAP_OK, r)" "cr_data r = w"
    using parse_capture_line [OF e(1-4), of zero_record] e(7) by (auto simp: zero_record_def)
  obtain st where fd: "osdp_stream_feed (ps_stream ps) (Some w) (length w) = (OSDP_OK, st)"
    by (cases "w = []") (auto simp: osdp_stream_feed_def)
  let ?ps = "(say (print_record_header r) (ps\<lparr>ps_records := ps_records ps + 1\<rparr>))\<lparr>ps_stream := st\<rparr>"
  have s: "stream_wf st" "stream_live st = w"
    using rx.feed_wf [OF assms(2)] rx.feed_append [OF assms(2), of w] assms(3) e(7) fd by (metis snd_conv, simp)
  obtain s' where s': "stream_wf s'" "stream_live s' = []"
    "drain_frames ?ps = (say (print_frame (as_received f (tl w))) ?ps)\<lparr>ps_stream := s', ps_frames := ps_frames ?ps + 1\<rparr>"
    by (rule drain_one_frame [of ?ps w f cap]) (use s e in simp_all)
  have "parse_one_line ps (c_str ?l) = drain_frames ?ps"
    using fd by (simp add: parse_one_line_def l r say_def Let_def)
  then have "parse_one_line ps (c_str ?l) = ps\<lparr>ps_stream := s', ps_records := ps_records ps + 1, ps_frames := ps_frames ps + 1,
      ps_out := ps_out ps @ [print_record_header r, print_frame (as_received f (tl w))]\<rparr>"
    unfolding s'(3) by (cases ps) (simp add: say_def)
  with that s'(1,2) show thesis by blast
qed

lemma parse_next_entry:
  assumes "entry_ok colon sep fs f w"
  shows "parse_lines ps (capture_line colon sep fs @ rest) = parse_lines (parse_one_line ps (c_str (capture_line colon sep fs))) rest"
proof -
  have "CHR 0x0A \<notin> set (''{'' @ fields_text colon sep fs @ ''}'')" "length (''{'' @ fields_text colon sep fs @ ''}'') + 1 < LINE_CAP"
    using assms by (auto simp: entry_ok_def capture_line_def)
  from fgets_line [OF this, of rest]
  have g: "fgets LINE_CAP (capture_line colon sep fs @ rest) = (capture_line colon sep fs, rest)"
    by (simp add: capture_line_def)
  have "capture_line colon sep fs @ rest \<noteq> []" by (simp add: capture_line_def)
  then show ?thesis
    by (subst parse_lines.simps) (simp only: g if_False prod.case)
qed

lemma parse_entries:
  assumes "list_all (\<lambda>(fs, f, w). entry_ok colon sep fs f w) es" "stream_wf (ps_stream ps)" "stream_live (ps_stream ps) = []"
    and "parse_lines ps (capture_text colon sep es) = ps'"
  shows "ps_records ps' = ps_records ps + length es \<and> ps_frames ps' = ps_frames ps + length es \<and>
    ps_parse_errors ps' = ps_parse_errors ps \<and> ps_decode_errors ps' = ps_decode_errors ps \<and>
    frame_reports (ps_out ps') = frame_reports (ps_out ps) @ map (\<lambda>(fs, f, w). print_frame (as_received f (tl w))) es"
  using assms
proof (induction es arbitrary: ps)
  case Nil
  then show ?case by (simp add: parse_lines.simps capture_text_def)
next
  case (Cons e es)
  obtain fs f w where e: "e = (fs, f, w)" by (cases e)
  then have ok: "entry_ok colon sep fs f w" using Cons.prems(1) by simp
  obtain s r where s: "stream_wf s" "stream_live s = []" and p: "parse_one_line ps (c_str (capture_line colon sep fs))
      = ps\<lparr>ps_stream := s, ps_records := ps_records ps + 1, ps_frames := ps_frames ps + 1,
           ps_out := ps_out ps @ [print_record_header r, print_frame (as_received f (tl w))]\<rparr>" (is "_ = ?ps")
    by (rule parse_entry [OF ok Cons.prems(2,3)])
  have "parse_lines ?ps (capture_text colon sep es) = ps'"
    using Cons.prems(4) parse_next_entry [OF ok, of ps "capture_text colon sep es"] p by (simp add: capture_text_def e)
  from Cons.IH [OF _ _ _ this] Cons.prems(1) s show ?case
    by (simp add: e)
qed

text \<open>C38. The parser shows every frame of a capture: for a file whose lines carry the wire images of any list of buildable frames,
  it exits with 0, counts as many records and frames as there are lines and no error, and prints exactly those frames in order,
  as the decoder hands them out.\<close>

theorem capture_frames_reported:
  assumes "list_all (\<lambda>(fs, f, w). entry_ok colon sep fs f w) es"
  shows "\<exists>ps. parser_main (capture_text colon sep es) = (0, ps) \<and>
    ps_records ps = length es \<and> ps_frames ps = length es \<and> ps_decode_errors ps = 0 \<and>
    frame_reports (ps_out ps) = map (\<lambda>(fs, f, w). print_frame (as_received f (tl w))) es"
proof -
  let ?s = "osdp_stream_init \<lparr>st_buffer = replicate OSDP_STREAM_BUFFER_LEN 0, st_fill = 0, st_pending_consume = 0\<rparr>"
  have "stream_wf ?s" "stream_live ?s = []"
    by (simp_all add: osdp_stream_init_def stream_wf_def stream_live_def)
  then show ?thesis
    using parse_entries [OF assms _ _ refl, of "\<lparr>ps_stream = ?s, ps_records = 0, ps_frames = 0, ps_parse_errors = 0,
        ps_decode_errors = 0, ps_out = []\<rparr>"]
    by (simp add: parser_main_def Let_def)
qed

text \<open>The poll of a capture of ACUConsole, once as it stands there, once in the other notation.\<close>

definition ex_poll_frame :: osdp_frame where
  "ex_poll_frame = zero_frame\<lparr>fr_sequence := 0, fr_integrity := OSDP_INTEGRITY_CRC, fr_code := 0x60\<rparr>"

definition ex_entries :: "((string \<times> string) list \<times> osdp_frame \<times> bytes) list" where
  "ex_entries =
     [([(''data'', ''FF-53-00-08-00-04-60-EB-AA''), (''osdpSource'', ''ACUConsole'')], ex_poll_frame,
       [0xFF, 0x53, 0, 8, 0, 4, 0x60, 0xEB, 0xAA]),
      ([(''io'', ''trace''), (''data'', '' ff 53 00 08 00 04 60 eb aa'')], ex_poll_frame,
       [0xFF, 0x53, 0, 8, 0, 4, 0x60, 0xEB, 0xAA])]"

theorem capture_frames_reported_witness:
  "\<exists>ps. parser_main (capture_text '':'' '','' ex_entries) = (0, ps) \<and>
    ps_records ps = length ex_entries \<and> ps_frames ps = length ex_entries \<and> ps_decode_errors ps = 0 \<and>
    frame_reports (ps_out ps) = map (\<lambda>(fs, f, w). print_frame (as_received f (tl w))) ex_entries"
proof (rule capture_frames_reported)
  let ?w = "[0xFF, 0x53, 0, 8, 0, 4, 0x60, 0xEB, 0xAA] :: bytes"
  have "osdp_frame_build ex_poll_frame 9 = Inr ?w" by code_simp
  moreover have "frame_ptrs_ok ex_poll_frame"
    by (simp add: ex_poll_frame_def zero_frame_def frame_ptrs_ok_def ptr_holds_def)
  moreover have "colon_ok '':''"
    unfolding colon_ok_def by (intro exI [of _ "[]"]) simp
  moreover have "decode_hex ''FF-53-00-08-00-04-60-EB-AA'' 9 = (OSDPCAP_OK, ?w)"
    "decode_hex '' ff 53 00 08 00 04 60 eb aa'' 9 = (OSDPCAP_OK, ?w)"
    by code_simp+
  then have "hex_text ''FF-53-00-08-00-04-60-EB-AA'' ?w" "hex_text '' ff 53 00 08 00 04 60 eb aa'' ?w"
    using decode_hex_loop_text [of 9 "[]" "''FF-53-00-08-00-04-60-EB-AA''"]
      decode_hex_loop_text [of 9 "[]" "'' ff 53 00 08 00 04 60 eb aa''"] by (auto simp: decode_hex_def)
  ultimately show "list_all (\<lambda>(fs, f, w). entry_ok '':'' '','' fs f w) ex_entries"
    by (auto simp: ex_entries_def entry_ok_def fields_ok_def plain_text_def capture_keys_def capture_line_def)
qed

end
