(* ===== verification/Multipart.thy ===== *)
theory Multipart
  imports Codec
begin

unbundle bit_operations_syntax

text \<open>
  Multi-part transport: \<^verbatim>\<open>core/src/shared/multipart.c\<close>. The fragment codec, the reassembler
  and the fragment iterator. The lemmas show that the codec satisfies \<open>payload_codec\<close>, that the
  reassembler never writes outside its buffer, and that what the iterator cuts, the reassembler
  puts together again, whatever the fragment size.
\<close>

section \<open>Fragments\<close>

abbreviation (input) OSDP_MP_HEADER_BYTES :: nat where "OSDP_MP_HEADER_BYTES \<equiv> 6"
abbreviation (input) OSDP_MP_DEFAULT_FRAGMENT_SIZE :: nat where "OSDP_MP_DEFAULT_FRAGMENT_SIZE \<equiv> 128"

record osdp_mp_fragment =
  mp_total_size :: u16
  mp_offset :: u16
  mp_data :: bytes_ptr
  mp_frag_len :: nat

definition osdp_mp_is_early_termination :: "osdp_mp_fragment \<Rightarrow> bool" where
  "osdp_mp_is_early_termination f \<longleftrightarrow>
     mp_frag_len f = 0 \<and> mp_total_size f > 0 \<and> mp_offset f \<ge> mp_total_size f"

text \<open>The decoder fills its output before the bounds check, so the output is returned on that error
  too.\<close>

definition osdp_mp_fragment_decode ::
  "bytes_ptr \<Rightarrow> nat \<Rightarrow> osdp_mp_fragment \<Rightarrow> osdp_status \<times> osdp_mp_fragment" where
  "osdp_mp_fragment_decode payload len out =
     (if payload = None \<or> len < OSDP_MP_HEADER_BYTES then (OSDP_ERR_BAD_PAYLOAD, out)
      else
        let p = the payload;
            total_size = osdp_pack_read_u16le p;
            offset = osdp_pack_read_u16le (drop 2 p);
            frag_size = osdp_pack_read_u16le (drop 4 p);
            data_len = len - OSDP_MP_HEADER_BYTES
        in
        if unat frag_size \<noteq> data_len then (OSDP_ERR_BAD_PAYLOAD, out)
        else
          let f = \<lparr>mp_total_size = total_size, mp_offset = offset,
                   mp_data = (if data_len > 0
                     then Some (take data_len (drop OSDP_MP_HEADER_BYTES p)) else None),
                   mp_frag_len = data_len\<rparr>
          in if osdp_mp_is_early_termination f then (OSDP_OK, f)
             else if (ucast offset :: u32) + ucast frag_size > ucast total_size
               then (OSDP_ERR_BAD_PAYLOAD, f)
             else (OSDP_OK, f))"

definition osdp_mp_fragment_build :: "osdp_mp_fragment \<Rightarrow> nat \<Rightarrow> bytes result" where
  "osdp_mp_fragment_build f buf_cap =
     (if mp_frag_len f > 65535 then Inl OSDP_ERR_INVALID_ARG
      else if mp_frag_len f > 0 \<and> mp_data f = None then Inl OSDP_ERR_INVALID_ARG
      else if \<not> osdp_mp_is_early_termination f \<and>
              (ucast (mp_offset f) :: u32) + word_of_nat (mp_frag_len f) > ucast (mp_total_size f)
        then Inl OSDP_ERR_INVALID_ARG
      else if buf_cap < OSDP_MP_HEADER_BYTES + mp_frag_len f then Inl OSDP_ERR_BUFFER_TOO_SMALL
      else Inr (osdp_pack_write_u16le (mp_total_size f) @ osdp_pack_write_u16le (mp_offset f)
                @ osdp_pack_write_u16le (word_of_nat (mp_frag_len f))
                @ ptr_bytes (mp_data f) (mp_frag_len f)))"

section \<open>Reassembly\<close>

datatype osdp_mp_state = OSDP_MP_IN_PROGRESS | OSDP_MP_COMPLETE | OSDP_MP_TERMINATED

record osdp_mp_reasm =
  ra_buf :: bytes_ptr
  ra_cap :: nat
  ra_total :: u16
  ra_received :: u16
  ra_active :: bool

definition osdp_mp_reasm_init :: "bytes_ptr \<Rightarrow> nat \<Rightarrow> osdp_mp_reasm" where
  "osdp_mp_reasm_init buf cap =
     \<lparr>ra_buf = buf, ra_cap = cap, ra_total = 0, ra_received = 0, ra_active = False\<rparr>"

definition osdp_mp_reasm_reset :: "osdp_mp_reasm \<Rightarrow> osdp_mp_reasm" where
  "osdp_mp_reasm_reset r = r\<lparr>ra_total := 0, ra_received := 0, ra_active := False\<rparr>"

definition mp_store :: "bytes \<Rightarrow> nat \<Rightarrow> bytes \<Rightarrow> bytes" where
  "mp_store buf off data = take off buf @ data @ drop (off + length data) buf"

text \<open>The copy at the end of a push, and the progress it records.\<close>

definition reasm_accept ::
  "osdp_mp_reasm \<Rightarrow> osdp_mp_fragment \<Rightarrow> osdp_status \<times> osdp_mp_state \<times> osdp_mp_reasm" where
  "reasm_accept r frag =
     (let r1 = (if mp_frag_len frag > 0
                then r\<lparr>ra_buf := Some (mp_store (the (ra_buf r)) (unat (mp_offset frag))
                         (take (mp_frag_len frag) (the (mp_data frag))))\<rparr> else r);
          end_ofs = (word_of_nat (unat (mp_offset frag) + mp_frag_len frag) :: u16);
          r2 = (if end_ofs > ra_received r1 then r1\<lparr>ra_received := end_ofs\<rparr> else r1)
      in (OSDP_OK, if ra_received r2 = ra_total r2 then OSDP_MP_COMPLETE else OSDP_MP_IN_PROGRESS, r2))"

definition osdp_mp_reasm_push ::
  "osdp_mp_reasm \<Rightarrow> osdp_mp_fragment \<Rightarrow> osdp_mp_state \<Rightarrow> osdp_status \<times> osdp_mp_state \<times> osdp_mp_reasm" where
  "osdp_mp_reasm_push r frag state =
     (if ra_buf r = None then (OSDP_ERR_INVALID_ARG, state, r)
      else if osdp_mp_is_early_termination frag then
        (OSDP_OK, OSDP_MP_TERMINATED, osdp_mp_reasm_reset r)
      else if mp_offset frag = 0 then
        if mp_total_size frag = 0 then (OSDP_ERR_BAD_PAYLOAD, OSDP_MP_IN_PROGRESS, r)
        else if unat (mp_total_size frag) > ra_cap r
          then (OSDP_ERR_BUFFER_TOO_SMALL, OSDP_MP_IN_PROGRESS, r)
        else reasm_accept
               (r\<lparr>ra_total := mp_total_size frag, ra_received := 0, ra_active := True\<rparr>) frag
      else if \<not> ra_active r \<or> mp_total_size frag \<noteq> ra_total r
        then (OSDP_ERR_BAD_PAYLOAD, OSDP_MP_IN_PROGRESS, r)
      else if mp_offset frag > ra_received r then (OSDP_ERR_BAD_PAYLOAD, OSDP_MP_IN_PROGRESS, r)
      else reasm_accept r frag)"

section \<open>Fragmentation\<close>

record osdp_mp_frag_iter =
  it_msg :: bytes_ptr
  it_msg_len :: nat
  it_max_frag :: nat
  it_offset :: nat

definition osdp_mp_frag_iter_init :: "bytes_ptr \<Rightarrow> nat \<Rightarrow> nat \<Rightarrow> osdp_mp_frag_iter" where
  "osdp_mp_frag_iter_init msg msg_len max_frag =
     \<lparr>it_msg = msg, it_msg_len = msg_len,
      it_max_frag = (if max_frag > 0 then max_frag else OSDP_MP_DEFAULT_FRAGMENT_SIZE),
      it_offset = 0\<rparr>"

definition osdp_mp_frag_iter_next ::
  "osdp_mp_frag_iter \<Rightarrow> (osdp_mp_fragment \<times> osdp_mp_frag_iter) option" where
  "osdp_mp_frag_iter_next it =
     (if it_msg it = None then None
      else if it_offset it \<ge> it_msg_len it then None
      else
        let remaining = it_msg_len it - it_offset it;
            this_len = (if remaining < it_max_frag it then remaining else it_max_frag it)
        in Some (\<lparr>mp_total_size = word_of_nat (it_msg_len it), mp_offset = word_of_nat (it_offset it),
                  mp_data = Some (drop (it_offset it) (the (it_msg it))), mp_frag_len = this_len\<rparr>,
                 it\<lparr>it_offset := it_offset it + this_len\<rparr>))"

definition osdp_mp_frag_terminate :: "nat \<Rightarrow> osdp_mp_fragment" where
  "osdp_mp_frag_terminate msg_len =
     \<lparr>mp_total_size = word_of_nat msg_len, mp_offset = word_of_nat msg_len, mp_data = None, mp_frag_len = 0\<rparr>"

section \<open>The fragment codec satisfies the codec contract\<close>

definition zero_fragment :: osdp_mp_fragment where
  "zero_fragment = \<lparr>mp_total_size = 0, mp_offset = 0, mp_data = None, mp_frag_len = 0\<rparr>"

definition mp_decode_result :: "bytes_ptr \<Rightarrow> nat \<Rightarrow> osdp_mp_fragment result" where
  "mp_decode_result payload len =
     (case osdp_mp_fragment_decode payload len zero_fragment of
        (s, f) \<Rightarrow> if s = OSDP_OK then Inr f else Inl s)"

text \<open>The two places where the code adds in 32 bits cannot wrap.\<close>

lemma u32_sum_le:
  "(ucast (a :: u16) :: u32) + ucast (b :: u16) > ucast (c :: u16) \<longleftrightarrow> unat a + unat b > unat c"
  "n \<le> 65535 \<Longrightarrow> (ucast (a :: u16) :: u32) + word_of_nat n > ucast (c :: u16) \<longleftrightarrow> unat a + n > unat c"
proof -
  have lt: "unat c < 2 ^ 32" for c :: u16
    by (rule less_trans [OF unat_u16_lt]) simp
  have u: "unat (ucast c :: u32) = unat c" for c :: u16
    using lt by (simp add: unsigned_ucast_eq take_bit_nat_eq_self del: power_numeral)
  have *: "unat ((ucast a :: u32) + word_of_nat n) = unat a + n" if "n \<le> 65535" for n
  proof -
    have n: "unat (word_of_nat n :: u32) = n"
      using that by (simp add: unsigned_of_nat take_bit_nat_eq_self)
    show ?thesis
      using that unat_u16_lt [of a] by (simp add: unat_word_ariths u n del: unat_u16_lt)
  qed
  show "n \<le> 65535 \<Longrightarrow> (ucast (a :: u16) :: u32) + word_of_nat n > ucast (c :: u16) \<longleftrightarrow> unat a + n > unat c"
    by (simp add: word_less_nat_alt * u)
  have b: "unat b \<le> 65535"
    using unat_u16_lt [of b] by linarith
  then have "(ucast b :: u32) = word_of_nat (unat b)"
    by (simp add: word_unat_eq_iff u unsigned_of_nat take_bit_nat_eq_self)
  then show "(ucast (a :: u16) :: u32) + ucast (b :: u16) > ucast (c :: u16) \<longleftrightarrow> unat a + unat b > unat c"
    using * [OF b] by (simp add: word_less_nat_alt u)
qed

lemma early_termination_unat:
  "osdp_mp_is_early_termination f \<longleftrightarrow>
     mp_frag_len f = 0 \<and> 0 < unat (mp_total_size f) \<and> unat (mp_total_size f) \<le> unat (mp_offset f)"
  by (auto simp: osdp_mp_is_early_termination_def word_less_nat_alt word_le_nat_alt)

lemma mp_header_drop:
  "drop 2 (osdp_pack_write_u16le a @ xs) = xs"
  "drop 4 (osdp_pack_write_u16le a @ osdp_pack_write_u16le b @ xs) = xs"
  by (simp_all add: osdp_pack_write_u16le_def)

lemma write_len_field:
  "unat (osdp_pack_read_u16le [a, b]) = n \<Longrightarrow> osdp_pack_write_u16le (word_of_nat n) = [a, b]"
  using write_read_u16le [of a b "[]"] by auto

definition mp_bounds_ok :: "nat \<Rightarrow> nat \<Rightarrow> nat \<Rightarrow> bool" where
  "mp_bounds_ok tot off n \<longleftrightarrow> (n = 0 \<and> 0 < tot \<and> tot \<le> off) \<or> off + n \<le> tot"

lemma mp_decode_bytes:
  assumes "length h = 6"
  shows "osdp_mp_fragment_decode (Some (h @ t)) (length h + length t) out =
    (let f = \<lparr>mp_total_size = osdp_pack_read_u16le h, mp_offset = osdp_pack_read_u16le (drop 2 h),
              mp_data = ptr_of t, mp_frag_len = length t\<rparr>
     in if unat (osdp_pack_read_u16le (drop 4 h)) \<noteq> length t then (OSDP_ERR_BAD_PAYLOAD, out)
        else if mp_bounds_ok (unat (mp_total_size f)) (unat (mp_offset f)) (length t) then (OSDP_OK, f)
        else (OSDP_ERR_BAD_PAYLOAD, f))"
  using assms
  by (elim list_head_cases)
    (auto simp: osdp_mp_fragment_decode_def osdp_pack_read_u16le_def ptr_of_def Let_def mp_bounds_ok_def
      early_termination_unat u32_sum_le not_less)

interpretation mp: payload_codec mp_decode_result osdp_mp_fragment_build
    "\<lambda>f. True \<and> (\<exists>d. mp_data f = ptr_of d \<and> mp_frag_len f = length d)" "\<lambda>_. True"
proof (rule payload_codec_tail [where k = 6
      and fits = "\<lambda>h n. unat (osdp_pack_read_u16le (drop 4 h)) = n \<and>
         mp_bounds_ok (unat (osdp_pack_read_u16le h)) (unat (osdp_pack_read_u16le (drop 2 h))) n"
      and hdr = "\<lambda>f. osdp_pack_write_u16le (mp_total_size f) @ osdp_pack_write_u16le (mp_offset f)
                @ osdp_pack_write_u16le (word_of_nat (mp_frag_len f))"
      and mk = "\<lambda>h t. \<lparr>mp_total_size = osdp_pack_read_u16le h, mp_offset = osdp_pack_read_u16le (drop 2 h),
              mp_data = ptr_of t, mp_frag_len = length t\<rparr>"])
  fix h t :: bytes
  assume h: "length h = 6"
  show "mp_decode_result (Some (h @ t)) (length h + length t) =
     (if unat (osdp_pack_read_u16le (drop 4 h)) = length t \<and>
         mp_bounds_ok (unat (osdp_pack_read_u16le h)) (unat (osdp_pack_read_u16le (drop 2 h))) (length t)
      then Inr \<lparr>mp_total_size = osdp_pack_read_u16le h, mp_offset = osdp_pack_read_u16le (drop 2 h),
              mp_data = ptr_of t, mp_frag_len = length t\<rparr> else Inl OSDP_ERR_BAD_PAYLOAD)"
    by (simp add: mp_decode_result_def mp_decode_bytes [OF h] Let_def)
next
  fix x :: osdp_mp_fragment and cap
  have "mp_frag_len x \<le> 65535 \<longleftrightarrow> unat (word_of_nat (mp_frag_len x) :: u16) = mp_frag_len x"
    using unat_of_nat_u16 [of "mp_frag_len x"] unat_u16_lt [of "word_of_nat (mp_frag_len x)"] by linarith
  then show "osdp_mp_fragment_build x cap = (if \<not> (unat (osdp_pack_read_u16le (drop 4
          (osdp_pack_write_u16le (mp_total_size x) @ osdp_pack_write_u16le (mp_offset x)
                @ osdp_pack_write_u16le (word_of_nat (mp_frag_len x))))) = mp_frag_len x \<and>
         mp_bounds_ok (unat (osdp_pack_read_u16le (osdp_pack_write_u16le (mp_total_size x) @ osdp_pack_write_u16le (mp_offset x)
                @ osdp_pack_write_u16le (word_of_nat (mp_frag_len x)))))
          (unat (osdp_pack_read_u16le (drop 2 (osdp_pack_write_u16le (mp_total_size x) @ osdp_pack_write_u16le (mp_offset x)
                @ osdp_pack_write_u16le (word_of_nat (mp_frag_len x)))))) (mp_frag_len x))
       then Inl OSDP_ERR_INVALID_ARG
       else if 0 < mp_frag_len x \<and> mp_data x = None then Inl OSDP_ERR_INVALID_ARG
       else if cap < 6 + mp_frag_len x then Inl OSDP_ERR_BUFFER_TOO_SMALL
       else Inr ((osdp_pack_write_u16le (mp_total_size x) @ osdp_pack_write_u16le (mp_offset x)
                @ osdp_pack_write_u16le (word_of_nat (mp_frag_len x))) @ ptr_bytes (mp_data x) (mp_frag_len x)))"
    unfolding mp_header_drop
    by (auto simp: osdp_mp_fragment_build_def mp_bounds_ok_def early_termination_unat u32_sum_le
        u32_sum_le(2) [of 0, simplified])
qed (auto simp: mp_decode_result_def osdp_mp_fragment_decode_def mp_header_drop pack_simps
      intro: write_len_field elim!: list_head_cases)

section \<open>Reassembly\<close>

text \<open>The reassembler's invariant: the buffer has its capacity, and a transfer in progress has a
  positive total that fits, of which no more than the total has been received.\<close>

definition reasm_wf :: "osdp_mp_reasm \<Rightarrow> bool" where
  "reasm_wf r \<longleftrightarrow> (\<exists>b. ra_buf r = Some b \<and> length b = ra_cap r) \<and>
     (ra_active r \<longrightarrow> 0 < ra_total r \<and> unat (ra_total r) \<le> ra_cap r \<and> ra_received r \<le> ra_total r)"

lemma length_mp_store: "off + length data \<le> length buf \<Longrightarrow> length (mp_store buf off data) = length buf"
  by (simp add: mp_store_def)

lemma take_mp_store:
  assumes "off \<le> n" "off + length data \<le> length buf" "off + length data \<le> n"
  shows "take (off + length data) (mp_store buf off data) = take off buf @ data"
  using assms by (simp add: mp_store_def)

lemma reasm_accept_wf:
  assumes r: "reasm_wf r" "ra_active r" 
    and f: "mp_bounds_ok (unat (mp_total_size f)) (unat (mp_offset f)) (mp_frag_len f)" "mp_total_size f = ra_total r"
    "\<not> osdp_mp_is_early_termination f"
  shows "reasm_wf (snd (snd (reasm_accept r f)))"
    and "ra_cap (snd (snd (reasm_accept r f))) = ra_cap r"
proof -
  obtain b where b: "ra_buf r = Some b" "length b = ra_cap r"
    and t: "0 < ra_total r" "unat (ra_total r) \<le> ra_cap r" "ra_received r \<le> ra_total r"
    using r by (auto simp: reasm_wf_def)
  have bound: "unat (mp_offset f) + mp_frag_len f \<le> unat (ra_total r)"
    using f(1,3) unfolding mp_bounds_ok_def early_termination_unat f(2) by auto
  then have e: "unat (word_of_nat (unat (mp_offset f) + mp_frag_len f) :: u16)
      = unat (mp_offset f) + mp_frag_len f"
    using unat_u16_lt [of "ra_total r"] by (intro unat_of_nat_u16) linarith
  have "length (mp_store b (unat (mp_offset f)) (take (mp_frag_len f) (the (mp_data f)))) = ra_cap r"
    using bound t(2) b(2) by (subst length_mp_store) auto
  moreover have "(word_of_nat (unat (mp_offset f) + mp_frag_len f) :: u16) \<le> ra_total r"
    using e bound by (simp add: word_le_nat_alt)
  ultimately show "reasm_wf (snd (snd (reasm_accept r f)))"
    using r b t by (auto simp: reasm_accept_def Let_def reasm_wf_def)
  show "ra_cap (snd (snd (reasm_accept r f))) = ra_cap r"
    by (simp add: reasm_accept_def Let_def)
qed

lemma fragment_decode_bounds:
  assumes "osdp_mp_fragment_decode p n out = (OSDP_OK, f)"
  shows "mp_bounds_ok (unat (mp_total_size f)) (unat (mp_offset f)) (mp_frag_len f)"
  using assms unfolding osdp_mp_fragment_decode_def Let_def mp_bounds_ok_def early_termination_unat
  by (auto simp: u32_sum_le not_less split: if_splits)

lemma reasm_push_wf:
  assumes "reasm_wf r" "osdp_mp_fragment_decode p n out = (OSDP_OK, f)" "osdp_mp_reasm_push r f st = (s, st', r')"
  shows "reasm_wf r'" "ra_cap r' = ra_cap r"
proof -
  let ?r0 = "r\<lparr>ra_total := mp_total_size f, ra_received := 0, ra_active := True\<rparr>"
  have r0: "reasm_wf ?r0" if "mp_total_size f \<noteq> 0" "unat (mp_total_size f) \<le> ra_cap r"
    using assms(1) that by (auto simp: reasm_wf_def word_gt_0)
  have rst: "reasm_wf (osdp_mp_reasm_reset r)" "ra_cap (osdp_mp_reasm_reset r) = ra_cap r"
    using assms(1) by (auto simp: reasm_wf_def osdp_mp_reasm_reset_def)
  note acc = reasm_accept_wf [OF assms(1) _ fragment_decode_bounds [OF assms(2)]]
    reasm_accept_wf [OF r0 _ fragment_decode_bounds [OF assms(2)]]
  show "reasm_wf r'" "ra_cap r' = ra_cap r"
    using assms(1,3) rst acc
    by (auto simp: osdp_mp_reasm_push_def not_less split: if_splits)
qed

section \<open>A whole transfer\<close>

text \<open>The sender's loop over the iterator, and the transfer of its fragments through the codec into a
  reassembler; \<open>None\<close> where any step reports an error.\<close>

function mp_fragments :: "osdp_mp_frag_iter \<Rightarrow> osdp_mp_fragment list" where
  "mp_fragments it =
     (case osdp_mp_frag_iter_next it of
        None \<Rightarrow> []
      | Some (f, it') \<Rightarrow> if it_max_frag it = 0 then [] else f # mp_fragments it')"
  by pat_completeness auto
termination
  by (relation "measure (\<lambda>it. it_msg_len it - it_offset it)")
    (auto simp: osdp_mp_frag_iter_next_def Let_def split: if_splits)

declare mp_fragments.simps [simp del]

fun mp_deliver ::
  "osdp_mp_reasm \<Rightarrow> osdp_mp_state \<Rightarrow> osdp_mp_fragment list \<Rightarrow> (osdp_mp_state \<times> osdp_mp_reasm) option" where
  "mp_deliver r st [] = Some (st, r)"
| "mp_deliver r st (f # fs) =
     (case osdp_mp_fragment_build f (OSDP_MP_HEADER_BYTES + mp_frag_len f) of
        Inl _ \<Rightarrow> None
      | Inr bs \<Rightarrow>
          case osdp_mp_fragment_decode (ptr_of bs) (length bs) zero_fragment of
            (s, g) \<Rightarrow>
              if s \<noteq> OSDP_OK then None
              else case osdp_mp_reasm_push r g st of
                (s', st', r') \<Rightarrow> if s' \<noteq> OSDP_OK then None else mp_deliver r' st' fs)"

lemma mp_fragment_transfer:
  assumes "off + n \<le> length msg" "length msg \<le> 65535" "0 < n"
  defines "f \<equiv> \<lparr>mp_total_size = word_of_nat (length msg), mp_offset = word_of_nat off,
     mp_data = Some (drop off msg), mp_frag_len = n\<rparr>"
    and "g \<equiv> \<lparr>mp_total_size = word_of_nat (length msg), mp_offset = word_of_nat off,
     mp_data = Some (take n (drop off msg)), mp_frag_len = n\<rparr>"
  obtains bs where "osdp_mp_fragment_build f (6 + n) = Inr bs"
    "osdp_mp_fragment_decode (ptr_of bs) (length bs) zero_fragment = (OSDP_OK, g)"
proof -
  have u: "unat (word_of_nat (length msg) :: u16) = length msg" "unat (word_of_nat off :: u16) = off"
    using assms(1,2) by (simp_all add: unat_of_nat_u16)
  have eq: "osdp_mp_fragment_build g (6 + n) = osdp_mp_fragment_build f (6 + n)"
    by (simp add: osdp_mp_fragment_build_def f_def g_def ptr_bytes_def osdp_mp_is_early_termination_def)
  have n: "n \<le> 65535"
    using assms(1,2) by linarith
  then have "\<not> (ucast (mp_offset g) :: u32) + word_of_nat n > ucast (mp_total_size g)"
    using assms(1) by (simp add: u32_sum_le g_def u)
  with n obtain bs where bs: "osdp_mp_fragment_build g (6 + n) = Inr bs"
    by (auto simp: osdp_mp_fragment_build_def g_def)
  have "mp_data g = ptr_of (take n (drop off msg))" "mp_frag_len g = length (take n (drop off msg))"
    using assms(1,3) by (auto simp: g_def ptr_of_def)
  then have "mp_decode_result (ptr_of bs) (length bs) = Inr g"
    using mp.decode_build [OF _ bs] by blast
  then have "osdp_mp_fragment_decode (ptr_of bs) (length bs) zero_fragment = (OSDP_OK, g)"
    by (auto simp: mp_decode_result_def split: prod.splits if_splits)
  with bs eq that show thesis by simp
qed

text \<open>The state of a transfer of which the first \<open>off\<close> bytes have arrived.\<close>

definition reasm_holds :: "osdp_mp_reasm \<Rightarrow> bytes \<Rightarrow> nat \<Rightarrow> bool" where
  "reasm_holds r msg off \<longleftrightarrow> (\<exists>b. ra_buf r = Some b \<and> length b = ra_cap r \<and> length msg \<le> ra_cap r \<and>
     take off b = take off msg) \<and>
     (off > 0 \<longrightarrow> ra_active r \<and> ra_total r = word_of_nat (length msg) \<and> ra_received r = word_of_nat off)"

lemma reasm_push_holds:
  assumes h: "reasm_holds r msg off" and b: "off + n \<le> length msg" "length msg \<le> 65535" "0 < n"
  defines "g \<equiv> \<lparr>mp_total_size = word_of_nat (length msg), mp_offset = word_of_nat off,
     mp_data = Some (take n (drop off msg)), mp_frag_len = n\<rparr>"
  shows "\<exists>r'. osdp_mp_reasm_push r g st = (OSDP_OK,
      if off + n = length msg then OSDP_MP_COMPLETE else OSDP_MP_IN_PROGRESS, r') \<and>
    reasm_holds r' msg (off + n)"
proof -
  obtain buf where buf: "ra_buf r = Some buf" "length buf = ra_cap r" "length msg \<le> ra_cap r"
    "take off buf = take off msg"
    using h by (auto simp: reasm_holds_def)
  have u: "unat (word_of_nat k :: u16) = k" if "k \<le> length msg" for k
    using that b(2) by (simp add: unat_of_nat_u16)
  have eq: "(word_of_nat k :: u16) = word_of_nat l \<longleftrightarrow> k = l" if "k \<le> length msg" "l \<le> length msg" for k l
    using u that by (metis)
  define r1 where "r1 = (if off = 0
     then r\<lparr>ra_total := word_of_nat (length msg), ra_received := 0, ra_active := True\<rparr> else r)"
  have r1: "ra_received r1 = word_of_nat off" "ra_total r1 = word_of_nat (length msg)" "ra_active r1"
    "ra_buf r1 = Some buf" "ra_cap r1 = ra_cap r"
    using h buf(1) by (auto simp: r1_def reasm_holds_def)
  have "osdp_mp_reasm_push r g st = reasm_accept r1 g"
  proof (cases "off = 0")
    case True
    have "(word_of_nat (length msg) :: u16) \<noteq> 0"
      using eq [of "length msg" 0] b by auto
    then show ?thesis
      using True b buf u [of "length msg"] h
      by (simp add: osdp_mp_reasm_push_def g_def r1_def osdp_mp_is_early_termination_def)
  next
    case False
    then have "(word_of_nat off :: u16) \<noteq> 0"
      using eq [of off 0] b by auto
    then show ?thesis
      using False b buf h
      by (simp add: osdp_mp_reasm_push_def g_def r1_def osdp_mp_is_early_termination_def reasm_holds_def)
  qed
  moreover have "(word_of_nat (off + n) :: u16) > word_of_nat off"
    unfolding word_less_nat_alt using u [of "off + n"] u [of off] b by (simp only: le_add1 le_trans)
  moreover have "take (off + n) (mp_store buf off (take n (drop off msg))) = take (off + n) msg"
    using take_mp_store [of off "off + n" "take n (drop off msg)" buf] b(1) buf
    by (simp add: take_add)
  moreover have "length (mp_store buf off (take n (drop off msg))) = ra_cap r"
    using b(1) buf by (subst length_mp_store) auto
  ultimately show ?thesis
    using b r1 buf u [of off] eq [of "off + n" "length msg"]
    by (simp add: reasm_accept_def Let_def g_def reasm_holds_def)
qed

text \<open>One step of the iterator: the fragment it yields, the bytes it becomes on the line and what the receiver reads.\<close>

lemma mp_fragments_step:
  assumes "it_msg it = Some msg" "it_msg_len it = length msg" "0 < it_max_frag it"
    and "it_offset it < length msg" "length msg \<le> 65535"
  obtains f n bs where "0 < n" "it_offset it + n \<le> length msg" "mp_frag_len f = n"
    "osdp_mp_frag_iter_next it = Some (f, it\<lparr>it_offset := it_offset it + n\<rparr>)"
    "mp_fragments it = f # (if it_offset it + n = length msg then [] else mp_fragments (it\<lparr>it_offset := it_offset it + n\<rparr>))"
    "osdp_mp_fragment_build f (6 + n) = Inr bs"
    "osdp_mp_fragment_decode (ptr_of bs) (length bs) zero_fragment = (OSDP_OK,
       \<lparr>mp_total_size = word_of_nat (length msg), mp_offset = word_of_nat (it_offset it),
        mp_data = Some (take n (drop (it_offset it) msg)), mp_frag_len = n\<rparr>)"
proof -
  let ?off = "it_offset it"
  define n where "n = (if length msg - ?off < it_max_frag it then length msg - ?off else it_max_frag it)"
  have n: "?off + n \<le> length msg" "0 < n"
    using assms(3,4) by (auto simp: n_def)
  let ?f = "\<lparr>mp_total_size = word_of_nat (length msg), mp_offset = word_of_nat ?off,
     mp_data = Some (drop ?off msg), mp_frag_len = n\<rparr>"
  let ?it = "it\<lparr>it_offset := ?off + n\<rparr>"
  have nxt: "osdp_mp_frag_iter_next it = Some (?f, ?it)"
    using assms(1,2,4) by (simp add: osdp_mp_frag_iter_next_def n_def Let_def)
  have "mp_fragments ?it = []" if "?off + n = length msg"
    using that assms(1,2) by (subst mp_fragments.simps) (simp add: osdp_mp_frag_iter_next_def)
  then have fr: "mp_fragments it = ?f # (if ?off + n = length msg then [] else mp_fragments ?it)"
    using nxt assms(3) by (subst mp_fragments.simps) simp
  show ?thesis
    by (rule mp_fragment_transfer [OF n(1) assms(5) n(2)]) (rule that [OF n(2,1) _ nxt fr], simp_all)
qed

lemma mp_deliver_fragments:
  assumes "it_msg it = Some msg" "it_msg_len it = length msg" "0 < it_max_frag it"
    and "it_offset it < length msg" "length msg \<le> 65535" "reasm_holds r msg (it_offset it)"
  shows "\<exists>r'. mp_deliver r st (mp_fragments it) = Some (OSDP_MP_COMPLETE, r') \<and>
     reasm_holds r' msg (length msg)"
  using assms
proof (induction it arbitrary: r st rule: mp_fragments.induct)
  case (1 it)
  let ?off = "it_offset it"
  obtain f n bs where f: "0 < n" "?off + n \<le> length msg" "mp_frag_len f = n"
    "osdp_mp_frag_iter_next it = Some (f, it\<lparr>it_offset := ?off + n\<rparr>)"
    "mp_fragments it = f # (if ?off + n = length msg then [] else mp_fragments (it\<lparr>it_offset := ?off + n\<rparr>))"
    "osdp_mp_fragment_build f (6 + n) = Inr bs"
    "osdp_mp_fragment_decode (ptr_of bs) (length bs) zero_fragment = (OSDP_OK,
       \<lparr>mp_total_size = word_of_nat (length msg), mp_offset = word_of_nat ?off,
        mp_data = Some (take n (drop ?off msg)), mp_frag_len = n\<rparr>)"
    by (rule mp_fragments_step [OF 1(2-6)])
  obtain r' where r': "osdp_mp_reasm_push r \<lparr>mp_total_size = word_of_nat (length msg), mp_offset = word_of_nat ?off,
        mp_data = Some (take n (drop ?off msg)), mp_frag_len = n\<rparr> st = (OSDP_OK,
      if ?off + n = length msg then OSDP_MP_COMPLETE else OSDP_MP_IN_PROGRESS, r')"
    "reasm_holds r' msg (?off + n)"
    using reasm_push_holds [OF 1(7) f(2) 1(6) f(1)] by blast
  show ?case
  proof (cases "?off + n = length msg")
    case True
    with f r' show ?thesis by simp
  next
    case False
    then have "\<exists>r''. mp_deliver r' OSDP_MP_IN_PROGRESS (mp_fragments (it\<lparr>it_offset := ?off + n\<rparr>)) = Some (OSDP_MP_COMPLETE, r'') \<and>
       reasm_holds r'' msg (length msg)"
      using 1(1) [OF f(4) refl, of r'] 1(2-6) f(2) r'(2) by simp
    with False f r' show ?thesis by simp
  qed
qed

section \<open>Properties\<close>

text \<open>C20. Cutting a message into fragments and reassembling them gives the message back: for every
  message of 1 to 65535 bytes and every fragment size, sending the iterator's fragments through
  the fragment codec into a reassembler whose buffer is large enough ends in the state
  \<open>COMPLETE\<close>, with the message at the start of the buffer.\<close>

theorem multipart_roundtrip:
  assumes "msg \<noteq> []" and "length msg \<le> 65535" and "length msg \<le> length buf"
  shows "\<exists>r. mp_deliver (osdp_mp_reasm_init (Some buf) (length buf)) OSDP_MP_IN_PROGRESS
         (mp_fragments (osdp_mp_frag_iter_init (Some msg) (length msg) max_frag))
       = Some (OSDP_MP_COMPLETE, r) \<and>
     unat (ra_total r) = length msg \<and> take (length msg) (the (ra_buf r)) = msg"
proof -
  let ?it = "osdp_mp_frag_iter_init (Some msg) (length msg) max_frag"
  have "reasm_holds (osdp_mp_reasm_init (Some buf) (length buf)) msg 0"
    using assms(3) by (simp add: reasm_holds_def osdp_mp_reasm_init_def)
  moreover have "it_msg ?it = Some msg" "it_msg_len ?it = length msg" "0 < it_max_frag ?it"
    "it_offset ?it = 0"
    by (simp_all add: osdp_mp_frag_iter_init_def)
  ultimately obtain r where "mp_deliver (osdp_mp_reasm_init (Some buf) (length buf)) OSDP_MP_IN_PROGRESS
      (mp_fragments ?it) = Some (OSDP_MP_COMPLETE, r)" "reasm_holds r msg (length msg)"
    using mp_deliver_fragments [of ?it msg] assms by (metis length_greater_0_conv)
  then show ?thesis
    using assms by (auto simp: reasm_holds_def unat_of_nat_u16)
qed

theorem multipart_roundtrip_witness:
  "\<exists>r. mp_deliver (osdp_mp_reasm_init (Some [0, 0, 0, 0, 0, 0]) (length [0, 0, 0, 0, 0, 0 :: byte])) OSDP_MP_IN_PROGRESS
         (mp_fragments (osdp_mp_frag_iter_init (Some [1, 2, 3, 4, 5]) (length [1, 2, 3, 4, 5 :: byte]) 2))
       = Some (OSDP_MP_COMPLETE, r) \<and>
     take (length [1, 2, 3, 4, 5 :: byte]) (the (ra_buf r)) = [1, 2, 3, 4, 5]"
proof -
  have "[1, 2, 3, 4, 5 :: byte] \<noteq> []" "length [1, 2, 3, 4, 5 :: byte] \<le> 65535"
    "length [1, 2, 3, 4, 5 :: byte] \<le> length [0, 0, 0, 0, 0, 0 :: byte]"
    by simp_all
  from multipart_roundtrip [OF this] show ?thesis by blast
qed

end
