(* ===== verification/Reader_State.thy ===== *)
theory Reader_State
  imports Commands
begin

unbundle bit_operations_syntax

text \<open>
  The resolved state of a reader's LEDs and buzzers: \<^verbatim>\<open>core/src/shared/led_state.c\<close> and
  \<^verbatim>\<open>core/src/shared/buz_state.c\<close>. Times are 32-bit millisecond counters, and all arithmetic
  wraps as in C. The lemmas translate the answers into elapsed milliseconds: they show what the
  functions compute within one revolution of the counter, and what happens after it.
\<close>

section \<open>LEDs\<close>

abbreviation (input) OSDP_LED_TEMP_CANCEL :: byte where "OSDP_LED_TEMP_CANCEL \<equiv> 1"
abbreviation (input) OSDP_LED_TEMP_SET :: byte where "OSDP_LED_TEMP_SET \<equiv> 2"
abbreviation (input) OSDP_LED_PERM_SET :: byte where "OSDP_LED_PERM_SET \<equiv> 1"
abbreviation (input) OSDP_LED_BLACK :: byte where "OSDP_LED_BLACK \<equiv> 0"

record osdp_led_flash =
  lf_on_color :: byte
  lf_off_color :: byte
  lf_on_time_100ms :: byte
  lf_off_time_100ms :: byte

record osdp_led =
  le_permanent :: osdp_led_flash
  le_temporary :: osdp_led_flash
  le_temp_active :: bool
  le_temp_started_ms :: u32
  le_temp_duration_ms :: u32

definition osdp_led_init :: osdp_led where
  "osdp_led_init =
     (let z = \<lparr>lf_on_color = 0, lf_off_color = 0, lf_on_time_100ms = 0, lf_off_time_100ms = 0\<rparr>
      in \<lparr>le_permanent = z, le_temporary = z, le_temp_active = False, le_temp_started_ms = 0,
          le_temp_duration_ms = 0\<rparr>)"

definition osdp_led_apply :: "osdp_led \<Rightarrow> osdp_led_record \<Rightarrow> u32 \<Rightarrow> osdp_led" where
  "osdp_led_apply led rec now_ms =
     (let led1 = (if lr_perm_control_code rec = OSDP_LED_PERM_SET
         then led\<lparr>le_permanent := \<lparr>lf_on_color = lr_perm_on_color rec, lf_off_color = lr_perm_off_color rec,
                lf_on_time_100ms = lr_perm_on_time rec, lf_off_time_100ms = lr_perm_off_time rec\<rparr>\<rparr>
         else led)
      in if lr_temp_control_code rec = OSDP_LED_TEMP_CANCEL then led1\<lparr>le_temp_active := False\<rparr>
         else if lr_temp_control_code rec = OSDP_LED_TEMP_SET then
           led1\<lparr>le_temporary := \<lparr>lf_on_color = lr_temp_on_color rec, lf_off_color = lr_temp_off_color rec,
                  lf_on_time_100ms = lr_temp_on_time rec, lf_off_time_100ms = lr_temp_off_time rec\<rparr>,
                le_temp_active := True, le_temp_started_ms := now_ms,
                le_temp_duration_ms := ucast (lr_temp_timer_100ms rec) * 100\<rparr>
         else led1)"

definition flash_color :: "osdp_led_flash \<Rightarrow> u32 \<Rightarrow> byte" where
  "flash_color f elapsed_ms =
     (let on = ucast (lf_on_time_100ms f) * 100;
          off = ucast (lf_off_time_100ms f) * 100;
          period = on + off
      in if period = 0 then lf_on_color f
         else let phase = elapsed_ms mod period
              in if phase < on then lf_on_color f else lf_off_color f)"

definition osdp_led_color :: "osdp_led \<Rightarrow> u32 \<Rightarrow> byte" where
  "osdp_led_color led now_ms =
     (let elapsed = now_ms - le_temp_started_ms led in
      if le_temp_active led \<and> le_temp_duration_ms led \<noteq> 0 \<and> elapsed < le_temp_duration_ms led
      then flash_color (le_temporary led) elapsed
      else flash_color (le_permanent led) now_ms)"

section \<open>Buzzers\<close>

abbreviation (input) OSDP_BUZ_TONE_OFF :: byte where "OSDP_BUZ_TONE_OFF \<equiv> 1"

record osdp_buz =
  bu_tone :: byte
  bu_on_time_100ms :: byte
  bu_off_time_100ms :: byte
  bu_count :: byte
  bu_started_ms :: u32
  bu_active :: bool

definition osdp_buz_init :: osdp_buz where
  "osdp_buz_init = \<lparr>bu_tone = 0, bu_on_time_100ms = 0, bu_off_time_100ms = 0, bu_count = 0,
     bu_started_ms = 0, bu_active = False\<rparr>"

definition osdp_buz_apply :: "osdp_buz \<Rightarrow> osdp_buz_cmd \<Rightarrow> u32 \<Rightarrow> osdp_buz" where
  "osdp_buz_apply buz cmd now_ms =
     buz\<lparr>bu_tone := bz_tone_code cmd, bu_on_time_100ms := bz_on_time_100ms cmd,
         bu_off_time_100ms := bz_off_time_100ms cmd, bu_count := bz_count cmd,
         bu_started_ms := now_ms, bu_active := bz_tone_code cmd \<noteq> OSDP_BUZ_TONE_OFF\<rparr>"

definition osdp_buz_sounding :: "osdp_buz \<Rightarrow> u32 \<Rightarrow> bool" where
  "osdp_buz_sounding buz now_ms =
     (if \<not> bu_active buz \<or> bu_tone buz = OSDP_BUZ_TONE_OFF then False
      else
        let on = (ucast (bu_on_time_100ms buz) :: u32) * 100;
            off = ucast (bu_off_time_100ms buz) * 100;
            cycle = on + off
        in
        if cycle = 0 then on > 0
        else
          let elapsed = now_ms - bu_started_ms buz in
          if bu_count buz > 0 \<and> elapsed \<ge> ucast (bu_count buz) * cycle then False
          else elapsed mod cycle < on)"

section \<open>The arithmetic does not wrap\<close>

lemma unat_ucast_byte: "unat (ucast (b :: byte) :: u32) = unat b"
  using unat_byte_le [of b] by (simp add: unsigned_ucast_eq take_bit_nat_eq_self)

lemma unat_ucast_u16: "unat (ucast (b :: u16) :: u32) = unat b"
  using unat_u16_le [of b] by (simp add: unsigned_ucast_eq take_bit_nat_eq_self)

lemma unat_mult_100: "unat (x :: u32) \<le> 65535 \<Longrightarrow> unat (x * 100) = 100 * unat x"
  by (simp add: unat_word_ariths)

lemma unat_time_100ms: "unat ((ucast (b :: byte) :: u32) * 100) = 100 * unat b"
  using unat_byte_le [of b] by (simp add: unat_mult_100 unat_ucast_byte)

lemma unat_timer_100ms: "unat ((ucast (t :: u16) :: u32) * 100) = 100 * unat t"
  using unat_u16_le [of t] by (simp add: unat_mult_100 unat_ucast_u16)

lemma unat_cycle:
  "unat ((ucast (a :: byte) :: u32) * 100 + ucast (b :: byte) * 100) = 100 * (unat a + unat b)"
  using unat_byte_le [of a] unat_byte_le [of b] by (simp add: unat_word_ariths(1) unat_time_100ms)

lemma unat_buz_total:
  "unat ((ucast (n :: byte) :: u32) * (ucast (a :: byte) * 100 + ucast (b :: byte) * 100))
     = unat n * (100 * (unat a + unat b))"
proof -
  have "unat n * (100 * (unat a + unat b)) \<le> 255 * (100 * (255 + 255))"
    using unat_byte_le [of n] unat_byte_le [of a] unat_byte_le [of b] by (intro mult_le_mono) auto
  then show ?thesis
    by (simp add: unat_word_ariths(2) unat_cycle unat_ucast_byte)
qed

section \<open>What is shown, in elapsed milliseconds\<close>

text \<open>The colour of a flash block \<open>e\<close> milliseconds into it.\<close>

definition flash_at :: "osdp_led_flash \<Rightarrow> nat \<Rightarrow> byte" where
  "flash_at f e =
     (let on = 100 * unat (lf_on_time_100ms f); period = on + 100 * unat (lf_off_time_100ms f)
      in if period = 0 \<or> e mod period < on then lf_on_color f else lf_off_color f)"

lemma flash_color_at: "flash_color f e = flash_at f (unat e)"
proof -
  let ?on = "(ucast (lf_on_time_100ms f) :: u32) * 100"
  let ?off = "(ucast (lf_off_time_100ms f) :: u32) * 100"
  have p: "unat (?on + ?off) = 100 * unat (lf_on_time_100ms f) + 100 * unat (lf_off_time_100ms f)"
    by (simp add: unat_cycle)
  have z: "?on + ?off = 0 \<longleftrightarrow> unat (?on + ?off) = 0"
    by (simp add: unat_eq_0)
  have m: "e mod (?on + ?off) < ?on \<longleftrightarrow> unat e mod unat (?on + ?off) < unat ?on"
    by (simp add: word_less_nat_alt unat_mod_distrib)
  show ?thesis
    unfolding flash_color_def flash_at_def Let_def z m p unat_time_100ms by auto
qed

text \<open>A time \<open>e\<close> milliseconds after \<open>start\<close>, as the counter shows it.\<close>

lemma elapsed_counter: "unat ((start + word_of_nat e) - start :: u32) = e mod 2 ^ 32"
  by (simp add: unsigned_of_nat take_bit_eq_mod)

lemma led_color_after_set:
  assumes "lr_temp_control_code rec = OSDP_LED_TEMP_SET"
  shows "osdp_led_color (osdp_led_apply led rec start) (start + word_of_nat e) =
    (if e mod 2 ^ 32 < 100 * unat (lr_temp_timer_100ms rec)
     then flash_at \<lparr>lf_on_color = lr_temp_on_color rec, lf_off_color = lr_temp_off_color rec,
                  lf_on_time_100ms = lr_temp_on_time rec, lf_off_time_100ms = lr_temp_off_time rec\<rparr>
            (e mod 2 ^ 32)
     else flash_color (le_permanent (osdp_led_apply led rec start)) (start + word_of_nat e))"
proof -
  let ?l = "osdp_led_apply led rec start"
  let ?d = "(ucast (lr_temp_timer_100ms rec) :: u32) * 100"
  have l: "le_temp_active ?l" "le_temp_started_ms ?l = start" "le_temp_duration_ms ?l = ?d"
    "le_temporary ?l = \<lparr>lf_on_color = lr_temp_on_color rec, lf_off_color = lr_temp_off_color rec,
                  lf_on_time_100ms = lr_temp_on_time rec, lf_off_time_100ms = lr_temp_off_time rec\<rparr>"
    using assms by (simp_all add: osdp_led_apply_def Let_def)
  have lt: "(start + word_of_nat e) - start < ?d \<longleftrightarrow> e mod 2 ^ 32 < 100 * unat (lr_temp_timer_100ms rec)"
    by (simp only: word_less_nat_alt elapsed_counter unat_timer_100ms)
  have "?d \<noteq> 0" if "(start + word_of_nat e) - start < ?d"
    using that by (metis word_zero_le leD)
  then show ?thesis
    using l(1) unfolding osdp_led_color_def Let_def l(2-) flash_color_at elapsed_counter lt by auto
qed

section \<open>Properties\<close>

text \<open>The temporary LED setting is timed correctly across the wrap of the millisecond counter: within
  the 49.7 days after a command that sets it, the LED shows the temporary pattern for exactly
  the commanded time, in phase with the command, and the permanent one afterwards, wherever the
  counter stood.\<close>

theorem led_temporary_timing:
  assumes "lr_temp_control_code rec = OSDP_LED_TEMP_SET" and "e < 2 ^ 32"
  shows "osdp_led_color (osdp_led_apply led rec start) (start + word_of_nat e) =
    (if e < 100 * unat (lr_temp_timer_100ms rec)
     then flash_at \<lparr>lf_on_color = lr_temp_on_color rec, lf_off_color = lr_temp_off_color rec,
                  lf_on_time_100ms = lr_temp_on_time rec, lf_off_time_100ms = lr_temp_off_time rec\<rparr> e
     else flash_color (le_permanent (osdp_led_apply led rec start)) (start + word_of_nat e))"
  using led_color_after_set [OF assms(1), of led start e] assms(2) by simp

theorem led_temporary_timing_witness:
  "osdp_led_color (osdp_led_apply osdp_led_init ex_led 0xFFFFFFF0) (0xFFFFFFF0 + word_of_nat 350) = 2"
proof -
  have "lr_temp_control_code ex_led = OSDP_LED_TEMP_SET"
    by (simp add: ex_led_def)
  from led_temporary_timing [OF this, of 350 osdp_led_init "0xFFFFFFF0"] show ?thesis
    by (simp add: ex_led_def flash_at_def)
qed

text \<open>The temporary setting is never disarmed when it expires, so it comes back: one revolution of
  the counter (49.7 days) after the command, an LED that has long returned to its permanent
  pattern shows the temporary one again, for the same duration.\<close>

theorem led_temporary_revives:
  assumes "lr_temp_control_code rec = OSDP_LED_TEMP_SET" and "k < 100 * unat (lr_temp_timer_100ms rec)"
  shows "osdp_led_color (osdp_led_apply led rec start) (start + word_of_nat (2 ^ 32 + k)) =
    flash_at \<lparr>lf_on_color = lr_temp_on_color rec, lf_off_color = lr_temp_off_color rec,
              lf_on_time_100ms = lr_temp_on_time rec, lf_off_time_100ms = lr_temp_off_time rec\<rparr> k"
proof -
  have "k < 2 ^ 32"
    using assms(2) unat_u16_le [of "lr_temp_timer_100ms rec"] by simp
  then have "(2 ^ 32 + k) mod 2 ^ 32 = k"
    by simp
  then show ?thesis
    using led_color_after_set [OF assms(1), of led start "2 ^ 32 + k"] assms(2) by presburger
qed

theorem led_temporary_revives_witness:
  "osdp_led_color (osdp_led_apply osdp_led_init ex_led 0) (0 + word_of_nat (2 ^ 32 + 350)) = 2"
proof -
  have "lr_temp_control_code ex_led = OSDP_LED_TEMP_SET" "350 < 100 * unat (lr_temp_timer_100ms ex_led)"
    by (simp_all add: ex_led_def)
  from led_temporary_revives [OF this, of osdp_led_init 0] show ?thesis
    by (simp add: ex_led_def flash_at_def)
qed

text \<open>A buzzer command sounds exactly its pattern: within one revolution of the counter after the
  command, the buzzer is on during the on-part of each cycle, for the commanded number of cycles
  or, with count 0, for ever; a command with tone 1 or without any duration is silent. No product
  or sum of the computation overflows.\<close>

theorem buzzer_pattern:
  fixes cmd :: osdp_buz_cmd
  assumes "e < 2 ^ 32"
  defines "on \<equiv> 100 * unat (bz_on_time_100ms cmd)"
    and "cycle \<equiv> 100 * (unat (bz_on_time_100ms cmd) + unat (bz_off_time_100ms cmd))"
  shows "osdp_buz_sounding (osdp_buz_apply buz cmd start) (start + word_of_nat e) \<longleftrightarrow>
    bz_tone_code cmd \<noteq> OSDP_BUZ_TONE_OFF \<and> cycle > 0 \<and>
    (bz_count cmd = 0 \<or> e < unat (bz_count cmd) * cycle) \<and> e mod cycle < on"
proof -
  let ?on = "(ucast (bz_on_time_100ms cmd) :: u32) * 100"
  let ?cy = "?on + ucast (bz_off_time_100ms cmd) * 100"
  let ?el = "(start + word_of_nat e) - start :: u32"
  have el: "unat ?el = e"
    using elapsed_counter [of start e] assms(1) by simp
  have cy: "unat ?cy = cycle" "?cy = 0 \<longleftrightarrow> cycle = 0"
    by (simp_all only: unat_cycle cycle_def flip: unat_eq_0)
  have on0: "\<not> (?on > 0)" if "cycle = 0"
    using that by (auto simp: cycle_def word_less_nat_alt unat_time_100ms)
  have cnt: "?el \<ge> ucast (bz_count cmd) * ?cy \<longleftrightarrow> unat (bz_count cmd) * cycle \<le> e"
    by (simp only: word_le_nat_alt el unat_buz_total cycle_def)
  have ph: "?el mod ?cy < ?on \<longleftrightarrow> e mod cycle < on"
    by (simp only: word_less_nat_alt unat_mod_distrib el cy(1) unat_time_100ms on_def)
  let ?b = "osdp_buz_apply buz cmd start"
  have b: "bu_active ?b \<longleftrightarrow> bz_tone_code cmd \<noteq> OSDP_BUZ_TONE_OFF" "bu_tone ?b = bz_tone_code cmd"
    "bu_on_time_100ms ?b = bz_on_time_100ms cmd" "bu_off_time_100ms ?b = bz_off_time_100ms cmd"
    "bu_count ?b = bz_count cmd" "bu_started_ms ?b = start"
    by (simp_all add: osdp_buz_apply_def)
  show ?thesis
    using on0 unfolding osdp_buz_sounding_def Let_def b cy(2) cnt ph by (auto simp: word_gt_0 not_le)
qed

theorem buzzer_pattern_witness:
  "osdp_buz_sounding (osdp_buz_apply osdp_buz_init
       \<lparr>bz_reader_no = 0, bz_tone_code = 2, bz_on_time_100ms = 2, bz_off_time_100ms = 1, bz_count = 3\<rparr> 0xFFFFFFFF)
     (0xFFFFFFFF + word_of_nat 450)"
  using buzzer_pattern [where e = 450 and cmd = "\<lparr>bz_reader_no = 0, bz_tone_code = 2,
      bz_on_time_100ms = 2, bz_off_time_100ms = 1, bz_count = 3\<rparr>" and buz = osdp_buz_init and start = "0xFFFFFFFF"]
  by simp

end
