(* ===== verification/SC_Crypto.thy ===== *)
theory SC_Crypto
  imports Frame
begin

unbundle bit_operations_syntax

text \<open>
  The Secure Channel primitives of \<^verbatim>\<open>core/src/sc\<close>: session key derivation and cryptograms
  (\<^verbatim>\<open>keys.c\<close>), CBC encryption (\<^verbatim>\<open>cbc.c\<close>), the two-key CBC-MAC (\<^verbatim>\<open>mac.c\<close>), the padded payload
  encryption (\<^verbatim>\<open>payload.c\<close>) and the session record (\<^verbatim>\<open>session.c\<close>).

  AES itself is not part of the library: the caller supplies it in the vtable
  \<open>osdp_sc_crypto\<close>, whose members may be NULL. The predicate \<open>crypto_ok\<close> states what
  \<^verbatim>\<open>osdp_sc_crypto.h\<close> documents of it: both directions are present, a block operation on a 16-byte
  key and a 16-byte block succeeds with 16 bytes, and decryption undoes encryption. A failing
  primitive leaves its output buffer alone; bytes already written to an output buffer by a routine
  that then fails are not part of its result.
\<close>

section \<open>The primitive and the session\<close>

abbreviation (input) OSDP_AES_BLOCK_LEN :: nat where "OSDP_AES_BLOCK_LEN \<equiv> 16"
abbreviation (input) OSDP_SC_KEY_LEN :: nat where "OSDP_SC_KEY_LEN \<equiv> 16"
abbreviation (input) OSDP_SC_RND_LEN :: nat where "OSDP_SC_RND_LEN \<equiv> 8"
abbreviation (input) OSDP_SC_CUID_LEN :: nat where "OSDP_SC_CUID_LEN \<equiv> 8"
abbreviation (input) OSDP_SC_CRYPTOGRAM_LEN :: nat where "OSDP_SC_CRYPTOGRAM_LEN \<equiv> 16"
abbreviation (input) OSDP_SC_MAC_LEN :: nat where "OSDP_SC_MAC_LEN \<equiv> 16"

type_synonym block_fn = "bytes \<Rightarrow> bytes \<Rightarrow> bytes result"

text \<open>The random source reads and advances a state of its own, the type parameter \<open>'w\<close>; it reports
  a status and the bytes it left in the buffer.\<close>

record 'w osdp_sc_crypto =
  aes128_ecb_encrypt :: "block_fn option"
  aes128_ecb_decrypt :: "block_fn option"
  rand_bytes :: "('w \<Rightarrow> nat \<Rightarrow> osdp_status \<times> bytes \<times> 'w) option"

record osdp_sc_session_keys =
  s_enc :: bytes
  s_mac1 :: bytes
  s_mac2 :: bytes

record osdp_sc_session =
  ss_keys :: osdp_sc_session_keys
  ss_last_outbound_mac :: bytes
  ss_last_inbound_mac :: bytes
  ss_established :: bool

definition osdp_sc_session_init :: osdp_sc_session where
  "osdp_sc_session_init =
     \<lparr>ss_keys = \<lparr>s_enc = replicate 16 0, s_mac1 = replicate 16 0, s_mac2 = replicate 16 0\<rparr>,
      ss_last_outbound_mac = replicate 16 0, ss_last_inbound_mac = replicate 16 0,
      ss_established = False\<rparr>"

section \<open>Keys and cryptograms\<close>

definition OSDP_SCBK_DEFAULT :: bytes where
  "OSDP_SCBK_DEFAULT =
     [0x30, 0x31, 0x32, 0x33, 0x34, 0x35, 0x36, 0x37,
      0x38, 0x39, 0x3A, 0x3B, 0x3C, 0x3D, 0x3E, 0x3F]"

definition build_derivation_input :: "byte \<Rightarrow> bytes \<Rightarrow> bytes" where
  "build_derivation_input selector rnd_a = [0x01, selector] @ take 6 rnd_a @ replicate 8 0"

text \<open>The key structure is written member by member, so a failure half way leaves a mixture: the
  result is the status and the structure as left behind.\<close>

definition osdp_sc_derive_session_keys ::
  "'w osdp_sc_crypto \<Rightarrow> bytes \<Rightarrow> bytes \<Rightarrow> osdp_sc_session_keys
     \<Rightarrow> osdp_status \<times> osdp_sc_session_keys" where
  "osdp_sc_derive_session_keys crypto scbk rnd_a out =
     (case aes128_ecb_encrypt crypto of
        None \<Rightarrow> (OSDP_ERR_INVALID_ARG, out)
      | Some enc \<Rightarrow>
         (case enc scbk (build_derivation_input 0x82 rnd_a) of
            Inl s \<Rightarrow> (s, out)
          | Inr e \<Rightarrow>
             (case enc scbk (build_derivation_input 0x01 rnd_a) of
                Inl s \<Rightarrow> (s, out\<lparr>s_enc := e\<rparr>)
              | Inr m1 \<Rightarrow>
                 (case enc scbk (build_derivation_input 0x02 rnd_a) of
                    Inl s \<Rightarrow> (s, out\<lparr>s_enc := e, s_mac1 := m1\<rparr>)
                  | Inr m2 \<Rightarrow> (OSDP_OK, out\<lparr>s_enc := e, s_mac1 := m1, s_mac2 := m2\<rparr>)))))"

definition cryptogram :: "'w osdp_sc_crypto \<Rightarrow> bytes \<Rightarrow> bytes \<Rightarrow> bytes \<Rightarrow> bytes result" where
  "cryptogram crypto senc a b =
     (case aes128_ecb_encrypt crypto of
        None \<Rightarrow> Inl OSDP_ERR_INVALID_ARG
      | Some enc \<Rightarrow> enc senc (take OSDP_SC_RND_LEN a @ take OSDP_SC_RND_LEN b))"

definition osdp_sc_client_cryptogram ::
  "'w osdp_sc_crypto \<Rightarrow> bytes \<Rightarrow> bytes \<Rightarrow> bytes \<Rightarrow> bytes result" where
  "osdp_sc_client_cryptogram crypto senc rnd_a rnd_b = cryptogram crypto senc rnd_a rnd_b"

definition osdp_sc_server_cryptogram ::
  "'w osdp_sc_crypto \<Rightarrow> bytes \<Rightarrow> bytes \<Rightarrow> bytes \<Rightarrow> bytes result" where
  "osdp_sc_server_cryptogram crypto senc rnd_a rnd_b = cryptogram crypto senc rnd_b rnd_a"

definition osdp_sc_initial_rmac ::
  "'w osdp_sc_crypto \<Rightarrow> bytes \<Rightarrow> bytes \<Rightarrow> bytes \<Rightarrow> bytes result" where
  "osdp_sc_initial_rmac crypto smac1 smac2 server_crypto =
     (case aes128_ecb_encrypt crypto of
        None \<Rightarrow> Inl OSDP_ERR_INVALID_ARG
      | Some enc \<Rightarrow>
         (case enc smac1 server_crypto of
            Inl s \<Rightarrow> Inl s
          | Inr intermediate \<Rightarrow> enc smac2 intermediate))"

section \<open>CBC\<close>

definition xor_block :: "bytes \<Rightarrow> bytes \<Rightarrow> bytes" where
  "xor_block a b = map (\<lambda>i. a ! i XOR b ! i) [0..<OSDP_AES_BLOCK_LEN]"

text \<open>The block loops, as recursion on the number of blocks left and the input not yet read.\<close>

fun cbc_encrypt_blocks :: "block_fn \<Rightarrow> bytes \<Rightarrow> bytes \<Rightarrow> nat \<Rightarrow> bytes \<Rightarrow> bytes result" where
  "cbc_encrypt_blocks enc key chain 0 plaintext = Inr []"
| "cbc_encrypt_blocks enc key chain (Suc blocks) plaintext =
     (case enc key (xor_block (take 16 plaintext) chain) of
        Inl s \<Rightarrow> Inl s
      | Inr c \<Rightarrow>
         (case cbc_encrypt_blocks enc key c blocks (drop 16 plaintext) of
            Inl s \<Rightarrow> Inl s
          | Inr rest \<Rightarrow> Inr (c @ rest)))"

definition osdp_sc_cbc_encrypt ::
  "'w osdp_sc_crypto \<Rightarrow> bytes \<Rightarrow> bytes \<Rightarrow> bytes_ptr \<Rightarrow> nat \<Rightarrow> bytes result" where
  "osdp_sc_cbc_encrypt crypto key iv plaintext len =
     (case (aes128_ecb_encrypt crypto, plaintext) of
        (Some enc, Some p) \<Rightarrow>
          if len = 0 \<or> len mod OSDP_AES_BLOCK_LEN \<noteq> 0 then Inl OSDP_ERR_INVALID_ARG
          else cbc_encrypt_blocks enc key iv (len div OSDP_AES_BLOCK_LEN) p
      | _ \<Rightarrow> Inl OSDP_ERR_INVALID_ARG)"

fun cbc_decrypt_blocks :: "block_fn \<Rightarrow> bytes \<Rightarrow> bytes \<Rightarrow> nat \<Rightarrow> bytes \<Rightarrow> bytes result" where
  "cbc_decrypt_blocks dec key prev 0 ciphertext = Inr []"
| "cbc_decrypt_blocks dec key prev (Suc blocks) ciphertext =
     (case dec key (take 16 ciphertext) of
        Inl s \<Rightarrow> Inl s
      | Inr d \<Rightarrow>
         (case cbc_decrypt_blocks dec key (take 16 ciphertext) blocks (drop 16 ciphertext) of
            Inl s \<Rightarrow> Inl s
          | Inr rest \<Rightarrow> Inr (xor_block d prev @ rest)))"

definition osdp_sc_cbc_decrypt ::
  "'w osdp_sc_crypto \<Rightarrow> bytes \<Rightarrow> bytes \<Rightarrow> bytes_ptr \<Rightarrow> nat \<Rightarrow> bytes result" where
  "osdp_sc_cbc_decrypt crypto key iv ciphertext len =
     (case ciphertext of
        None \<Rightarrow> Inl OSDP_ERR_INVALID_ARG
      | Some c \<Rightarrow>
         (case aes128_ecb_decrypt crypto of
            None \<Rightarrow> Inl OSDP_ERR_NOT_SUPPORTED
          | Some dec \<Rightarrow>
              if len = 0 \<or> len mod OSDP_AES_BLOCK_LEN \<noteq> 0 then Inl OSDP_ERR_INVALID_ARG
              else cbc_decrypt_blocks dec key iv (len div OSDP_AES_BLOCK_LEN) c))"

section \<open>The message authentication code\<close>

text \<open>Block \<open>b\<close> of the message, padded with \<open>0x80 0x00 ...\<close> where the message ends inside it.\<close>

definition mac_block :: "bytes \<Rightarrow> nat \<Rightarrow> nat \<Rightarrow> bytes" where
  "mac_block msg len b =
     (let block_off = b * OSDP_AES_BLOCK_LEN in
      if block_off + OSDP_AES_BLOCK_LEN \<le> len then take OSDP_AES_BLOCK_LEN (drop block_off msg)
      else
        let avail = len - block_off in
        take avail (drop block_off msg) @ [0x80] @ replicate (OSDP_AES_BLOCK_LEN - avail - 1) 0)"

function mac_loop ::
  "block_fn \<Rightarrow> bytes \<Rightarrow> bytes \<Rightarrow> bytes \<Rightarrow> nat \<Rightarrow> nat \<Rightarrow> bytes \<Rightarrow> nat \<Rightarrow> bytes result" where
  "mac_loop enc smac1 smac2 msg len total_blocks chain b =
     (if b < total_blocks then
        (case enc (if b = total_blocks - 1 then smac2 else smac1)
                  (xor_block (mac_block msg len b) chain) of
           Inl s \<Rightarrow> Inl s
         | Inr cipher \<Rightarrow> mac_loop enc smac1 smac2 msg len total_blocks cipher (b + 1))
      else Inr chain)"
  by pat_completeness auto
termination
  by (relation "measure (\<lambda>(_, _, _, _, _, total_blocks, _, b). total_blocks - b)") auto

declare mac_loop.simps [simp del]

definition mac_padded_len :: "nat \<Rightarrow> nat" where
  "mac_padded_len len =
     (let remainder = len mod OSDP_AES_BLOCK_LEN in
      if remainder = 0 \<and> len > 0 then len else len - remainder + OSDP_AES_BLOCK_LEN)"

definition osdp_sc_compute_mac ::
  "'w osdp_sc_crypto \<Rightarrow> bytes \<Rightarrow> bytes \<Rightarrow> bytes \<Rightarrow> bytes_ptr \<Rightarrow> nat \<Rightarrow> bytes result" where
  "osdp_sc_compute_mac crypto smac1 smac2 icv msg len =
     (case aes128_ecb_encrypt crypto of
        None \<Rightarrow> Inl OSDP_ERR_INVALID_ARG
      | Some enc \<Rightarrow>
          if len > 0 \<and> msg = None then Inl OSDP_ERR_INVALID_ARG
          else
            let padded_len = mac_padded_len len in
            if padded_len = 0 then
              enc smac2 (xor_block ([0x80] @ replicate 15 0) icv)
            else
              mac_loop enc smac1 smac2 (case msg of None \<Rightarrow> [] | Some m \<Rightarrow> m) len
                (padded_len div OSDP_AES_BLOCK_LEN) icv 0)"

section \<open>Payload encryption\<close>

definition invert_iv :: "bytes \<Rightarrow> bytes" where
  "invert_iv m = map (\<lambda>i. NOT (m ! i)) [0..<OSDP_AES_BLOCK_LEN]"

definition payload_pad :: "bytes \<Rightarrow> nat \<Rightarrow> nat \<Rightarrow> bytes" where
  "payload_pad plaintext plaintext_len padded_len =
     take plaintext_len plaintext @ [0x80] @ replicate (padded_len - plaintext_len - 1) 0"

definition osdp_sc_encrypt_payload ::
  "'w osdp_sc_crypto \<Rightarrow> bytes \<Rightarrow> bytes \<Rightarrow> bytes_ptr \<Rightarrow> nat \<Rightarrow> nat \<Rightarrow> bytes result" where
  "osdp_sc_encrypt_payload crypto senc last_inbound_mac plaintext plaintext_len ciphertext_cap =
     (if plaintext_len > 0 \<and> plaintext = None then Inl OSDP_ERR_INVALID_ARG
      else
        let padded_len = (plaintext_len div OSDP_AES_BLOCK_LEN + 1) * OSDP_AES_BLOCK_LEN in
        if padded_len > ciphertext_cap then Inl OSDP_ERR_BUFFER_TOO_SMALL
        else
          osdp_sc_cbc_encrypt crypto senc (invert_iv last_inbound_mac)
            (Some (payload_pad (if plaintext_len > 0 then the plaintext else []) plaintext_len
                     padded_len))
            padded_len)"

text \<open>The walk back over the padding; the answer is the position of the marker.\<close>

fun strip_loop :: "bytes \<Rightarrow> nat \<Rightarrow> nat result" where
  "strip_loop plaintext 0 = Inl OSDP_ERR_BAD_PAYLOAD"
| "strip_loop plaintext (Suc i) =
     (if plaintext ! i = 0x80 then Inr i
      else if plaintext ! i \<noteq> 0x00 then Inl OSDP_ERR_BAD_PAYLOAD
      else strip_loop plaintext i)"

definition osdp_sc_decrypt_payload ::
  "'w osdp_sc_crypto \<Rightarrow> bytes \<Rightarrow> bytes \<Rightarrow> bytes_ptr \<Rightarrow> nat \<Rightarrow> nat \<Rightarrow> bytes result" where
  "osdp_sc_decrypt_payload crypto senc last_outbound_mac ciphertext ciphertext_len plaintext_cap =
     (if ciphertext_len > 0 \<and> ciphertext = None then Inl OSDP_ERR_INVALID_ARG
      else if ciphertext_len = 0 \<or> ciphertext_len mod OSDP_AES_BLOCK_LEN \<noteq> 0
        then Inl OSDP_ERR_BAD_PAYLOAD
      else if ciphertext_len > plaintext_cap then Inl OSDP_ERR_BUFFER_TOO_SMALL
      else
        case osdp_sc_cbc_decrypt crypto senc (invert_iv last_outbound_mac) ciphertext
               ciphertext_len of
          Inl s \<Rightarrow> Inl s
        | Inr plaintext \<Rightarrow>
           (case strip_loop plaintext ciphertext_len of
              Inl s \<Rightarrow> Inl s
            | Inr i \<Rightarrow> Inr (take i plaintext)))"

section \<open>The contract of the primitive\<close>

definition block_cipher_ok :: "block_fn \<Rightarrow> block_fn \<Rightarrow> bool" where
  "block_cipher_ok enc dec \<longleftrightarrow>
     (\<forall>k b. length k = 16 \<longrightarrow> length b = 16 \<longrightarrow>
        (\<exists>c. enc k b = Inr c \<and> length c = 16 \<and> dec k c = Inr b))"

definition crypto_ok :: "'w osdp_sc_crypto \<Rightarrow> bool" where
  "crypto_ok crypto \<longleftrightarrow>
     (\<exists>enc dec. aes128_ecb_encrypt crypto = Some enc \<and> aes128_ecb_decrypt crypto = Some dec \<and>
        block_cipher_ok enc dec)"

definition keys_ok :: "osdp_sc_session_keys \<Rightarrow> bool" where
  "keys_ok k \<longleftrightarrow> length (s_enc k) = 16 \<and> length (s_mac1 k) = 16 \<and> length (s_mac2 k) = 16"

text \<open>The value the encryption primitive produces where it succeeds.\<close>

definition aes :: "'w osdp_sc_crypto \<Rightarrow> bytes \<Rightarrow> bytes \<Rightarrow> bytes" where
  "aes crypto k b =
     (case aes128_ecb_encrypt crypto of
        None \<Rightarrow> []
      | Some enc \<Rightarrow> (case enc k b of Inl _ \<Rightarrow> [] | Inr c \<Rightarrow> c))"

lemma block_cipher_okD:
  assumes "block_cipher_ok enc dec" "length k = 16" "length b = 16"
  obtains c where "enc k b = Inr c" "length c = 16" "dec k c = Inr b"
  using assms by (auto simp: block_cipher_ok_def)

lemma aes_eq:
  assumes "block_cipher_ok enc dec" "aes128_ecb_encrypt crypto = Some enc"
    "length k = 16" "length b = 16"
  shows "enc k b = Inr (aes crypto k b)" "length (aes crypto k b) = 16"
    "dec k (aes crypto k b) = Inr b"
proof -
  obtain c where "enc k b = Inr c" "length c = 16" "dec k c = Inr b"
    using block_cipher_okD [OF assms(1,3,4)] .
  then show "enc k b = Inr (aes crypto k b)" "length (aes crypto k b) = 16"
    "dec k (aes crypto k b) = Inr b"
    by (simp_all add: aes_def assms(2))
qed

lemma aes_inj:
  assumes "crypto_ok crypto" "length k = 16" "length b = 16" "length b' = 16"
    "aes crypto k b = aes crypto k b'"
  shows "b = b'"
proof -
  obtain enc dec where e: "aes128_ecb_encrypt crypto = Some enc" "block_cipher_ok enc dec"
    using assms(1) by (auto simp: crypto_ok_def)
  have "dec k (aes crypto k b) = Inr b" "dec k (aes crypto k b') = Inr b'"
    by (rule aes_eq(3) [OF e(2,1)]; fact assms)+
  then have "Inr b = (Inr b' :: bytes result)"
    unfolding assms(5) by (rule trans [OF sym])
  then show ?thesis by simp
qed

section \<open>CBC is inverted by CBC\<close>

lemma length_xor_block [simp]: "length (xor_block a b) = 16"
  by (simp add: xor_block_def)

lemma xor_block_nth: "i < 16 \<Longrightarrow> xor_block a b ! i = a ! i XOR b ! i"
  by (simp add: xor_block_def)

lemma xor_block_cancel:
  assumes "length a = 16"
  shows "xor_block (xor_block a b) b = a"
  using assms by (intro nth_equalityI) (simp_all add: xor_block_nth xor.assoc)

lemma xor_block_inj:
  assumes "length a = 16" "length a' = 16" "xor_block a b = xor_block a' b"
  shows "a = a'"
  by (metis assms xor_block_cancel)

lemma length_invert_iv [simp]: "length (invert_iv m) = 16"
  by (simp add: invert_iv_def)

lemma cbc_blocks_roundtrip:
  assumes "block_cipher_ok enc dec" "length key = 16"
  shows "length plaintext = 16 * n \<Longrightarrow> length chain = 16 \<Longrightarrow>
    \<exists>c. cbc_encrypt_blocks enc key chain n plaintext = Inr c \<and> length c = 16 * n \<and>
        cbc_decrypt_blocks dec key chain n c = Inr plaintext"
proof (induction n arbitrary: chain plaintext)
  case (Suc n)
  obtain c where c: "enc key (xor_block (take 16 plaintext) chain) = Inr c" "length c = 16"
      "dec key c = Inr (xor_block (take 16 plaintext) chain)"
    using block_cipher_okD [OF assms length_xor_block] by metis
  obtain r where r: "cbc_encrypt_blocks enc key c n (drop 16 plaintext) = Inr r" "length r = 16 * n"
      "cbc_decrypt_blocks dec key c n r = Inr (drop 16 plaintext)"
    using Suc.IH [of "drop 16 plaintext" c] Suc.prems(1) c(2) by auto
  have "xor_block (xor_block (take 16 plaintext) chain) chain = take 16 plaintext"
    using Suc.prems(1) by (intro xor_block_cancel) simp
  then show ?case
    using c r by simp
qed simp

lemma cbc_roundtrip:
  assumes "crypto_ok crypto" "length key = 16" "length iv = 16"
    "length p = len" "len > 0" "len mod 16 = 0"
  obtains c where "osdp_sc_cbc_encrypt crypto key iv (Some p) len = Inr c" "length c = len"
    "osdp_sc_cbc_decrypt crypto key iv (Some c) len = Inr p"
proof -
  obtain enc dec where e: "aes128_ecb_encrypt crypto = Some enc" "aes128_ecb_decrypt crypto = Some dec"
      "block_cipher_ok enc dec"
    using assms(1) by (auto simp: crypto_ok_def)
  have "len = 16 * (len div 16)"
    using assms(6) by auto
  with cbc_blocks_roundtrip [OF e(3) assms(2), of p "len div 16" iv] assms(3,4)
  obtain c where "cbc_encrypt_blocks enc key iv (len div 16) p = Inr c" "length c = len"
      "cbc_decrypt_blocks dec key iv (len div 16) c = Inr p"
    by auto
  with e assms(5,6) show ?thesis
    by (intro that [of c]) (simp_all add: osdp_sc_cbc_encrypt_def osdp_sc_cbc_decrypt_def)
qed

section \<open>Payload encryption is inverted by payload decryption\<close>

lemma strip_loop_zeros:
  "strip_loop (xs @ 0x80 # replicate k 0) (length xs + 1 + k) = Inr (length xs)"
proof -
  have "strip_loop (xs @ 0x80 # replicate k 0) (length xs + 1 + j) = Inr (length xs)" if "j \<le> k" for j
    using that by (induction j) (auto simp: nth_append nth_Cons')
  from this [OF order_refl] show ?thesis .
qed

lemma payload_pad_length:
  "n \<le> length p \<Longrightarrow> n < m \<Longrightarrow> length (payload_pad p n m) = m"
  by (simp add: payload_pad_def)

lemma strip_payload_pad:
  assumes "n \<le> length p" "n < m"
  shows "strip_loop (payload_pad p n m) m = Inr n" and "take n (payload_pad p n m) = take n p"
proof -
  have "m = length (take n p) + 1 + (m - n - 1)"
    using assms by simp
  then show "strip_loop (payload_pad p n m) m = Inr n"
    using strip_loop_zeros [of "take n p" "m - n - 1"] assms by (simp add: payload_pad_def)
qed (use assms in \<open>simp add: payload_pad_def\<close>)

definition padded_len :: "nat \<Rightarrow> nat" where
  "padded_len n = (n div 16 + 1) * 16"

lemma padded_len_bounds: "n < padded_len n" "padded_len n \<le> n + 16" "padded_len n mod 16 = 0"
  unfolding padded_len_def by auto

lemma encrypt_payload_unfold:
  "osdp_sc_encrypt_payload crypto senc mac p n cap =
     (if n > 0 \<and> p = None then Inl OSDP_ERR_INVALID_ARG
      else if padded_len n > cap then Inl OSDP_ERR_BUFFER_TOO_SMALL
      else osdp_sc_cbc_encrypt crypto senc (invert_iv mac)
             (Some (payload_pad (if n > 0 then the p else []) n (padded_len n))) (padded_len n))"
  by (simp only: osdp_sc_encrypt_payload_def padded_len_def Let_def)

lemma encrypt_payload_roundtrip:
  assumes "crypto_ok crypto" "length senc = 16" "ptr_holds p n" "n > 0 \<Longrightarrow> p \<noteq> None"
    and "padded_len n \<le> cap"
  obtains c where "osdp_sc_encrypt_payload crypto senc mac p n cap = Inr c"
    "length c = padded_len n"
    "\<And>pcap. padded_len n \<le> pcap \<Longrightarrow>
       osdp_sc_decrypt_payload crypto senc mac (Some c) (padded_len n) pcap = Inr (ptr_bytes p n)"
proof -
  let ?p = "if n > 0 then the p else []"
  have n: "n \<le> length ?p"
    using assms(3,4) by (auto simp: ptr_holds_def)
  note pad = payload_pad_length [OF n padded_len_bounds(1)] strip_payload_pad [OF n padded_len_bounds(1)]
  have pos: "padded_len n > 0"
    using padded_len_bounds(1) [of n] by linarith
  obtain c where c: "osdp_sc_cbc_encrypt crypto senc (invert_iv mac) (Some (payload_pad ?p n (padded_len n)))
        (padded_len n) = Inr c" "length c = padded_len n"
      "osdp_sc_cbc_decrypt crypto senc (invert_iv mac) (Some c) (padded_len n)
         = Inr (payload_pad ?p n (padded_len n))"
    using cbc_roundtrip [OF assms(1,2) length_invert_iv pad(1) pos padded_len_bounds(3)] by metis
  have "take n ?p = ptr_bytes p n"
    by (simp add: ptr_bytes_def)
  with c pad(2,3) pos padded_len_bounds(3) [of n] assms(4,5) show ?thesis
    by (intro that [of c])
      (auto simp: encrypt_payload_unfold osdp_sc_decrypt_payload_def)
qed

section \<open>The MAC against its specification\<close>

text \<open>The specification: pad the message to whole blocks unless it already is a non-empty number of
  them, cut it into blocks, and chain them, the last one under the second key.\<close>

definition mac_pad :: "bytes \<Rightarrow> bytes" where
  "mac_pad msg =
     (if msg \<noteq> [] \<and> 16 dvd length msg then msg
      else msg @ 0x80 # replicate (15 - length msg mod 16) 0)"

definition blocks_of :: "bytes \<Rightarrow> bytes list" where
  "blocks_of bs = map (\<lambda>b. take 16 (drop (b * 16) bs)) [0..<length bs div 16]"

fun cbc_mac :: "(bytes \<Rightarrow> bytes \<Rightarrow> bytes) \<Rightarrow> bytes \<Rightarrow> bytes \<Rightarrow> bytes \<Rightarrow> bytes list \<Rightarrow> bytes" where
  "cbc_mac E k1 k2 chain [] = chain"
| "cbc_mac E k1 k2 chain [b] = E k2 (xor_block b chain)"
| "cbc_mac E k1 k2 chain (b # b' # bs) = cbc_mac E k1 k2 (E k1 (xor_block b chain)) (b' # bs)"

lemma mac_padded_len_eq:
  "mac_padded_len n = (if 16 dvd n \<and> 0 < n then n else (n div 16 + 1) * 16)"
  unfolding mac_padded_len_def Let_def minus_mod_eq_mult_div by (auto simp: dvd_eq_mod_eq_0)

lemma mac_padded_len_ge: "16 \<le> mac_padded_len n"
  by (auto simp: mac_padded_len_eq elim!: dvdE)

lemma length_mac_pad: "length (mac_pad msg) = mac_padded_len (length msg)"
proof (cases "msg \<noteq> [] \<and> 16 dvd length msg")
  case False
  have "n + (1 + (15 - r)) = (q + 1) * 16" if "n = q * 16 + r" "r < 16" for n q r :: nat
    using that by simp
  note this [OF div_mult_mod_eq [of "length msg" 16, symmetric]]
  then have "length msg + (1 + (15 - length msg mod 16)) = (length msg div 16 + 1) * 16"
    by (simp only: mod_less_divisor zero_less_numeral)
  with False show ?thesis
    by (auto simp: mac_pad_def mac_padded_len_eq)
qed (auto simp: mac_pad_def mac_padded_len_eq)

lemma mac_block_pad:
  assumes "b < mac_padded_len (length msg) div 16"
  shows "mac_block msg (length msg) b = take 16 (drop (b * 16) (mac_pad msg))"
proof (cases "b * 16 + 16 \<le> length msg")
  case True
  then show ?thesis
    by (simp add: mac_block_def Let_def mac_pad_def)
next
  case False
  have "\<not> (16 dvd length msg \<and> 0 < length msg)"
  proof
    assume d: "16 dvd length msg \<and> 0 < length msg"
    then have "mac_padded_len (length msg) = length msg" "length msg = length msg div 16 * 16"
      by (simp_all add: mac_padded_len_eq)
    with assms False show False by linarith
  qed
  then have np: "\<not> (msg \<noteq> [] \<and> 16 dvd length msg)"
    and "mac_padded_len (length msg) div 16 = length msg div 16 + 1"
    by (auto simp: mac_padded_len_eq simp del: length_greater_0_conv)
  with assms have "b \<le> length msg div 16" by simp
  with False have b: "b = length msg div 16"
    using div_mult_mod_eq [of "length msg" 16] by linarith
  then have "length msg - b * 16 = length msg mod 16"
    by (simp add: minus_div_mult_eq_mod)
  with np False show ?thesis
    by (simp add: mac_block_def Let_def mac_pad_def b)
qed

lemma mac_loop_cbc_mac:
  assumes "block_cipher_ok enc dec" "aes128_ecb_encrypt crypto = Some enc"
    "length k1 = 16" "length k2 = 16"
  shows "b < t \<Longrightarrow> mac_loop enc k1 k2 msg len t chain b
           = Inr (cbc_mac (aes crypto) k1 k2 chain (map (mac_block msg len) [b..<t]))"
proof (induction "t - b" arbitrary: b chain)
  case (Suc n)
  note a = aes_eq [OF assms(1,2) _ length_xor_block]
  show ?case
  proof (cases "b + 1 < t")
    case True
    then have "[b..<t] = b # (b + 1) # [b + 2..<t]" "[b + 1..<t] = (b + 1) # [b + 2..<t]"
      by (simp_all add: upt_conv_Cons)
    with Suc.hyps(1) [of "b + 1"] Suc.hyps(2) True a(1) [OF assms(3)] show ?thesis
      by (subst mac_loop.simps) auto
  next
    case False
    with Suc.prems have "t = Suc b" by simp
    with a(1) [OF assms(4)] show ?thesis
      by (subst mac_loop.simps, simp, subst mac_loop.simps, simp)
  qed
qed simp

lemma compute_mac_eq:
  assumes "crypto_ok crypto" "length k1 = 16" "length k2 = 16"
  shows "osdp_sc_compute_mac crypto k1 k2 icv (Some msg) (length msg)
           = Inr (cbc_mac (aes crypto) k1 k2 icv (blocks_of (mac_pad msg)))"
proof -
  obtain enc dec where e: "aes128_ecb_encrypt crypto = Some enc" "block_cipher_ok enc dec"
    using assms(1) by (auto simp: crypto_ok_def)
  let ?t = "mac_padded_len (length msg) div 16"
  have "0 < ?t" "0 < mac_padded_len (length msg)"
    using mac_padded_len_ge [of "length msg"] by (simp_all add: div_greater_zero_iff)
  moreover have "map (mac_block msg (length msg)) [0..<?t] = blocks_of (mac_pad msg)"
    by (simp add: blocks_of_def length_mac_pad mac_block_pad)
  ultimately show ?thesis
    using mac_loop_cbc_mac [OF e(2,1) assms(2,3), of 0 ?t msg "length msg" icv] e(1)
    by (simp add: osdp_sc_compute_mac_def Let_def)
qed

lemma aes_length:
  assumes "crypto_ok crypto" "length k = 16"
  shows "length (aes crypto k (xor_block a b)) = 16"
  using assms aes_eq(2) [OF _ _ assms(2) length_xor_block] by (auto simp: crypto_ok_def)

lemma cbc_mac_length:
  assumes "crypto_ok crypto" "length k1 = 16" "length k2 = 16"
  shows "length chain = 16 \<Longrightarrow> length (cbc_mac (aes crypto) k1 k2 chain bs) = 16"
  using assms(2,3) by (induction "aes crypto" k1 k2 chain bs rule: cbc_mac.induct)
    (simp_all add: aes_length [OF assms(1)])

text \<open>Different chaining values, and so different blocks, never meet again further down.\<close>

lemma xor_block_inj2:
  assumes "length a = 16" "length a' = 16" "xor_block b a = xor_block b a'"
  shows "a = a'"
proof (rule nth_equalityI)
  fix i assume "i < length a"
  with assms(1) have "i < 16" by simp
  then show "a ! i = a' ! i"
    using arg_cong [OF assms(3), of "\<lambda>x. x ! i"] by (simp add: xor_block_nth)
qed (simp add: assms)

lemma cbc_mac_chain_inj:
  assumes ok: "crypto_ok crypto" "length k1 = 16" "length k2 = 16"
  shows "length c = 16 \<Longrightarrow> length c' = 16 \<Longrightarrow>
    cbc_mac (aes crypto) k1 k2 c bs = cbc_mac (aes crypto) k1 k2 c' bs \<Longrightarrow> c = c'"
proof (induction bs arbitrary: c c')
  case (Cons b bs)
  note i = aes_inj [OF ok(1) _ length_xor_block length_xor_block]
    and IH = Cons.IH and prems = Cons.prems
  show ?case
  proof (cases bs)
    case Nil
    with prems(3) have "xor_block b c = xor_block b c'"
      by (intro i [OF ok(3)]) simp
    with prems(1,2) show ?thesis by (rule xor_block_inj2)
  next
    case (Cons b' bs')
    with prems(3) have "cbc_mac (aes crypto) k1 k2 (aes crypto k1 (xor_block b c)) bs
        = cbc_mac (aes crypto) k1 k2 (aes crypto k1 (xor_block b c')) bs"
      by simp
    then have "aes crypto k1 (xor_block b c) = aes crypto k1 (xor_block b c')"
      by (rule IH [OF aes_length [OF ok(1,2)] aes_length [OF ok(1,2)]])
    then have "xor_block b c = xor_block b c'"
      by (rule i [OF ok(2)])
    with prems(1,2) show ?thesis by (rule xor_block_inj2)
  qed
qed simp

lemma cbc_mac_append:
  "ys \<noteq> [] \<Longrightarrow> cbc_mac E k1 k2 c (xs @ ys) = cbc_mac E k1 k2 (foldl (\<lambda>c b. E k1 (xor_block b c)) c xs) ys"
proof (induction xs arbitrary: c)
  case (Cons x xs)
  then show ?case by (cases "xs @ ys") auto
qed simp

lemma cbc_mac_detects:
  assumes ok: "crypto_ok crypto" "length k1 = 16" "length k2 = 16"
    and "length b = 16" "length b' = 16" "b \<noteq> b'"
  shows "cbc_mac (aes crypto) k1 k2 c (xs @ b # ys) \<noteq> cbc_mac (aes crypto) k1 k2 c (xs @ b' # ys)"
proof
  let ?c = "foldl (\<lambda>c b. aes crypto k1 (xor_block b c)) c xs"
  note i = aes_inj [OF ok(1) _ length_xor_block length_xor_block]
  assume "cbc_mac (aes crypto) k1 k2 c (xs @ b # ys) = cbc_mac (aes crypto) k1 k2 c (xs @ b' # ys)"
  then have *: "cbc_mac (aes crypto) k1 k2 ?c (b # ys) = cbc_mac (aes crypto) k1 k2 ?c (b' # ys)"
    by (simp add: cbc_mac_append)
  have "xor_block b ?c = xor_block b' ?c"
  proof (cases ys)
    case Nil
    with * show ?thesis by (intro i [OF ok(3)]) simp
  next
    case (Cons y ys')
    with * have "cbc_mac (aes crypto) k1 k2 (aes crypto k1 (xor_block b ?c)) ys
        = cbc_mac (aes crypto) k1 k2 (aes crypto k1 (xor_block b' ?c)) ys"
      by simp
    then have "aes crypto k1 (xor_block b ?c) = aes crypto k1 (xor_block b' ?c)"
      by (rule cbc_mac_chain_inj [OF ok aes_length [OF ok(1,2)] aes_length [OF ok(1,2)]])
    then show ?thesis by (rule i [OF ok(2)])
  qed
  with assms(4-6) show False
    using xor_block_inj by blast
qed

lemma blocks_of_append:
  assumes "16 dvd length xs"
  shows "blocks_of (xs @ ys) = blocks_of xs @ blocks_of ys"
proof -
  obtain k where k: "length xs = 16 * k"
    using assms by (rule dvdE)
  let ?f = "\<lambda>zs b. take 16 (drop (b * 16) zs)"
  have low: "?f (xs @ ys) b = ?f xs b" if "b < k" for b
  proof -
    from that have "b * 16 + 16 \<le> length xs" by (simp add: k)
    then show ?thesis by simp
  qed
  have high: "?f (xs @ ys) (k + b) = ?f ys b" for b
    by (simp add: k distrib_right)
  have "length (xs @ ys) div 16 = k + length ys div 16"
    by (simp add: k)
  moreover have "[0..<k + n] = [0..<k] @ map (\<lambda>b. k + b) [0..<n]" for n
    by (induction n) simp_all
  ultimately have "blocks_of (xs @ ys) = map (?f (xs @ ys)) ([0..<k] @ map (\<lambda>b. k + b) [0..<length ys div 16])"
    by (simp only: blocks_of_def)
  also have "\<dots> = map (?f xs) [0..<k] @ map (?f ys) [0..<length ys div 16]"
    unfolding map_append map_map comp_def high
    by (intro arg_cong2 [of _ _ _ _ append] map_cong refl low) simp
  finally show ?thesis
    by (simp add: blocks_of_def k)
qed

lemma blocks_of_Nil [simp]: "blocks_of [] = []"
  by (simp add: blocks_of_def)

lemma blocks_of_block: "length x = 16 \<Longrightarrow> blocks_of x = [x]"
  by (simp add: blocks_of_def)

lemma mac_pad_append:
  assumes "16 dvd length xs" "xs \<noteq> []"
  shows "mac_pad (xs @ ys) = xs @ (if ys = [] then [] else mac_pad ys)"
proof -
  have "16 dvd length xs + length ys \<longleftrightarrow> 16 dvd length ys"
    using assms(1) by (rule dvd_add_right_iff)
  moreover have "(length xs + length ys) mod 16 = length ys mod 16"
    using assms(1) by (metis mod_add_left_eq dvd_eq_mod_eq_0 add_0)
  ultimately show ?thesis
    using assms by (simp add: mac_pad_def)
qed

section \<open>Properties\<close>

text \<open>A cipher for the witnesses: exclusive-or with the key is its own inverse.\<close>

definition ex_crypto :: "unit osdp_sc_crypto" where
  "ex_crypto = \<lparr>aes128_ecb_encrypt = Some (\<lambda>k b. Inr (xor_block b k)),
     aes128_ecb_decrypt = Some (\<lambda>k b. Inr (xor_block b k)),
     rand_bytes = Some (\<lambda>u n. (OSDP_OK, replicate n 7, u))\<rparr>"

definition ex_key :: bytes where
  "ex_key = [1, 2, 3, 4, 5, 6, 7, 8, 9, 10, 11, 12, 13, 14, 15, 16]"

lemma ex_crypto_ok: "crypto_ok ex_crypto"
  by (auto simp: crypto_ok_def ex_crypto_def block_cipher_ok_def xor_block_cancel)

lemma ex_key_length: "length ex_key = 16"
  by (simp add: ex_key_def)

text \<open>Payload encryption is undone by payload decryption: for every payload and every chaining
  MAC, encryption succeeds whenever the padded length fits the output, yields the smallest whole
  number of blocks longer than the payload, and decryption under the same key and MAC returns
  exactly the payload, its padding removed.\<close>

theorem payload_encryption_roundtrip:
  assumes "crypto_ok crypto" and "length senc = OSDP_SC_KEY_LEN"
    and "(length p div 16 + 1) * 16 \<le> cap"
  shows "\<exists>c. osdp_sc_encrypt_payload crypto senc mac (ptr_of p) (length p) cap = Inr c \<and>
      length c = (length p div 16 + 1) * 16 \<and>
      osdp_sc_decrypt_payload crypto senc mac (Some c) (length c) cap = Inr p"
proof -
  have "ptr_holds (ptr_of p) (length p)" "0 < length p \<Longrightarrow> ptr_of p \<noteq> None"
    by (auto simp: ptr_holds_def ptr_of_def)
  then obtain c where "osdp_sc_encrypt_payload crypto senc mac (ptr_of p) (length p) cap = Inr c"
    "length c = padded_len (length p)"
    "osdp_sc_decrypt_payload crypto senc mac (Some c) (padded_len (length p)) cap = Inr p"
    using encrypt_payload_roundtrip [OF assms(1,2)] assms(3) by (metis padded_len_def ptr_bytes_ptr_of)
  then show ?thesis
    by (auto simp: padded_len_def)
qed

theorem payload_encryption_roundtrip_witness:
  "\<exists>c. osdp_sc_encrypt_payload ex_crypto ex_key ex_key (ptr_of [0x80, 0]) (length [0x80 :: byte, 0]) 16 = Inr c \<and>
      length c = (length [0x80 :: byte, 0] div 16 + 1) * 16 \<and>
      osdp_sc_decrypt_payload ex_crypto ex_key ex_key (Some c) (length c) 16 = Inr [0x80, 0]"
  by (rule payload_encryption_roundtrip [OF ex_crypto_ok ex_key_length]) simp

text \<open>C21. \<open>osdp_sc_compute_mac\<close> is the two-key CBC-MAC of its specification: the message, padded
  unless it already fills its blocks, chained from the ICV under S-MAC1 with the last block under
  S-MAC2. The result is a full 16-byte MAC.\<close>

theorem compute_mac_is_cbc_mac:
  assumes "crypto_ok crypto" and "length k1 = OSDP_SC_KEY_LEN" and "length k2 = OSDP_SC_KEY_LEN"
    and "length icv = OSDP_SC_MAC_LEN"
  shows "\<exists>m. osdp_sc_compute_mac crypto k1 k2 icv (Some msg) (length msg) = Inr m \<and>
      m = cbc_mac (aes crypto) k1 k2 icv (blocks_of (mac_pad msg)) \<and> length m = OSDP_SC_MAC_LEN"
  using compute_mac_eq [OF assms(1-3)] cbc_mac_length [OF assms] by blast

theorem compute_mac_is_cbc_mac_witness:
  "\<exists>m. osdp_sc_compute_mac ex_crypto ex_key ex_key ex_key (Some [1, 2, 3]) (length [1 :: byte, 2, 3]) = Inr m \<and>
      m = cbc_mac (aes ex_crypto) ex_key ex_key ex_key (blocks_of (mac_pad [1, 2, 3])) \<and>
      length m = OSDP_SC_MAC_LEN"
  by (rule compute_mac_is_cbc_mac [OF ex_crypto_ok ex_key_length ex_key_length ex_key_length])

text \<open>A change confined to one whole block of the message always changes the full MAC: no two
  messages that differ in exactly one 16-byte block have the same one.\<close>

theorem mac_detects_block_change:
  assumes "crypto_ok crypto" and "length k1 = OSDP_SC_KEY_LEN" and "length k2 = OSDP_SC_KEY_LEN"
    and "16 dvd length pre" and "length x = 16" and "length y = 16" and "x \<noteq> y"
  shows "osdp_sc_compute_mac crypto k1 k2 icv (Some (pre @ x @ post)) (length (pre @ x @ post))
    \<noteq> osdp_sc_compute_mac crypto k1 k2 icv (Some (pre @ y @ post)) (length (pre @ y @ post))"
proof -
  have "blocks_of (mac_pad (pre @ z @ post))
      = blocks_of pre @ z # blocks_of (if post = [] then [] else mac_pad post)" if "length z = 16" for z
  proof -
    have "pre @ z \<noteq> []" using that by auto
    with mac_pad_append [of "pre @ z" post] that assms(4) show ?thesis
      by (simp add: blocks_of_append blocks_of_block)
  qed
  then show ?thesis
    using cbc_mac_detects [OF assms(1-3,5-7)] assms(5,6)
    by (simp only: compute_mac_eq [OF assms(1-3)] sum.inject not_False_eq_True)
qed

theorem mac_detects_block_change_witness:
  "osdp_sc_compute_mac ex_crypto ex_key ex_key ex_key (Some ([] @ ex_key @ [1])) (length ([] @ ex_key @ [1]))
   \<noteq> osdp_sc_compute_mac ex_crypto ex_key ex_key ex_key (Some ([] @ replicate 16 0 @ [1]))
       (length ([] @ replicate 16 0 @ [1 :: byte]))"
  by (rule mac_detects_block_change [OF ex_crypto_ok ex_key_length ex_key_length])
    (simp_all add: ex_key_def numeral_eq_Suc)

end
