(* ===== verification/SC_Wrap.thy ===== *)
theory SC_Wrap
  imports SC_Crypto
begin

unbundle bit_operations_syntax

text \<open>
  Secure Channel framing: \<^verbatim>\<open>core/src/sc/wrap.c\<close>. \<open>osdp_sc_wrap_frame\<close> encrypts, builds, MACs and
  re-checks an outbound SCS_15..18 frame; \<open>osdp_sc_unwrap_frame\<close> verifies and decrypts an inbound
  one. Both thread the session's two rolling MACs. The session is part of the result only where the
  operation succeeds: the code stores into it last, so a failing call leaves it alone.

  The lemmas show that two sessions in step stay in step: what one side wraps, the other side
  decodes, authenticates and decrypts to the same payload, and the roles of the two chains then
  swap. The locale \<open>secure_link\<close> states this contract and derives that whole conversations are
  delivered.
\<close>

section \<open>Model\<close>

definition osdp_sc_max_payload :: "osdp_frame \<Rightarrow> nat \<Rightarrow> nat result" where
  "osdp_sc_max_payload shape buf_cap =
     (case osdp_frame_max_payload shape buf_cap of
        Inl s \<Rightarrow> Inl s
      | Inr framed \<Rightarrow>
          if \<not> fr_has_scb shape \<or> \<not> osdp_scb_is_encrypted (fr_scb_type shape) then Inr framed
          else
            let whole_blocks = framed div OSDP_AES_BLOCK_LEN in
            Inr (if whole_blocks = 0 then 0 else whole_blocks * OSDP_AES_BLOCK_LEN - 1))"

text \<open>The SCB type follows the presence of a payload.\<close>

definition wrap_scb_type :: "byte \<Rightarrow> nat \<Rightarrow> byte" where
  "wrap_scb_type scb_type payload_len =
     (if payload_len = 0 then
        if scb_type = OSDP_SCS_17 then OSDP_SCS_15
        else if scb_type = OSDP_SCS_18 then OSDP_SCS_16
        else scb_type
      else
        if scb_type = OSDP_SCS_15 then OSDP_SCS_17
        else if scb_type = OSDP_SCS_16 then OSDP_SCS_18
        else scb_type)"

text \<open>The working copy of the template: placeholder MAC, coerced type, and the payload encrypted at
  its final position in the output buffer where the type calls for it.\<close>

definition wrap_template ::
  "'w osdp_sc_crypto \<Rightarrow> osdp_sc_session \<Rightarrow> osdp_frame \<Rightarrow> nat \<Rightarrow> osdp_frame result" where
  "wrap_template crypto session plain_template out_cap =
     (let built = plain_template
            \<lparr>fr_mac := Some (replicate OSDP_FRAME_MAC_LEN 0), fr_mac_len := OSDP_FRAME_MAC_LEN,
             fr_scb_type := wrap_scb_type (fr_scb_type plain_template) (fr_payload_len plain_template)\<rparr>
      in
      if osdp_scb_is_encrypted (fr_scb_type built) then
        case osdp_frame_payload_offset built of
          Inl s \<Rightarrow> Inl s
        | Inr payload_off \<Rightarrow>
            if payload_off \<ge> out_cap then Inl OSDP_ERR_BUFFER_TOO_SMALL
            else
              (case osdp_sc_encrypt_payload crypto (s_enc (ss_keys session))
                      (ss_last_inbound_mac session) (fr_payload plain_template)
                      (fr_payload_len plain_template) (out_cap - payload_off) of
                 Inl s \<Rightarrow> Inl s
               | Inr enc \<Rightarrow> Inr (built\<lparr>fr_payload := Some enc, fr_payload_len := length enc\<rparr>))
      else Inr built)"

text \<open>MAC and check characters patched into the frame behind the marking byte.\<close>

definition patch_mac :: "osdp_integrity \<Rightarrow> nat \<Rightarrow> nat \<Rightarrow> bytes \<Rightarrow> bytes \<Rightarrow> bytes" where
  "patch_mac integrity mac_offset crc_offset frame mac_full =
     (let frame1 = take mac_offset frame @ take OSDP_FRAME_MAC_LEN mac_full
                     @ drop (mac_offset + OSDP_FRAME_MAC_LEN) frame
      in take crc_offset frame1 @ check_bytes integrity (take crc_offset frame1))"

definition osdp_sc_wrap_frame ::
  "'w osdp_sc_crypto \<Rightarrow> osdp_sc_session \<Rightarrow> osdp_frame \<Rightarrow> nat \<Rightarrow> (bytes \<times> osdp_sc_session) result" where
  "osdp_sc_wrap_frame crypto session plain_template out_cap =
     (if \<not> ss_established session then Inl OSDP_ERR_INVALID_ARG
      else if \<not> fr_has_scb plain_template \<or> \<not> osdp_scb_has_mac (fr_scb_type plain_template)
        then Inl OSDP_ERR_INVALID_ARG
      else case wrap_template crypto session plain_template out_cap of
        Inl s \<Rightarrow> Inl s
      | Inr built \<Rightarrow>
         (case osdp_frame_build built out_cap of
            Inl s \<Rightarrow> Inl s
          | Inr out_buf \<Rightarrow>
              let frame = drop OSDP_FRAME_MARK_LEN out_buf;
                  frame_len = length out_buf - OSDP_FRAME_MARK_LEN;
                  isize = integrity_size (fr_integrity built);
                  mac_offset = frame_len - isize - OSDP_FRAME_MAC_LEN;
                  crc_offset = frame_len - isize
              in
              (case osdp_sc_compute_mac crypto (s_mac1 (ss_keys session)) (s_mac2 (ss_keys session))
                      (ss_last_inbound_mac session) (Some frame) mac_offset of
                 Inl s \<Rightarrow> Inl s
               | Inr mac_full \<Rightarrow>
                   Inr (take OSDP_FRAME_MARK_LEN out_buf
                          @ patch_mac (fr_integrity built) mac_offset crc_offset frame mac_full,
                        session\<lparr>ss_last_outbound_mac := mac_full\<rparr>))))"

text \<open>Decrypt or copy the payload of an authenticated frame.\<close>

definition unwrap_payload ::
  "'w osdp_sc_crypto \<Rightarrow> osdp_sc_session \<Rightarrow> osdp_frame \<Rightarrow> nat \<Rightarrow> bytes result" where
  "unwrap_payload crypto session frame plain_cap =
     (if osdp_scb_is_encrypted (fr_scb_type frame)
      then osdp_sc_decrypt_payload crypto (s_enc (ss_keys session))
             (ss_last_outbound_mac session) (fr_payload frame) (fr_payload_len frame) plain_cap
      else if fr_payload_len frame > plain_cap then Inl OSDP_ERR_BUFFER_TOO_SMALL
      else Inr (ptr_bytes (fr_payload frame) (fr_payload_len frame)))"

text \<open>The frame to unwrap comes from the decoder, so its \<open>raw_len\<close> covers MAC and check characters
  and the subtraction below does not go under zero.\<close>

definition osdp_sc_unwrap_frame ::
  "'w osdp_sc_crypto \<Rightarrow> osdp_sc_session \<Rightarrow> osdp_frame \<Rightarrow> nat \<Rightarrow> (bytes \<times> osdp_sc_session) result" where
  "osdp_sc_unwrap_frame crypto session frame plain_cap =
     (if \<not> ss_established session then Inl OSDP_ERR_INVALID_ARG
      else if \<not> fr_has_scb frame \<or> \<not> osdp_scb_has_mac (fr_scb_type frame)
        then Inl OSDP_ERR_INVALID_ARG
      else if fr_mac_len frame \<noteq> OSDP_FRAME_MAC_LEN \<or> fr_mac frame = None
        then Inl OSDP_ERR_INVALID_ARG
      else if fr_raw frame = None \<or> fr_raw_len frame = 0 then Inl OSDP_ERR_INVALID_ARG
      else
        let mac_offset = fr_raw_len frame - integrity_size (fr_integrity frame) - OSDP_FRAME_MAC_LEN in
        case osdp_sc_compute_mac crypto (s_mac1 (ss_keys session)) (s_mac2 (ss_keys session))
               (ss_last_outbound_mac session) (fr_raw frame) mac_offset of
          Inl s \<Rightarrow> Inl s
        | Inr expected_mac \<Rightarrow>
            if take OSDP_FRAME_MAC_LEN expected_mac \<noteq> take OSDP_FRAME_MAC_LEN (the (fr_mac frame))
              then Inl OSDP_ERR_BAD_CRC
            else
              (case unwrap_payload crypto session frame plain_cap of
                 Inl s \<Rightarrow> Inl s
               | Inr plain \<Rightarrow> Inr (plain, session\<lparr>ss_last_inbound_mac := expected_mac\<rparr>)))"

section \<open>Wrapping is building with the real MAC\<close>

lemma wrap_scb_type_mac:
  "osdp_scb_has_mac t \<Longrightarrow> osdp_scb_mac_len (wrap_scb_type t n) = osdp_scb_mac_len t"
  by (auto simp: wrap_scb_type_def osdp_scb_mac_len_def)

lemma wrap_template_fields:
  assumes "wrap_template crypto s f cap = Inr g"
  shows "fr_mac g = Some (replicate 4 0)" "fr_mac_len g = 4" "fr_has_scb g = fr_has_scb f"
    "fr_scb_type g = wrap_scb_type (fr_scb_type f) (fr_payload_len f)"
    "fr_integrity g = fr_integrity f" "fr_code g = fr_code f" "fr_address g = fr_address f"
    "fr_reply g = fr_reply f" "fr_sequence g = fr_sequence f" "fr_scb_length g = fr_scb_length f"
    "fr_scb_data g = fr_scb_data f" "fr_scb_data_len g = fr_scb_data_len f"
  using assms by (auto simp: wrap_template_def Let_def split: if_splits sum.splits)

text \<open>Only the MAC differs between the frame built with the placeholder and the one sent.\<close>

lemma patched_build:
  assumes b: "osdp_frame_build g cap = Inr w"
    and g: "fr_mac g = Some (replicate 4 0)" "frame_mac_needed g = 4" "frame_ptrs_ok g"
    and m: "length m = 16"
  defines "fl \<equiv> length w - 1"
  defines "isz \<equiv> integrity_size (fr_integrity g)"
  shows "osdp_frame_build (g\<lparr>fr_mac := Some (take 4 m)\<rparr>) cap
      = Inr (take 1 w @ patch_mac (fr_integrity g) (fl - isz - 4) (fl - isz) (drop 1 w) m)"
    and "length (patch_mac (fr_integrity g) (fl - isz - 4) (fl - isz) (drop 1 w) m) = fl"
    and "take (fl - isz - 4) (drop 1 w)
      = take (fl - isz - 4) (drop 1 (take 1 w @ patch_mac (fr_integrity g) (fl - isz - 4) (fl - isz) (drop 1 w) m))"
proof -
  let ?g = "g\<lparr>fr_mac := Some (take 4 m)\<rparr>"
  obtain tot where bf: "buildable g tot" "tot < cap"
    and w: "w = OSDP_FRAME_MARK # build_body g tot 4 @ check_bytes (fr_integrity g) (build_body g tot 4)"
    using b g(2) by (auto simp: osdp_frame_build_eq)
  have mn: "frame_mac_needed ?g = 4"
    using g(2) by (simp add: frame_mac_needed_def split: if_splits)
  have bg: "buildable ?g tot"
    using bf(1) g(2) mn by (simp add: buildable_def)
  define pre where "pre = build_body (g\<lparr>fr_mac := Some []\<rparr>) tot 4"
  have body: "build_body g tot 4 = pre @ replicate 4 0" "build_body ?g tot 4 = pre @ take 4 m"
    by (simp_all add: pre_def build_body_def g(1))
  have fl: "fl - isz = length pre + 4"
    by (simp add: fl_def isz_def w body)
  have p: "patch_mac (fr_integrity g) (length pre + 4 - 4) (length pre + 4) (drop 1 w) m
      = pre @ take 4 m @ check_bytes (fr_integrity g) (pre @ take 4 m)"
    using m by (simp add: patch_mac_def w body)
  show "osdp_frame_build ?g cap
      = Inr (take 1 w @ patch_mac (fr_integrity g) (fl - isz - 4) (fl - isz) (drop 1 w) m)"
    unfolding fl osdp_frame_build_eq p mn using bg bf(2) w
    by (intro exI [of _ tot]) (simp add: body)
  show "length (patch_mac (fr_integrity g) (fl - isz - 4) (fl - isz) (drop 1 w) m) = fl"
    using m unfolding fl p by (simp add: fl_def w body)
  show "take (fl - isz - 4) (drop 1 w)
      = take (fl - isz - 4) (drop 1 (take 1 w @ patch_mac (fr_integrity g) (fl - isz - 4) (fl - isz) (drop 1 w) m))"
    unfolding fl p by (simp add: w body)
qed

section \<open>Two sessions in step\<close>

text \<open>The MAC covers exactly the first \<open>n\<close> bytes.\<close>

lemma mac_block_take: "mac_block (take n m) n b = mac_block m n b"
  by (auto simp: mac_block_def Let_def drop_take min_def)

lemma mac_loop_take:
  "mac_loop enc k1 k2 (take n m) n t chain b = mac_loop enc k1 k2 m n t chain b"
proof (induction "t - b" arbitrary: b chain)
  case 0
  then show ?case by (simp add: mac_loop.simps [of _ _ _ _ _ _ _ b])
next
  case (Suc k)
  then show ?case
    by (subst (1 2) mac_loop.simps) (auto simp: mac_block_take split: sum.splits)
qed

lemma compute_mac_take:
  "osdp_sc_compute_mac crypto k1 k2 icv (Some (take n m)) n = osdp_sc_compute_mac crypto k1 k2 icv (Some m) n"
  by (auto simp: osdp_sc_compute_mac_def Let_def mac_loop_take split: option.splits)

lemma compute_mac_ok:
  assumes "crypto_ok crypto" "keys_ok k" "length icv = 16" "n \<le> length m"
  obtains r where "osdp_sc_compute_mac crypto (s_mac1 k) (s_mac2 k) icv (Some m) n = Inr r" "length r = 16"
proof -
  have k: "length (s_mac1 k) = 16" "length (s_mac2 k) = 16"
    using assms(2) by (simp_all add: keys_ok_def)
  have "length (take n m) = n"
    using assms(4) by simp
  with compute_mac_eq [OF assms(1) k, of icv "take n m"] cbc_mac_length [OF assms(1) k assms(3)]
  show ?thesis
    using that by (metis compute_mac_take)
qed

text \<open>Ready for a message from \<open>a\<close> to \<open>b\<close>: same keys, and what \<open>a\<close> last received is what \<open>b\<close> last
  sent.\<close>

definition sc_in_step :: "osdp_sc_session \<Rightarrow> osdp_sc_session \<Rightarrow> bool" where
  "sc_in_step a b \<longleftrightarrow>
     ss_established a \<and> ss_established b \<and> ss_keys a = ss_keys b \<and> keys_ok (ss_keys a) \<and>
     ss_last_inbound_mac a = ss_last_outbound_mac b \<and> length (ss_last_inbound_mac a) = 16"

lemma wrap_frame_parts:
  assumes "osdp_sc_wrap_frame crypto a f cap = Inr (w, a')"
  obtains g w0 m where "ss_established a" "fr_has_scb f" "osdp_scb_has_mac (fr_scb_type f)"
    "wrap_template crypto a f cap = Inr g" "osdp_frame_build g cap = Inr w0"
    "osdp_sc_compute_mac crypto (s_mac1 (ss_keys a)) (s_mac2 (ss_keys a)) (ss_last_inbound_mac a)
       (Some (drop 1 w0)) (length w0 - 1 - integrity_size (fr_integrity g) - 4) = Inr m"
    "w = take 1 w0 @ patch_mac (fr_integrity g) (length w0 - 1 - integrity_size (fr_integrity g) - 4)
           (length w0 - 1 - integrity_size (fr_integrity g)) (drop 1 w0) m"
    "a' = a\<lparr>ss_last_outbound_mac := m\<rparr>"
  using assms by (auto simp: osdp_sc_wrap_frame_def Let_def split: if_splits sum.splits)

text \<open>The payload of the working copy, and what decryption makes of it.\<close>

lemma wrap_template_encrypted:
  assumes "wrap_template crypto a f cap = Inr g" "crypto_ok crypto" "keys_ok (ss_keys a)" "frame_ptrs_ok f"
    "osdp_scb_is_encrypted (fr_scb_type g)"
  defines "n \<equiv> padded_len (fr_payload_len f)"
  shows "\<exists>c. fr_payload g = Some c \<and> fr_payload_len g = length c \<and> length c = n \<and>
      (n \<le> pcap \<longrightarrow> osdp_sc_decrypt_payload crypto (s_enc (ss_keys a)) (ss_last_inbound_mac a)
         (Some c) n pcap = Inr (ptr_bytes (fr_payload f) (fr_payload_len f)))"
proof -
  obtain off c where c: "osdp_sc_encrypt_payload crypto (s_enc (ss_keys a)) (ss_last_inbound_mac a)
      (fr_payload f) (fr_payload_len f) (cap - off) = Inr c" "fr_payload g = Some c" "fr_payload_len g = length c"
    using assms(1,5) unfolding wrap_template_fields(4) [OF assms(1)]
    by (auto simp: wrap_template_def Let_def split: if_splits sum.splits)
  then have fits: "n \<le> cap - off" "fr_payload_len f > 0 \<Longrightarrow> fr_payload f \<noteq> None"
    by (auto simp: encrypt_payload_unfold n_def split: if_splits)
  have h: "ptr_holds (fr_payload f) (fr_payload_len f)" "length (s_enc (ss_keys a)) = 16"
    using assms(3,4) by (simp_all add: frame_ptrs_ok_def keys_ok_def)
  show ?thesis
    using encrypt_payload_roundtrip [OF assms(2) h(2,1) fits(2,1) [unfolded n_def], of "ss_last_inbound_mac a"] c
    unfolding n_def by (metis sum.inject(2))
qed

lemma wrap_template_payload:
  assumes "wrap_template crypto a f cap = Inr g" "crypto_ok crypto" "keys_ok (ss_keys a)"
    "frame_ptrs_ok f"
  shows "frame_ptrs_ok g"
    and "\<not> osdp_scb_is_encrypted (fr_scb_type g) \<Longrightarrow>
      fr_payload g = fr_payload f \<and> fr_payload_len g = fr_payload_len f"
    and "osdp_scb_is_encrypted (fr_scb_type g) \<Longrightarrow> padded_len (fr_payload_len f) \<le> pcap \<Longrightarrow>
      ptr_of (ptr_bytes (fr_payload g) (fr_payload_len g)) = fr_payload g \<and>
      osdp_sc_decrypt_payload crypto (s_enc (ss_keys a)) (ss_last_inbound_mac a) (fr_payload g)
        (fr_payload_len g) pcap = Inr (ptr_bytes (fr_payload f) (fr_payload_len f))"
    and "osdp_scb_is_encrypted (fr_scb_type g) \<Longrightarrow>
      fr_payload g \<noteq> None \<and> fr_payload_len g = padded_len (fr_payload_len f)"
proof -
  note t = wrap_template_fields [OF assms(1)]
  let ?enc = "osdp_scb_is_encrypted (fr_scb_type g)"
  let ?n = "padded_len (fr_payload_len f)"
  have plain: "\<not> ?enc \<Longrightarrow> fr_payload g = fr_payload f \<and> fr_payload_len g = fr_payload_len f"
    using assms(1) unfolding t(4) by (auto simp: wrap_template_def Let_def)
  note enc = wrap_template_encrypted [OF assms]
  show "\<not> ?enc \<Longrightarrow> fr_payload g = fr_payload f \<and> fr_payload_len g = fr_payload_len f"
    by (rule plain)
  show "?enc \<Longrightarrow> fr_payload g \<noteq> None \<and> fr_payload_len g = ?n"
    using enc [where pcap = 0] by auto
  show "frame_ptrs_ok g"
  proof (cases ?enc)
    case True
    with enc [where pcap = 0] assms(4) t(1,2,11,12) show ?thesis by (auto simp: frame_ptrs_ok_def ptr_holds_def)
  next
    case False
    with plain assms(4) t(1,2,11,12) show ?thesis by (simp add: frame_ptrs_ok_def ptr_holds_def)
  qed
  show "ptr_of (ptr_bytes (fr_payload g) (fr_payload_len g)) = fr_payload g \<and>
      osdp_sc_decrypt_payload crypto (s_enc (ss_keys a)) (ss_last_inbound_mac a) (fr_payload g)
        (fr_payload_len g) pcap = Inr (ptr_bytes (fr_payload f) (fr_payload_len f))"
    if "?enc" "?n \<le> pcap"
    using enc [OF that(1), where pcap = pcap] that(2) padded_len_bounds(1) [of "fr_payload_len f"]
    by (auto simp: ptr_bytes_def ptr_of_def)
qed

lemma unwrap_received_payload:
  assumes "wrap_template crypto a f cap = Inr t" "crypto_ok crypto" "keys_ok (ss_keys a)" "frame_ptrs_ok f"
    and "osdp_frame_build t cap = Inr w0" "fr_has_scb f"
    and "ss_keys b = ss_keys a" "ss_last_outbound_mac b = ss_last_inbound_mac a"
    and "padded_len (fr_payload_len f) \<le> pcap"
  shows "unwrap_payload crypto b (as_received (t\<lparr>fr_mac := mac\<rparr>) raw) pcap
    = Inr (ptr_bytes (fr_payload f) (fr_payload_len f))"
proof (cases "osdp_scb_is_encrypted (fr_scb_type t)")
  case True
  with wrap_template_payload(3) [OF assms(1-4) True assms(9)] wrap_template_fields(3) [OF assms(1)] assms(6-8)
  show ?thesis
    by (simp add: unwrap_payload_def as_received_def)
next
  case False
  note tp = wrap_template_payload(2) [OF assms(1-4) False]
  have "fr_payload_len f \<le> pcap"
    using assms(9) padded_len_bounds(1) [of "fr_payload_len f"] by linarith
  moreover have "length (ptr_bytes (fr_payload f) (fr_payload_len f)) = fr_payload_len f"
    using tp assms(4,5) by (auto simp: osdp_frame_build_eq buildable_def frame_ptrs_ok_def)
  then have "ptr_bytes (ptr_of (ptr_bytes (fr_payload f) (fr_payload_len f))) (fr_payload_len f)
      = ptr_bytes (fr_payload f) (fr_payload_len f)"
    by (metis ptr_bytes_ptr_of)
  ultimately show ?thesis
    using False tp wrap_template_fields(3) [OF assms(1)] assms(6)
    by (simp add: unwrap_payload_def as_received_def)
qed

text \<open>What a wrapped message holds: the template with its MAC filled in, built.\<close>

lemma wrapped_template:
  assumes ok: "crypto_ok crypto" "keys_ok (ss_keys a)" "length (ss_last_inbound_mac a) = 16" "frame_ptrs_ok f"
    and wr: "osdp_sc_wrap_frame crypto a f cap = Inr (w, a')"
  obtains t w0 m where "fr_has_scb f" "wrap_template crypto a f cap = Inr t" "osdp_frame_build t cap = Inr w0" "length m = 16"
    "osdp_frame_build (t\<lparr>fr_mac := Some (take 4 m)\<rparr>) cap = Inr w" "frame_ptrs_ok (t\<lparr>fr_mac := Some (take 4 m)\<rparr>)"
    "osdp_sc_compute_mac crypto (s_mac1 (ss_keys a)) (s_mac2 (ss_keys a)) (ss_last_inbound_mac a) (Some (tl w))
       (length (tl w) - integrity_size (fr_integrity t) - 4) = Inr m"
    "tl w \<noteq> []" "osdp_scb_has_mac (fr_scb_type t)" "a' = a\<lparr>ss_last_outbound_mac := m\<rparr>"
proof -
  obtain t w0 m where p: "fr_has_scb f" "osdp_scb_has_mac (fr_scb_type f)"
    "wrap_template crypto a f cap = Inr t" "osdp_frame_build t cap = Inr w0"
    "osdp_sc_compute_mac crypto (s_mac1 (ss_keys a)) (s_mac2 (ss_keys a)) (ss_last_inbound_mac a)
       (Some (drop 1 w0)) (length w0 - 1 - integrity_size (fr_integrity t) - 4) = Inr m"
    "w = take 1 w0 @ patch_mac (fr_integrity t) (length w0 - 1 - integrity_size (fr_integrity t) - 4)
           (length w0 - 1 - integrity_size (fr_integrity t)) (drop 1 w0) m"
    "a' = a\<lparr>ss_last_outbound_mac := m\<rparr>"
    using wrap_frame_parts [OF wr] by metis
  note tf = wrap_template_fields [OF p(3)]
    and tp = wrap_template_payload(1) [OF p(3) ok(1,2,4)]
  let ?n = "length w0 - 1 - integrity_size (fr_integrity t) - 4"
  have m: "length m = 16"
    using compute_mac_ok [OF ok(1-3), of ?n "drop 1 w0"] p(5) by fastforce
  have mn: "frame_mac_needed t = 4"
    using p(4) tf(2) by (auto simp: osdp_frame_build_eq buildable_def)
  note pb = patched_build [OF p(4) tf(1) mn tp m]
  obtain x ws where w0: "w0 = x # ws" "ws \<noteq> []"
    using p(4) by (auto simp: osdp_frame_build_eq build_body_def)
  have tlw: "length (tl w) = length w0 - 1" "tl w \<noteq> []" "drop 1 w = tl w"
    using pb(2) p(6) w0 by auto
  have "osdp_sc_compute_mac crypto (s_mac1 (ss_keys a)) (s_mac2 (ss_keys a)) (ss_last_inbound_mac a) (Some (tl w)) ?n = Inr m"
    using p(5) pb(3) unfolding p(6) [symmetric] tlw(3) by (metis compute_mac_take)
  moreover have "frame_ptrs_ok (t\<lparr>fr_mac := Some (take 4 m)\<rparr>)"
    using tp m tf(2) by (simp add: frame_ptrs_ok_def ptr_holds_def)
  moreover have "osdp_scb_has_mac (fr_scb_type t)"
    using mn tf(3) p(1) by (simp add: frame_mac_needed_def osdp_scb_has_mac_def)
  ultimately show ?thesis
    using that [OF p(1,3,4) m pb(1) [folded p(6)] _ _ tlw(2) _ p(7)] unfolding tlw(1) by blast
qed

lemma wrap_unwrap:
  assumes ok: "crypto_ok crypto" "sc_in_step a b" "frame_ptrs_ok f"
    and wr: "osdp_sc_wrap_frame crypto a f cap = Inr (w, a')"
    and pcap: "padded_len (fr_payload_len f) \<le> pcap"
  obtains g b' where "osdp_frame_decode (Some (tl w)) (length w - 1) out = (OSDP_OK, g)"
    "fr_address g = fr_address f" "fr_reply g = fr_reply f" "fr_sequence g = fr_sequence f"
    "fr_code g = fr_code f" "fr_integrity g = fr_integrity f" "fr_has_scb g"
    "fr_scb_type g = wrap_scb_type (fr_scb_type f) (fr_payload_len f)"
    "osdp_sc_unwrap_frame crypto b g pcap = Inr (ptr_bytes (fr_payload f) (fr_payload_len f), b')"
    "sc_in_step b' a'"
proof -
  have st: "ss_established b" "ss_keys b = ss_keys a" "ss_last_outbound_mac b = ss_last_inbound_mac a" "ss_established a"
    and keys: "keys_ok (ss_keys a)" "length (ss_last_inbound_mac a) = 16"
    using ok(2) by (auto simp: sc_in_step_def)
  obtain t w0 m where t: "fr_has_scb f" "wrap_template crypto a f cap = Inr t" "osdp_frame_build t cap = Inr w0" "length m = 16"
    "osdp_frame_build (t\<lparr>fr_mac := Some (take 4 m)\<rparr>) cap = Inr w" "frame_ptrs_ok (t\<lparr>fr_mac := Some (take 4 m)\<rparr>)"
    "osdp_sc_compute_mac crypto (s_mac1 (ss_keys a)) (s_mac2 (ss_keys a)) (ss_last_inbound_mac a) (Some (tl w))
       (length (tl w) - integrity_size (fr_integrity t) - 4) = Inr m"
    "tl w \<noteq> []" "osdp_scb_has_mac (fr_scb_type t)" "a' = a\<lparr>ss_last_outbound_mac := m\<rparr>"
    by (rule wrapped_template [OF ok(1) keys ok(3) wr])
  note tf = wrap_template_fields [OF t(2)]
  let ?g = "as_received (t\<lparr>fr_mac := Some (take 4 m)\<rparr>) (tl w)" and ?b' = "b\<lparr>ss_last_inbound_mac := m\<rparr>"
  have dec: "frame_decode_bytes (tl w) (length w - 1) out = (OSDP_OK, ?g)"
    by (rule build_decode [OF t(5,6)])
  have plain: "unwrap_payload crypto b ?g pcap = Inr (ptr_bytes (fr_payload f) (fr_payload_len f))"
    by (rule unwrap_received_payload [OF t(2) ok(1) keys(1) ok(3) t(3,1) st(2,3) pcap])
  have g: "fr_has_scb ?g" "fr_scb_type ?g = fr_scb_type t" "fr_mac_len ?g = 4" "fr_mac ?g = Some (take 4 m)"
    "fr_raw ?g = Some (tl w)" "fr_raw_len ?g = length (tl w)" "fr_integrity ?g = fr_integrity t"
    using tf(2,3) t(1,4) by (auto simp: as_received_def ptr_bytes_def ptr_of_def)
  have u: "osdp_sc_unwrap_frame crypto b ?g pcap = Inr (ptr_bytes (fr_payload f) (fr_payload_len f), ?b')"
    using g st t(7-9) by (simp add: osdp_sc_unwrap_frame_def plain del: length_tl)
  have "sc_in_step ?b' a'"
    using st keys(1) t(4) by (simp add: sc_in_step_def t(10))
  with u dec show ?thesis
    using tf t(1) by (intro that [of ?g ?b']) (simp_all add: as_received_def osdp_frame_decode_def)
qed

section \<open>When wrapping succeeds\<close>

definition sc_body_len :: "nat \<Rightarrow> nat" where
  "sc_body_len n = (if n = 0 then 0 else padded_len n)"

text \<open>A template for SCS_15..18 with valid header fields.\<close>

definition sc_template_ok :: "osdp_frame \<Rightarrow> bool" where
  "sc_template_ok f \<longleftrightarrow>
     fr_address f \<le> OSDP_BROADCAST_ADDR \<and> fr_sequence f \<le> OSDP_CTRL_SQN_MASK \<and>
     fr_has_scb f \<and> osdp_scb_mac_len (fr_scb_type f) = 4 \<and>
     unat (fr_scb_length f) = fr_scb_data_len f + 2 \<and>
     (fr_scb_data_len f > 0 \<longrightarrow> fr_scb_data f \<noteq> None) \<and>
     (fr_payload_len f > 0 \<longrightarrow> fr_payload f \<noteq> None) \<and> frame_ptrs_ok f"

lemma sc_type_cases:
  assumes "osdp_scb_mac_len t = 4"
  shows "t = 0x15 \<or> t = 0x16 \<or> t = 0x17 \<or> t = (0x18 :: byte)"
proof -
  have "t \<ge> 0x15 \<and> t \<le> 0x18"
    using assms by (auto simp: osdp_scb_mac_len_def split: if_splits)
  then have "unat t \<in> {0x15, 0x16, 0x17, 0x18}"
    by (auto simp: word_le_nat_alt)
  then show ?thesis
    by (auto simp: word_unat_eq_iff)
qed

lemma wrap_type_encrypted:
  "osdp_scb_mac_len t = 4 \<Longrightarrow> osdp_scb_is_encrypted (wrap_scb_type t n) \<longleftrightarrow> n > 0"
  by (drule sc_type_cases) (auto simp: wrap_scb_type_def osdp_scb_is_encrypted_def)

text \<open>The size of the frame that carries the template, marking byte excluded.\<close>

definition sc_frame_len :: "osdp_frame \<Rightarrow> nat" where
  "sc_frame_len f =
     6 + unat (fr_scb_length f) + sc_body_len (fr_payload_len f) + 4 + integrity_size (fr_integrity f)"

lemma wrap_template_ok:
  assumes "crypto_ok crypto" "keys_ok (ss_keys a)" "sc_template_ok f" "sc_frame_len f < cap"
  obtains t where "wrap_template crypto a f cap = Inr t"
proof (cases "fr_payload_len f > 0")
  case False
  with assms(3) that show ?thesis
    by (simp add: wrap_template_def Let_def wrap_type_encrypted sc_template_ok_def)
next
  case True
  let ?t = "f\<lparr>fr_mac := Some (replicate 4 0), fr_mac_len := 4,
     fr_scb_type := wrap_scb_type (fr_scb_type f) (fr_payload_len f)\<rparr>"
  have off: "osdp_frame_payload_offset ?t = Inr (7 + unat (fr_scb_length f))"
    using assms(3) by (auto simp: osdp_frame_payload_offset_def frame_scb_total_def sc_template_ok_def)
  have fits: "7 + unat (fr_scb_length f) < cap"
    "padded_len (fr_payload_len f) \<le> cap - (7 + unat (fr_scb_length f))"
    using assms(4) True by (simp_all add: sc_frame_len_def sc_body_len_def)
  have h: "ptr_holds (fr_payload f) (fr_payload_len f)" "fr_payload_len f > 0 \<Longrightarrow> fr_payload f \<noteq> None"
    "length (s_enc (ss_keys a)) = 16"
    using assms(2,3) by (simp_all add: sc_template_ok_def frame_ptrs_ok_def keys_ok_def)
  obtain c where "osdp_sc_encrypt_payload crypto (s_enc (ss_keys a)) (ss_last_inbound_mac a)
      (fr_payload f) (fr_payload_len f) (cap - (7 + unat (fr_scb_length f))) = Inr c"
    using encrypt_payload_roundtrip [OF assms(1) h(3,1,2) fits(2), of "ss_last_inbound_mac a"] by metis
  with off fits(1) have "\<exists>t. wrap_template crypto a f cap = Inr t"
    by (simp add: wrap_template_def Let_def)
  with that show ?thesis by blast
qed

lemma wrap_template_len:
  assumes "wrap_template crypto a f cap = Inr t" "crypto_ok crypto" "keys_ok (ss_keys a)" "sc_template_ok f"
  shows "fr_payload_len t = sc_body_len (fr_payload_len f)" "frame_mac_needed t = 4"
    and "fr_payload_len t > 0 \<Longrightarrow> fr_payload t \<noteq> None"
proof -
  note t = wrap_template_fields [OF assms(1)]
  have f: "frame_ptrs_ok f" "osdp_scb_mac_len (fr_scb_type f) = 4" "fr_has_scb f"
    "fr_payload_len f > 0 \<Longrightarrow> fr_payload f \<noteq> None"
    using assms(4) by (simp_all add: sc_template_ok_def)
  have e: "osdp_scb_is_encrypted (fr_scb_type t) \<longleftrightarrow> fr_payload_len f > 0"
    unfolding t(4) by (rule wrap_type_encrypted [OF f(2)])
  show "frame_mac_needed t = 4"
    using f(2,3) t(3,4) wrap_scb_type_mac [of "fr_scb_type f"]
    by (simp add: frame_mac_needed_def osdp_scb_has_mac_def)
  show "fr_payload_len t = sc_body_len (fr_payload_len f)"
    using wrap_template_payload(2) [OF assms(1-3) f(1)] e
      wrap_template_payload(4) [OF assms(1-3) f(1)]
    by (cases "fr_payload_len f = 0") (simp_all add: sc_body_len_def)
  show "fr_payload t \<noteq> None" if "fr_payload_len t > 0"
    using that e f(4) wrap_template_payload(2,4) [OF assms(1-3) f(1)]
    by (cases "fr_payload_len f = 0") auto
qed

lemma wrap_succeeds_iff:
  assumes ok: "crypto_ok crypto" "ss_established a" "keys_ok (ss_keys a)"
      "length (ss_last_inbound_mac a) = 16" "sc_template_ok f"
  shows "(\<exists>r. osdp_sc_wrap_frame crypto a f cap = Inr r) \<longleftrightarrow> sc_frame_len f \<le> min (cap - 1) 1440"
    (is "?l \<longleftrightarrow> ?r")
proof -
  have b: "(\<exists>w. osdp_frame_build t cap = Inr w) \<longleftrightarrow> ?r" if t: "wrap_template crypto a f cap = Inr t" for t
  proof -
    note f = wrap_template_fields [OF t] and l = wrap_template_len [OF t ok(1,3,5)]
    have "buildable t n \<longleftrightarrow> n = sc_frame_len f \<and> n \<le> 1440" for n
      using l ok(5) f by (auto simp: buildable_def sc_template_ok_def sc_frame_len_def)
    moreover have "n < cap \<longleftrightarrow> n \<le> cap - 1" if "0 < n" for n
      using that by linarith
    then have "sc_frame_len f < cap \<longleftrightarrow> sc_frame_len f \<le> cap - 1"
      by (simp add: sc_frame_len_def)
    ultimately show ?thesis
      by (auto simp: osdp_frame_build_eq)
  qed
  have f: "fr_has_scb f" "osdp_scb_has_mac (fr_scb_type f)"
    using ok(5) by (simp_all add: sc_template_ok_def osdp_scb_has_mac_def)
  show ?thesis
  proof
    assume ?l
    then obtain t w where "wrap_template crypto a f cap = Inr t" "osdp_frame_build t cap = Inr w"
      by (metis wrap_frame_parts surj_pair)
    with b show ?r by blast
  next
    assume ?r
    then have "sc_frame_len f < cap"
      by (simp add: sc_frame_len_def) linarith
    then obtain t where t: "wrap_template crypto a f cap = Inr t"
      using wrap_template_ok [OF ok(1,3,5)] by metis
    with b \<open>?r\<close> obtain w where w: "osdp_frame_build t cap = Inr w" by blast
    obtain m where "osdp_sc_compute_mac crypto (s_mac1 (ss_keys a)) (s_mac2 (ss_keys a))
        (ss_last_inbound_mac a) (Some (drop 1 w)) (length w - 1 - integrity_size (fr_integrity t) - 4) = Inr m"
      by (rule compute_mac_ok [OF ok(1,3,4), of "length w - 1 - integrity_size (fr_integrity t) - 4" "drop 1 w"])
        simp_all
    with t w f ok(2) show ?l
      by (simp add: osdp_sc_wrap_frame_def Let_def)
  qed
qed

text \<open>The MAC of a frame that unwraps.\<close>

lemma unwrap_mac:
  assumes "crypto_ok crypto" and "keys_ok (ss_keys s)" and "length (ss_last_outbound_mac s) = 16"
    and "osdp_frame_decode (Some buf) (length buf) out = (OSDP_OK, f)"
    and "osdp_sc_unwrap_frame crypto s f cap = Inr (p, s')"
  shows "\<exists>m. m = cbc_mac (aes crypto) (s_mac1 (ss_keys s)) (s_mac2 (ss_keys s)) (ss_last_outbound_mac s)
        (blocks_of (mac_pad (take (length buf - integrity_size (fr_integrity f) - 4) buf))) \<and>
      fr_mac f = Some (take 4 m) \<and> s' = s\<lparr>ss_last_inbound_mac := m\<rparr>"
proof -
  let ?n = "length buf - integrity_size (fr_integrity f) - 4"
  have k: "length (s_mac1 (ss_keys s)) = 16" "length (s_mac2 (ss_keys s)) = 16"
    using assms(2) by (simp_all add: keys_ok_def)
  have dec: "frame_decode_bytes buf (length buf) out = (OSDP_OK, f)"
    using assms(4) by (simp add: osdp_frame_decode_def)
  obtain mac where raw: "fr_raw f = Some buf" "fr_raw_len f = length buf" "fr_mac f = ptr_of mac"
      "fr_mac_len f = length mac"
    by (rule decode_ok_frame [OF dec refl]) simp
  have "length (take ?n buf) = ?n" by simp
  then have m: "osdp_sc_compute_mac crypto (s_mac1 (ss_keys s)) (s_mac2 (ss_keys s)) (ss_last_outbound_mac s)
       (Some buf) ?n = Inr (cbc_mac (aes crypto) (s_mac1 (ss_keys s)) (s_mac2 (ss_keys s))
         (ss_last_outbound_mac s) (blocks_of (mac_pad (take ?n buf))))" (is "_ = Inr ?m")
    using compute_mac_eq [OF assms(1) k, of "ss_last_outbound_mac s" "take ?n buf"] compute_mac_take
    by metis
  have "length mac = 4" "take 4 ?m = take 4 mac" "s' = s\<lparr>ss_last_inbound_mac := ?m\<rparr>"
    using assms(5) raw m by (auto simp: osdp_sc_unwrap_frame_def Let_def ptr_of_def split: if_splits sum.splits)
  with raw(3) show ?thesis
    by (auto simp: ptr_of_def)
qed

section \<open>The link as an interface\<close>

text \<open>One message each way in turn: the sender's session seals a message, the receiver's session
  opens it, and the roles swap.\<close>

fun converse ::
  "('s \<Rightarrow> 'm \<Rightarrow> ('c \<times> 's) result) \<Rightarrow> ('s \<Rightarrow> 'c \<Rightarrow> ('v \<times> 's) result) \<Rightarrow> 's \<Rightarrow> 's \<Rightarrow> 'm list
     \<Rightarrow> ('v list \<times> 's \<times> 's) result" where
  "converse seal unseal a b [] = Inr ([], a, b)"
| "converse seal unseal a b (m # ms) =
     (case seal a m of
        Inl e \<Rightarrow> Inl e
      | Inr (w, a') \<Rightarrow>
         (case unseal b w of
            Inl e \<Rightarrow> Inl e
          | Inr (v, b') \<Rightarrow>
             (case converse seal unseal b' a' ms of
                Inl e \<Rightarrow> Inl e
              | Inr (vs, rest) \<Rightarrow> Inr (v # vs, rest))))"

locale secure_link =
  fixes in_step :: "'s \<Rightarrow> 's \<Rightarrow> bool"
    and admissible :: "'m \<Rightarrow> bool"
    and view :: "'m \<Rightarrow> 'v"
    and seal :: "'s \<Rightarrow> 'm \<Rightarrow> ('c \<times> 's) result"
    and unseal :: "'s \<Rightarrow> 'c \<Rightarrow> ('v \<times> 's) result"
  assumes available: "in_step a b \<Longrightarrow> admissible m \<Longrightarrow> \<exists>w a'. seal a m = Inr (w, a')"
    and delivered: "in_step a b \<Longrightarrow> admissible m \<Longrightarrow> seal a m = Inr (w, a') \<Longrightarrow>
       \<exists>b'. unseal b w = Inr (view m, b') \<and> in_step b' a'"
begin

lemma conversation:
  "in_step a b \<Longrightarrow> list_all admissible ms \<Longrightarrow>
     \<exists>a' b'. converse seal unseal a b ms = Inr (map view ms, a', b') \<and> in_step a' b'"
proof (induction ms arbitrary: a b)
  case (Cons m ms)
  obtain w a' where w: "seal a m = Inr (w, a')"
    using available [OF Cons.prems(1), of m] Cons.prems(2) by auto
  obtain b' where b: "unseal b w = Inr (view m, b')" "in_step b' a'"
    using delivered [OF Cons.prems(1) _ w] Cons.prems(2) by auto
  obtain x y where "converse seal unseal b' a' ms = Inr (map view ms, x, y)" "in_step x y"
    using Cons.IH [OF b(2)] Cons.prems(2) by auto
  with w b show ?case by simp
qed simp

end

text \<open>What the receiver sees of a message: address, direction, sequence number, code and payload.\<close>

definition sc_view :: "osdp_frame \<Rightarrow> byte \<times> bool \<times> byte \<times> byte \<times> bytes" where
  "sc_view f = (fr_address f, fr_reply f, fr_sequence f, fr_code f,
     ptr_bytes (fr_payload f) (fr_payload_len f))"

text \<open>The receiver: decode the frame behind the marking byte, then unwrap it.\<close>

definition sc_receive ::
  "'w osdp_sc_crypto \<Rightarrow> nat \<Rightarrow> osdp_sc_session \<Rightarrow> bytes
     \<Rightarrow> ((byte \<times> bool \<times> byte \<times> byte \<times> bytes) \<times> osdp_sc_session) result" where
  "sc_receive crypto pcap session w =
     (case osdp_frame_decode (Some (tl w)) (length w - 1) zero_frame of
        (OSDP_OK, g) \<Rightarrow>
          (case osdp_sc_unwrap_frame crypto session g pcap of
             Inl e \<Rightarrow> Inl e
           | Inr (p, s) \<Rightarrow> Inr ((fr_address g, fr_reply g, fr_sequence g, fr_code g, p), s))
      | (e, _) \<Rightarrow> Inl e)"

definition sc_admissible :: "nat \<Rightarrow> nat \<Rightarrow> osdp_frame \<Rightarrow> bool" where
  "sc_admissible cap pcap f \<longleftrightarrow>
     sc_template_ok f \<and> sc_frame_len f \<le> OSDP_FRAME_MAX_LEN \<and> sc_frame_len f < cap \<and>
     padded_len (fr_payload_len f) \<le> pcap"

interpretation sc: secure_link
  "\<lambda>a b. crypto_ok crypto \<and> sc_in_step a b" "sc_admissible cap pcap" sc_view
  "\<lambda>s f. osdp_sc_wrap_frame crypto s f cap" "sc_receive crypto pcap"
  for crypto :: "'w osdp_sc_crypto" and cap pcap
proof (unfold_locales, goal_cases)
  case (1 a b m)
  then show ?case
    using wrap_succeeds_iff [of crypto a m cap] by (auto simp: sc_in_step_def sc_admissible_def)
next
  case (2 a b m w a')
  have "frame_ptrs_ok m" "padded_len (fr_payload_len m) \<le> pcap"
    using 2(2) by (simp_all add: sc_admissible_def sc_template_ok_def)
  then show ?case
    using wrap_unwrap [OF conjunct1 [OF 2(1)] conjunct2 [OF 2(1)] _ 2(3), of pcap zero_frame] 2(1)
    by (fastforce simp: sc_receive_def sc_view_def)
qed

section \<open>Sizing\<close>

lemma padded_len_le_iff: "padded_len n \<le> k \<longleftrightarrow> n < k div 16 * 16"
proof -
  have "padded_len n \<le> k \<longleftrightarrow> n div 16 + 1 \<le> k div 16"
    unfolding padded_len_def by (simp add: less_eq_div_iff_mult_less_eq)
  also have "\<dots> \<longleftrightarrow> n < k div 16 * 16"
    by (simp add: Suc_le_eq div_less_iff_less_mult)
  finally show ?thesis .
qed

lemma sc_max_payload_framed:
  assumes "osdp_sc_max_payload f cap = Inr m" "sc_template_ok f" "fr_payload_len f > 0"
  defines "k \<equiv> min (cap - 1) 1440 - (sc_frame_len f - padded_len (fr_payload_len f))"
  shows "sc_frame_len f \<le> min (cap - 1) 1440 \<longleftrightarrow> padded_len (fr_payload_len f) \<le> k"
    and "m = (if osdp_scb_is_encrypted (fr_scb_type f) then k div 16 * 16 - 1 else k)"
proof -
  have pos: "0 < padded_len (fr_payload_len f)"
    using padded_len_bounds(1) [of "fr_payload_len f"] by linarith
  then show "sc_frame_len f \<le> min (cap - 1) 1440 \<longleftrightarrow> padded_len (fr_payload_len f) \<le> k"
    using assms(3) by (auto simp: k_def sc_frame_len_def sc_body_len_def)
  obtain fr where fr: "osdp_frame_max_payload f cap = Inr fr"
    "m = (if osdp_scb_is_encrypted (fr_scb_type f) then (if fr div 16 = 0 then 0 else fr div 16 * 16 - 1) else fr)"
    using assms(1,2) by (auto simp: osdp_sc_max_payload_def Let_def sc_template_ok_def split: sum.splits if_splits)
  have "fr = k"
    using osdp_frame_max_payload_eq [OF fr(1)] assms(2,3)
    by (simp add: k_def sc_frame_len_def sc_body_len_def sc_template_ok_def frame_mac_needed_def)
  with fr(2) show "m = (if osdp_scb_is_encrypted (fr_scb_type f) then k div 16 * 16 - 1 else k)"
    by simp
qed

section \<open>Properties\<close>

text \<open>Two sessions after the handshake, and two messages.\<close>

definition ex_session :: osdp_sc_session where
  "ex_session = \<lparr>ss_keys = \<lparr>s_enc = ex_key, s_mac1 = rev ex_key, s_mac2 = ex_key\<rparr>,
     ss_last_outbound_mac = ex_key, ss_last_inbound_mac = ex_key, ss_established = True\<rparr>"

definition ex_sc_cmd :: osdp_frame where
  "ex_sc_cmd = zero_frame\<lparr>fr_address := 5, fr_sequence := 1, fr_integrity := OSDP_INTEGRITY_CRC,
     fr_has_scb := True, fr_scb_length := 2, fr_scb_type := OSDP_SCS_17, fr_code := 0x69,
     fr_payload := Some [1, 2, 3], fr_payload_len := 3\<rparr>"

definition ex_sc_reply :: osdp_frame where
  "ex_sc_reply = zero_frame\<lparr>fr_address := 5, fr_reply := True, fr_sequence := 1,
     fr_has_scb := True, fr_scb_length := 2, fr_scb_type := OSDP_SCS_18, fr_code := 0x40\<rparr>"

lemma ex_session_step: "sc_in_step ex_session ex_session" "keys_ok (ss_keys ex_session)"
  "ss_established ex_session" "length (ss_last_inbound_mac ex_session) = 16"
  by (simp_all add: sc_in_step_def keys_ok_def ex_session_def ex_key_length)

lemma ex_sc_messages: "list_all (sc_admissible 64 64) [ex_sc_cmd, ex_sc_reply]"
  by code_simp

text \<open>C16. Secure Channel conversation: from two sessions in step (as the handshake leaves them), any
  sequence of messages sent in turn, each fitting the buffers, is delivered completely. Every
  message wraps, is accepted by the peer's decoder, authenticates against its rolling MAC, decrypts
  to the payload that was sent, with address, direction, sequence number and code intact, and the
  sessions are in step again afterwards.\<close>

theorem sc_conversation_delivered:
  assumes "crypto_ok crypto" and "sc_in_step a b" and "list_all (sc_admissible cap pcap) ms"
  shows "\<exists>a' b'. converse (\<lambda>s f. osdp_sc_wrap_frame crypto s f cap) (sc_receive crypto pcap) a b ms
      = Inr (map sc_view ms, a', b') \<and> sc_in_step a' b'"
  using sc.conversation [of crypto a b cap pcap ms] assms by blast

theorem sc_conversation_delivered_witness:
  "\<exists>a' b'. converse (\<lambda>s f. osdp_sc_wrap_frame ex_crypto s f 64) (sc_receive ex_crypto 64)
      ex_session ex_session [ex_sc_cmd, ex_sc_reply]
    = Inr (map sc_view [ex_sc_cmd, ex_sc_reply], a', b') \<and> sc_in_step a' b'"
  by (rule sc_conversation_delivered [OF ex_crypto_ok ex_session_step(1) ex_sc_messages])

text \<open>C17. A frame is only ever unwrapped when it authenticates: its four MAC bytes are those of the
  CBC-MAC, chained from the last MAC this side sent, over every byte of the frame before them. The
  session changes in nothing but the last received MAC, which becomes the full MAC computed.\<close>

theorem unwrap_authenticates:
  assumes "crypto_ok crypto" and "keys_ok (ss_keys s)" and "length (ss_last_outbound_mac s) = 16"
    and "osdp_frame_decode (Some buf) (length buf) out = (OSDP_OK, f)"
    and "osdp_sc_unwrap_frame crypto s f cap = Inr (p, s')"
  shows "\<exists>m. m = cbc_mac (aes crypto) (s_mac1 (ss_keys s)) (s_mac2 (ss_keys s)) (ss_last_outbound_mac s)
        (blocks_of (mac_pad (take (length buf - integrity_size (fr_integrity f) - 4) buf))) \<and>
      fr_mac f = Some (take 4 m) \<and> s' = s\<lparr>ss_last_inbound_mac := m\<rparr>"
  using assms by (rule unwrap_mac)

theorem unwrap_authenticates_witness:
  "\<exists>w a' f p s'. osdp_sc_wrap_frame ex_crypto ex_session ex_sc_cmd 64 = Inr (w, a') \<and>
     osdp_sc_unwrap_frame ex_crypto ex_session f 64 = Inr (p, s') \<and>
     (\<exists>m. m = cbc_mac (aes ex_crypto) (s_mac1 (ss_keys ex_session)) (s_mac2 (ss_keys ex_session))
        (ss_last_outbound_mac ex_session)
        (blocks_of (mac_pad (take (length (tl w) - integrity_size (fr_integrity f) - 4) (tl w)))) \<and>
      fr_mac f = Some (take 4 m) \<and> s' = ex_session\<lparr>ss_last_inbound_mac := m\<rparr>)"
proof -
  have t: "sc_template_ok ex_sc_cmd" "frame_ptrs_ok ex_sc_cmd" "sc_frame_len ex_sc_cmd \<le> min (64 - 1) 1440"
    "padded_len (fr_payload_len ex_sc_cmd) \<le> 64"
    by code_simp+
  obtain w a' where w: "osdp_sc_wrap_frame ex_crypto ex_session ex_sc_cmd 64 = Inr (w, a')"
    using wrap_succeeds_iff [OF ex_crypto_ok ex_session_step(3,2,4) t(1), of 64] t(3) by auto
  obtain f s' where f: "osdp_frame_decode (Some (tl w)) (length w - 1) zero_frame = (OSDP_OK, f)"
    "osdp_sc_unwrap_frame ex_crypto ex_session f 64
       = Inr (ptr_bytes (fr_payload ex_sc_cmd) (fr_payload_len ex_sc_cmd), s')"
    using wrap_unwrap [OF ex_crypto_ok ex_session_step(1) t(2) w t(4), of zero_frame] by metis
  have l: "length (ss_last_outbound_mac ex_session) = 16"
    by (simp add: ex_session_def ex_key_length)
  show ?thesis
    using unwrap_authenticates [OF ex_crypto_ok ex_session_step(2) l f(1) [folded length_tl] f(2)] w f(2)
    by blast
qed

text \<open>C22. \<open>osdp_sc_max_payload\<close> is exact for the encrypted shapes SCS_17 and SCS_18: a non-empty
  payload can be wrapped into a buffer of the given capacity if and only if it is no longer than
  the answer.\<close>

theorem sc_max_payload_exact:
  assumes "crypto_ok crypto" and "ss_established s" and "keys_ok (ss_keys s)"
    and "length (ss_last_inbound_mac s) = 16" and "sc_template_ok f" and "fr_payload_len f > 0"
    and "osdp_scb_is_encrypted (fr_scb_type f)" and "osdp_sc_max_payload f cap = Inr m"
  shows "(\<exists>r. osdp_sc_wrap_frame crypto s f cap = Inr r) \<longleftrightarrow> fr_payload_len f \<le> m"
proof -
  define k where "k = min (cap - 1) 1440 - (sc_frame_len f - padded_len (fr_payload_len f))"
  note m = sc_max_payload_framed [OF assms(8,5,6), folded k_def]
  have "(\<exists>r. osdp_sc_wrap_frame crypto s f cap = Inr r) \<longleftrightarrow> fr_payload_len f < k div 16 * 16"
    unfolding wrap_succeeds_iff [OF assms(1-5)] m(1) padded_len_le_iff ..
  also have "\<dots> \<longleftrightarrow> fr_payload_len f \<le> m"
    using m(2) assms(6,7) by simp linarith
  finally show ?thesis .
qed

theorem sc_max_payload_exact_witness:
  "osdp_sc_max_payload ex_sc_cmd 32 = Inr 15 \<and>
   ((\<exists>r. osdp_sc_wrap_frame ex_crypto ex_session ex_sc_cmd 32 = Inr r) \<longleftrightarrow> fr_payload_len ex_sc_cmd \<le> 15)"
proof -
  have "sc_template_ok ex_sc_cmd" "0 < fr_payload_len ex_sc_cmd"
    "osdp_scb_is_encrypted (fr_scb_type ex_sc_cmd)" "osdp_sc_max_payload ex_sc_cmd 32 = Inr 15"
    by code_simp+
  then show ?thesis
    using sc_max_payload_exact [OF ex_crypto_ok ex_session_step(3,2,4)] by blast
qed

text \<open>For the shapes SCS_15 and SCS_16 the answer of \<open>osdp_sc_max_payload\<close> is out of reach: a
  non-empty payload of exactly that size never wraps, since \<open>osdp_sc_wrap_frame\<close> turns the frame
  into its encrypted variant, whose padding no longer fits.\<close>

theorem sc_max_payload_plain_unreachable:
  assumes "crypto_ok crypto" and "ss_established s" and "keys_ok (ss_keys s)"
    and "length (ss_last_inbound_mac s) = 16" and "sc_template_ok f" and "fr_payload_len f > 0"
    and "\<not> osdp_scb_is_encrypted (fr_scb_type f)"
    and "osdp_sc_max_payload f cap = Inr (fr_payload_len f)"
  shows "\<exists>e. osdp_sc_wrap_frame crypto s f cap = Inl e"
proof -
  define k where "k = min (cap - 1) 1440 - (sc_frame_len f - padded_len (fr_payload_len f))"
  note m = sc_max_payload_framed [OF assms(8,5,6), folded k_def]
  have "\<not> padded_len (fr_payload_len f) \<le> k"
    using padded_len_bounds(1) [of "fr_payload_len f"] m(2) assms(7) by simp
  then have "\<not> (\<exists>r. osdp_sc_wrap_frame crypto s f cap = Inr r)"
    unfolding wrap_succeeds_iff [OF assms(1-5)] m(1) .
  then show ?thesis
    by (metis sum.exhaust)
qed

theorem sc_max_payload_plain_unreachable_witness:
  "\<exists>e. osdp_sc_wrap_frame ex_crypto ex_session (ex_sc_cmd\<lparr>fr_scb_type := OSDP_SCS_15\<rparr>) 18 = Inl e"
proof -
  let ?f = "ex_sc_cmd\<lparr>fr_scb_type := OSDP_SCS_15\<rparr>"
  have "sc_template_ok ?f" by code_simp
  moreover have "0 < fr_payload_len ?f" by (simp add: ex_sc_cmd_def)
  moreover have "\<not> osdp_scb_is_encrypted (fr_scb_type ?f)" by (simp add: osdp_scb_is_encrypted_def)
  moreover have "osdp_sc_max_payload ?f 18 = Inr (fr_payload_len ?f)" by code_simp
  ultimately show ?thesis
    by (rule sc_max_payload_plain_unreachable [OF ex_crypto_ok ex_session_step(3,2,4)])
qed

end
