(* ===== verification/PD_State.thy ===== *)
theory PD_State
  imports Stream Commands Replies Multipart Reader_State SC_Wrap
begin

unbundle bit_operations_syntax

text \<open>
  The state of a peripheral device: \<^verbatim>\<open>pd/include/osdp/osdp_pd.h\<close> and the parts of
  \<^verbatim>\<open>pd/src/pd.c\<close> that configure it and size its replies.

  The callbacks of the application, the transport and the crypto vtable are arguments of the
  model: members of the context that are \<open>None\<close> where the code has NULL, and otherwise functions
  on an environment of the type parameter \<open>'w\<close>, which stands for everything the code reaches through
  its opaque \<open>user\<close> pointers. A callback reads and changes the environment, not the context. The four
  working regions are borrowed, disjoint storage: of \<open>tx\<close> and \<open>rx_plain\<close> only the capacity
  outlives an operation, of the two retransmit caches the contents do. \<open>reply_scratch\<close> holds a
  reply payload from the dispatch to the framing of the reply, so it is the payload of the reply here.
\<close>

section \<open>Callback and slot types\<close>

abbreviation (input) OSDP_PD_MAX_LEDS :: nat where "OSDP_PD_MAX_LEDS \<equiv> 8"
abbreviation (input) OSDP_PD_MAX_BUZZERS :: nat where "OSDP_PD_MAX_BUZZERS \<equiv> 4"
abbreviation (input) OSDP_PD_MAX_PDCAP_RECORDS :: nat where "OSDP_PD_MAX_PDCAP_RECORDS \<equiv> 13"
abbreviation (input) OSDP_PDCAP_RESERVED_COUNT :: nat where "OSDP_PDCAP_RESERVED_COUNT \<equiv> 3"
abbreviation (input) OSDP_PD_BUF_LEN :: nat where "OSDP_PD_BUF_LEN \<equiv> 512"
abbreviation (input) OSDP_PD_BUF_MIN_LEN :: nat where "OSDP_PD_BUF_MIN_LEN \<equiv> OSDP_FRAME_MIN_LEN_CRC"
abbreviation (input) OSDP_PD_REPLY_SCRATCH_LEN :: nat where "OSDP_PD_REPLY_SCRATCH_LEN \<equiv> 64"
abbreviation (input) OSDP_PD_DEFAULT_ACU_RX_SIZE :: u16 where "OSDP_PD_DEFAULT_ACU_RX_SIZE \<equiv> 128"
abbreviation (input) OSDP_PD_OFFLINE_TIMEOUT_MS :: u32 where "OSDP_PD_OFFLINE_TIMEOUT_MS \<equiv> 8000"
abbreviation (input) OSDP_PD_INTERCHAR_TIMEOUT_MS :: u32 where "OSDP_PD_INTERCHAR_TIMEOUT_MS \<equiv> 20"

record osdp_pd_reply =
  rp_code :: byte
  rp_payload :: bytes_ptr
  rp_payload_len :: nat

record 'w osdp_pd_transport =
  tr_read :: "('w \<Rightarrow> nat \<Rightarrow> int \<times> bytes \<times> 'w) option"
  tr_write :: "('w \<Rightarrow> bytes \<Rightarrow> int \<times> 'w) option"
  tr_now_ms :: "('w \<Rightarrow> u32 \<times> 'w) option"

record osdp_pd_file_info =
  fi_ft_type :: byte
  fi_total_size :: u32
  fi_offset :: u32
  fi_fragment :: bytes_ptr
  fi_fragment_len :: nat
  fi_data :: bytes_ptr
  fi_received :: u32
  fi_complete :: bool

record 'w osdp_pd_status_provider =
  sp_local :: "('w \<Rightarrow> byte \<Rightarrow> byte \<Rightarrow> byte \<times> byte \<times> 'w) option"
  sp_inputs :: "('w \<Rightarrow> nat \<Rightarrow> nat \<times> bytes \<times> 'w) option"
  sp_outputs :: "('w \<Rightarrow> nat \<Rightarrow> nat \<times> bytes \<times> 'w) option"
  sp_readers :: "('w \<Rightarrow> nat \<Rightarrow> nat \<times> bytes \<times> 'w) option"

record osdp_pd_led_slot =
  ls_used :: bool
  ls_reader_no :: byte
  ls_led_no :: byte
  ls_last_color :: byte
  ls_state :: osdp_led

record osdp_pd_buz_slot =
  bs_used :: bool
  bs_reader_no :: byte
  bs_last_sounding :: bool
  bs_state :: osdp_buz

record 'w osdp_pd_sc =
  sc_crypto :: "'w osdp_sc_crypto"
  sc_crypto_set :: bool
  sc_scbk :: bytes
  sc_scbk_set :: bool
  sc_scbk_d :: bytes
  sc_scbk_d_set :: bool
  sc_cuid :: bytes
  sc_cuid_set :: bool
  sc_session :: osdp_sc_session
  sc_got_chlng :: bool
  sc_rnd_a :: bytes
  sc_rnd_b :: bytes
  sc_key_selector :: byte

record osdp_pd_buffers =
  bf_tx :: bytes_ptr
  bf_tx_cap :: nat
  bf_rx_plain :: bytes_ptr
  bf_rx_plain_cap :: nat
  bf_rpl_cache :: bytes_ptr
  bf_rpl_cache_cap :: nat
  bf_cmd_cache :: bytes_ptr
  bf_cmd_cache_cap :: nat

section \<open>The context\<close>

record 'w osdp_pd =
  pd_address :: byte
  pd_rx :: osdp_stream
  pd_transport :: "'w osdp_pd_transport"
  pd_cmd_cb :: "('w \<Rightarrow> byte \<Rightarrow> bytes_ptr \<Rightarrow> nat \<Rightarrow> osdp_pd_reply \<Rightarrow> osdp_status \<times> osdp_pd_reply \<times> 'w) option"
  pd_last_reply_len :: nat
  pd_last_cmd_len :: nat
  pd_last_seq :: byte
  pd_have_last :: bool
  pd_tx_cap :: nat
  pd_rx_plain_cap :: nat
  pd_rpl_cache :: bytes
  pd_rpl_cache_cap :: nat
  pd_cmd_cache :: bytes
  pd_cmd_cache_cap :: nat
  pd_online :: bool
  pd_last_comm_ms :: u32
  pd_rx_partial_len :: nat
  pd_rx_partial_ms :: u32
  pd_sc :: "'w osdp_pd_sc"
  pd_leds :: "osdp_pd_led_slot list"
  pd_led_cb :: "('w \<Rightarrow> byte \<Rightarrow> byte \<Rightarrow> byte \<Rightarrow> 'w) option"
  pd_buzzers :: "osdp_pd_buz_slot list"
  pd_buzzer_cb :: "('w \<Rightarrow> byte \<Rightarrow> bool \<Rightarrow> byte \<Rightarrow> 'w) option"
  pd_comset_cb :: "('w \<Rightarrow> byte \<Rightarrow> u32 \<Rightarrow> byte \<Rightarrow> u32 \<Rightarrow> byte \<times> u32 \<times> 'w) option"
  pd_comset_applied_cb :: "('w \<Rightarrow> byte \<Rightarrow> u32 \<Rightarrow> 'w) option"
  pd_comset_pending :: bool
  pd_comset_new_address :: byte
  pd_comset_new_baud :: u32
  pd_file_buf :: bytes_ptr
  pd_file_cap :: nat
  pd_file_cb :: "('w \<Rightarrow> osdp_pd_file_info \<Rightarrow> osdp_status \<times> 'w) option"
  pd_ft_active :: bool
  pd_ft_type :: byte
  pd_ft_total :: u32
  pd_ft_received :: u32
  pd_status :: "'w osdp_pd_status_provider"
  pd_pdcap_records :: "osdp_pdcap_record list"
  pd_event_buf :: bytes_ptr
  pd_event_cap :: nat
  pd_event_len :: nat
  pd_acu_rx_size :: u16
  pd_acurxsize_cb :: "('w \<Rightarrow> u16 \<Rightarrow> 'w) option"
  pd_abort_cb :: "('w \<Rightarrow> osdp_status \<times> 'w) option"
  pd_keepactive_cb :: "('w \<Rightarrow> u16 \<Rightarrow> osdp_status \<times> 'w) option"
  pd_mfg_reasm :: osdp_mp_reasm
  pd_mfg_cb :: "('w \<Rightarrow> bytes \<Rightarrow> bytes \<Rightarrow> osdp_pd_reply \<Rightarrow> osdp_status \<times> osdp_pd_reply \<times> 'w) option"
  pd_mfg_vendor :: bytes
  pd_reply_cacheable :: bool

section \<open>Initialisation and configuration\<close>

definition zero_led_slot :: osdp_pd_led_slot where
  "zero_led_slot = \<lparr>ls_used = False, ls_reader_no = 0, ls_led_no = 0, ls_last_color = 0,
     ls_state = osdp_led_init\<rparr>"

definition zero_buz_slot :: osdp_pd_buz_slot where
  "zero_buz_slot = \<lparr>bs_used = False, bs_reader_no = 0, bs_last_sounding = False,
     bs_state = osdp_buz_init\<rparr>"

definition zero_pd_sc :: "'w osdp_pd_sc" where
  "zero_pd_sc =
     \<lparr>sc_crypto = \<lparr>aes128_ecb_encrypt = None, aes128_ecb_decrypt = None, rand_bytes = None\<rparr>,
      sc_crypto_set = False, sc_scbk = replicate 16 0, sc_scbk_set = False,
      sc_scbk_d = replicate 16 0, sc_scbk_d_set = False, sc_cuid = replicate 8 0,
      sc_cuid_set = False, sc_session = osdp_sc_session_init, sc_got_chlng = False,
      sc_rnd_a = replicate 8 0, sc_rnd_b = replicate 8 0, sc_key_selector = 0\<rparr>"

definition osdp_pd_init :: "byte \<Rightarrow> 'w osdp_pd" where
  "osdp_pd_init address =
     \<lparr>pd_address = address AND 0x7F,
      pd_rx = osdp_stream_init \<lparr>st_buffer = replicate OSDP_STREAM_BUFFER_LEN 0, st_fill = 0,
                               st_pending_consume = 0\<rparr>,
      pd_transport = \<lparr>tr_read = None, tr_write = None, tr_now_ms = None\<rparr>,
      pd_cmd_cb = None,
      pd_last_reply_len = 0, pd_last_cmd_len = 0, pd_last_seq = 0, pd_have_last = False,
      pd_tx_cap = OSDP_PD_BUF_LEN, pd_rx_plain_cap = OSDP_PD_BUF_LEN,
      pd_rpl_cache = replicate OSDP_PD_BUF_LEN 0, pd_rpl_cache_cap = OSDP_PD_BUF_LEN,
      pd_cmd_cache = replicate OSDP_PD_BUF_LEN 0, pd_cmd_cache_cap = OSDP_PD_BUF_LEN,
      pd_online = False, pd_last_comm_ms = 0, pd_rx_partial_len = 0, pd_rx_partial_ms = 0,
      pd_sc = zero_pd_sc,
      pd_leds = replicate OSDP_PD_MAX_LEDS zero_led_slot, pd_led_cb = None,
      pd_buzzers = replicate OSDP_PD_MAX_BUZZERS zero_buz_slot, pd_buzzer_cb = None,
      pd_comset_cb = None, pd_comset_applied_cb = None, pd_comset_pending = False,
      pd_comset_new_address = 0, pd_comset_new_baud = 0,
      pd_file_buf = None, pd_file_cap = 0, pd_file_cb = None,
      pd_ft_active = False, pd_ft_type = 0, pd_ft_total = 0, pd_ft_received = 0,
      pd_status = \<lparr>sp_local = None, sp_inputs = None, sp_outputs = None, sp_readers = None\<rparr>,
      pd_pdcap_records = [],
      pd_event_buf = None, pd_event_cap = 0, pd_event_len = 0,
      pd_acu_rx_size = OSDP_PD_DEFAULT_ACU_RX_SIZE, pd_acurxsize_cb = None,
      pd_abort_cb = None, pd_keepactive_cb = None,
      pd_mfg_reasm = osdp_mp_reasm_init None 0, pd_mfg_cb = None,
      pd_mfg_vendor = replicate 3 0, pd_reply_cacheable = False\<rparr>"

text \<open>A region the caller leaves NULL keeps its binding; all regions are validated first.\<close>

definition region_ok :: "bytes_ptr \<Rightarrow> nat \<Rightarrow> bool" where
  "region_ok p cap \<longleftrightarrow> \<not> (p \<noteq> None \<and> cap < OSDP_PD_BUF_MIN_LEN)"

definition osdp_pd_set_buffers :: "'w osdp_pd \<Rightarrow> osdp_pd_buffers \<Rightarrow> osdp_status \<times> 'w osdp_pd" where
  "osdp_pd_set_buffers pd bufs =
     (if \<not> (region_ok (bf_tx bufs) (bf_tx_cap bufs) \<and> region_ok (bf_rx_plain bufs) (bf_rx_plain_cap bufs) \<and>
            region_ok (bf_rpl_cache bufs) (bf_rpl_cache_cap bufs) \<and>
            region_ok (bf_cmd_cache bufs) (bf_cmd_cache_cap bufs))
      then (OSDP_ERR_BUFFER_TOO_SMALL, pd)
      else
        let pd1 = (case bf_tx bufs of None \<Rightarrow> pd | Some _ \<Rightarrow> pd\<lparr>pd_tx_cap := bf_tx_cap bufs\<rparr>);
            pd2 = (case bf_rx_plain bufs of
                     None \<Rightarrow> pd1 | Some _ \<Rightarrow> pd1\<lparr>pd_rx_plain_cap := bf_rx_plain_cap bufs\<rparr>);
            pd3 = (case bf_rpl_cache bufs of
                     None \<Rightarrow> pd2
                   | Some b \<Rightarrow> pd2\<lparr>pd_rpl_cache := b, pd_rpl_cache_cap := bf_rpl_cache_cap bufs,
                                   pd_last_reply_len := 0, pd_have_last := False\<rparr>);
            pd4 = (case bf_cmd_cache bufs of
                     None \<Rightarrow> pd3
                   | Some b \<Rightarrow> pd3\<lparr>pd_cmd_cache := b, pd_cmd_cache_cap := bf_cmd_cache_cap bufs,
                                   pd_last_cmd_len := 0, pd_have_last := False\<rparr>)
        in (OSDP_OK, pd4))"

definition osdp_pd_set_transport :: "'w osdp_pd \<Rightarrow> 'w osdp_pd_transport \<Rightarrow> 'w osdp_pd" where
  "osdp_pd_set_transport pd transport = pd\<lparr>pd_transport := transport\<rparr>"

definition osdp_pd_set_command_handler ::
  "'w osdp_pd
     \<Rightarrow> ('w \<Rightarrow> byte \<Rightarrow> bytes_ptr \<Rightarrow> nat \<Rightarrow> osdp_pd_reply \<Rightarrow> osdp_status \<times> osdp_pd_reply \<times> 'w) option
     \<Rightarrow> 'w osdp_pd" where
  "osdp_pd_set_command_handler pd cb = pd\<lparr>pd_cmd_cb := cb\<rparr>"

definition osdp_pd_set_led_handler ::
  "'w osdp_pd \<Rightarrow> ('w \<Rightarrow> byte \<Rightarrow> byte \<Rightarrow> byte \<Rightarrow> 'w) option \<Rightarrow> 'w osdp_pd" where
  "osdp_pd_set_led_handler pd cb = pd\<lparr>pd_led_cb := cb\<rparr>"

definition osdp_pd_set_buzzer_handler ::
  "'w osdp_pd \<Rightarrow> ('w \<Rightarrow> byte \<Rightarrow> bool \<Rightarrow> byte \<Rightarrow> 'w) option \<Rightarrow> 'w osdp_pd" where
  "osdp_pd_set_buzzer_handler pd cb = pd\<lparr>pd_buzzer_cb := cb\<rparr>"

definition osdp_pd_set_comset_handler ::
  "'w osdp_pd \<Rightarrow> ('w \<Rightarrow> byte \<Rightarrow> u32 \<Rightarrow> byte \<Rightarrow> u32 \<Rightarrow> byte \<times> u32 \<times> 'w) option
     \<Rightarrow> ('w \<Rightarrow> byte \<Rightarrow> u32 \<Rightarrow> 'w) option \<Rightarrow> 'w osdp_pd" where
  "osdp_pd_set_comset_handler pd decide applied =
     pd\<lparr>pd_comset_cb := decide, pd_comset_applied_cb := applied\<rparr>"

definition osdp_pd_set_abort_handler ::
  "'w osdp_pd \<Rightarrow> ('w \<Rightarrow> osdp_status \<times> 'w) option \<Rightarrow> 'w osdp_pd" where
  "osdp_pd_set_abort_handler pd cb = pd\<lparr>pd_abort_cb := cb\<rparr>"

definition osdp_pd_set_acurxsize_handler :: "'w osdp_pd \<Rightarrow> ('w \<Rightarrow> u16 \<Rightarrow> 'w) option \<Rightarrow> 'w osdp_pd" where
  "osdp_pd_set_acurxsize_handler pd cb = pd\<lparr>pd_acurxsize_cb := cb\<rparr>"

definition osdp_pd_set_keepactive_handler ::
  "'w osdp_pd \<Rightarrow> ('w \<Rightarrow> u16 \<Rightarrow> osdp_status \<times> 'w) option \<Rightarrow> 'w osdp_pd" where
  "osdp_pd_set_keepactive_handler pd cb = pd\<lparr>pd_keepactive_cb := cb\<rparr>"

definition osdp_pd_set_status_provider ::
  "'w osdp_pd \<Rightarrow> 'w osdp_pd_status_provider option \<Rightarrow> 'w osdp_pd" where
  "osdp_pd_set_status_provider pd p =
     pd\<lparr>pd_status := (case p of
          Some sp \<Rightarrow> sp
        | None \<Rightarrow> \<lparr>sp_local = None, sp_inputs = None, sp_outputs = None, sp_readers = None\<rparr>)\<rparr>"

definition osdp_pd_set_file_receiver ::
  "'w osdp_pd \<Rightarrow> bytes_ptr \<Rightarrow> nat \<Rightarrow> ('w \<Rightarrow> osdp_pd_file_info \<Rightarrow> osdp_status \<times> 'w) option \<Rightarrow> 'w osdp_pd" where
  "osdp_pd_set_file_receiver pd buf cap cb =
     pd\<lparr>pd_file_buf := buf, pd_file_cap := cap, pd_file_cb := cb,
        pd_ft_active := False, pd_ft_received := 0\<rparr>"

definition osdp_pd_set_file_stream ::
  "'w osdp_pd \<Rightarrow> ('w \<Rightarrow> osdp_pd_file_info \<Rightarrow> osdp_status \<times> 'w) option \<Rightarrow> 'w osdp_pd" where
  "osdp_pd_set_file_stream pd cb =
     pd\<lparr>pd_file_buf := None, pd_file_cap := 0, pd_file_cb := cb,
        pd_ft_active := False, pd_ft_received := 0\<rparr>"

definition osdp_pd_set_mfg_receiver ::
  "'w osdp_pd \<Rightarrow> bytes_ptr \<Rightarrow> nat
     \<Rightarrow> ('w \<Rightarrow> bytes \<Rightarrow> bytes \<Rightarrow> osdp_pd_reply \<Rightarrow> osdp_status \<times> osdp_pd_reply \<times> 'w) option \<Rightarrow> 'w osdp_pd" where
  "osdp_pd_set_mfg_receiver pd buf cap cb =
     pd\<lparr>pd_mfg_reasm := osdp_mp_reasm_init buf cap, pd_mfg_cb := cb, pd_mfg_vendor := replicate 3 0\<rparr>"

definition osdp_pd_set_sc_crypto :: "'w osdp_pd \<Rightarrow> 'w osdp_sc_crypto \<Rightarrow> 'w osdp_pd" where
  "osdp_pd_set_sc_crypto pd crypto =
     pd\<lparr>pd_sc := (pd_sc pd)\<lparr>sc_crypto := crypto, sc_crypto_set := True,
          sc_session := osdp_sc_session_init, sc_got_chlng := False\<rparr>\<rparr>"

definition osdp_pd_set_sc_scbk :: "'w osdp_pd \<Rightarrow> bytes \<Rightarrow> 'w osdp_pd" where
  "osdp_pd_set_sc_scbk pd scbk =
     pd\<lparr>pd_sc := (pd_sc pd)\<lparr>sc_scbk := take 16 scbk, sc_scbk_set := True\<rparr>\<rparr>"

definition osdp_pd_set_sc_scbk_d :: "'w osdp_pd \<Rightarrow> bytes \<Rightarrow> 'w osdp_pd" where
  "osdp_pd_set_sc_scbk_d pd scbk_d =
     pd\<lparr>pd_sc := (pd_sc pd)\<lparr>sc_scbk_d := take 16 scbk_d, sc_scbk_d_set := True\<rparr>\<rparr>"

definition osdp_pd_set_sc_cuid :: "'w osdp_pd \<Rightarrow> bytes \<Rightarrow> 'w osdp_pd" where
  "osdp_pd_set_sc_cuid pd cuid =
     pd\<lparr>pd_sc := (pd_sc pd)\<lparr>sc_cuid := take 8 cuid, sc_cuid_set := True\<rparr>\<rparr>"

definition osdp_pd_sc_established :: "'w osdp_pd \<Rightarrow> bool" where
  "osdp_pd_sc_established pd = ss_established (sc_session (pd_sc pd))"

definition osdp_pd_internal_sc_configured :: "'w osdp_pd \<Rightarrow> bool" where
  "osdp_pd_internal_sc_configured pd \<longleftrightarrow>
     (if \<not> sc_crypto_set (pd_sc pd) \<or> \<not> sc_cuid_set (pd_sc pd) then False
      else sc_scbk_set (pd_sc pd) \<or> sc_scbk_d_set (pd_sc pd))"

section \<open>Sizing of replies\<close>

definition max_payload_for_cap :: "'w osdp_pd \<Rightarrow> nat \<Rightarrow> nat" where
  "max_payload_for_cap pd cap =
     (let shape = zero_frame\<lparr>fr_address := pd_address pd, fr_reply := True,
                             fr_integrity := OSDP_INTEGRITY_CRC\<rparr>;
          r = (if ss_established (sc_session (pd_sc pd))
               then osdp_sc_max_payload
                      (shape\<lparr>fr_has_scb := True, fr_scb_length := 2, fr_scb_type := OSDP_SCS_18\<rparr>) cap
               else osdp_frame_max_payload shape cap)
      in case r of Inl _ \<Rightarrow> 0 | Inr m \<Rightarrow> m)"

definition osdp_pd_max_reply_payload :: "'w osdp_pd \<Rightarrow> nat" where
  "osdp_pd_max_reply_payload pd = max_payload_for_cap pd (pd_tx_cap pd)"

definition osdp_pd_max_fragment_payload :: "'w osdp_pd \<Rightarrow> nat" where
  "osdp_pd_max_fragment_payload pd =
     (let cap = (if unat (pd_acu_rx_size pd) < pd_tx_cap pd then unat (pd_acu_rx_size pd) else pd_tx_cap pd);
          m = max_payload_for_cap pd cap
      in if m \<le> OSDP_MP_HEADER_BYTES then 0 else m - OSDP_MP_HEADER_BYTES)"

section \<open>The clock\<close>

definition pd_now_ms :: "'w osdp_pd \<Rightarrow> 'w \<Rightarrow> u32 \<times> 'w" where
  "pd_now_ms pd w = (case tr_now_ms (pd_transport pd) of None \<Rightarrow> (0, w) | Some now_ms \<Rightarrow> now_ms w)"

section \<open>The configured sizes fit\<close>

lemma max_payload_for_cap_eq:
  "max_payload_for_cap pd cap =
     (let k = min (cap - 1) 1440 - (if osdp_pd_sc_established pd then 14 else 8)
      in if osdp_pd_sc_established pd then k div 16 * 16 - 1 else k)"
proof -
  let ?s = "zero_frame\<lparr>fr_address := pd_address pd, fr_reply := True, fr_integrity := OSDP_INTEGRITY_CRC\<rparr>"
  let ?t = "?s\<lparr>fr_has_scb := True, fr_scb_length := 2, fr_scb_type := OSDP_SCS_18\<rparr>"
  have o: "frame_overhead ?s = Inr (9, 8)" "frame_overhead ?t = Inr (15, 14)"
    by (simp_all add: frame_overhead_def frame_scb_total_def zero_frame_def Let_def integrity_size_def
        osdp_scb_mac_len_def)
  then have "\<exists>a. osdp_frame_max_payload ?s cap = Inr a" "\<exists>b. osdp_frame_max_payload ?t cap = Inr b"
    by (simp_all add: osdp_frame_max_payload_def Let_def)
  then obtain a b where ab: "osdp_frame_max_payload ?s cap = Inr a" "osdp_frame_max_payload ?t cap = Inr b"
    by blast
  have "a = min (cap - 1) 1440 - 8"
    using osdp_frame_max_payload_eq [OF ab(1)]
    by (simp add: frame_mac_needed_def integrity_size_def zero_frame_def)
  moreover have "b = min (cap - 1) 1440 - 14"
    using osdp_frame_max_payload_eq [OF ab(2)]
    by (simp add: frame_mac_needed_def integrity_size_def osdp_scb_mac_len_def)
  ultimately show ?thesis
    using ab by (auto simp: max_payload_for_cap_def osdp_pd_sc_established_def osdp_sc_max_payload_def
        osdp_scb_is_encrypted_def Let_def)
qed

end
