(* ===== verification/PD_Events.thy ===== *)
theory PD_Events
  imports PD_State
begin

unbundle bit_operations_syntax

text \<open>
  The poll-response event queue of \<^verbatim>\<open>pd/src/pd.c\<close>: length-prefixed records packed from offset 0 of
  caller-owned storage, compacted on dequeue. The lemmas relate the buffer to the list of events it
  holds; the locale \<open>event_fifo\<close> states the queue the application sees.
\<close>

section \<open>The poll-response event queue\<close>

abbreviation (input) EVENT_HEADER_BYTES :: nat where "EVENT_HEADER_BYTES \<equiv> 3"

definition osdp_pd_set_event_queue :: "'w osdp_pd \<Rightarrow> bytes_ptr \<Rightarrow> nat \<Rightarrow> 'w osdp_pd" where
  "osdp_pd_set_event_queue pd buf cap =
     pd\<lparr>pd_event_buf := buf, pd_event_cap := (if buf \<noteq> None then cap else 0), pd_event_len := 0\<rparr>"

definition osdp_pd_clear_events :: "'w osdp_pd \<Rightarrow> 'w osdp_pd" where
  "osdp_pd_clear_events pd = pd\<lparr>pd_event_len := 0\<rparr>"

definition osdp_pd_event_pending :: "'w osdp_pd \<Rightarrow> bool" where
  "osdp_pd_event_pending pd \<longleftrightarrow> pd_event_len pd > 0"

definition osdp_pd_enqueue_event ::
  "'w osdp_pd \<Rightarrow> byte \<Rightarrow> bytes_ptr \<Rightarrow> nat \<Rightarrow> osdp_status \<times> 'w osdp_pd" where
  "osdp_pd_enqueue_event pd reply_code payload len =
     (case pd_event_buf pd of
        None \<Rightarrow> (OSDP_ERR_INVALID_ARG, pd)
      | Some buf \<Rightarrow>
          if len > 0 \<and> payload = None then (OSDP_ERR_INVALID_ARG, pd)
          else if len > 0xFFFF then (OSDP_ERR_INVALID_ARG, pd)
          else
            let need = EVENT_HEADER_BYTES + len in
            if need > pd_event_cap pd - pd_event_len pd then (OSDP_ERR_BUFFER_TOO_SMALL, pd)
            else
              (OSDP_OK,
               pd\<lparr>pd_event_buf := Some (mp_store buf (pd_event_len pd)
                     ([word_of_nat (len AND 0xFF), word_of_nat (drop_bit 8 len AND 0xFF), reply_code]
                      @ ptr_bytes payload len)),
                  pd_event_len := pd_event_len pd + need\<rparr>))"

text \<open>What \<open>memmove\<close> leaves of the queue when the first \<open>n\<close> of its bytes go.\<close>

definition event_compact :: "bytes \<Rightarrow> nat \<Rightarrow> nat \<Rightarrow> bytes" where
  "event_compact buf n len = mp_store buf 0 (take (len - n) (drop n buf))"

definition osdp_pd_internal_dequeue_event :: "'w osdp_pd \<Rightarrow> osdp_pd_reply option \<times> 'w osdp_pd" where
  "osdp_pd_internal_dequeue_event pd =
     (case pd_event_buf pd of
        None \<Rightarrow> (None, pd)
      | Some buf \<Rightarrow>
          if pd_event_len pd < EVENT_HEADER_BYTES then (None, pd)
          else
            let len = unat (buf ! 0) OR push_bit 8 (unat (buf ! 1));
                code = buf ! 2;
                rec_len = EVENT_HEADER_BYTES + len
            in
            if rec_len > pd_event_len pd then (None, pd\<lparr>pd_event_len := 0\<rparr>)
            else
              let pd' = pd\<lparr>pd_event_buf := Some (event_compact buf rec_len (pd_event_len pd)),
                           pd_event_len := pd_event_len pd - rec_len\<rparr>
              in
              if len > OSDP_PD_REPLY_SCRATCH_LEN then (None, pd')
              else
                (Some \<lparr>rp_code = code,
                       rp_payload = (if len > 0 then Some (take len (drop EVENT_HEADER_BYTES buf)) else None),
                       rp_payload_len = len\<rparr>,
                 pd'))"

section \<open>The list of events behind the buffer\<close>

type_synonym event = "byte \<times> bytes"

definition event_bytes :: "event \<Rightarrow> bytes" where
  "event_bytes e = osdp_pack_write_u16le (word_of_nat (length (snd e))) @ fst e # snd e"

definition events_held :: "'w osdp_pd \<Rightarrow> event list \<Rightarrow> bool" where
  "events_held pd q \<longleftrightarrow>
     (\<exists>buf. pd_event_buf pd = Some buf \<and> pd_event_cap pd \<le> length buf \<and>
        pd_event_len pd \<le> pd_event_cap pd \<and>
        take (pd_event_len pd) buf = concat (map event_bytes q) \<and>
        list_all (\<lambda>e. length (snd e) \<le> 0xFFFF) q)"

text \<open>The reply an event becomes.\<close>

definition event_reply :: "event \<Rightarrow> osdp_pd_reply" where
  "event_reply e = \<lparr>rp_code = fst e, rp_payload = ptr_of (snd e), rp_payload_len = length (snd e)\<rparr>"

lemma length_event_bytes [simp]: "length (event_bytes e) = 3 + length (snd e)"
  by (simp add: event_bytes_def)

lemma event_len_field:
  "unat (a :: byte) OR push_bit 8 (unat (b :: byte)) = unat (osdp_pack_read_u16le [a, b])"
proof (rule bit_eqI)
  fix n
  show "bit (unat a OR push_bit 8 (unat b)) n = bit (unat (osdp_pack_read_u16le [a, b])) n"
    using bit_imp_le_length [of a n] bit_imp_le_length [of b "n - 8"]
    by (auto simp: osdp_pack_read_u16le_def bit_unsigned_iff bit_or_iff bit_push_bit_iff bit_ucast_iff)
qed

lemma mp_store_take:
  assumes "n + length d \<le> length buf"
  shows "take (n + length d) (mp_store buf n d) = take n buf @ d" "length (mp_store buf n d) = length buf"
  using assms by (simp_all add: mp_store_def)

lemma enqueue_held:
  assumes "events_held pd q" "osdp_pd_enqueue_event pd c (ptr_of p) (length p) = (OSDP_OK, pd')"
  shows "events_held pd' (q @ [(c, p)])"
proof -
  obtain buf where b: "pd_event_buf pd = Some buf" "pd_event_cap pd \<le> length buf"
    "pd_event_len pd \<le> pd_event_cap pd" "take (pd_event_len pd) buf = concat (map event_bytes q)"
    "list_all (\<lambda>e. length (snd e) \<le> 0xFFFF) q"
    using assms(1) by (auto simp: events_held_def)
  let ?d = "event_bytes (c, p)"
  have d: "[word_of_nat (length p AND 0xFF), word_of_nat (drop_bit 8 (length p) AND 0xFF), c]
      @ ptr_bytes (ptr_of p) (length p) = ?d"
    by (simp add: event_bytes_def flip: len_field_bytes)
  have e: "length p \<le> 0xFFFF" "3 + length p \<le> pd_event_cap pd - pd_event_len pd"
    "pd' = pd\<lparr>pd_event_buf := Some (mp_store buf (pd_event_len pd) ?d),
             pd_event_len := pd_event_len pd + (3 + length p)\<rparr>"
    using assms(2) b(1) unfolding osdp_pd_enqueue_event_def d
    by (auto simp: Let_def split: if_splits)
  have "pd_event_len pd + length ?d \<le> length buf"
    using e(2) b(2,3) by simp
  note st = mp_store_take [OF this]
  show ?thesis
    using b st e by (auto simp: events_held_def)
qed

lemma dequeue_held:
  assumes "events_held pd ((c, p) # q)"
  shows "fst (osdp_pd_internal_dequeue_event pd)
      = (if length p > OSDP_PD_REPLY_SCRATCH_LEN then None else Some (event_reply (c, p)))"
    and "events_held (snd (osdp_pd_internal_dequeue_event pd)) q"
proof -
  obtain buf where b: "pd_event_buf pd = Some buf" "pd_event_cap pd \<le> length buf"
    "pd_event_len pd \<le> pd_event_cap pd" "take (pd_event_len pd) buf = event_bytes (c, p) @ concat (map event_bytes q)"
    "length p \<le> 0xFFFF" "list_all (\<lambda>e. length (snd e) \<le> 0xFFFF) q"
    using assms by (auto simp: events_held_def)
  obtain rest where buf: "buf = event_bytes (c, p) @ concat (map event_bytes q) @ rest"
    using b(4) append_take_drop_id [of "pd_event_len pd" buf] by (metis append.assoc)
  let ?n = "length (concat (map event_bytes q))"
  have len: "pd_event_len pd = 3 + length p + ?n"
    using arg_cong [OF b(4), of length] b(2,3) by simp
  obtain l h where lh: "osdp_pack_write_u16le (word_of_nat (length p)) = [l, h]"
    by (simp add: osdp_pack_write_u16le_def)
  have head: "buf ! 0 = l" "buf ! 1 = h" "buf ! 2 = c"
    by (simp_all add: buf event_bytes_def lh)
  have "unat l OR push_bit 8 (unat h) = length p"
    using b(5) lh read_write_u16le_nil [of "word_of_nat (length p)"]
    by (simp add: event_len_field unat_of_nat_u16)
  moreover have "take (length p) (drop 3 buf) = p"
    by (simp add: buf event_bytes_def lh)
  moreover have "event_compact buf (3 + length p) (3 + length p + ?n)
      = concat (map event_bytes q) @ drop ?n buf"
    by (simp add: event_compact_def mp_store_def buf)
  ultimately have d: "osdp_pd_internal_dequeue_event pd =
     (if length p > 64 then None else Some (event_reply (c, p)),
      pd\<lparr>pd_event_buf := Some (concat (map event_bytes q) @ drop ?n buf), pd_event_len := ?n\<rparr>)"
    using b(1) head
    by (auto simp: osdp_pd_internal_dequeue_event_def len Let_def event_reply_def ptr_of_def)
  show "fst (osdp_pd_internal_dequeue_event pd) = (if length p > 64 then None else Some (event_reply (c, p)))"
    by (simp add: d)
  show "events_held (snd (osdp_pd_internal_dequeue_event pd)) q"
    using b(2,3,6) len by (simp add: d events_held_def)
qed

lemma dequeue_empty:
  assumes "events_held pd []"
  shows "osdp_pd_internal_dequeue_event pd = (None, pd)"
  using assms by (auto simp: events_held_def osdp_pd_internal_dequeue_event_def)

section \<open>The queue as an interface\<close>

text \<open>Put a list of events, stopping at the first refusal; get a number of times.\<close>

fun put_all :: "('s \<Rightarrow> 'e \<Rightarrow> osdp_status \<times> 's) \<Rightarrow> 's \<Rightarrow> 'e list \<Rightarrow> 's option" where
  "put_all put s [] = Some s"
| "put_all put s (e # es) =
     (case put s e of (r, s') \<Rightarrow> if r = OSDP_OK then put_all put s' es else None)"

fun get_many :: "('s \<Rightarrow> 'r \<times> 's) \<Rightarrow> 's \<Rightarrow> nat \<Rightarrow> 'r list" where
  "get_many get s 0 = []"
| "get_many get s (Suc n) = fst (get s) # get_many get (snd (get s)) n"

locale event_fifo =
  fixes held :: "'s \<Rightarrow> 'e list \<Rightarrow> bool"
    and put :: "'s \<Rightarrow> 'e \<Rightarrow> osdp_status \<times> 's"
    and get :: "'s \<Rightarrow> 'r \<times> 's"
    and answer :: "'e \<Rightarrow> 'r"
    and nothing :: 'r
  assumes put_ok: "held s q \<Longrightarrow> put s e = (OSDP_OK, s') \<Longrightarrow> held s' (q @ [e])"
    and put_refused: "put s e = (r, s') \<Longrightarrow> r \<noteq> OSDP_OK \<Longrightarrow> s' = s"
    and get_head: "held s (e # q) \<Longrightarrow> fst (get s) = answer e \<and> held (snd (get s)) q"
    and get_empty: "held s [] \<Longrightarrow> get s = (nothing, s)"
begin

lemma put_all_held: "held s q \<Longrightarrow> put_all put s es = Some s' \<Longrightarrow> held s' (q @ es)"
proof (induction es arbitrary: s q)
  case (Cons e es)
  then obtain s1 where "put s e = (OSDP_OK, s1)" "put_all put s1 es = Some s'"
    by (auto split: prod.splits if_splits)
  with Cons.IH [OF put_ok [OF Cons.prems(1)]] show ?case by fastforce
qed simp

lemma get_many_held:
  "held s q \<Longrightarrow> get_many get s (length q + n) = map answer q @ replicate n nothing"
proof (induction q arbitrary: s)
  case Nil
  have "get s = (nothing, s)" using get_empty [OF Nil] .
  then show ?case by (induction n) simp_all
next
  case (Cons e q)
  with get_head [OF Cons.prems] show ?case by simp
qed

lemma fifo:
  "held s [] \<Longrightarrow> put_all put s es = Some s' \<Longrightarrow>
     get_many get s' (length es + n) = map answer es @ replicate n nothing"
  using put_all_held [of s "[]" es s'] get_many_held [of s' es n] by simp

end

definition pd_put_event :: "'w osdp_pd \<Rightarrow> event \<Rightarrow> osdp_status \<times> 'w osdp_pd" where
  "pd_put_event pd e = osdp_pd_enqueue_event pd (fst e) (ptr_of (snd e)) (length (snd e))"

definition pd_event_answer :: "event \<Rightarrow> osdp_pd_reply option" where
  "pd_event_answer e = (if length (snd e) > OSDP_PD_REPLY_SCRATCH_LEN then None else Some (event_reply e))"

interpretation ev: event_fifo events_held pd_put_event osdp_pd_internal_dequeue_event pd_event_answer None
proof (unfold_locales, goal_cases)
  case (1 s q e s')
  then show ?case
    using enqueue_held [of s q "fst e" "snd e" s'] by (simp add: pd_put_event_def)
next
  case (2 s e r s')
  then show ?case
    by (auto simp: pd_put_event_def osdp_pd_enqueue_event_def Let_def split: option.splits if_splits)
next
  case (3 s e q)
  then show ?case
    using dequeue_held [of s "fst e" "snd e" q] by (simp add: pd_event_answer_def)
next
  case (4 s)
  then show ?case by (rule dequeue_empty)
qed

section \<open>Properties\<close>

text \<open>C30. The event queue is first-in first-out: events accepted into a freshly bound queue answer the
  following polls in the order they were queued, each with its own reply code and payload, and
  after them the queue is empty. An event whose payload exceeds the reply scratch is accepted all
  the same, and its poll finds nothing.\<close>

theorem pd_event_queue_fifo:
  assumes "cap \<le> length buf"
    and "put_all pd_put_event (osdp_pd_set_event_queue pd (Some buf) cap) es = Some pd'"
  shows "get_many osdp_pd_internal_dequeue_event pd' (length es + n)
     = map (\<lambda>e. if length (snd e) > OSDP_PD_REPLY_SCRATCH_LEN then None
                else Some \<lparr>rp_code = fst e, rp_payload = ptr_of (snd e), rp_payload_len = length (snd e)\<rparr>) es
       @ replicate n None"
proof -
  have "events_held (osdp_pd_set_event_queue pd (Some buf) cap) []"
    using assms(1) by (simp add: events_held_def osdp_pd_set_event_queue_def)
  from ev.fifo [OF this assms(2), of n] show ?thesis
    by (simp add: pd_event_answer_def event_reply_def)
qed

theorem pd_event_queue_fifo_witness:
  "\<exists>pd'. put_all pd_put_event (osdp_pd_set_event_queue (osdp_pd_init 5 :: unit osdp_pd) (Some (replicate 100 0)) 100)
       [(0x50, [1, 2]), (0x53, replicate 70 9)] = Some pd' \<and>
     get_many osdp_pd_internal_dequeue_event pd' (length [(0x50 :: byte, [1 :: byte, 2]), (0x53, replicate 70 9)] + 1)
       = [Some \<lparr>rp_code = 0x50, rp_payload = Some [1, 2], rp_payload_len = 2\<rparr>, None, None]"
proof -
  let ?s = "osdp_pd_set_event_queue (osdp_pd_init 5 :: unit osdp_pd) (Some (replicate 100 0)) 100"
  let ?es = "[(0x50 :: byte, [1 :: byte, 2]), (0x53, replicate 70 9)]"
  have "put_all pd_put_event ?s ?es \<noteq> None"
    by (simp add: pd_put_event_def osdp_pd_enqueue_event_def osdp_pd_set_event_queue_def ptr_of_def Let_def)
  then obtain pd' where p: "put_all pd_put_event ?s ?es = Some pd'"
    by blast
  have "get_many osdp_pd_internal_dequeue_event pd' (length ?es + 1)
      = map (\<lambda>e. if length (snd e) > OSDP_PD_REPLY_SCRATCH_LEN then None
                else Some \<lparr>rp_code = fst e, rp_payload = ptr_of (snd e), rp_payload_len = length (snd e)\<rparr>) ?es
        @ replicate 1 None"
    by (rule pd_event_queue_fifo [OF _ p]) simp
  with p show ?thesis
    by (auto simp: ptr_of_def)
qed

end
