(* ===== verification/PD_Reader.thy ===== *)
theory PD_Reader
  imports PD_State
begin

text \<open>
  The reader LED and buzzer banks of \<^verbatim>\<open>pd/src/pd.c\<close>: fixed arrays of slots, claimed on first
  sighting, that follow \<open>osdp_LED\<close> and \<open>osdp_BUZ\<close> and report changes through the application's callbacks.
  Both arrays refine a finite map from LED or reader numbers to states; the locale \<open>slot_bank\<close>
  states this once for both.
\<close>

section \<open>Slots\<close>

fun first_index :: "('a \<Rightarrow> bool) \<Rightarrow> 'a list \<Rightarrow> nat option" where
  "first_index P [] = None"
| "first_index P (x # xs) = (if P x then Some 0 else map_option Suc (first_index P xs))"

definition pd_led_slot_find :: "'w osdp_pd \<Rightarrow> byte \<Rightarrow> byte \<Rightarrow> nat option" where
  "pd_led_slot_find pd reader_no led_no =
     first_index (\<lambda>s. ls_used s \<and> ls_reader_no s = reader_no \<and> ls_led_no s = led_no) (pd_leds pd)"

definition pd_led_slots_free :: "'w osdp_pd \<Rightarrow> nat" where
  "pd_led_slots_free pd = length (filter (\<lambda>s. \<not> ls_used s) (pd_leds pd))"

definition pd_led_slot :: "'w osdp_pd \<Rightarrow> byte \<Rightarrow> byte \<Rightarrow> nat option \<times> 'w osdp_pd" where
  "pd_led_slot pd reader_no led_no =
     (case pd_led_slot_find pd reader_no led_no of
        Some i \<Rightarrow> (Some i, pd)
      | None \<Rightarrow>
          (case first_index (\<lambda>s. \<not> ls_used s) (pd_leds pd) of
             Some i \<Rightarrow>
               (Some i, pd\<lparr>pd_leds := (pd_leds pd)[i := \<lparr>ls_used = True, ls_reader_no = reader_no,
                  ls_led_no = led_no, ls_last_color = OSDP_LED_BLACK, ls_state = osdp_led_init\<rparr>]\<rparr>)
           | None \<Rightarrow> (None, pd)))"

fun led_refresh_slots ::
  "('w \<Rightarrow> byte \<Rightarrow> byte \<Rightarrow> byte \<Rightarrow> 'w) \<Rightarrow> u32 \<Rightarrow> osdp_pd_led_slot list \<Rightarrow> 'w \<Rightarrow> osdp_pd_led_slot list \<times> 'w" where
  "led_refresh_slots cb now [] w = ([], w)"
| "led_refresh_slots cb now (s # ss) w =
     (if \<not> ls_used s then let (ss', w') = led_refresh_slots cb now ss w in (s # ss', w')
      else
        let color = osdp_led_color (ls_state s) now in
        if color \<noteq> ls_last_color s then
          let (ss', w') = led_refresh_slots cb now ss (cb w (ls_reader_no s) (ls_led_no s) color)
          in (s\<lparr>ls_last_color := color\<rparr> # ss', w')
        else let (ss', w') = led_refresh_slots cb now ss w in (s # ss', w'))"

definition pd_led_refresh :: "'w osdp_pd \<Rightarrow> u32 \<Rightarrow> 'w \<Rightarrow> 'w osdp_pd \<times> 'w" where
  "pd_led_refresh pd now w =
     (case pd_led_cb pd of
        None \<Rightarrow> (pd, w)
      | Some cb \<Rightarrow> let (ss, w') = led_refresh_slots cb now (pd_leds pd) w in (pd\<lparr>pd_leds := ss\<rparr>, w'))"

text \<open>One pass looks for the reader's slot and remembers the first free one.\<close>

fun buz_scan :: "byte \<Rightarrow> nat \<Rightarrow> nat option \<Rightarrow> osdp_pd_buz_slot list \<Rightarrow> nat option \<times> nat option" where
  "buz_scan reader_no i free_slot [] = (None, free_slot)"
| "buz_scan reader_no i free_slot (s # ss) =
     (if bs_used s \<and> bs_reader_no s = reader_no then (Some i, free_slot)
      else buz_scan reader_no (i + 1) (if \<not> bs_used s \<and> free_slot = None then Some i else free_slot) ss)"

definition pd_buz_slot :: "'w osdp_pd \<Rightarrow> byte \<Rightarrow> nat option \<times> 'w osdp_pd" where
  "pd_buz_slot pd reader_no =
     (case buz_scan reader_no 0 None (pd_buzzers pd) of
        (Some i, _) \<Rightarrow> (Some i, pd)
      | (None, None) \<Rightarrow> (None, pd)
      | (None, Some i) \<Rightarrow>
          (Some i, pd\<lparr>pd_buzzers := (pd_buzzers pd)[i := \<lparr>bs_used = True, bs_reader_no = reader_no,
             bs_last_sounding = False, bs_state = osdp_buz_init\<rparr>]\<rparr>))"

fun buz_refresh_slots ::
  "('w \<Rightarrow> byte \<Rightarrow> bool \<Rightarrow> byte \<Rightarrow> 'w) \<Rightarrow> u32 \<Rightarrow> osdp_pd_buz_slot list \<Rightarrow> 'w \<Rightarrow> osdp_pd_buz_slot list \<times> 'w" where
  "buz_refresh_slots cb now [] w = ([], w)"
| "buz_refresh_slots cb now (s # ss) w =
     (if \<not> bs_used s then let (ss', w') = buz_refresh_slots cb now ss w in (s # ss', w')
      else
        let sounding = osdp_buz_sounding (bs_state s) now in
        if sounding \<noteq> bs_last_sounding s then
          let (ss', w') = buz_refresh_slots cb now ss (cb w (bs_reader_no s) sounding (bu_tone (bs_state s)))
          in (s\<lparr>bs_last_sounding := sounding\<rparr> # ss', w')
        else let (ss', w') = buz_refresh_slots cb now ss w in (s # ss', w'))"

definition pd_buz_refresh :: "'w osdp_pd \<Rightarrow> u32 \<Rightarrow> 'w \<Rightarrow> 'w osdp_pd \<times> 'w" where
  "pd_buz_refresh pd now w =
     (case pd_buzzer_cb pd of
        None \<Rightarrow> (pd, w)
      | Some cb \<Rightarrow> let (ss, w') = buz_refresh_slots cb now (pd_buzzers pd) w in (pd\<lparr>pd_buzzers := ss\<rparr>, w'))"

section \<open>Observed commands\<close>

definition osdp_pd_internal_is_observed_command :: "byte \<Rightarrow> bool" where
  "osdp_pd_internal_is_observed_command cmd_code \<longleftrightarrow> cmd_code = OSDP_CMD_LED \<or> cmd_code = OSDP_CMD_BUZ"

definition pd_led_record_at :: "bytes \<Rightarrow> nat \<Rightarrow> osdp_led_record result" where
  "pd_led_record_at payload index =
     (case osdp_led_decode (Some (drop (index * OSDP_LED_RECORD_BYTES) payload)) OSDP_LED_RECORD_BYTES 1 of
        Inl e \<Rightarrow> Inl e | Inr rs \<Rightarrow> Inr (rs ! 0))"

definition led_seen_earlier :: "bytes \<Rightarrow> nat \<Rightarrow> osdp_led_record \<Rightarrow> bool" where
  "led_seen_earlier payload i rec =
     list_ex (\<lambda>j. case pd_led_record_at payload j of
                     Inl _ \<Rightarrow> False
                   | Inr prev \<Rightarrow> lr_reader_no prev = lr_reader_no rec \<and> lr_led_no prev = lr_led_no rec) [0..<i]"

fun led_fit_loop :: "'w osdp_pd \<Rightarrow> bytes \<Rightarrow> nat list \<Rightarrow> nat \<Rightarrow> nat option" where
  "led_fit_loop pd payload [] needed = Some needed"
| "led_fit_loop pd payload (i # is) needed =
     (case pd_led_record_at payload i of
        Inl _ \<Rightarrow> None
      | Inr rec \<Rightarrow>
          if pd_led_slot_find pd (lr_reader_no rec) (lr_led_no rec) \<noteq> None then led_fit_loop pd payload is needed
          else if led_seen_earlier payload i rec then led_fit_loop pd payload is needed
          else led_fit_loop pd payload is (needed + 1))"

definition pd_led_bank_can_fit :: "'w osdp_pd \<Rightarrow> bytes \<Rightarrow> nat \<Rightarrow> bool" where
  "pd_led_bank_can_fit pd payload count =
     (case led_fit_loop pd payload [0..<count] 0 of
        None \<Rightarrow> False | Some needed \<Rightarrow> needed \<le> pd_led_slots_free pd)"

fun led_apply_loop :: "'w osdp_pd \<Rightarrow> bytes \<Rightarrow> u32 \<Rightarrow> nat list \<Rightarrow> osdp_status \<times> 'w osdp_pd" where
  "led_apply_loop pd payload now [] = (OSDP_OK, pd)"
| "led_apply_loop pd payload now (i # is) =
     (case pd_led_record_at payload i of
        Inl _ \<Rightarrow> (OSDP_ERR_BAD_PAYLOAD, pd)
      | Inr rec \<Rightarrow>
          (case pd_led_slot pd (lr_reader_no rec) (lr_led_no rec) of
             (None, pd') \<Rightarrow> (OSDP_ERR_INVALID_ARG, pd')
           | (Some k, pd') \<Rightarrow>
               led_apply_loop
                 (pd'\<lparr>pd_leds := (pd_leds pd')[k := (pd_leds pd' ! k)
                     \<lparr>ls_state := osdp_led_apply (ls_state (pd_leds pd' ! k)) rec now\<rparr>]\<rparr>)
                 payload now is))"

definition osdp_pd_internal_observe_command ::
  "'w osdp_pd \<Rightarrow> 'w \<Rightarrow> byte \<Rightarrow> bytes_ptr \<Rightarrow> nat \<Rightarrow> osdp_status \<times> 'w osdp_pd \<times> 'w" where
  "osdp_pd_internal_observe_command pd w cmd_code payload payload_len =
     (if \<not> osdp_pd_internal_is_observed_command cmd_code then (OSDP_ERR_NOT_SUPPORTED, pd, w)
      else if cmd_code = OSDP_CMD_LED then
        if payload = None \<or> payload_len = 0 \<or> payload_len mod OSDP_LED_RECORD_BYTES \<noteq> 0
        then (OSDP_ERR_BAD_PAYLOAD, pd, w)
        else
          let count = payload_len div OSDP_LED_RECORD_BYTES in
          if \<not> pd_led_bank_can_fit pd (the payload) count then (OSDP_ERR_INVALID_ARG, pd, w)
          else
            let (now, w1) = pd_now_ms pd w in
            (case led_apply_loop pd (the payload) now [0..<count] of
               (s, pd1) \<Rightarrow>
                 if s \<noteq> OSDP_OK then (s, pd1, w1)
                 else let (pd2, w2) = pd_led_refresh pd1 now w1 in (OSDP_OK, pd2, w2))
      else if cmd_code = OSDP_CMD_BUZ then
        (case osdp_buz_decode payload payload_len of
           Inl _ \<Rightarrow> (OSDP_ERR_BAD_PAYLOAD, pd, w)
         | Inr buz \<Rightarrow>
             let (now, w1) = pd_now_ms pd w in
             (case pd_buz_slot pd (bz_reader_no buz) of
                (None, pd1) \<Rightarrow> (OSDP_ERR_INVALID_ARG, pd1, w1)
              | (Some k, pd1) \<Rightarrow>
                  let pd2 = pd1\<lparr>pd_buzzers := (pd_buzzers pd1)[k := (pd_buzzers pd1 ! k)
                                 \<lparr>bs_state := osdp_buz_apply (bs_state (pd_buzzers pd1 ! k)) buz now\<rparr>]\<rparr>;
                      (pd3, w2) = pd_buz_refresh pd2 now w1
                  in (OSDP_OK, pd3, w2)))
      else (OSDP_ERR_NOT_SUPPORTED, pd, w))"

section \<open>Queries of the application\<close>

definition osdp_pd_buzzer_sounding :: "'w osdp_pd \<Rightarrow> byte \<Rightarrow> 'w \<Rightarrow> bool \<times> 'w" where
  "osdp_pd_buzzer_sounding pd reader_no w =
     (let (now, w') = pd_now_ms pd w in
      (case first_index (\<lambda>s. bs_used s \<and> bs_reader_no s = reader_no) (pd_buzzers pd) of
         Some i \<Rightarrow> osdp_buz_sounding (bs_state (pd_buzzers pd ! i)) now
       | None \<Rightarrow> False, w'))"

definition osdp_pd_led_color :: "'w osdp_pd \<Rightarrow> byte \<Rightarrow> byte \<Rightarrow> 'w \<Rightarrow> byte \<times> 'w" where
  "osdp_pd_led_color pd reader_no led_no w =
     (let (now, w') = pd_now_ms pd w in
      (case first_index (\<lambda>s. ls_used s \<and> ls_reader_no s = reader_no \<and> ls_led_no s = led_no) (pd_leds pd) of
         Some i \<Rightarrow> osdp_led_color (ls_state (pd_leds pd ! i)) now
       | None \<Rightarrow> OSDP_LED_BLACK, w'))"

section \<open>A bank of slots as a finite map\<close>

definition bank_of :: "('s \<Rightarrow> bool) \<Rightarrow> ('s \<Rightarrow> 'k) \<Rightarrow> ('s \<Rightarrow> 'v) \<Rightarrow> 's list \<Rightarrow> 'k \<Rightarrow> 'v option" where
  "bank_of used key st slots = map_of (map (\<lambda>s. (key s, st s)) (filter used slots))"

definition free_of :: "('s \<Rightarrow> bool) \<Rightarrow> 's list \<Rightarrow> nat" where
  "free_of used slots = length (filter (\<lambda>s. \<not> used s) slots)"

text \<open>Find the slot of a key, or overwrite the first free one.\<close>

definition claim_slot :: "('s \<Rightarrow> bool) \<Rightarrow> ('s \<Rightarrow> 'k) \<Rightarrow> ('k \<Rightarrow> 's) \<Rightarrow> 's list \<Rightarrow> 'k \<Rightarrow> nat option \<times> 's list" where
  "claim_slot used key fresh slots k =
     (case first_index (\<lambda>s. used s \<and> key s = k) slots of
        Some i \<Rightarrow> (Some i, slots)
      | None \<Rightarrow>
          (case first_index (\<lambda>s. \<not> used s) slots of
             Some i \<Rightarrow> (Some i, slots[i := fresh k])
           | None \<Rightarrow> (None, slots)))"

lemma first_index_SomeD: "first_index P xs = Some i \<Longrightarrow> i < length xs \<and> P (xs ! i)"
  by (induction xs arbitrary: i) (auto split: if_splits)

lemma first_index_None: "first_index P xs = None \<longleftrightarrow> (\<forall>x \<in> set xs. \<not> P x)"
  by (induction xs) auto

locale slot_bank =
  fixes used :: "'s \<Rightarrow> bool" and key :: "'s \<Rightarrow> 'k" and st :: "'s \<Rightarrow> 'v"
    and put :: "'s \<Rightarrow> 'v \<Rightarrow> 's" and fresh :: "'k \<Rightarrow> 's" and start :: 'v
  assumes fresh_slot: "used (fresh k)" "key (fresh k) = k" "st (fresh k) = start"
    and put_slot: "used (put s v) = used s" "key (put s v) = key s" "st (put s v) = v"
begin

lemma bank_find:
  "first_index (\<lambda>s. used s \<and> key s = k) slots = Some i \<Longrightarrow> bank_of used key st slots k = Some (st (slots ! i))"
  by (induction slots arbitrary: i) (auto simp: bank_of_def split: if_splits)

lemma bank_None:
  "bank_of used key st slots k = None \<longleftrightarrow> first_index (\<lambda>s. used s \<and> key s = k) slots = None"
  by (induction slots) (auto simp: bank_of_def)

lemma bank_put:
  "first_index (\<lambda>s. used s \<and> key s = k) slots = Some i \<Longrightarrow>
     bank_of used key st (slots[i := put (slots ! i) v]) = (bank_of used key st slots)(k \<mapsto> v)"
  by (induction slots arbitrary: i) (auto simp: bank_of_def put_slot fun_upd_twist split: if_splits)

lemma free_put: "i < length slots \<Longrightarrow> free_of used (slots[i := put (slots ! i) v]) = free_of used slots"
  by (induction slots arbitrary: i) (auto simp: free_of_def put_slot split: nat.splits)

lemma bank_fresh:
  "first_index (\<lambda>s. \<not> used s) slots = Some i \<Longrightarrow> bank_of used key st slots k = None \<Longrightarrow>
     bank_of used key st (slots[i := fresh k]) = (bank_of used key st slots)(k \<mapsto> start) \<and>
     first_index (\<lambda>s. used s \<and> key s = k) (slots[i := fresh k]) = Some i \<and>
     Suc (free_of used (slots[i := fresh k])) = free_of used slots"
  by (induction slots arbitrary: i)
    (auto simp: bank_of_def free_of_def fresh_slot fun_upd_twist split: if_splits)

lemma free_pos: "first_index (\<lambda>s. \<not> used s) slots = None \<longleftrightarrow> free_of used slots = 0"
  by (induction slots) (auto simp: free_of_def)

text \<open>Claiming a slot and storing into it updates the map; it fails only for a new key on a full bank.\<close>

lemma claim_put:
  assumes "claim_slot used key fresh slots k = (Some i, slots')"
  shows "st (slots' ! i) = (case bank_of used key st slots k of None \<Rightarrow> start | Some v \<Rightarrow> v)"
    and "bank_of used key st (slots'[i := put (slots' ! i) v]) = (bank_of used key st slots)(k \<mapsto> v)"
    and "free_of used (slots'[i := put (slots' ! i) v]) =
           free_of used slots - (if bank_of used key st slots k = None then 1 else 0)"
proof -
  have "first_index (\<lambda>s. used s \<and> key s = k) slots' = Some i \<and>
      bank_of used key st slots' = (bank_of used key st slots)
        (k \<mapsto> case bank_of used key st slots k of None \<Rightarrow> start | Some v \<Rightarrow> v) \<and>
      free_of used slots' = free_of used slots - (if bank_of used key st slots k = None then 1 else 0)"
  proof (cases "bank_of used key st slots k")
    case None
    then have "first_index (\<lambda>s. \<not> used s) slots = Some i" "slots' = slots[i := fresh k]"
      using assms by (auto simp: claim_slot_def bank_None split: option.splits)
    then show ?thesis
      using bank_fresh [OF _ None, of i] None by auto
  next
    case (Some v)
    then have "first_index (\<lambda>s. used s \<and> key s = k) slots = Some i" "slots' = slots"
      using assms bank_None [of slots k] by (auto simp: claim_slot_def split: option.splits)
    then show ?thesis
      using Some by (auto simp: fun_upd_idem)
  qed
  note s = this
  show "st (slots' ! i) = (case bank_of used key st slots k of None \<Rightarrow> start | Some v \<Rightarrow> v)"
    using bank_find [of k slots' i] s by simp
  show "bank_of used key st (slots'[i := put (slots' ! i) v]) = (bank_of used key st slots)(k \<mapsto> v)"
    using bank_put [of k slots' i v] s by simp
  show "free_of used (slots'[i := put (slots' ! i) v]) =
           free_of used slots - (if bank_of used key st slots k = None then 1 else 0)"
    using free_put [of i slots' v] first_index_SomeD [OF conjunct1 [OF s]] s by simp
qed

lemma claim_fails:
  "fst (claim_slot used key fresh slots k) = None \<longleftrightarrow> bank_of used key st slots k = None \<and> free_of used slots = 0"
  "fst (claim_slot used key fresh slots k) = None \<Longrightarrow> claim_slot used key fresh slots k = (None, slots)"
  by (auto simp: claim_slot_def bank_None free_pos [symmetric] split: option.splits)

end

section \<open>The two banks\<close>

definition led_slot_key :: "osdp_pd_led_slot \<Rightarrow> byte \<times> byte" where
  "led_slot_key s = (ls_reader_no s, ls_led_no s)"

definition led_fresh :: "byte \<times> byte \<Rightarrow> osdp_pd_led_slot" where
  "led_fresh k = \<lparr>ls_used = True, ls_reader_no = fst k, ls_led_no = snd k, ls_last_color = OSDP_LED_BLACK,
     ls_state = osdp_led_init\<rparr>"

definition buz_fresh :: "byte \<Rightarrow> osdp_pd_buz_slot" where
  "buz_fresh r = \<lparr>bs_used = True, bs_reader_no = r, bs_last_sounding = False, bs_state = osdp_buz_init\<rparr>"

interpretation lb: slot_bank ls_used led_slot_key ls_state "\<lambda>s v. s\<lparr>ls_state := v\<rparr>" led_fresh osdp_led_init
  by unfold_locales (auto simp: led_fresh_def led_slot_key_def)

interpretation bb: slot_bank bs_used bs_reader_no bs_state "\<lambda>s v. s\<lparr>bs_state := v\<rparr>" buz_fresh osdp_buz_init
  by unfold_locales (auto simp: buz_fresh_def)

text \<open>What the banks mean: the state of every LED and buzzer the device follows.\<close>

definition led_bank :: "'w osdp_pd \<Rightarrow> byte \<times> byte \<Rightarrow> osdp_led option" where
  "led_bank pd = bank_of ls_used led_slot_key ls_state (pd_leds pd)"

definition buz_bank :: "'w osdp_pd \<Rightarrow> byte \<Rightarrow> osdp_buz option" where
  "buz_bank pd = bank_of bs_used bs_reader_no bs_state (pd_buzzers pd)"

lemma pd_led_slot_claim:
  "pd_led_slot pd r l = (let (i, ss) = claim_slot ls_used led_slot_key led_fresh (pd_leds pd) (r, l)
     in (i, pd\<lparr>pd_leds := ss\<rparr>))"
  by (simp add: pd_led_slot_def pd_led_slot_find_def claim_slot_def led_slot_key_def led_fresh_def
      split: option.splits)

lemma plus_fun: "(+) (Suc i) = (\<lambda>x. Suc (i + x))" "(+) (0 :: nat) = id"
  by auto

lemma buz_scan_index:
  "fst (buz_scan r i f ss) = map_option ((+) i) (first_index (\<lambda>s. bs_used s \<and> bs_reader_no s = r) ss)"
  by (induction ss arbitrary: i f) (auto simp: option.map_comp comp_def plus_fun)

lemma buz_scan_free:
  "fst (buz_scan r i f ss) = None \<Longrightarrow>
     snd (buz_scan r i f ss) = (case f of Some _ \<Rightarrow> f | None \<Rightarrow> map_option ((+) i) (first_index (\<lambda>s. \<not> bs_used s) ss))"
  by (induction ss arbitrary: i f) (auto simp: option.map_comp comp_def plus_fun split: option.splits if_splits)

lemma pd_buz_slot_claim:
  "pd_buz_slot pd r = (let (i, ss) = claim_slot bs_used bs_reader_no buz_fresh (pd_buzzers pd) r
     in (i, pd\<lparr>pd_buzzers := ss\<rparr>))"
proof -
  obtain a b where ab: "buz_scan r 0 None (pd_buzzers pd) = (a, b)" by fastforce
  have a: "a = first_index (\<lambda>s. bs_used s \<and> bs_reader_no s = r) (pd_buzzers pd)"
    using buz_scan_index [of r 0 None "pd_buzzers pd"] ab by (simp add: plus_fun option.map_id)
  show ?thesis
  proof (cases a)
    case None
    then have "b = first_index (\<lambda>s. \<not> bs_used s) (pd_buzzers pd)"
      using buz_scan_free [of r 0 None "pd_buzzers pd"] ab by (simp add: plus_fun option.map_id)
    then show ?thesis
      using ab a None by (auto simp: pd_buz_slot_def claim_slot_def buz_fresh_def split: option.splits)
  next
    case (Some i)
    then show ?thesis
      using ab a by (auto simp: pd_buz_slot_def claim_slot_def)
  qed
qed

lemma led_refresh_states:
  "led_refresh_slots cb now ss w = (ss', w') \<Longrightarrow>
     map ls_used ss' = map ls_used ss \<and> map led_slot_key ss' = map led_slot_key ss \<and> map ls_state ss' = map ls_state ss"
  by (induction ss arbitrary: w ss' w')
    (auto simp: led_slot_key_def Let_def split: if_splits prod.splits)

lemma buz_refresh_states:
  "buz_refresh_slots cb now ss w = (ss', w') \<Longrightarrow>
     map bs_used ss' = map bs_used ss \<and> map bs_reader_no ss' = map bs_reader_no ss \<and> map bs_state ss' = map bs_state ss"
  by (induction ss arbitrary: w ss' w') (auto simp: Let_def split: if_splits prod.splits)

lemma bank_of_cong:
  assumes "map used xs = map used ys" "map key xs = map key ys" "map st xs = map st ys"
  shows "bank_of used key st xs = bank_of used key st ys"
proof -
  have "length xs = length ys" using assms(1) by (rule map_eq_imp_length_eq)
  then show ?thesis using assms
    by (induction rule: list_induct2) (auto simp: bank_of_def)
qed

lemma pd_led_refresh_frame: "\<exists>ss. fst (pd_led_refresh pd now w) = pd\<lparr>pd_leds := ss\<rparr>"
  by (auto simp: pd_led_refresh_def split: option.splits prod.splits intro: exI [of _ "pd_leds pd"])

lemma pd_buz_refresh_frame: "\<exists>ss. fst (pd_buz_refresh pd now w) = pd\<lparr>pd_buzzers := ss\<rparr>"
  by (auto simp: pd_buz_refresh_def split: option.splits prod.splits intro: exI [of _ "pd_buzzers pd"])

lemma led_bank_refresh [simp]: "led_bank (fst (pd_led_refresh pd now w)) = led_bank pd"
  by (auto simp: pd_led_refresh_def led_bank_def split: option.splits prod.splits
      intro!: bank_of_cong dest: led_refresh_states)

lemma buz_bank_refresh [simp]: "buz_bank (fst (pd_buz_refresh pd now w)) = buz_bank pd"
  by (auto simp: pd_buz_refresh_def buz_bank_def split: option.splits prod.splits
      intro!: bank_of_cong dest: buz_refresh_states)

section \<open>LED commands refine map updates\<close>

definition led_key :: "osdp_led_record \<Rightarrow> byte \<times> byte" where
  "led_key rec = (lr_reader_no rec, lr_led_no rec)"

definition led_step :: "u32 \<Rightarrow> (byte \<times> byte \<Rightarrow> osdp_led option) \<Rightarrow> osdp_led_record \<Rightarrow> byte \<times> byte \<Rightarrow> osdp_led option" where
  "led_step now m rec =
     m(led_key rec \<mapsto> osdp_led_apply (case m (led_key rec) of None \<Rightarrow> osdp_led_init | Some s \<Rightarrow> s) rec now)"

definition led_recs :: "bytes \<Rightarrow> nat list \<Rightarrow> osdp_led_record list" where
  "led_recs p is = map (\<lambda>i. led_record_read (drop (i * OSDP_LED_RECORD_BYTES) p)) is"

lemma pd_led_record_at_eq:
  "pd_led_record_at p i = Inr (led_record_read (drop (i * OSDP_LED_RECORD_BYTES) p))"
  by (simp add: pd_led_record_at_def osdp_led_decode_def read_records_def)

lemma led_find_bank: "pd_led_slot_find pd r l = None \<longleftrightarrow> (r, l) \<notin> dom (led_bank pd)"
  using lb.bank_None [of "pd_leds pd" "(r, l)"]
  by (simp add: pd_led_slot_find_def led_bank_def led_slot_key_def domIff)

lemma led_seen_earlier_iff:
  "led_seen_earlier p i rec \<longleftrightarrow> led_key rec \<in> led_key ` set (led_recs p [0..<i])"
  by (auto simp: led_seen_earlier_def pd_led_record_at_eq led_key_def led_recs_def list_ex_iff Bex_def image_iff)

lemma card_new:
  assumes "\<not> (k \<in> D \<or> k \<in> T)" "finite A"
  shows "card (insert k A - D - T) = Suc (card (A - D - insert k T))"
proof -
  have "insert k A - D - T = insert k (A - D - insert k T)" using assms(1) by blast
  then show ?thesis using assms(2) by simp
qed

lemma led_fit_loop_count:
  assumes "i \<le> n"
  shows "led_fit_loop pd p [i..<n] c =
    Some (c + card (led_key ` set (led_recs p [i..<n]) - dom (led_bank pd) - led_key ` set (led_recs p [0..<i])))"
  using assms
proof (induction "n - i" arbitrary: i c)
  case (Suc d)
  let ?r = "led_record_read (drop (i * OSDP_LED_RECORD_BYTES) p)"
  let ?A = "led_key ` set (led_recs p [Suc i..<n])" and ?T = "led_key ` set (led_recs p [0..<i])"
  have i: "i < n" using Suc.hyps(2) by simp
  have parts: "led_key ` set (led_recs p [i..<n]) = insert (led_key ?r) ?A"
    "led_key ` set (led_recs p [0..<Suc i]) = insert (led_key ?r) ?T"
    using i by (auto simp: led_recs_def upt_conv_Cons)
  have IH: "led_fit_loop pd p [Suc i..<n] c = Some (c + card (?A - dom (led_bank pd) - insert (led_key ?r) ?T))" for c
    using Suc.hyps(1) [of "Suc i" c] Suc.hyps(2) i unfolding parts by simp
  have seen: "led_key ?r \<in> dom (led_bank pd) \<or> led_key ?r \<in> ?T \<Longrightarrow>
      insert (led_key ?r) ?A - dom (led_bank pd) - ?T = ?A - dom (led_bank pd) - insert (led_key ?r) ?T"
    by blast
  have new: "\<not> (led_key ?r \<in> dom (led_bank pd) \<or> led_key ?r \<in> ?T) \<Longrightarrow>
      card (insert (led_key ?r) ?A - dom (led_bank pd) - ?T) = Suc (card (?A - dom (led_bank pd) - insert (led_key ?r) ?T))"
    by (rule card_new) simp_all
  have "led_fit_loop pd p (i # [Suc i..<n]) c =
      (if led_key ?r \<in> dom (led_bank pd) \<or> led_key ?r \<in> ?T then led_fit_loop pd p [Suc i..<n] c
       else led_fit_loop pd p [Suc i..<n] (c + 1))"
    using led_find_bank [of pd "lr_reader_no ?r" "lr_led_no ?r"] led_seen_earlier_iff [of p i ?r]
    by (simp add: pd_led_record_at_eq led_key_def)
  note step = this
  show ?case
  proof (cases "led_key ?r \<in> dom (led_bank pd) \<or> led_key ?r \<in> ?T")
    case True
    show ?thesis
      unfolding parts(1) seen [OF True] unfolding upt_conv_Cons [OF i] step if_P [OF True] IH ..
  next
    case False
    show ?thesis
      unfolding parts(1) new [OF False] unfolding upt_conv_Cons [OF i] step if_not_P [OF False] IH by simp
  qed
qed (simp add: led_recs_def)

lemma led_fit_iff:
  "pd_led_bank_can_fit pd p n \<longleftrightarrow>
     card (led_key ` set (led_recs p [0..<n]) - dom (led_bank pd)) \<le> pd_led_slots_free pd"
  using led_fit_loop_count [of 0 n pd p 0] by (simp add: pd_led_bank_can_fit_def led_recs_def)

lemma pd_led_slot_bank:
  assumes "pd_led_slot pd r l = (Some k, pd1)"
  defines "slot \<equiv> pd_leds pd1 ! k"
  defines "pd2 v \<equiv> pd1\<lparr>pd_leds := (pd_leds pd1)[k := slot\<lparr>ls_state := v\<rparr>]\<rparr>"
  shows "ls_state slot = (case led_bank pd (r, l) of None \<Rightarrow> osdp_led_init | Some s \<Rightarrow> s)"
    and "led_bank (pd2 v) = (led_bank pd)((r, l) \<mapsto> v)"
    and "pd_led_slots_free (pd2 v) = pd_led_slots_free pd - (if (r, l) \<in> dom (led_bank pd) then 0 else 1)"
    and "\<exists>ss. pd1 = pd\<lparr>pd_leds := ss\<rparr>"
proof -
  obtain ss where c: "claim_slot ls_used led_slot_key led_fresh (pd_leds pd) (r, l) = (Some k, ss)"
      and p: "pd1 = pd\<lparr>pd_leds := ss\<rparr>"
    using assms(1) by (auto simp: pd_led_slot_claim split: prod.splits)
  note cl = lb.claim_put [OF c]
  show "ls_state slot = (case led_bank pd (r, l) of None \<Rightarrow> osdp_led_init | Some s \<Rightarrow> s)"
    using cl(1) by (simp add: slot_def p led_bank_def)
  show "led_bank (pd2 v) = (led_bank pd)((r, l) \<mapsto> v)"
    using cl(2) [of v] by (simp add: pd2_def slot_def p led_bank_def)
  show "pd_led_slots_free (pd2 v) = pd_led_slots_free pd - (if (r, l) \<in> dom (led_bank pd) then 0 else 1)"
    using cl(3) [of v] by (auto simp: pd2_def slot_def p led_bank_def pd_led_slots_free_def free_of_def domIff)
  show "\<exists>ss. pd1 = pd\<lparr>pd_leds := ss\<rparr>"
    using p by blast
qed

lemma pd_led_slot_Some:
  assumes "\<not> ((r, l) \<notin> dom (led_bank pd) \<and> pd_led_slots_free pd = 0)"
  shows "\<exists>k pd1. pd_led_slot pd r l = (Some k, pd1)"
proof -
  obtain a ss where c: "claim_slot ls_used led_slot_key led_fresh (pd_leds pd) (r, l) = (a, ss)"
    by fastforce
  then have "a \<noteq> None"
    using assms lb.claim_fails(1) [of "pd_leds pd" "(r, l)"]
    by (auto simp: led_bank_def pd_led_slots_free_def free_of_def domIff)
  then show ?thesis
    using c by (auto simp: pd_led_slot_claim)
qed

lemma led_apply_loop_bank:
  assumes "card (led_key ` set (led_recs p is) - dom (led_bank pd)) \<le> pd_led_slots_free pd"
  shows "\<exists>pd'. led_apply_loop pd p now is = (OSDP_OK, pd') \<and>
    led_bank pd' = foldl (led_step now) (led_bank pd) (led_recs p is) \<and> (\<exists>ss. pd' = pd\<lparr>pd_leds := ss\<rparr>)"
  using assms
proof (induction "is" arbitrary: pd)
  case Nil
  show ?case by (auto simp: led_recs_def intro: exI [of _ "pd_leds pd"])
next
  case (Cons i "is")
  note IH = Cons.IH
  let ?r = "led_record_read (drop (i * OSDP_LED_RECORD_BYTES) p)"
  let ?D = "dom (led_bank pd)" and ?A = "led_key ` set (led_recs p is)"
  have recs: "led_recs p (i # is) = ?r # led_recs p is" by (simp add: led_recs_def)
  have fit: "card (insert (led_key ?r) ?A - ?D) \<le> pd_led_slots_free pd"
    using Cons.prems by (simp add: recs)
  obtain k pd1 where sl: "pd_led_slot pd (lr_reader_no ?r) (lr_led_no ?r) = (Some k, pd1)"
  proof -
    have "\<not> (led_key ?r \<notin> ?D \<and> pd_led_slots_free pd = 0)"
      using fit card_new [of "led_key ?r" ?D "{}" ?A] by auto
    then show ?thesis
      using that pd_led_slot_Some [of "lr_reader_no ?r" "lr_led_no ?r" pd] unfolding led_key_def by blast
  qed
  let ?v = "osdp_led_apply (ls_state (pd_leds pd1 ! k)) ?r now"
  let ?pd2 = "pd1\<lparr>pd_leds := (pd_leds pd1)[k := (pd_leds pd1 ! k)\<lparr>ls_state := ?v\<rparr>]\<rparr>"
  note st = pd_led_slot_bank(1) [OF sl] and upd = pd_led_slot_bank(2,3) [OF sl, of ?v]
  obtain ss where pd1: "pd1 = pd\<lparr>pd_leds := ss\<rparr>"
    using pd_led_slot_bank(4) [OF sl] by blast
  have step: "led_bank ?pd2 = led_step now (led_bank pd) ?r"
    using upd(1) st by (simp add: led_step_def led_key_def)
  have "card (?A - dom (led_bank ?pd2)) \<le> pd_led_slots_free ?pd2"
  proof (cases "led_key ?r \<in> ?D")
    case True
    then have "?A - dom (led_bank ?pd2) = insert (led_key ?r) ?A - ?D"
      by (auto simp: step led_step_def)
    then show ?thesis using fit upd(2) True by (simp add: led_key_def)
  next
    case False
    have "?A - dom (led_bank ?pd2) = ?A - ?D - {led_key ?r}"
      by (auto simp: step led_step_def)
    then show ?thesis
      using fit upd(2) False card_new [of "led_key ?r" ?D "{}" ?A] by (simp add: led_key_def)
  qed
  from IH [OF this] obtain pd' ss' where "led_apply_loop ?pd2 p now is = (OSDP_OK, pd')"
    "led_bank pd' = foldl (led_step now) (led_bank ?pd2) (led_recs p is)" "pd' = ?pd2\<lparr>pd_leds := ss'\<rparr>"
    by blast
  then show ?case
    using step pd1 by (intro exI [of _ pd']) (auto simp: recs sl pd_led_record_at_eq)
qed

section \<open>Observing changes nothing but the banks\<close>

definition only_banks :: "'w osdp_pd \<Rightarrow> 'w osdp_pd \<Rightarrow> bool" where
  "only_banks pd pd' \<longleftrightarrow> pd'\<lparr>pd_leds := [], pd_buzzers := []\<rparr> = pd\<lparr>pd_leds := [], pd_buzzers := []\<rparr> \<and>
     length (pd_leds pd') = length (pd_leds pd) \<and> length (pd_buzzers pd') = length (pd_buzzers pd)"

lemma only_banks_refl [simp]: "only_banks pd pd"
  by (simp add: only_banks_def)

lemma only_banks_trans: "only_banks a b \<Longrightarrow> only_banks b c \<Longrightarrow> only_banks a c"
  by (simp add: only_banks_def)

lemma only_banks_update [simp]:
  "length ls = length (pd_leds a) \<Longrightarrow> only_banks (a\<lparr>pd_leds := ls\<rparr>) b \<longleftrightarrow> only_banks a b"
  "length bs = length (pd_buzzers a) \<Longrightarrow> only_banks (a\<lparr>pd_buzzers := bs\<rparr>) b \<longleftrightarrow> only_banks a b"
  "length ls = length (pd_leds b) \<Longrightarrow> only_banks a (b\<lparr>pd_leds := ls\<rparr>) \<longleftrightarrow> only_banks a b"
  "length bs = length (pd_buzzers b) \<Longrightarrow> only_banks a (b\<lparr>pd_buzzers := bs\<rparr>) \<longleftrightarrow> only_banks a b"
  by (auto simp: only_banks_def)

lemma only_banksE:
  assumes "only_banks pd pd'"
  obtains ls bs where "pd' = pd\<lparr>pd_leds := ls, pd_buzzers := bs\<rparr>"
    "length ls = length (pd_leds pd)" "length bs = length (pd_buzzers pd)"
proof -
  have "pd' = (pd'\<lparr>pd_leds := [], pd_buzzers := []\<rparr>)\<lparr>pd_leds := pd_leds pd', pd_buzzers := pd_buzzers pd'\<rparr>"
    by simp
  also have "\<dots> = pd\<lparr>pd_leds := pd_leds pd', pd_buzzers := pd_buzzers pd'\<rparr>"
    using assms by (simp only: only_banks_def) simp
  finally show thesis
    using that assms by (auto simp: only_banks_def)
qed

lemma claim_slot_length: "claim_slot used key fresh slots k = (i, ss) \<Longrightarrow> length ss = length slots"
  by (auto simp: claim_slot_def split: option.splits)

lemma pd_led_slot_only: "pd_led_slot pd r l = (i, pd') \<Longrightarrow> only_banks pd pd'"
  by (auto simp: pd_led_slot_claim split: prod.splits dest: claim_slot_length)

lemma pd_buz_slot_only: "pd_buz_slot pd r = (i, pd') \<Longrightarrow> only_banks pd pd'"
  by (auto simp: pd_buz_slot_claim split: prod.splits dest: claim_slot_length)

lemma led_apply_loop_only: "led_apply_loop pd p now is = (s, pd') \<Longrightarrow> only_banks pd pd'"
proof (induction "is" arbitrary: pd)
  case (Cons i "is")
  from Cons.prems show ?case
    by (auto split: sum.splits prod.splits option.splits dest!: pd_led_slot_only elim!: only_banks_trans dest!: Cons.IH)
qed simp

lemma pd_led_refresh_only: "pd_led_refresh pd now w = (pd', w') \<Longrightarrow> only_banks pd pd'"
  by (auto simp: pd_led_refresh_def split: option.splits prod.splits
      dest!: led_refresh_states dest: map_eq_imp_length_eq)

lemma pd_buz_refresh_only: "pd_buz_refresh pd now w = (pd', w') \<Longrightarrow> only_banks pd pd'"
  by (auto simp: pd_buz_refresh_def split: option.splits prod.splits
      dest!: buz_refresh_states dest: map_eq_imp_length_eq)

lemma observe_command_only:
  "osdp_pd_internal_observe_command pd w c p n = (s, pd', w') \<Longrightarrow> only_banks pd pd'"
  unfolding osdp_pd_internal_observe_command_def Let_def
  by (auto split: if_splits prod.splits sum.splits option.splits
      dest!: led_apply_loop_only pd_led_refresh_only pd_buz_slot_only pd_buz_refresh_only
      elim!: only_banks_trans)

section \<open>Refreshing reports every change once\<close>

definition led_changed :: "u32 \<Rightarrow> osdp_pd_led_slot \<Rightarrow> bool" where
  "led_changed now s \<longleftrightarrow> ls_used s \<and> osdp_led_color (ls_state s) now \<noteq> ls_last_color s"

lemma led_refresh_slots_eq:
  "led_refresh_slots cb now ss w =
     (map (\<lambda>s. if led_changed now s then s\<lparr>ls_last_color := osdp_led_color (ls_state s) now\<rparr> else s) ss,
      foldl (\<lambda>w s. cb w (ls_reader_no s) (ls_led_no s) (osdp_led_color (ls_state s) now)) w
        (filter (led_changed now) ss))"
  by (induction ss arbitrary: w) (auto simp: led_changed_def Let_def)

lemma led_refresh_settled:
  "list_all (\<lambda>s. \<not> led_changed now s) (fst (led_refresh_slots cb now ss w))"
  by (auto simp: led_refresh_slots_eq list_all_iff led_changed_def)

lemma led_refresh_quiet:
  "list_all (\<lambda>s. \<not> led_changed now s) ss \<Longrightarrow> led_refresh_slots cb now ss w = (ss, w)"
proof -
  assume a: "list_all (\<lambda>s. \<not> led_changed now s) ss"
  then have "filter (led_changed now) ss = []" by (auto simp: list_all_iff filter_empty_conv)
  moreover have "map (\<lambda>s. if led_changed now s then s\<lparr>ls_last_color := osdp_led_color (ls_state s) now\<rparr> else s) ss = ss"
    using a by (intro map_idI) (auto simp: list_all_iff)
  ultimately show ?thesis by (simp add: led_refresh_slots_eq)
qed

section \<open>Properties\<close>

text \<open>C25. An LED command takes effect completely or not at all. A payload of whole records is refused
  exactly when the LEDs it names for the first time outnumber the free slots, and then nothing
  changes and no callback runs; otherwise the bank, read as a map from LEDs to their states, is the
  old map with the records applied one after the other at the current time, a new LED starting from
  the initial state, and nothing but the bank changes.\<close>

theorem led_command_atomic:
  fixes pd :: "'w osdp_pd"
  assumes "length p = 14 * n" and "n > 0"
    and "osdp_pd_internal_observe_command pd w OSDP_CMD_LED (Some p) (length p) = (s, pd', w')"
  defines "rs \<equiv> read_records OSDP_LED_RECORD_BYTES led_record_read p n"
  shows "if card (led_key ` set rs - dom (led_bank pd)) \<le> pd_led_slots_free pd
    then s = OSDP_OK \<and> (\<exists>ss. pd' = pd\<lparr>pd_leds := ss\<rparr>) \<and>
      led_bank pd' = foldl (led_step (fst (pd_now_ms pd w))) (led_bank pd) rs
    else s = OSDP_ERR_INVALID_ARG \<and> pd' = pd \<and> w' = w"
proof -
  have rs: "rs = led_recs p [0..<n]"
    by (simp add: rs_def read_records_def led_recs_def)
  have n: "length p div 14 = n" "length p mod 14 = 0" "length p \<noteq> 0"
    using assms(1,2) by simp_all
  obtain now w1 where now: "pd_now_ms pd w = (now, w1)" by fastforce
  show ?thesis
  proof (cases "card (led_key ` set rs - dom (led_bank pd)) \<le> pd_led_slots_free pd")
    case True
    then obtain pd1 ss1 where l: "led_apply_loop pd p now [0..<n] = (OSDP_OK, pd1)"
      "led_bank pd1 = foldl (led_step now) (led_bank pd) rs" "pd1 = pd\<lparr>pd_leds := ss1\<rparr>"
      using led_apply_loop_bank [of p "[0..<n]" pd now] rs by auto
    have fit: "pd_led_bank_can_fit pd p n" using True by (simp add: led_fit_iff rs)
    obtain pd2 w2 where r: "pd_led_refresh pd1 now w1 = (pd2, w2)" by fastforce
    then have "led_bank pd2 = led_bank pd1" "\<exists>ss. pd2 = pd1\<lparr>pd_leds := ss\<rparr>"
      using led_bank_refresh [of pd1 now w1] pd_led_refresh_frame [of pd1 now w1] by simp_all
    moreover have "s = OSDP_OK \<and> pd' = pd2"
      using assms(3) n now fit l(1) r
      by (simp add: osdp_pd_internal_observe_command_def osdp_pd_internal_is_observed_command_def)
    ultimately show ?thesis
      using True l(2,3) now by auto
  next
    case False
    then have "\<not> pd_led_bank_can_fit pd p n" by (simp add: led_fit_iff rs)
    then show ?thesis
      using assms(3) n False
      by (simp add: osdp_pd_internal_observe_command_def osdp_pd_internal_is_observed_command_def)
  qed
qed

theorem led_command_atomic_witness:
  "\<exists>pd'. osdp_pd_internal_observe_command (osdp_pd_init 1 :: unit osdp_pd) () OSDP_CMD_LED
       (Some (led_record_bytes ex_led)) (length (led_record_bytes ex_led)) = (OSDP_OK, pd', ()) \<and>
     led_bank pd' = foldl (led_step (fst (pd_now_ms (osdp_pd_init 1 :: unit osdp_pd) ())))
       (led_bank (osdp_pd_init 1 :: unit osdp_pd))
       (read_records OSDP_LED_RECORD_BYTES led_record_read (led_record_bytes ex_led) 1)"
proof -
  let ?pd = "osdp_pd_init 1 :: unit osdp_pd" and ?p = "led_record_bytes ex_led"
  obtain s pd' w' where o: "osdp_pd_internal_observe_command ?pd () OSDP_CMD_LED (Some ?p) (length ?p) = (s, pd', w')"
    by (metis prod_cases3)
  have "length ?p = 14 * 1"
    by (simp add: led_record_roundtrip(1))
  moreover have "pd_led_slots_free ?pd = 8"
    by (simp add: pd_led_slots_free_def osdp_pd_init_def zero_led_slot_def)
  moreover have "card (led_key ` set (read_records OSDP_LED_RECORD_BYTES led_record_read ?p 1) - X) \<le> 8" for X
    by (simp add: read_records_Suc card_insert_if insert_Diff_if)
  ultimately show ?thesis
    using led_command_atomic [OF _ _ o, of 1] o by auto
qed

text \<open>Refreshing the LEDs reports every change exactly once: the callback runs, in slot order, for
  precisely those followed LEDs whose colour at this time differs from the one last reported, and a
  second refresh at the same time does nothing.\<close>

theorem led_refresh_reports_once:
  assumes "pd_led_cb pd = Some cb" and "pd_led_refresh pd now w = (pd', w')"
  shows "w' = foldl (\<lambda>w s. cb w (ls_reader_no s) (ls_led_no s) (osdp_led_color (ls_state s) now)) w
      (filter (\<lambda>s. ls_used s \<and> osdp_led_color (ls_state s) now \<noteq> ls_last_color s) (pd_leds pd)) \<and>
    (\<forall>v. pd_led_refresh pd' now v = (pd', v))"
proof -
  have p: "pd' = pd\<lparr>pd_leds := fst (led_refresh_slots cb now (pd_leds pd) w)\<rparr>"
    "w' = snd (led_refresh_slots cb now (pd_leds pd) w)"
    using assms by (auto simp: pd_led_refresh_def split: prod.splits)
  have c: "(\<lambda>s. ls_used s \<and> osdp_led_color (ls_state s) now \<noteq> ls_last_color s) = led_changed now"
    by (simp add: fun_eq_iff led_changed_def)
  show ?thesis
    unfolding c using assms(1) led_refresh_quiet [OF led_refresh_settled]
    by (auto simp: p pd_led_refresh_def led_refresh_slots_eq)
qed

theorem led_refresh_reports_once_witness:
  "let lit = \<lparr>ls_used = True, ls_reader_no = 0, ls_led_no = 1, ls_last_color = 0,
         ls_state = osdp_led_apply osdp_led_init ex_led 1000\<rparr>;
       pd = (osdp_pd_init 1)\<lparr>pd_leds := [zero_led_slot, lit], pd_led_cb := Some (\<lambda>w r l c. w @ [(r, l, c)])\<rparr>
   in \<exists>pd'. pd_led_refresh pd 1100 [] = (pd', [(0, 1, 1)]) \<and> pd_led_refresh pd' 1100 [] = (pd', [])"
proof -
  let ?lit = "\<lparr>ls_used = True, ls_reader_no = 0, ls_led_no = 1, ls_last_color = 0,
         ls_state = osdp_led_apply osdp_led_init ex_led 1000\<rparr>"
  let ?pd = "(osdp_pd_init 1)\<lparr>pd_leds := [zero_led_slot, ?lit], pd_led_cb := Some (\<lambda>w r l c. w @ [(r, l, c)])\<rparr>"
  have c: "osdp_led_color (osdp_led_apply osdp_led_init ex_led 1000) 1100 = 1"
    by code_simp
  obtain pd' w' where r: "pd_led_refresh ?pd 1100 [] = (pd', w')" by fastforce
  show ?thesis
    using led_refresh_reports_once [OF _ r] r by (simp add: c zero_led_slot_def)
qed

text \<open>A buzzer command starts its pattern on the reader it names: the bank, read as a map from readers
  to buzzers, is updated at that reader alone. It is refused only when the reader is new and all
  slots follow other readers.\<close>

theorem buzzer_command_updates:
  assumes "osdp_buz_decode p n = Inr c"
    and "osdp_pd_internal_observe_command pd w OSDP_CMD_BUZ p n = (s, pd', w')"
  shows "if buz_bank pd (bz_reader_no c) = None \<and> list_all bs_used (pd_buzzers pd)
    then s = OSDP_ERR_INVALID_ARG \<and> pd' = pd
    else s = OSDP_OK \<and> (\<exists>ss. pd' = pd\<lparr>pd_buzzers := ss\<rparr>) \<and>
      buz_bank pd' = (buz_bank pd)(bz_reader_no c \<mapsto>
        osdp_buz_apply (case buz_bank pd (bz_reader_no c) of None \<Rightarrow> osdp_buz_init | Some b \<Rightarrow> b) c
          (fst (pd_now_ms pd w)))"
proof -
  let ?r = "bz_reader_no c"
  obtain now w1 where now: "pd_now_ms pd w = (now, w1)" by fastforce
  obtain a ss where cl: "claim_slot bs_used bs_reader_no buz_fresh (pd_buzzers pd) ?r = (a, ss)" by fastforce
  have full: "a = None \<longleftrightarrow> buz_bank pd ?r = None \<and> list_all bs_used (pd_buzzers pd)"
    using bb.claim_fails(1) [of "pd_buzzers pd" ?r] cl
    by (auto simp: buz_bank_def free_of_def list_all_iff filter_empty_conv)
  show ?thesis
  proof (cases a)
    case None
    then show ?thesis
      using assms now cl full bb.claim_fails(2) [of "pd_buzzers pd" ?r]
      by (simp add: osdp_pd_internal_observe_command_def osdp_pd_internal_is_observed_command_def pd_buz_slot_claim)
  next
    case (Some k)
    let ?v = "osdp_buz_apply (bs_state (ss ! k)) c now"
    let ?pd2 = "pd\<lparr>pd_buzzers := ss[k := (ss ! k)\<lparr>bs_state := ?v\<rparr>]\<rparr>"
    note put = bb.claim_put(1) [OF cl [unfolded Some]] bb.claim_put(2) [OF cl [unfolded Some], of ?v]
    have "s = OSDP_OK \<and> pd' = fst (pd_buz_refresh ?pd2 now w1)"
      using assms now cl Some
      by (auto simp: osdp_pd_internal_observe_command_def osdp_pd_internal_is_observed_command_def
          pd_buz_slot_claim split: prod.splits)
    moreover have "buz_bank ?pd2 = (buz_bank pd)(?r \<mapsto> ?v)"
      using put(2) by (simp add: buz_bank_def)
    moreover have "bs_state (ss ! k) = (case buz_bank pd ?r of None \<Rightarrow> osdp_buz_init | Some b \<Rightarrow> b)"
      using put(1) by (simp add: buz_bank_def)
    ultimately show ?thesis
      using full Some now pd_buz_refresh_frame [of ?pd2 now w1] by auto
  qed
qed

theorem buzzer_command_updates_witness:
  "\<exists>pd'. osdp_pd_internal_observe_command (osdp_pd_init 1 :: unit osdp_pd) () OSDP_CMD_BUZ (Some [2, 2, 5, 3, 4]) 5
       = (OSDP_OK, pd', ()) \<and>
     buz_bank pd' 2 = Some (osdp_buz_apply osdp_buz_init
       \<lparr>bz_reader_no = 2, bz_tone_code = 2, bz_on_time_100ms = 5, bz_off_time_100ms = 3, bz_count = 4\<rparr> 0)"
proof -
  let ?pd = "osdp_pd_init 1 :: unit osdp_pd"
  let ?c = "\<lparr>bz_reader_no = 2, bz_tone_code = 2, bz_on_time_100ms = 5, bz_off_time_100ms = 3, bz_count = 4\<rparr>"
  have d: "osdp_buz_decode (Some [2, 2, 5, 3, 4]) 5 = Inr ?c"
    by (simp add: osdp_buz_decode_def)
  obtain s pd' w' where
    o: "osdp_pd_internal_observe_command ?pd () OSDP_CMD_BUZ (Some [2, 2, 5, 3, 4]) 5 = (s, pd', w')"
    by (metis prod_cases3)
  have e: "buz_bank ?pd 2 = None" "\<not> list_all bs_used (pd_buzzers ?pd)" "fst (pd_now_ms ?pd ()) = 0"
    by (simp_all add: buz_bank_def bank_of_def osdp_pd_init_def zero_buz_slot_def pd_now_ms_def list_all_iff)
  show ?thesis
    using buzzer_command_updates [OF d o] o e by auto
qed

end
