(* ===== verification/PD_PDCAP.thy ===== *)
theory PD_PDCAP
  imports PD_State "HOL-Library.Multiset"
begin

unbundle bit_operations_syntax

text \<open>
  Capability reports: \<^verbatim>\<open>pd/src/pd_pdcap.c\<close>. The advisory check, the template, the binding of an
  application's records, the records the library computes itself, and the in-place insertion sort
  of the report. The sort is shown to be the stable sort by function code, so that a report is
  the sorted list of the computed and the bound records.
\<close>

section \<open>Operations\<close>

abbreviation (input) PDCAP_FN_CHECK_CHARACTER :: byte where "PDCAP_FN_CHECK_CHARACTER \<equiv> 8"
abbreviation (input) PDCAP_FN_COMMUNICATION_SECURITY :: byte where "PDCAP_FN_COMMUNICATION_SECURITY \<equiv> 9"
abbreviation (input) PDCAP_FN_RECEIVE_BUFFER_SIZE :: byte where "PDCAP_FN_RECEIVE_BUFFER_SIZE \<equiv> 10"
abbreviation (input) PDCAP_FN_LARGEST_COMBINED_MSG :: byte where "PDCAP_FN_LARGEST_COMBINED_MSG \<equiv> 11"
abbreviation (input) PDCAP_SEC_AES128 :: byte where "PDCAP_SEC_AES128 \<equiv> 0x01"

definition record_size_value :: "osdp_pdcap_record \<Rightarrow> u16" where
  "record_size_value r = ucast (pc_compliance_level r) OR push_bit 8 (ucast (pc_num_objects r))"

text \<open>The verdict on one record.\<close>

definition check_pdcap_record :: "'w osdp_pd \<Rightarrow> osdp_pdcap_record \<Rightarrow> osdp_status" where
  "check_pdcap_record pd r =
     (let sc_ready = osdp_pd_internal_sc_configured pd in
      if pc_function_code r = PDCAP_FN_COMMUNICATION_SECURITY then
        if pc_compliance_level r AND PDCAP_SEC_AES128 \<noteq> 0 \<and> \<not> sc_ready then OSDP_ERR_NOT_SUPPORTED
        else OSDP_OK
      else if pc_function_code r = PDCAP_FN_RECEIVE_BUFFER_SIZE then
        let advertised = unat (record_size_value r) in
        if advertised > OSDP_STREAM_BUFFER_LEN then OSDP_ERR_BUFFER_TOO_SMALL
        else if sc_ready then
          let shape = zero_frame\<lparr>fr_integrity := OSDP_INTEGRITY_CRC, fr_has_scb := True,
                        fr_scb_length := 2, fr_scb_type := OSDP_SCS_17\<rparr>
          in (case osdp_sc_max_payload shape advertised of
                Inl _ \<Rightarrow> OSDP_OK
              | Inr plaintext \<Rightarrow>
                  if plaintext > pd_rx_plain_cap pd then OSDP_ERR_BUFFER_TOO_SMALL else OSDP_OK)
        else OSDP_OK
      else if pc_function_code r = PDCAP_FN_LARGEST_COMBINED_MSG then
        let advertised = unat (record_size_value r) in
        if advertised = 0 then OSDP_OK
        else if ra_buf (pd_mfg_reasm pd) = None then OSDP_ERR_NOT_SUPPORTED
        else if advertised > ra_cap (pd_mfg_reasm pd) then OSDP_ERR_BUFFER_TOO_SMALL
        else OSDP_OK
      else OSDP_OK)"

text \<open>The loops over the records return the status of the first record refused and its index.\<close>

fun check_loop :: "(osdp_pdcap_record \<Rightarrow> osdp_status) \<Rightarrow> nat \<Rightarrow> osdp_pdcap_record list \<Rightarrow> (osdp_status \<times> nat) option" where
  "check_loop check i [] = None"
| "check_loop check i (r # rs) = (if check r \<noteq> OSDP_OK then Some (check r, i) else check_loop check (i + 1) rs)"

definition osdp_pd_check_pdcap ::
  "'w osdp_pd \<Rightarrow> osdp_pdcap_record list option \<Rightarrow> nat \<Rightarrow> nat \<Rightarrow> osdp_status \<times> nat" where
  "osdp_pd_check_pdcap pd records cnt bad_index =
     (if cnt > 0 \<and> records = None then (OSDP_ERR_INVALID_ARG, bad_index)
      else
        (case check_loop (check_pdcap_record pd) 0 (if cnt > 0 then take cnt (the records) else []) of
           Some (s, i) \<Rightarrow> (s, i) | None \<Rightarrow> (OSDP_OK, 0)))"

definition is_reserved_pdcap_fn :: "byte \<Rightarrow> bool" where
  "is_reserved_pdcap_fn function_code \<longleftrightarrow>
     function_code = PDCAP_FN_CHECK_CHARACTER \<or> function_code = PDCAP_FN_COMMUNICATION_SECURITY \<or>
     function_code = PDCAP_FN_RECEIVE_BUFFER_SIZE"

datatype osdp_pd_pdcap_template = OSDP_PDCAP_TEMPLATE_SECURE_READER

definition k_pdcap_template_secure_reader :: "osdp_pdcap_record list" where
  "k_pdcap_template_secure_reader =
     map (\<lambda>(f, c, n). \<lparr>pc_function_code = f, pc_compliance_level = c, pc_num_objects = n\<rparr>)
       [(3, 1, 0), (4, 4, 1), (5, 2, 1), (11, 0xFF, 0xFF), (13, 0, 1), (16, 4, 0)]"

definition osdp_pd_pdcap_template_records :: "osdp_pd_pdcap_template \<Rightarrow> nat \<Rightarrow> osdp_pdcap_record list result" where
  "osdp_pd_pdcap_template_records t cap =
     (case t of OSDP_PDCAP_TEMPLATE_SECURE_READER \<Rightarrow>
        if cap < length k_pdcap_template_secure_reader then Inl OSDP_ERR_BUFFER_TOO_SMALL
        else Inr k_pdcap_template_secure_reader)"

definition bind_pdcap_record :: "osdp_pdcap_record \<Rightarrow> osdp_status" where
  "bind_pdcap_record r =
     (if is_reserved_pdcap_fn (pc_function_code r) then OSDP_ERR_INVALID_ARG else osdp_pdcap_validate_record r)"

definition osdp_pd_set_pdcap ::
  "'w osdp_pd \<Rightarrow> osdp_pdcap_record list option \<Rightarrow> nat \<Rightarrow> osdp_status \<times> nat \<times> 'w osdp_pd" where
  "osdp_pd_set_pdcap pd records cnt =
     (if cnt > 0 \<and> records = None then (OSDP_ERR_INVALID_ARG, 0, pd)
      else if cnt > OSDP_PD_MAX_PDCAP_RECORDS then (OSDP_ERR_BUFFER_TOO_SMALL, 0, pd)
      else
        let rs = (if cnt > 0 then take cnt (the records) else []) in
        (case check_loop bind_pdcap_record 0 rs of
           Some (s, i) \<Rightarrow> (s, i, pd)
         | None \<Rightarrow>
             (case osdp_pd_check_pdcap pd records cnt 0 of
                (s, i) \<Rightarrow>
                  if s \<noteq> OSDP_OK then (s, i, pd) else (OSDP_OK, i, pd\<lparr>pd_pdcap_records := rs\<rparr>))))"

definition osdp_pd_internal_fill_reserved_pdcap :: "'w osdp_pd \<Rightarrow> osdp_pdcap_record list" where
  "osdp_pd_internal_fill_reserved_pdcap pd =
     (let rx_cap = (if pd_rx_plain_cap pd > OSDP_STREAM_BUFFER_LEN then OSDP_STREAM_BUFFER_LEN
                    else pd_rx_plain_cap pd)
      in [\<lparr>pc_function_code = PDCAP_FN_CHECK_CHARACTER, pc_compliance_level = 0x01, pc_num_objects = 0x00\<rparr>,
          \<lparr>pc_function_code = PDCAP_FN_COMMUNICATION_SECURITY, pc_compliance_level = PDCAP_SEC_AES128,
           pc_num_objects = (if sc_scbk_set (pd_sc pd) then 0x00 else 0x01)\<rparr>,
          \<lparr>pc_function_code = PDCAP_FN_RECEIVE_BUFFER_SIZE,
           pc_compliance_level = word_of_nat (rx_cap AND 0xFF),
           pc_num_objects = word_of_nat (drop_bit 8 rx_cap AND 0xFF)\<rparr>])"

text \<open>The inner loop moves greater records one place up, down from index \<open>j\<close>.\<close>

fun sort_shift :: "osdp_pdcap_record list \<Rightarrow> osdp_pdcap_record \<Rightarrow> nat \<Rightarrow> osdp_pdcap_record list \<times> nat" where
  "sort_shift records key 0 = (records, 0)"
| "sort_shift records key (Suc j) =
     (if pc_function_code (records ! j) > pc_function_code key
      then sort_shift (records[Suc j := records ! j]) key j
      else (records, Suc j))"

definition sort_insert :: "osdp_pdcap_record list \<Rightarrow> nat \<Rightarrow> osdp_pdcap_record list" where
  "sort_insert records i =
     (let key = records ! i; (records', j) = sort_shift records key i in records'[j := key])"

definition osdp_pd_internal_sort_pdcap :: "osdp_pdcap_record list \<Rightarrow> nat \<Rightarrow> osdp_pdcap_record list" where
  "osdp_pd_internal_sort_pdcap records cnt = foldl sort_insert records [1..<cnt]"

definition osdp_pd_get_pdcap :: "'w osdp_pd \<Rightarrow> nat \<Rightarrow> osdp_pdcap_record list result" where
  "osdp_pd_get_pdcap pd cap =
     (if length (pd_pdcap_records pd) = 0 then Inr []
      else
        let tot = OSDP_PDCAP_RESERVED_COUNT + length (pd_pdcap_records pd) in
        if cap < tot then Inl OSDP_ERR_BUFFER_TOO_SMALL
        else Inr (osdp_pd_internal_sort_pdcap
                    (osdp_pd_internal_fill_reserved_pdcap pd @ pd_pdcap_records pd) tot))"

section \<open>The sort is the stable sort\<close>

lemma sort_shift_split:
  assumes "\<forall>r \<in> set b. pc_function_code r > pc_function_code key"
  shows "\<exists>p q. a = p @ q \<and> (\<forall>r \<in> set q. pc_function_code r > pc_function_code key) \<and>
      (p = [] \<or> pc_function_code (last p) \<le> pc_function_code key) \<and>
      (case sort_shift (a @ c # b @ rest) key (length a) of (rs, j) \<Rightarrow> rs[j := key]) = p @ key # q @ b @ rest"
  using assms
proof (induction a arbitrary: b c rule: rev_induct)
  case Nil
  then show ?case by simp
next
  case (snoc x a)
  show ?case
  proof (cases "pc_function_code x > pc_function_code key")
    case True
    have "(a @ [x]) @ c # b @ rest = a @ x # c # b @ rest" by simp
    moreover have "(a @ x # c # b @ rest)[Suc (length a) := x] = a @ x # (x # b) @ rest"
      by (simp add: list_update_append)
    ultimately have sh: "sort_shift ((a @ [x]) @ c # b @ rest) key (length (a @ [x]))
        = sort_shift (a @ x # (x # b) @ rest) key (length a)"
      using True by (simp add: nth_append)
    obtain p q where pq: "a = p @ q" "\<forall>r \<in> set q. pc_function_code r > pc_function_code key"
      "p = [] \<or> pc_function_code (last p) \<le> pc_function_code key"
      "(case sort_shift (a @ x # (x # b) @ rest) key (length a) of (rs, j) \<Rightarrow> rs[j := key]) = p @ key # q @ (x # b) @ rest"
    proof -
      have "\<forall>r \<in> set (x # b). pc_function_code r > pc_function_code key"
        using snoc.prems True by simp
      from snoc.IH [OF this, of x] that show ?thesis by blast
    qed
    then show ?thesis
      unfolding sh using True by (intro exI [of _ p] exI [of _ "q @ [x]"]) auto
  next
    case False
    then have "sort_shift ((a @ [x]) @ c # b @ rest) key (length (a @ [x])) = ((a @ [x]) @ c # b @ rest, Suc (length a))"
      by (simp add: nth_append)
    then show ?thesis
      using False by (intro exI [of _ "a @ [x]"] exI [of _ "[]"]) (auto simp: list_update_append)
  qed
qed

definition fn_sorted :: "osdp_pdcap_record list \<Rightarrow> bool" where
  "fn_sorted rs \<longleftrightarrow> sorted (map pc_function_code rs)"

lemma sort_insert_step:
  assumes "rs = pre @ x # post" "fn_sorted pre"
  shows "\<exists>pre'. sort_insert rs (length pre) = pre' @ post \<and> fn_sorted pre' \<and> length pre' = Suc (length pre) \<and>
    mset pre' = mset (pre @ [x]) \<and>
    (\<forall>k. filter (\<lambda>r. pc_function_code r = k) pre' = filter (\<lambda>r. pc_function_code r = k) (pre @ [x]))"
proof -
  obtain p q where pq: "pre = p @ q" "\<forall>r \<in> set q. pc_function_code r > pc_function_code x"
    "p = [] \<or> pc_function_code (last p) \<le> pc_function_code x"
    "(case sort_shift (pre @ x # [] @ post) x (length pre) of (rs, j) \<Rightarrow> rs[j := x]) = p @ x # q @ [] @ post"
    using sort_shift_split [of "[]" x pre x post] by (metis empty_iff empty_set)
  have "sort_insert rs (length pre) = (p @ x # q) @ post"
    using pq(4) by (simp add: sort_insert_def assms(1) nth_append)
  moreover have "\<forall>r \<in> set p. pc_function_code r \<le> pc_function_code x"
  proof (cases p rule: rev_cases)
    case (snoc p' l)
    then show ?thesis
      using pq(1,3) assms(2) by (force simp: fn_sorted_def sorted_append)
  qed simp
  then have "fn_sorted (p @ x # q)"
    using assms(2) pq(1,2) by (force simp: fn_sorted_def sorted_append)
  moreover have "filter (\<lambda>r. pc_function_code r = k) (p @ x # q) = filter (\<lambda>r. pc_function_code r = k) (pre @ [x])" for k
  proof (cases "pc_function_code x = k")
    case True
    then have "filter (\<lambda>r. pc_function_code r = k) q = []" using pq(2) by (auto simp: filter_empty_conv)
    then show ?thesis by (simp add: pq(1))
  qed (simp add: pq(1))
  ultimately show ?thesis
    using pq(1) by (intro exI [of _ "p @ x # q"]) auto
qed

lemma sort_loop:
  assumes "i \<le> length rs" "fn_sorted (take i rs)"
  shows "\<exists>rs'. foldl sort_insert rs [i..<length rs] = rs' \<and> fn_sorted rs' \<and> mset rs' = mset rs \<and>
    (\<forall>k. filter (\<lambda>r. pc_function_code r = k) rs' = filter (\<lambda>r. pc_function_code r = k) rs)"
  using assms
proof (induction "length rs - i" arbitrary: i rs)
  case 0
  then show ?case by simp
next
  case (Suc n)
  then have i: "i < length rs" by simp
  then have rs: "rs = take i rs @ rs ! i # drop (Suc i) rs" by (rule id_take_nth_drop)
  obtain pre' where p: "sort_insert rs (length (take i rs)) = pre' @ drop (Suc i) rs" "fn_sorted pre'"
    "length pre' = Suc (length (take i rs))" "mset pre' = mset (take i rs @ [rs ! i])"
    "\<forall>k. filter (\<lambda>r. pc_function_code r = k) pre' = filter (\<lambda>r. pc_function_code r = k) (take i rs @ [rs ! i])"
    using sort_insert_step [OF rs Suc.prems(2)] by blast
  let ?rs1 = "pre' @ drop (Suc i) rs"
  have len: "length ?rs1 = length rs" "length pre' = Suc i" using p(3) i by simp_all
  have "fn_sorted (take (Suc i) ?rs1)" using p(2) len(2) by simp
  then obtain rs' where r: "foldl sort_insert ?rs1 [Suc i..<length ?rs1] = rs'" "fn_sorted rs'" "mset rs' = mset ?rs1"
    "\<forall>k. filter (\<lambda>r. pc_function_code r = k) rs' = filter (\<lambda>r. pc_function_code r = k) ?rs1"
    using Suc.hyps(1) [of ?rs1 "Suc i"] Suc.hyps(2) i len(1) by auto
  have "foldl sort_insert rs [i..<length rs] = rs'"
    using r(1) p(1) i len(1) by (simp add: upt_conv_Cons)
  moreover have "mset rs' = mset rs" using r(3) p(4) by (subst rs) simp
  moreover have "filter (\<lambda>r. pc_function_code r = k) rs' = filter (\<lambda>r. pc_function_code r = k) rs" for k
    using r(4) p(5) by (subst rs) simp
  ultimately show ?case using r(2) by blast
qed

lemma sort_pdcap_eq:
  "osdp_pd_internal_sort_pdcap rs (length rs) = sort_key pc_function_code rs"
proof (cases rs)
  case (Cons r rest)
  then have "fn_sorted (take 1 rs)" "1 \<le> length rs" by (simp_all add: fn_sorted_def)
  from sort_loop [OF this(2,1)] obtain rs' where "osdp_pd_internal_sort_pdcap rs (length rs) = rs'"
    "fn_sorted rs'" "mset rs' = mset rs"
    "\<forall>k. filter (\<lambda>r. pc_function_code r = k) rs' = filter (\<lambda>r. pc_function_code r = k) rs"
    by (auto simp: osdp_pd_internal_sort_pdcap_def)
  then show ?thesis
    using properties_for_sort_key [of rs' rs pc_function_code] by (simp add: fn_sorted_def eq_commute)
qed (simp add: osdp_pd_internal_sort_pdcap_def)

section \<open>Properties\<close>

text \<open>The in-place insertion sort of a capability report is the stable sort by function code: it
  permutes the records, orders them, and keeps records of the same code in their order.\<close>

theorem pdcap_sort_is_stable_sort:
  "osdp_pd_internal_sort_pdcap rs (length rs) = sort_key pc_function_code rs"
  by (rule sort_pdcap_eq)

lemma check_loop_None: "check_loop check i rs = None \<longleftrightarrow> (\<forall>r \<in> set rs. check r = OSDP_OK)"
  by (induction rs arbitrary: i) auto

lemma check_loop_Some:
  "check_loop check i rs = Some (s, j) \<Longrightarrow>
     i \<le> j \<and> j < i + length rs \<and> s = check (rs ! (j - i)) \<and> s \<noteq> OSDP_OK \<and> (\<forall>k < j - i. check (rs ! k) = OSDP_OK)"
proof (induction rs arbitrary: i)
  case (Cons r rs)
  show ?case
  proof (cases "check r = OSDP_OK")
    case True
    then have ih: "Suc i \<le> j" "j < Suc i + length rs" "s = check (rs ! (j - Suc i))" "s \<noteq> OSDP_OK"
      "\<forall>k < j - Suc i. check (rs ! k) = OSDP_OK"
      using Cons.IH [of "Suc i"] Cons.prems by auto
    then have "j - i = Suc (j - Suc i)" by simp
    then show ?thesis using ih True by (auto simp: nth_Cons split: nat.splits)
  qed (use Cons.prems in auto)
qed simp

lemma set_pdcap_cases:
  assumes "osdp_pd_set_pdcap pd (Some rs) (length rs) = (s, i, pd')"
  shows "s = OSDP_OK \<Longrightarrow> pd' = pd\<lparr>pd_pdcap_records := rs\<rparr> \<and> length rs \<le> OSDP_PD_MAX_PDCAP_RECORDS \<and>
      (\<forall>r \<in> set rs. bind_pdcap_record r = OSDP_OK \<and> check_pdcap_record pd r = OSDP_OK)"
    and "s \<noteq> OSDP_OK \<Longrightarrow> pd' = pd \<and> (length rs > OSDP_PD_MAX_PDCAP_RECORDS \<or>
      i < length rs \<and> s \<in> {bind_pdcap_record (rs ! i), check_pdcap_record pd (rs ! i)})"
  using assms
  by (auto simp: osdp_pd_set_pdcap_def osdp_pd_check_pdcap_def Let_def check_loop_None
      split: if_splits option.splits prod.splits dest: check_loop_Some)

text \<open>C29. A capability set is bound as a whole or not at all: when a record is refused the binding is
  unchanged and the index reported is that of a record refused with this very status; when the set
  is accepted, what the device reports from then on is the three records the library computes from
  its current state together with the bound ones, in ascending order of function code, no code
  of the three coming from the application.\<close>

theorem pdcap_binding:
  assumes "osdp_pd_set_pdcap pd (Some rs) (length rs) = (s, i, pd')" and "rs \<noteq> []"
  shows "if s = OSDP_OK
    then osdp_pd_get_pdcap pd' (OSDP_PDCAP_RESERVED_COUNT + OSDP_PD_MAX_PDCAP_RECORDS)
         = Inr (sort_key pc_function_code (osdp_pd_internal_fill_reserved_pdcap pd' @ rs)) \<and>
      (\<forall>r \<in> set rs. \<not> is_reserved_pdcap_fn (pc_function_code r) \<and> osdp_pdcap_validate_record r = OSDP_OK)
    else pd' = pd \<and> (length rs > OSDP_PD_MAX_PDCAP_RECORDS \<or>
      i < length rs \<and> s \<in> {bind_pdcap_record (rs ! i), check_pdcap_record pd (rs ! i)})"
proof (cases "s = OSDP_OK")
  case True
  note ok = set_pdcap_cases(1) [OF assms(1) True]
  let ?all = "osdp_pd_internal_fill_reserved_pdcap pd' @ rs"
  have l: "length ?all = 3 + length rs"
    by (simp add: osdp_pd_internal_fill_reserved_pdcap_def Let_def)
  have "osdp_pd_get_pdcap pd' 16 = Inr (osdp_pd_internal_sort_pdcap ?all (length ?all))"
    using ok assms(2) unfolding l by (simp add: osdp_pd_get_pdcap_def Let_def)
  note this [unfolded sort_pdcap_eq]
  then show ?thesis
    using True ok by (auto simp: bind_pdcap_record_def split: if_splits)
next
  case False
  then show ?thesis using set_pdcap_cases(2) [OF assms(1)] by simp
qed

definition ex_pdcap :: "osdp_pdcap_record list" where
  "ex_pdcap = [\<lparr>pc_function_code = 16, pc_compliance_level = 4, pc_num_objects = 0\<rparr>,
     \<lparr>pc_function_code = 4, pc_compliance_level = 4, pc_num_objects = 1\<rparr>]"

lemma ex_pdcap_bound:
  "osdp_pd_set_pdcap pd (Some ex_pdcap) (length ex_pdcap) = (OSDP_OK, 0, pd\<lparr>pd_pdcap_records := ex_pdcap\<rparr>)"
proof -
  have "\<forall>r \<in> set ex_pdcap. bind_pdcap_record r = OSDP_OK" by code_simp
  moreover have "\<forall>r \<in> set ex_pdcap. check_pdcap_record pd r = OSDP_OK"
    by (simp add: ex_pdcap_def check_pdcap_record_def)
  ultimately have "check_loop bind_pdcap_record 0 ex_pdcap = None" "check_loop (check_pdcap_record pd) 0 ex_pdcap = None"
    by (auto simp: check_loop_None)
  then show ?thesis
    by (simp add: osdp_pd_set_pdcap_def osdp_pd_check_pdcap_def Let_def) (simp add: ex_pdcap_def)
qed

theorem pdcap_binding_witness:
  "osdp_pd_get_pdcap ((osdp_pd_init 1 :: unit osdp_pd)\<lparr>pd_pdcap_records := ex_pdcap\<rparr>)
       (OSDP_PDCAP_RESERVED_COUNT + OSDP_PD_MAX_PDCAP_RECORDS)
     = Inr (sort_key pc_function_code
         (osdp_pd_internal_fill_reserved_pdcap ((osdp_pd_init 1 :: unit osdp_pd)\<lparr>pd_pdcap_records := ex_pdcap\<rparr>) @ ex_pdcap))"
  using pdcap_binding [OF ex_pdcap_bound [of "osdp_pd_init 1 :: unit osdp_pd"]] by (simp add: ex_pdcap_def)

end
