(* ===== verification/PD_File.thy ===== *)
theory PD_File
  imports PD_State
begin

unbundle bit_operations_syntax

text \<open>
  The file-transfer receiver of a peripheral device: \<open>osdp_pd_internal_filetransfer\<close> of
  \<^verbatim>\<open>pd/src/pd.c\<close>. A fragment is checked against the running transfer, stored in the receiver's buffer (or
  only handed on, in streaming mode), shown to the application, and answered with an osdp_FTSTAT.
  The lemmas show that no fragment is ever stored outside the buffer, and that a file sent in
  consecutive fragments arrives.
\<close>

section \<open>The receiver\<close>

abbreviation (input) OSDP_FTSTAT_UNRECOGNIZED :: "16 word" where "OSDP_FTSTAT_UNRECOGNIZED \<equiv> -2"
abbreviation (input) OSDP_FTSTAT_MALFORMED :: "16 word" where "OSDP_FTSTAT_MALFORMED \<equiv> -3"

definition ft_begin :: "'w osdp_pd \<Rightarrow> osdp_filetransfer_cmd \<Rightarrow> bool \<times> 'w osdp_pd" where
  "ft_begin pd ft =
     (let streaming = (pd_file_buf pd = None) in
      if ftc_offset ft = 0 then
        (\<not> (\<not> streaming \<and> unat (ftc_total_size ft) > pd_file_cap pd),
         pd\<lparr>pd_ft_active := True, pd_ft_type := ftc_ft_type ft, pd_ft_total := ftc_total_size ft,
            pd_ft_received := 0\<rparr>)
      else if \<not> pd_ft_active pd then (False, pd)
      else if ftc_offset ft \<noteq> pd_ft_received pd then (False, pd)
      else if ftc_ft_type ft \<noteq> pd_ft_type pd \<or> ftc_total_size ft \<noteq> pd_ft_total pd then (False, pd)
      else (True, pd))"

definition ft_in_range :: "'w osdp_pd \<Rightarrow> osdp_filetransfer_cmd \<Rightarrow> bool" where
  "ft_in_range pd ft =
     (if ftc_fragment_size ft > 0 then
        let fin = unat (ftc_offset ft) + unat (ftc_fragment_size ft) in
        if fin > unat (pd_ft_total pd) then False
        else if pd_file_buf pd \<noteq> None \<and> fin > pd_file_cap pd then False
        else True
      else True)"

definition ft_store :: "'w osdp_pd \<Rightarrow> osdp_filetransfer_cmd \<Rightarrow> 'w osdp_pd" where
  "ft_store pd ft =
     (if ftc_fragment_size ft > 0 \<and> ftc_data ft \<noteq> None then
        let pd1 = (case pd_file_buf pd of
                     None \<Rightarrow> pd
                   | Some buf \<Rightarrow>
                       pd\<lparr>pd_file_buf := Some (mp_store buf (unat (ftc_offset ft))
                            (take (unat (ftc_fragment_size ft)) (the (ftc_data ft))))\<rparr>)
        in pd1\<lparr>pd_ft_received := pd_ft_received pd1 + ucast (ftc_fragment_size ft)\<rparr>
      else pd)"

definition ft_verdict :: "osdp_status \<Rightarrow> bool \<Rightarrow> 16 word" where
  "ft_verdict verdict complete =
     (case verdict of
        OSDP_OK \<Rightarrow> if complete then OSDP_FTSTAT_PROCESSED else OSDP_FTSTAT_OK
      | OSDP_ERR_BAD_PAYLOAD \<Rightarrow> OSDP_FTSTAT_MALFORMED
      | OSDP_ERR_NOT_SUPPORTED \<Rightarrow> OSDP_FTSTAT_UNRECOGNIZED
      | _ \<Rightarrow> OSDP_FTSTAT_ABORT)"

definition ft_answer :: "16 word \<Rightarrow> bytes result" where
  "ft_answer detail =
     osdp_ftstat_build \<lparr>fs_action = 0, fs_delay_ms = 0, fs_status_detail = detail, fs_update_msg_max = 0\<rparr>
       OSDP_FTSTAT_PAYLOAD_BYTES"

definition osdp_pd_internal_filetransfer ::
  "'w osdp_pd \<Rightarrow> 'w \<Rightarrow> bytes_ptr \<Rightarrow> nat \<Rightarrow> bytes result \<times> 'w osdp_pd \<times> 'w" where
  "osdp_pd_internal_filetransfer pd w payload payload_len =
     (case pd_file_cb pd of
        None \<Rightarrow> (Inl OSDP_ERR_NOT_SUPPORTED, pd, w)
      | Some file_cb \<Rightarrow>
          (case osdp_filetransfer_decode payload payload_len of
             Inl _ \<Rightarrow> (Inl OSDP_ERR_BAD_PAYLOAD, pd, w)
           | Inr ft \<Rightarrow>
               let (begun, pd1) = ft_begin pd ft; ok = (begun \<and> ft_in_range pd1 ft) in
               if \<not> ok then (ft_answer OSDP_FTSTAT_ABORT, pd1\<lparr>pd_ft_active := False\<rparr>, w)
               else
                 let pd2 = ft_store pd1 ft;
                     complete = (pd_ft_received pd2 \<ge> pd_ft_total pd2);
                     info = \<lparr>fi_ft_type = pd_ft_type pd2, fi_total_size = pd_ft_total pd2,
                             fi_offset = ftc_offset ft, fi_fragment = ftc_data ft,
                             fi_fragment_len = unat (ftc_fragment_size ft), fi_data = pd_file_buf pd2,
                             fi_received = pd_ft_received pd2, fi_complete = complete\<rparr>;
                     (verdict, w1) = file_cb w info;
                     detail = ft_verdict verdict complete
                 in (ft_answer detail,
                     if sint detail < 0 \<or> complete then pd2\<lparr>pd_ft_active := False\<rparr> else pd2, w1)))"

section \<open>What a file transfer leaves alone\<close>

definition ft_mask :: "'w osdp_pd \<Rightarrow> 'w osdp_pd" where
  "ft_mask pd = pd\<lparr>pd_file_buf := None, pd_ft_active := False, pd_ft_type := 0, pd_ft_total := 0, pd_ft_received := 0\<rparr>"

lemma ft_begin_mask: "ft_begin pd ft = (ok, pd') \<Longrightarrow> ft_mask pd' = ft_mask pd"
  by (auto simp: ft_begin_def ft_mask_def Let_def split: if_splits)

lemma ft_store_mask: "ft_mask (ft_store pd ft) = ft_mask pd"
  by (auto simp: ft_store_def ft_mask_def Let_def split: option.splits)

lemma filetransfer_mask:
  assumes "osdp_pd_internal_filetransfer pd w p n = (r, pd', w')"
  shows "ft_mask pd' = ft_mask pd"
proof -
  have a: "ft_mask (q\<lparr>pd_ft_active := False\<rparr>) = ft_mask q" for q :: "'a osdp_pd"
    by (simp add: ft_mask_def)
  from assms show ?thesis
    by (auto simp: osdp_pd_internal_filetransfer_def Let_def a ft_store_mask dest!: ft_begin_mask
        split: option.splits sum.splits prod.splits if_splits)
qed

section \<open>Fragments stay inside the buffer\<close>

definition ft_wf :: "'w osdp_pd \<Rightarrow> bool" where
  "ft_wf pd \<longleftrightarrow> (\<forall>b. pd_file_buf pd = Some b \<longrightarrow> pd_file_cap pd \<le> length b) \<and>
     (pd_ft_active pd \<longrightarrow> pd_ft_received pd \<le> pd_ft_total pd \<and>
        (pd_file_buf pd \<noteq> None \<longrightarrow> unat (pd_ft_total pd) \<le> pd_file_cap pd))"

definition ft_file_len :: "'w osdp_pd \<Rightarrow> nat option" where
  "ft_file_len pd = map_option length (pd_file_buf pd)"

declare unat_ucast_u16 [simp]

lemma unat_of_nat_u32: "n < 4294967296 \<Longrightarrow> unat (word_of_nat n :: u32) = n"
  by (simp add: unat_of_nat)

lemma ucast_u16_of_nat: "(ucast (v :: u16) :: u32) = word_of_nat (unat v)"
  using unat_u16_le [of v] by (simp add: word_unat_eq_iff unat_of_nat)

lemma ft_received_add:
  assumes "unat (r :: u32) + unat (n :: u16) \<le> unat (t :: u32)"
  shows "unat (r + ucast n) = unat r + unat n"
proof -
  have "unat r + unat n < 4294967296"
    using assms unat_u32_lt [of t] by linarith
  then show ?thesis by (simp add: unat_word_ariths)
qed

lemma ft_begin_ok:
  assumes "ft_wf pd" "ft_begin pd ft = (True, pd1)"
  shows "ft_wf pd1" "pd_ft_active pd1" "pd_ft_received pd1 = ftc_offset ft" "pd_ft_total pd1 = ftc_total_size ft"
    "pd_ft_type pd1 = ftc_ft_type ft" "pd_file_buf pd1 = pd_file_buf pd" "pd_file_cap pd1 = pd_file_cap pd"
    "pd_file_cb pd1 = pd_file_cb pd"
  using assms by (auto simp: ft_begin_def ft_wf_def Let_def not_less split: if_splits)

lemma ft_store_wf:
  assumes "ft_wf pd" "pd_ft_active pd" "pd_ft_received pd = ftc_offset ft" "ft_in_range pd ft"
  shows "ft_wf (ft_store pd ft) \<and> ft_file_len (ft_store pd ft) = ft_file_len pd"
proof (cases "ftc_fragment_size ft > 0 \<and> ftc_data ft \<noteq> None")
  case True
  let ?d = "take (unat (ftc_fragment_size ft)) (the (ftc_data ft))"
  have r: "unat (ftc_offset ft) + unat (ftc_fragment_size ft) \<le> unat (pd_ft_total pd)"
    "pd_file_buf pd \<noteq> None \<Longrightarrow> unat (ftc_offset ft) + unat (ftc_fragment_size ft) \<le> pd_file_cap pd"
    using assms(4) True by (auto simp: ft_in_range_def Let_def split: if_splits)
  note add = ft_received_add [OF r(1)]
  have "length (mp_store b (unat (ftc_offset ft)) ?d) = length b" if "pd_file_buf pd = Some b" for b
    using r(2) that assms(1) by (intro length_mp_store) (auto simp: ft_wf_def)
  then show ?thesis
    using True assms(1,2,3) add r(1)
    by (auto simp: ft_store_def ft_wf_def ft_file_len_def word_le_nat_alt split: option.splits)
next
  case False
  then show ?thesis using assms by (auto simp: ft_store_def)
qed

lemma filetransfer_wf:
  assumes "ft_wf pd" "osdp_pd_internal_filetransfer pd w p n = (r, pd', w')"
  shows "ft_wf pd' \<and> ft_file_len pd' = ft_file_len pd"
proof -
  have stop: "ft_wf (q\<lparr>pd_ft_active := False\<rparr>) \<and> ft_file_len (q\<lparr>pd_ft_active := False\<rparr>) = ft_file_len q"
    if "\<forall>b. pd_file_buf q = Some b \<longrightarrow> pd_file_cap q \<le> length b" for q :: "'a osdp_pd"
    using that by (simp add: ft_wf_def ft_file_len_def)
  show ?thesis
  proof (cases "pd_file_cb pd = None \<or> (\<exists>e. osdp_filetransfer_decode p n = Inl e)")
    case True
    then show ?thesis
      using assms by (auto simp: osdp_pd_internal_filetransfer_def split: option.splits sum.splits)
  next
    case False
    then obtain cb ft where c: "pd_file_cb pd = Some cb" "osdp_filetransfer_decode p n = Inr ft"
      by (cases "osdp_filetransfer_decode p n") auto
    obtain begun pd1 where b: "ft_begin pd ft = (begun, pd1)" by fastforce
    have keep: "pd_file_buf pd1 = pd_file_buf pd" "pd_file_cap pd1 = pd_file_cap pd"
      using b by (auto simp: ft_begin_def Let_def split: if_splits)
    show ?thesis
    proof (cases "begun \<and> ft_in_range pd1 ft")
      case True
      with ft_begin_ok [OF assms(1), of ft pd1] b ft_store_wf [of pd1 ft]
      have s: "ft_wf (ft_store pd1 ft)" "ft_file_len (ft_store pd1 ft) = ft_file_len pd"
        by (auto simp: ft_file_len_def)
      have "pd' = ft_store pd1 ft \<or> pd' = (ft_store pd1 ft)\<lparr>pd_ft_active := False\<rparr>"
        using assms(2) c b True
        by (auto simp: osdp_pd_internal_filetransfer_def Let_def split: if_splits prod.splits)
      then show ?thesis
        using s stop [of "ft_store pd1 ft"] by (auto simp: ft_wf_def)
    next
      case False
      then have "pd' = pd1\<lparr>pd_ft_active := False\<rparr>"
        using assms(2) c b by (auto simp: osdp_pd_internal_filetransfer_def Let_def split: if_splits)
      then show ?thesis
        using stop [of pd1] keep assms(1) by (simp add: ft_wf_def ft_file_len_def)
    qed
  qed
qed

section \<open>A whole file\<close>

text \<open>The sender's fragments, one command after the other from offset \<open>off\<close>, and what the application is shown
  when they arrive in the buffer \<open>b\<close>.\<close>

definition file_cmd :: "byte \<Rightarrow> bytes \<Rightarrow> nat \<Rightarrow> bytes \<Rightarrow> osdp_filetransfer_cmd" where
  "file_cmd t file off d =
     \<lparr>ftc_ft_type = t, ftc_total_size = word_of_nat (length file), ftc_offset = word_of_nat off,
      ftc_fragment_size = word_of_nat (length d), ftc_data = ptr_of d, ftc_data_len = length d\<rparr>"

fun send_file ::
  "'w osdp_pd \<Rightarrow> 'w \<Rightarrow> byte \<Rightarrow> bytes \<Rightarrow> nat \<Rightarrow> bytes list \<Rightarrow> bytes result list \<times> 'w osdp_pd \<times> 'w" where
  "send_file pd w t file off [] = ([], pd, w)"
| "send_file pd w t file off (d # ds) =
     (case osdp_filetransfer_build (file_cmd t file off d) (OSDP_FILETRANSFER_HEADER_BYTES + length d) of
        Inl e \<Rightarrow> ([Inl e], pd, w)
      | Inr p \<Rightarrow>
          let (r, pd1, w1) = osdp_pd_internal_filetransfer pd w (Some p) (length p);
              (rs, pd2, w2) = send_file pd1 w1 t file (off + length d) ds
          in (r # rs, pd2, w2))"

fun file_infos :: "byte \<Rightarrow> bytes \<Rightarrow> bytes \<Rightarrow> nat \<Rightarrow> bytes list \<Rightarrow> osdp_pd_file_info list" where
  "file_infos t file b off [] = []"
| "file_infos t file b off (d # ds) =
     \<lparr>fi_ft_type = t, fi_total_size = word_of_nat (length file), fi_offset = word_of_nat off,
      fi_fragment = Some d, fi_fragment_len = length d,
      fi_data = Some (take (off + length d) file @ drop (off + length d) b),
      fi_received = word_of_nat (off + length d), fi_complete = (ds = [])\<rparr>
     # file_infos t file b (off + length d) ds"

text \<open>The state of the receiver after the first \<open>off\<close> bytes.\<close>

definition file_received :: "'w osdp_pd \<Rightarrow> byte \<Rightarrow> bytes \<Rightarrow> bytes \<Rightarrow> nat \<Rightarrow> 'w osdp_pd" where
  "file_received pd t file b off =
     pd\<lparr>pd_ft_active := off < length file, pd_ft_type := t, pd_ft_total := word_of_nat (length file),
        pd_ft_received := word_of_nat off, pd_file_buf := Some (take off file @ drop off b)\<rparr>"

lemma file_received_idem [simp]:
  "file_received (file_received pd t file b off) t file b off' = file_received pd t file b off'"
  by (simp add: file_received_def)

lemma file_cmd_decoded:
  assumes "d \<noteq> []" "length d \<le> 65535"
  shows "\<exists>p. osdp_filetransfer_build (file_cmd t file off d) (OSDP_FILETRANSFER_HEADER_BYTES + length d) = Inr p \<and>
    osdp_filetransfer_decode (Some p) (length p) = Inr (file_cmd t file off d)"
proof -
  let ?c = "file_cmd t file off d"
  have l: "unat (word_of_nat (length d) :: u16) = length d"
    using assms(2) by (simp add: unat_of_nat_u16)
  then obtain p where p: "osdp_filetransfer_build ?c (11 + length d) = Inr p" "p \<noteq> []"
    using assms(1) by (auto simp: osdp_filetransfer_build_def file_cmd_def ptr_of_def)
  moreover have "osdp_filetransfer_decode (ptr_of p) (length p) = Inr ?c"
    by (rule filetransfer.decode_build [OF _ p(1)]) (auto simp: file_cmd_def)
  ultimately show ?thesis by (auto simp: ptr_of_def)
qed

lemma ft_begin_file:
  assumes "pd = file_received q t file b off \<and> off < length file \<or> off = 0 \<and> pd_file_buf pd = Some b"
    and "length file < 2 ^ 32" "length file \<le> pd_file_cap pd"
  shows "ft_begin pd (file_cmd t file off d) =
    (True, pd\<lparr>pd_ft_active := True, pd_ft_type := t, pd_ft_total := word_of_nat (length file),
       pd_ft_received := word_of_nat off\<rparr>)" and "pd_file_buf pd = Some (take off file @ drop off b)"
proof -
  have uf: "unat (word_of_nat (length file) :: u32) = length file"
    using assms(2) by (simp add: unat_of_nat_u32)
  let ?G = "ft_begin pd (file_cmd t file off d) =
    (True, pd\<lparr>pd_ft_active := True, pd_ft_type := t, pd_ft_total := word_of_nat (length file),
       pd_ft_received := word_of_nat off\<rparr>) \<and> pd_file_buf pd = Some (take off file @ drop off b)"
  have "?G" if s: "off = 0" and "pd_file_buf pd = Some b"
    using that uf assms(3) by (simp add: ft_begin_def file_cmd_def Let_def)
  moreover have "?G" if p: "pd = file_received q t file b off" and o: "off < length file" "off \<noteq> 0"
  proof -
    have "unat (word_of_nat off :: u32) = off" using o(1) assms(2) by (simp add: unat_of_nat_u32)
    then have "(word_of_nat off :: u32) \<noteq> 0" using o(2) by (metis unat_0)
    then show ?thesis unfolding p using o by (simp add: ft_begin_def file_cmd_def file_received_def)
  qed
  moreover have "pd_file_buf pd = Some b" if "pd = file_received q t file b off" "off = 0"
    unfolding that by (simp add: file_received_def)
  ultimately have "?G" using assms(1) by blast
  then show "ft_begin pd (file_cmd t file off d) =
    (True, pd\<lparr>pd_ft_active := True, pd_ft_type := t, pd_ft_total := word_of_nat (length file),
       pd_ft_received := word_of_nat off\<rparr>)" and "pd_file_buf pd = Some (take off file @ drop off b)"
    by blast+
qed

lemma mp_store_next:
  assumes "take (length d) (drop off file) = d" "d \<noteq> []" "length file \<le> length b"
  shows "off + length d \<le> length file"
    and "mp_store (take off file @ drop off b) off d = take (off + length d) file @ drop (off + length d) b"
proof -
  have "length d \<le> length file - off"
    using arg_cong [OF assms(1), of length] by simp
  then show l: "off + length d \<le> length file"
    using assms(2) by (cases d) auto
  then show "mp_store (take off file @ drop off b) off d = take (off + length d) file @ drop (off + length d) b"
    using assms by (simp add: mp_store_def take_add add.commute)
qed

lemma file_fragment_received:
  assumes cb: "pd_file_cb pd = Some cb" "\<And>w i. fst (cb w i) = OSDP_OK"
    and dec: "osdp_filetransfer_decode p n = Inr (file_cmd t file off d)"
    and len: "d \<noteq> []" "length d \<le> 65535" "length file < 2 ^ 32" "take (length d) (drop off file) = d"
    and fits: "length file \<le> pd_file_cap pd" "pd_file_cap pd \<le> length b"
    and st: "pd = file_received q t file b off \<or> off = 0 \<and> pd_file_buf pd = Some b"
  shows "osdp_pd_internal_filetransfer pd w p n =
    (ft_answer (if off + length d = length file then OSDP_FTSTAT_PROCESSED else OSDP_FTSTAT_OK),
     file_received pd t file b (off + length d),
     snd (cb w \<lparr>fi_ft_type = t, fi_total_size = word_of_nat (length file), fi_offset = word_of_nat off,
        fi_fragment = Some d, fi_fragment_len = length d,
        fi_data = Some (take (off + length d) file @ drop (off + length d) b),
        fi_received = word_of_nat (off + length d), fi_complete = (off + length d = length file)\<rparr>))"
proof -
  let ?c = "file_cmd t file off d"
  let ?pd1 = "pd\<lparr>pd_ft_active := True, pd_ft_type := t, pd_ft_total := word_of_nat (length file),
       pd_ft_received := word_of_nat off\<rparr>"
  let ?pd2 = "?pd1\<lparr>pd_ft_received := word_of_nat (off + length d),
       pd_file_buf := Some (take (off + length d) file @ drop (off + length d) b)\<rparr>"
  note bnd = mp_store_next [OF len(4,1) order.trans [OF fits]]
  have u: "unat (word_of_nat k :: u32) = k" if "k \<le> length file" for k
    using that len(3) by (simp add: unat_of_nat_u32)
  have ud: "unat (word_of_nat (length d) :: u16) = length d"
    using len(2) by (simp add: unat_of_nat_u16)
  have off: "off < length file" using bnd(1) len(1) by (cases d) auto
  note beg = ft_begin_file [OF _ len(3) fits(1), where q = q and t = t and b = b and off = off]
  have b1: "ft_begin pd ?c = (True, ?pd1)" and b2: "pd_file_buf pd = Some (take off file @ drop off b)"
    using beg st off by blast+
  have rng: "ft_in_range ?pd1 ?c"
    using bnd(1) u [of off] u [of "length file"] off ud fits(1) by (auto simp: ft_in_range_def file_cmd_def)
  have pos: "(word_of_nat (length d) :: u16) > 0"
    using ud len(1) by (simp add: word_less_nat_alt)
  have rec: "(word_of_nat off :: u32) + ucast (word_of_nat (length d) :: u16) = word_of_nat (off + length d)"
    by (simp add: ucast_u16_of_nat ud)
  have sto: "ft_store ?pd1 ?c = ?pd2"
    using pos len(1) bnd(2) b2 rec ud u [of off] off
    by (simp add: ft_store_def file_cmd_def ptr_of_def)
  have cmp: "(word_of_nat (off + length d) :: u32) \<ge> word_of_nat (length file) \<longleftrightarrow> off + length d = length file"
    using u [of "off + length d"] u [of "length file"] bnd(1) by (auto simp: word_le_nat_alt)
  obtain w' where w': "cb w \<lparr>fi_ft_type = t, fi_total_size = word_of_nat (length file), fi_offset = word_of_nat off,
        fi_fragment = Some d, fi_fragment_len = length d,
        fi_data = Some (take (off + length d) file @ drop (off + length d) b),
        fi_received = word_of_nat (off + length d), fi_complete = (off + length d = length file)\<rparr> = (OSDP_OK, w')"
    using cb(2) by (metis prod.collapse)
  have fields: "ftc_offset ?c = word_of_nat off" "ftc_data ?c = Some d" "unat (ftc_fragment_size ?c) = length d"
    using ud len(1) by (simp_all add: file_cmd_def ptr_of_def)
  show ?thesis
    using bnd(1) by (simp add: osdp_pd_internal_filetransfer_def cb(1) dec b1 rng sto fields cmp w' ft_verdict_def
        file_received_def Let_def del: of_nat_add)
qed

lemma send_file_received:
  assumes cb: "pd_file_cb pd = Some cb" "\<And>w i. fst (cb w i) = OSDP_OK"
    and ds: "ds \<noteq> []" "list_all (\<lambda>d. d \<noteq> [] \<and> length d \<le> 65535) ds" "drop off file = concat ds"
    and fits: "length file < 2 ^ 32" "length file \<le> pd_file_cap pd" "pd_file_cap pd \<le> length b"
    and st: "pd = file_received q t file b off \<or> off = 0 \<and> pd_file_buf pd = Some b"
  shows "send_file pd w t file off ds =
    (replicate (length ds - 1) (ft_answer OSDP_FTSTAT_OK) @ [ft_answer OSDP_FTSTAT_PROCESSED],
     file_received pd t file b (length file), foldl (\<lambda>w i. snd (cb w i)) w (file_infos t file b off ds))"
  using assms
proof (induction ds arbitrary: pd q w off)
  case (Cons d ds)
  note IH = Cons.IH
  let ?off = "off + length d"
  have d: "d \<noteq> []" "length d \<le> 65535" "take (length d) (drop off file) = d" "drop ?off file = concat ds"
    using Cons.prems(4,5) by (simp_all, metis append_eq_conv_conj drop_drop add.commute)
  then have "?off \<le> length file"
    using mp_store_next(1) [of d off "file" b] Cons.prems(7,8) by simp
  have last: "?off = length file \<longleftrightarrow> ds = []"
  proof -
    have "length file - ?off = length (concat ds)" using d(4) by (metis length_drop)
    moreover have "concat ds = [] \<longleftrightarrow> ds = []" using Cons.prems(4) by (cases ds) auto
    ultimately show ?thesis using \<open>?off \<le> length file\<close> by auto
  qed
  obtain p where p: "osdp_filetransfer_build (file_cmd t file off d) (11 + length d) = Inr p"
    "osdp_filetransfer_decode (Some p) (length p) = Inr (file_cmd t file off d)"
    using file_cmd_decoded [OF d(1,2)] by blast
  note step = file_fragment_received [OF Cons.prems(1,2) p(2) d(1,2) Cons.prems(6) d(3) Cons.prems(7,8,9), of w]
  let ?pd = "file_received pd t file b ?off"
  show ?case
  proof (cases "ds = []")
    case True
    then show ?thesis using step p(1) last by (auto simp del: of_nat_add)
  next
    case False
    have "pd_file_cb ?pd = Some cb" "pd_file_cap ?pd = pd_file_cap pd"
      using Cons.prems(1) by (simp_all add: file_received_def)
    then have "send_file ?pd w t file ?off ds =
        (replicate (length ds - 1) (ft_answer 0) @ [ft_answer 1], file_received ?pd t file b (length file),
         foldl (\<lambda>w i. snd (cb w i)) w (file_infos t file b ?off ds))" for w
      by (intro IH [of _ _ pd]) (use False Cons.prems d(4) in auto)
    then show ?thesis
      using step p(1) last False by (cases ds) (auto simp del: of_nat_add)
  qed
qed simp

section \<open>Properties\<close>

text \<open>The file receiver never leaves its buffer: whatever payload arrives, the buffer keeps its length
  and a running transfer keeps to a total that fits the buffer and has not received more than it.\<close>

theorem file_receiver_in_bounds:
  assumes "ft_wf pd" and "osdp_pd_internal_filetransfer pd w p n = (r, pd', w')"
  shows "ft_wf pd' \<and> map_option length (pd_file_buf pd') = map_option length (pd_file_buf pd)"
  using filetransfer_wf [OF assms] by (simp add: ft_file_len_def)

theorem file_receiver_in_bounds_witness:
  "let pd = osdp_pd_set_file_receiver (osdp_pd_init 1 :: unit osdp_pd) (Some [1, 2, 3]) 3 (Some (\<lambda>w i. (OSDP_OK, w)));
       pd' = fst (snd (osdp_pd_internal_filetransfer pd () (Some (replicate 11 0)) 11))
   in ft_wf pd' \<and> map_option length (pd_file_buf pd') = Some 3"
proof -
  let ?pd = "osdp_pd_set_file_receiver (osdp_pd_init 1 :: unit osdp_pd) (Some [1, 2, 3]) 3 (Some (\<lambda>w i. (OSDP_OK, w)))"
  have "ft_wf ?pd" by (simp add: ft_wf_def osdp_pd_set_file_receiver_def)
  moreover obtain r pd' w' where
    f: "osdp_pd_internal_filetransfer ?pd () (Some (replicate 11 0)) 11 = (r, pd', w')"
    by (metis prod_cases3)
  ultimately have "ft_wf pd' \<and> map_option length (pd_file_buf pd') = map_option length (pd_file_buf ?pd)"
    by (rule file_receiver_in_bounds)
  then show ?thesis
    unfolding Let_def f by (simp add: osdp_pd_set_file_receiver_def numeral_3_eq_3)
qed

text \<open>C23. A file sent in consecutive fragments is received: if it fits the buffer and the application accepts
  every fragment, each fragment is answered with "proceed" and the last one with "processed", the
  application is shown every fragment with the file as received so far in the buffer, the last time
  as complete, and in the end the buffer starts with the whole file and the transfer is over.\<close>

theorem file_transfer_delivers:
  assumes "pd_file_cb pd = Some cb" and "\<forall>w i. fst (cb w i) = OSDP_OK"
    and "pd_file_buf pd = Some b" and "length (concat ds) \<le> pd_file_cap pd" and "pd_file_cap pd \<le> length b"
    and "ds \<noteq> []" and "list_all (\<lambda>d. d \<noteq> [] \<and> length d \<le> 65535) ds" and "length (concat ds) < 2 ^ 32"
  shows "\<exists>pd'. send_file pd w t (concat ds) 0 ds =
      (replicate (length ds - 1) (ft_answer OSDP_FTSTAT_OK) @ [ft_answer OSDP_FTSTAT_PROCESSED], pd',
       foldl (\<lambda>w i. snd (cb w i)) w (file_infos t (concat ds) b 0 ds)) \<and>
    take (length (concat ds)) (the (pd_file_buf pd')) = concat ds \<and> \<not> pd_ft_active pd'"
proof -
  have "send_file pd w t (concat ds) 0 ds =
      (replicate (length ds - 1) (ft_answer OSDP_FTSTAT_OK) @ [ft_answer OSDP_FTSTAT_PROCESSED],
       file_received pd t (concat ds) b (length (concat ds)),
       foldl (\<lambda>w i. snd (cb w i)) w (file_infos t (concat ds) b 0 ds))"
    by (rule send_file_received) (use assms in auto)
  then show ?thesis by (simp add: file_received_def)
qed

definition ex_file :: "bytes list" where
  "ex_file = [[10, 20, 30], [40, 50]]"

definition ex_receiver :: "bool list osdp_pd" where
  "ex_receiver = osdp_pd_set_file_receiver (osdp_pd_init 1) (Some (replicate 8 0)) 8
     (Some (\<lambda>w i. (OSDP_OK, w @ [fi_complete i])))"

theorem file_transfer_delivers_witness:
  "\<exists>pd'. send_file ex_receiver [] 1 (concat ex_file) 0 ex_file = ([ft_answer 0, ft_answer 1], pd', [False, True]) \<and>
     take 5 (the (pd_file_buf pd')) = [10, 20, 30, 40, 50]"
proof -
  have r: "pd_file_cb ex_receiver = Some (\<lambda>w i. (OSDP_OK, w @ [fi_complete i]))"
    "pd_file_buf ex_receiver = Some (replicate 8 0)" "pd_file_cap ex_receiver = 8"
    by (simp_all add: ex_receiver_def osdp_pd_set_file_receiver_def)
  have f: "length (concat ex_file) = 5" "ex_file \<noteq> []" "list_all (\<lambda>d. d \<noteq> [] \<and> length d \<le> 65535) ex_file"
    by (simp_all add: ex_file_def)
  obtain pd' where p: "send_file ex_receiver [] 1 (concat ex_file) 0 ex_file =
      (replicate (length ex_file - 1) (ft_answer OSDP_FTSTAT_OK) @ [ft_answer OSDP_FTSTAT_PROCESSED], pd',
       foldl (\<lambda>w i. snd (OSDP_OK, w @ [fi_complete i])) [] (file_infos 1 (concat ex_file) (replicate 8 0) 0 ex_file))"
    "take (length (concat ex_file)) (the (pd_file_buf pd')) = concat ex_file"
    using file_transfer_delivers [OF r(1) _ r(2) _ _ f(2,3), of "[]" 1] r(3) f(1) by auto
  have "foldl (\<lambda>w i. snd (OSDP_OK, w @ [fi_complete i])) [] (file_infos 1 (concat ex_file) (replicate 8 0) 0 ex_file)
      = [False, True]" "replicate (length ex_file - 1) (ft_answer 0) @ [ft_answer 1] = [ft_answer 0, ft_answer 1]"
    "concat ex_file = [10, 20, 30, 40, 50]"
    by (simp_all add: ex_file_def)
  with p(1) p(2) [unfolded f(1)] show ?thesis by auto
qed

end
