(* ===== verification/PD_Dispatch.thy ===== *)
theory PD_Dispatch
  imports PD_Events PD_Reader PD_PDCAP PD_File
begin

unbundle bit_operations_syntax

text \<open>
  What a command means to a peripheral device: \<^verbatim>\<open>pd/src/pd_dispatch.c\<close> and the operations of
  \<^verbatim>\<open>pd/src/pd.c\<close> it calls (key rotation, COMSET). The dispatch decides the reply to one
  command in the clear and knows nothing about framing. \<open>reply_scratch\<close> is the payload of the reply.
\<close>

section \<open>Key rotation and COMSET\<close>

definition osdp_pd_internal_apply_keyset :: "'w osdp_pd \<Rightarrow> bytes_ptr \<Rightarrow> nat \<Rightarrow> osdp_status \<times> 'w osdp_pd" where
  "osdp_pd_internal_apply_keyset pd payload payload_len =
     (case osdp_keyset_decode payload payload_len of
        Inl s \<Rightarrow> (s, pd)
      | Inr parsed \<Rightarrow>
          if ks_key_type parsed \<noteq> OSDP_KEYSET_KEY_TYPE_SCBK then (OSDP_ERR_BAD_PAYLOAD, pd)
          else if unat (ks_key_length parsed) \<noteq> OSDP_SC_KEY_LEN \<or> ks_key_data parsed = None
          then (OSDP_ERR_BAD_PAYLOAD, pd)
          else (OSDP_OK, pd\<lparr>pd_sc := (pd_sc pd)\<lparr>sc_scbk := take OSDP_SC_KEY_LEN (the (ks_key_data parsed)),
                                                sc_scbk_set := True\<rparr>\<rparr>))"

abbreviation (input) OSDP_PD_MAX_ADDR :: byte where "OSDP_PD_MAX_ADDR \<equiv> 0x7E"

definition osdp_pd_internal_comset_effective ::
  "'w osdp_pd \<Rightarrow> 'w \<Rightarrow> bytes_ptr \<Rightarrow> nat \<Rightarrow> (byte \<times> u32 \<times> bytes) result \<times> 'w" where
  "osdp_pd_internal_comset_effective pd w payload payload_len =
     (case osdp_comset_decode payload payload_len of
        Inl s \<Rightarrow> (Inl s, w)
      | Inr req \<Rightarrow>
          let (addr0, baud, w1) =
                (case pd_comset_cb pd of
                   None \<Rightarrow> (cs_address req, cs_baud_rate req, w)
                 | Some cb \<Rightarrow> cb w (cs_address req) (cs_baud_rate req) (cs_address req) (cs_baud_rate req));
              addr = (if addr0 > OSDP_PD_MAX_ADDR then pd_address pd else addr0)
          in (case osdp_com_build \<lparr>co_address = addr, co_baud_rate = baud\<rparr> OSDP_COM_PAYLOAD_BYTES of
                Inl s \<Rightarrow> (Inl s, w1)
              | Inr com_payload \<Rightarrow> (Inr (addr, baud, com_payload), w1)))"

definition osdp_pd_internal_apply_comset :: "'w osdp_pd \<Rightarrow> 'w \<Rightarrow> 'w osdp_pd \<times> 'w" where
  "osdp_pd_internal_apply_comset pd w =
     (let pd1 = pd\<lparr>pd_comset_pending := False, pd_address := pd_comset_new_address pd, pd_have_last := False\<rparr>
      in case pd_comset_applied_cb pd of
           None \<Rightarrow> (pd1, w)
         | Some cb \<Rightarrow> (pd1, cb w (pd_comset_new_address pd) (pd_comset_new_baud pd)))"

section \<open>Handlers\<close>

datatype osdp_pd_channel = OSDP_PD_CH_PLAIN | OSDP_PD_CH_SC1
datatype osdp_pd_dispatch_outcome = OSDP_PD_DISPATCH_SEND | OSDP_PD_DISPATCH_DROP | OSDP_PD_DISPATCH_BUSY

definition nak_into :: "byte \<Rightarrow> osdp_pd_reply" where
  "nak_into error_code = \<lparr>rp_code = OSDP_REPLY_NAK, rp_payload = Some [error_code], rp_payload_len = 1\<rparr>"

definition ack_reply :: osdp_pd_reply where
  "ack_reply = \<lparr>rp_code = OSDP_REPLY_ACK, rp_payload = None, rp_payload_len = 0\<rparr>"

definition scratch_reply :: "byte \<Rightarrow> bytes \<Rightarrow> osdp_pd_reply" where
  "scratch_reply code p = \<lparr>rp_code = code, rp_payload = Some p, rp_payload_len = length p\<rparr>"

definition handle_comset :: "'w osdp_pd \<Rightarrow> 'w \<Rightarrow> bytes_ptr \<Rightarrow> nat \<Rightarrow> osdp_pd_reply \<times> 'w osdp_pd \<times> 'w" where
  "handle_comset pd w payload payload_len =
     (case osdp_pd_internal_comset_effective pd w payload payload_len of
        (Inl _, w1) \<Rightarrow> (nak_into OSDP_NAK_CMD_LENGTH, pd, w1)
      | (Inr (eff_addr, eff_baud, com_payload), w1) \<Rightarrow>
          (scratch_reply OSDP_REPLY_COM com_payload,
           pd\<lparr>pd_comset_pending := True, pd_comset_new_address := eff_addr, pd_comset_new_baud := eff_baud\<rparr>, w1))"

definition handle_filetransfer :: "'w osdp_pd \<Rightarrow> 'w \<Rightarrow> bytes_ptr \<Rightarrow> nat \<Rightarrow> osdp_pd_reply \<times> 'w osdp_pd \<times> 'w" where
  "handle_filetransfer pd w payload payload_len =
     (case osdp_pd_internal_filetransfer pd w payload payload_len of
        (Inl s, pd1, w1) \<Rightarrow>
          (nak_into (if s = OSDP_ERR_NOT_SUPPORTED then OSDP_NAK_UNKNOWN_CMD else OSDP_NAK_CMD_LENGTH), pd1, w1)
      | (Inr ftstat_payload, pd1, w1) \<Rightarrow> (scratch_reply OSDP_REPLY_FTSTAT ftstat_payload, pd1, w1))"

definition apply_keyset_for_channel ::
  "'w osdp_pd \<Rightarrow> osdp_pd_channel \<Rightarrow> bytes_ptr \<Rightarrow> nat \<Rightarrow> bool \<times> 'w osdp_pd" where
  "apply_keyset_for_channel pd channel payload payload_len =
     (case osdp_pd_internal_apply_keyset pd payload payload_len of (s, pd1) \<Rightarrow> (s = OSDP_OK, pd1))"

text \<open>\<open>None\<close> is the return value false: no provider for this command.\<close>

definition list_status ::
  "('w \<Rightarrow> nat \<Rightarrow> nat \<times> bytes \<times> 'w) option \<Rightarrow> byte \<Rightarrow> (bytes_ptr \<Rightarrow> nat \<Rightarrow> nat \<Rightarrow> bytes result) \<Rightarrow> 'w
     \<Rightarrow> (osdp_pd_reply \<times> 'w) option" where
  "list_status provider reply_code build w =
     (case provider of
        None \<Rightarrow> None
      | Some f \<Rightarrow>
          (case f w OSDP_PD_REPLY_SCRATCH_LEN of
             (cnt, statuses, w1) \<Rightarrow>
               let cnt' = (if cnt > OSDP_PD_REPLY_SCRATCH_LEN then OSDP_PD_REPLY_SCRATCH_LEN else cnt) in
               (case build (Some statuses) cnt' OSDP_PD_REPLY_SCRATCH_LEN of
                  Inl _ \<Rightarrow> Some (nak_into OSDP_NAK_RECORD_INVALID, w1)
                | Inr p \<Rightarrow> Some (scratch_reply reply_code p, w1))))"

definition handle_status_request :: "'w osdp_pd \<Rightarrow> 'w \<Rightarrow> byte \<Rightarrow> (osdp_pd_reply \<times> 'w) option" where
  "handle_status_request pd w cmd_code =
     (if cmd_code = OSDP_CMD_LSTAT then
        (case sp_local (pd_status pd) of
           None \<Rightarrow> None
         | Some f \<Rightarrow>
             (case f w 0 0 of
                (tamper, pwr, w1) \<Rightarrow>
                  (case osdp_lstatr_build \<lparr>ls_tamper = tamper, ls_power = pwr\<rparr> OSDP_PD_REPLY_SCRATCH_LEN of
                     Inl _ \<Rightarrow> Some (nak_into OSDP_NAK_RECORD_INVALID, w1)
                   | Inr p \<Rightarrow> Some (scratch_reply OSDP_REPLY_LSTATR p, w1))))
      else if cmd_code = OSDP_CMD_ISTAT then
        list_status (sp_inputs (pd_status pd)) OSDP_REPLY_ISTATR osdp_istatr_build w
      else if cmd_code = OSDP_CMD_OSTAT then
        list_status (sp_outputs (pd_status pd)) OSDP_REPLY_OSTATR osdp_ostatr_build w
      else if cmd_code = OSDP_CMD_RSTAT then
        list_status (sp_readers (pd_status pd)) OSDP_REPLY_RSTATR osdp_rstatr_build w
      else None)"

definition handle_abort :: "'w osdp_pd \<Rightarrow> 'w \<Rightarrow> osdp_pd_reply \<times> 'w osdp_pd \<times> 'w" where
  "handle_abort pd w =
     (let pd1 = pd\<lparr>pd_ft_active := False, pd_ft_total := 0, pd_ft_received := 0, pd_ft_type := 0,
                   pd_mfg_reasm := osdp_mp_reasm_reset (pd_mfg_reasm pd)\<rparr>
      in case pd_abort_cb pd of
           None \<Rightarrow> (ack_reply, pd1, w)
         | Some cb \<Rightarrow>
             (case cb w of
                (s, w1) \<Rightarrow> (if s \<noteq> OSDP_OK then nak_into OSDP_NAK_UNKNOWN_CMD else ack_reply, pd1, w1)))"

definition handle_acurxsize :: "'w osdp_pd \<Rightarrow> 'w \<Rightarrow> bytes_ptr \<Rightarrow> nat \<Rightarrow> osdp_pd_reply \<times> 'w osdp_pd \<times> 'w" where
  "handle_acurxsize pd w payload payload_len =
     (case osdp_acurxsize_decode payload payload_len of
        Inl _ \<Rightarrow> (nak_into OSDP_NAK_CMD_LENGTH, pd, w)
      | Inr cmd \<Rightarrow>
          (ack_reply, pd\<lparr>pd_acu_rx_size := ax_max_size cmd\<rparr>,
           case pd_acurxsize_cb pd of None \<Rightarrow> w | Some cb \<Rightarrow> cb w (ax_max_size cmd)))"

definition handle_keepactive :: "'w osdp_pd \<Rightarrow> 'w \<Rightarrow> bytes_ptr \<Rightarrow> nat \<Rightarrow> osdp_pd_reply \<times> 'w" where
  "handle_keepactive pd w payload payload_len =
     (case pd_keepactive_cb pd of
        None \<Rightarrow> (nak_into OSDP_NAK_UNKNOWN_CMD, w)
      | Some cb \<Rightarrow>
          (case osdp_keepactive_decode payload payload_len of
             Inl _ \<Rightarrow> (nak_into OSDP_NAK_CMD_LENGTH, w)
           | Inr cmd \<Rightarrow>
               (case cb w (ka_time_ms cmd) of
                  (s, w1) \<Rightarrow> (if s \<noteq> OSDP_OK then nak_into OSDP_NAK_UNKNOWN_CMD else ack_reply, w1))))"

definition handle_pdcap :: "'w osdp_pd \<Rightarrow> osdp_pd_reply option" where
  "handle_pdcap pd =
     (if length (pd_pdcap_records pd) = 0 then None
      else
        let tot = OSDP_PDCAP_RESERVED_COUNT + length (pd_pdcap_records pd);
            records = osdp_pd_internal_sort_pdcap
                    (osdp_pd_internal_fill_reserved_pdcap pd @ pd_pdcap_records pd) tot
        in (case osdp_pdcap_build (Some records) tot OSDP_PD_REPLY_SCRATCH_LEN of
              Inl _ \<Rightarrow> Some (nak_into OSDP_NAK_RECORD_INVALID)
            | Inr p \<Rightarrow> Some (scratch_reply OSDP_REPLY_PDCAP p)))"

definition apply_app_status :: "osdp_status \<Rightarrow> osdp_pd_reply \<Rightarrow> osdp_pd_dispatch_outcome \<times> osdp_pd_reply" where
  "apply_app_status app_status reply =
     (case app_status of
        OSDP_OK \<Rightarrow> (OSDP_PD_DISPATCH_SEND, reply)
      | OSDP_ERR_NOT_SUPPORTED \<Rightarrow> (OSDP_PD_DISPATCH_SEND, nak_into OSDP_NAK_UNKNOWN_CMD)
      | OSDP_ERR_BAD_PAYLOAD \<Rightarrow> (OSDP_PD_DISPATCH_SEND, nak_into OSDP_NAK_CMD_LENGTH)
      | OSDP_ERR_BAD_LENGTH \<Rightarrow> (OSDP_PD_DISPATCH_SEND, nak_into OSDP_NAK_CMD_LENGTH)
      | OSDP_ERR_INVALID_ARG \<Rightarrow> (OSDP_PD_DISPATCH_SEND, nak_into OSDP_NAK_RECORD_INVALID)
      | OSDP_ERR_BUSY \<Rightarrow> (OSDP_PD_DISPATCH_BUSY, reply)
      | _ \<Rightarrow> (OSDP_PD_DISPATCH_DROP, reply))"

definition handle_mfg_multipart ::
  "'w osdp_pd \<Rightarrow> 'w \<Rightarrow> bytes_ptr \<Rightarrow> nat \<Rightarrow> (osdp_pd_dispatch_outcome \<times> osdp_pd_reply \<times> 'w osdp_pd \<times> 'w) option" where
  "handle_mfg_multipart pd w payload payload_len =
     (case pd_mfg_cb pd of
        None \<Rightarrow> None
      | Some mfg_cb \<Rightarrow>
          let refuse = (OSDP_PD_DISPATCH_SEND, nak_into OSDP_NAK_RECORD_INVALID,
                        pd\<lparr>pd_mfg_reasm := osdp_mp_reasm_reset (pd_mfg_reasm pd)\<rparr>, w)
          in
          (case osdp_mfg_decode payload payload_len of
             Inl _ \<Rightarrow> Some (OSDP_PD_DISPATCH_SEND, nak_into OSDP_NAK_CMD_LENGTH, pd, w)
           | Inr cmd \<Rightarrow>
               (case osdp_mp_fragment_decode (mf_data cmd) (mf_data_len cmd) zero_fragment of
                  (s, frag) \<Rightarrow>
                    if s \<noteq> OSDP_OK then Some refuse
                    else if mp_offset frag \<noteq> 0 \<and> pd_mfg_vendor pd \<noteq> mf_vendor_code cmd then Some refuse
                    else
                      let pd1 = (if mp_offset frag = 0 then pd\<lparr>pd_mfg_vendor := mf_vendor_code cmd\<rparr> else pd) in
                      (case osdp_mp_reasm_push (pd_mfg_reasm pd1) frag OSDP_MP_IN_PROGRESS of
                         (s, state, reasm) \<Rightarrow>
                           if s \<noteq> OSDP_OK then
                             Some (OSDP_PD_DISPATCH_SEND, nak_into OSDP_NAK_RECORD_INVALID,
                                   pd1\<lparr>pd_mfg_reasm := osdp_mp_reasm_reset reasm\<rparr>, w)
                           else if state \<noteq> OSDP_MP_COMPLETE then
                             Some (OSDP_PD_DISPATCH_SEND, ack_reply, pd1\<lparr>pd_mfg_reasm := reasm\<rparr>, w)
                           else
                             (case mfg_cb w (pd_mfg_vendor pd1) (take (unat (ra_total reasm)) (the (ra_buf reasm))) ack_reply of
                                (app, reply, w1) \<Rightarrow>
                                  let (outcome, reply') = apply_app_status app reply
                                  in Some (outcome, reply', pd1\<lparr>pd_mfg_reasm := osdp_mp_reasm_reset reasm\<rparr>, w1))))))"

section \<open>Dispatch\<close>

text \<open>The part behind the library-handled commands: the application decides, the banks observe.\<close>

definition dispatch_app ::
  "'w osdp_pd \<Rightarrow> 'w \<Rightarrow> osdp_pd_channel \<Rightarrow> byte \<Rightarrow> bytes_ptr \<Rightarrow> nat
     \<Rightarrow> osdp_pd_dispatch_outcome \<times> osdp_pd_reply \<times> 'w osdp_pd \<times> 'w" where
  "dispatch_app pd w channel cmd_code payload payload_len =
     (let (app0, reply0, w1) =
            (case pd_cmd_cb pd of
               None \<Rightarrow> (OSDP_ERR_NOT_SUPPORTED, ack_reply, w)
             | Some cb \<Rightarrow> cb w cmd_code payload payload_len ack_reply);
          (observed, pd1, w2) = osdp_pd_internal_observe_command pd w1 cmd_code payload payload_len;
          (app_status, reply1) =
            (if app0 = OSDP_ERR_NOT_SUPPORTED \<and> osdp_pd_internal_is_observed_command cmd_code
             then (observed, if observed = OSDP_OK then ack_reply else reply0)
             else (app0, reply0));
          (outcome, reply2) = apply_app_status app_status reply1
      in
      if outcome \<noteq> OSDP_PD_DISPATCH_SEND then (outcome, reply2, pd1, w2)
      else if cmd_code = OSDP_CMD_KEYSET then
        (case apply_keyset_for_channel pd1 channel payload payload_len of
           (ok, pd2) \<Rightarrow>
             (OSDP_PD_DISPATCH_SEND, if \<not> ok then nak_into OSDP_NAK_RECORD_INVALID else reply2, pd2, w2))
      else (OSDP_PD_DISPATCH_SEND, reply2, pd1, w2))"

definition osdp_pd_internal_dispatch ::
  "'w osdp_pd \<Rightarrow> 'w \<Rightarrow> osdp_pd_channel \<Rightarrow> byte \<Rightarrow> bytes_ptr \<Rightarrow> nat
     \<Rightarrow> osdp_pd_dispatch_outcome \<times> osdp_pd_reply \<times> 'w osdp_pd \<times> 'w" where
  "osdp_pd_internal_dispatch pd w channel cmd_code payload payload_len =
     (if cmd_code = OSDP_CMD_COMSET then (OSDP_PD_DISPATCH_SEND, handle_comset pd w payload payload_len)
      else if cmd_code = OSDP_CMD_FILETRANSFER then
        (OSDP_PD_DISPATCH_SEND, handle_filetransfer pd w payload payload_len)
      else if cmd_code = OSDP_CMD_ABORT then (OSDP_PD_DISPATCH_SEND, handle_abort pd w)
      else if cmd_code = OSDP_CMD_ACURXSIZE then
        (OSDP_PD_DISPATCH_SEND, handle_acurxsize pd w payload payload_len)
      else if cmd_code = OSDP_CMD_KEEPACTIVE then
        (case handle_keepactive pd w payload payload_len of (r, w1) \<Rightarrow> (OSDP_PD_DISPATCH_SEND, r, pd, w1))
      else
        (case handle_status_request pd w cmd_code of
           Some (r, w1) \<Rightarrow> (OSDP_PD_DISPATCH_SEND, r, pd, w1)
         | None \<Rightarrow>
             (case (if cmd_code = OSDP_CMD_CAP then handle_pdcap pd else None) of
                Some r \<Rightarrow> (OSDP_PD_DISPATCH_SEND, r, pd, w)
              | None \<Rightarrow>
                  (case (if cmd_code = OSDP_CMD_MFG then handle_mfg_multipart pd w payload payload_len else None) of
                     Some res \<Rightarrow> res
                   | None \<Rightarrow>
                       (case (if cmd_code = OSDP_CMD_POLL then osdp_pd_internal_dequeue_event pd else (None, pd)) of
                          (Some r, pd1) \<Rightarrow> (OSDP_PD_DISPATCH_SEND, r, pd1, w)
                        | (None, pd1) \<Rightarrow> dispatch_app pd1 w channel cmd_code payload payload_len)))))"

section \<open>What a dispatch leaves alone\<close>

text \<open>The context without the parts a command may change.\<close>

definition link_view :: "'w osdp_pd \<Rightarrow> 'w osdp_pd" where
  "link_view pd = pd\<lparr>pd_leds := [], pd_buzzers := [], pd_comset_pending := False, pd_comset_new_address := 0,
     pd_comset_new_baud := 0, pd_file_buf := None, pd_ft_active := False, pd_ft_type := 0, pd_ft_total := 0,
     pd_ft_received := 0, pd_event_buf := None, pd_event_len := 0, pd_acu_rx_size := 0,
     pd_mfg_reasm := osdp_mp_reasm_init None 0, pd_mfg_vendor := [],
     pd_sc := (pd_sc pd)\<lparr>sc_scbk := [], sc_scbk_set := False\<rparr>\<rparr>"

lemma link_view_sc:
  assumes "link_view pd' = link_view pd"
  shows "sc_session (pd_sc pd') = sc_session (pd_sc pd)" "sc_crypto (pd_sc pd') = sc_crypto (pd_sc pd)"
    "sc_crypto_set (pd_sc pd') = sc_crypto_set (pd_sc pd)" "sc_cuid (pd_sc pd') = sc_cuid (pd_sc pd)"
    "sc_cuid_set (pd_sc pd') = sc_cuid_set (pd_sc pd)" "sc_got_chlng (pd_sc pd') = sc_got_chlng (pd_sc pd)"
    "sc_scbk_d (pd_sc pd') = sc_scbk_d (pd_sc pd)" "sc_scbk_d_set (pd_sc pd') = sc_scbk_d_set (pd_sc pd)"
proof -
  have "(pd_sc pd')\<lparr>sc_scbk := [], sc_scbk_set := False\<rparr> = (pd_sc pd)\<lparr>sc_scbk := [], sc_scbk_set := False\<rparr>"
    using arg_cong [OF assms, of pd_sc] by (simp add: link_view_def)
  then show "sc_session (pd_sc pd') = sc_session (pd_sc pd)" "sc_crypto (pd_sc pd') = sc_crypto (pd_sc pd)"
    "sc_crypto_set (pd_sc pd') = sc_crypto_set (pd_sc pd)" "sc_cuid (pd_sc pd') = sc_cuid (pd_sc pd)"
    "sc_cuid_set (pd_sc pd') = sc_cuid_set (pd_sc pd)" "sc_got_chlng (pd_sc pd') = sc_got_chlng (pd_sc pd)"
    "sc_scbk_d (pd_sc pd') = sc_scbk_d (pd_sc pd)" "sc_scbk_d_set (pd_sc pd') = sc_scbk_d_set (pd_sc pd)"
    by (cases "pd_sc pd'"; cases "pd_sc pd"; simp)+
qed

lemma link_view_fields:
  assumes "link_view pd' = link_view pd"
  shows "pd_rx pd' = pd_rx pd" "pd_transport pd' = pd_transport pd" "pd_address pd' = pd_address pd"
    "pd_tx_cap pd' = pd_tx_cap pd" "pd_rx_plain_cap pd' = pd_rx_plain_cap pd" "pd_have_last pd' = pd_have_last pd"
    "pd_rpl_cache pd' = pd_rpl_cache pd" "pd_cmd_cache pd' = pd_cmd_cache pd"
    "pd_last_reply_len pd' = pd_last_reply_len pd" "pd_last_cmd_len pd' = pd_last_cmd_len pd"
    "pd_rpl_cache_cap pd' = pd_rpl_cache_cap pd" "pd_cmd_cache_cap pd' = pd_cmd_cache_cap pd"
    "pd_last_seq pd' = pd_last_seq pd" "pd_online pd' = pd_online pd" "pd_file_cap pd' = pd_file_cap pd"
    "pd_event_cap pd' = pd_event_cap pd" "pd_pdcap_records pd' = pd_pdcap_records pd"
    "pd_reply_cacheable pd' = pd_reply_cacheable pd" "pd_last_comm_ms pd' = pd_last_comm_ms pd"
  using arg_cong [OF assms, of pd_rx] arg_cong [OF assms, of pd_transport] arg_cong [OF assms, of pd_address]
    arg_cong [OF assms, of pd_tx_cap] arg_cong [OF assms, of pd_rx_plain_cap] arg_cong [OF assms, of pd_have_last]
    arg_cong [OF assms, of pd_rpl_cache] arg_cong [OF assms, of pd_cmd_cache]
    arg_cong [OF assms, of pd_last_reply_len] arg_cong [OF assms, of pd_last_cmd_len]
    arg_cong [OF assms, of pd_rpl_cache_cap] arg_cong [OF assms, of pd_cmd_cache_cap]
    arg_cong [OF assms, of pd_last_seq] arg_cong [OF assms, of pd_online] arg_cong [OF assms, of pd_file_cap]
    arg_cong [OF assms, of pd_event_cap] arg_cong [OF assms, of pd_pdcap_records]
    arg_cong [OF assms, of pd_reply_cacheable] arg_cong [OF assms, of pd_last_comm_ms]
  by (simp_all add: link_view_def)

lemma link_view_only_banks: "only_banks pd pd' \<Longrightarrow> link_view pd' = link_view pd"
  by (elim only_banksE) (simp add: link_view_def)

lemma filetransfer_link:
  assumes "osdp_pd_internal_filetransfer pd w p n = (r, pd', w')"
  shows "link_view pd' = link_view pd"
  using arg_cong [OF filetransfer_mask [OF assms], of link_view] by (simp add: link_view_def ft_mask_def)

lemma mfg_link:
  "handle_mfg_multipart pd w p n = Some (out, r, pd', w') \<Longrightarrow> link_view pd' = link_view pd"
  by (auto simp: handle_mfg_multipart_def Let_def link_view_def
      split: option.splits sum.splits prod.splits if_splits)

lemma dequeue_link: "osdp_pd_internal_dequeue_event pd = (r, pd') \<Longrightarrow> link_view pd' = link_view pd"
  by (auto simp: osdp_pd_internal_dequeue_event_def Let_def link_view_def split: option.splits if_splits)

lemma keyset_link: "osdp_pd_internal_apply_keyset pd p n = (r, pd') \<Longrightarrow> link_view pd' = link_view pd"
  by (auto simp: osdp_pd_internal_apply_keyset_def link_view_def split: sum.splits if_splits)

text \<open>The context after a dispatch is the one a single handler left.\<close>

lemma dispatch_cases:
  assumes "osdp_pd_internal_dispatch pd w ch c p n = (out, r, pd', w')"
  obtains (comset) "handle_comset pd w p n = (r, pd', w')"
    | (filetransfer) "handle_filetransfer pd w p n = (r, pd', w')"
    | (abort) "handle_abort pd w = (r, pd', w')"
    | (acurxsize) "handle_acurxsize pd w p n = (r, pd', w')"
    | (unchanged) "pd' = pd"
    | (mfg) "handle_mfg_multipart pd w p n = Some (out, r, pd', w')"
    | (event) q where "osdp_pd_internal_dequeue_event pd = (q, pd')"
    | (app) q pd1 where "osdp_pd_internal_dequeue_event pd = (q, pd1) \<or> pd1 = pd"
        "dispatch_app pd1 w ch c p n = (out, r, pd', w')"
  using assms unfolding osdp_pd_internal_dispatch_def
  by (auto split: if_splits option.splits prod.splits)

lemma dispatch_app_cases:
  assumes "dispatch_app pd w ch c p n = (out, r, pd', w')"
  obtains w1 obs w2 pd1 where "osdp_pd_internal_observe_command pd w1 c p n = (obs, pd1, w2)"
    "pd' = pd1 \<or> (\<exists>s. osdp_pd_internal_apply_keyset pd1 p n = (s, pd'))"
proof -
  obtain app0 reply0 w1 where "(case pd_cmd_cb pd of None \<Rightarrow> (OSDP_ERR_NOT_SUPPORTED, ack_reply, w)
      | Some cb \<Rightarrow> cb w c p n ack_reply) = (app0, reply0, w1)"
    by (metis prod_cases3)
  moreover obtain obs pd1 w2 where o: "osdp_pd_internal_observe_command pd w1 c p n = (obs, pd1, w2)"
    by (metis prod_cases3)
  ultimately have "pd' = pd1 \<or> (\<exists>s. osdp_pd_internal_apply_keyset pd1 p n = (s, pd'))"
    using assms by (auto simp: dispatch_app_def Let_def apply_keyset_for_channel_def split: prod.splits if_splits)
  with o that show thesis by blast
qed

lemma dispatch_app_link:
  assumes "dispatch_app pd w ch c p n = (out, r, pd', w')"
  shows "link_view pd' = link_view pd"
  using assms by (rule dispatch_app_cases) (metis keyset_link link_view_only_banks observe_command_only)

lemma dispatch_link:
  assumes "osdp_pd_internal_dispatch pd w ch c p n = (out, r, pd', w')"
  shows "link_view pd' = link_view pd"
  using assms
proof (cases rule: dispatch_cases)
  case comset
  then show ?thesis
    by (auto simp: handle_comset_def link_view_def split: prod.splits sum.splits)
next
  case filetransfer
  then show ?thesis
    by (auto simp: handle_filetransfer_def split: prod.splits sum.splits dest: filetransfer_link)
next
  case abort
  then show ?thesis
    by (auto simp: handle_abort_def link_view_def Let_def split: prod.splits option.splits)
next
  case acurxsize
  then show ?thesis
    by (auto simp: handle_acurxsize_def link_view_def split: sum.splits)
next
  case (app q pd1)
  then show ?thesis
    using dispatch_app_link [OF app(2)] dequeue_link [of pd q pd1] by auto
qed (auto dest: mfg_link dequeue_link)

section \<open>Properties\<close>

lemma keyset_record:
  assumes "length k = OSDP_SC_KEY_LEN"
  shows "osdp_pd_internal_apply_keyset pd (Some ([1, 16] @ k)) 18 =
    (OSDP_OK, pd\<lparr>pd_sc := (pd_sc pd)\<lparr>sc_scbk := k, sc_scbk_set := True\<rparr>\<rparr>)"
  using assms by (simp add: osdp_pd_internal_apply_keyset_def osdp_keyset_decode_def)




text \<open>A defect: a KEYSET that the application refuses with a status answered by a NAK rotates the key all the same,
  against the guide.\<close>

theorem keyset_rotates_on_refusal:
  assumes "length k = OSDP_SC_KEY_LEN"
    and "pd_cmd_cb pd = Some cb" and "cb w OSDP_CMD_KEYSET (Some ([1, 16] @ k)) 18 ack_reply = (s, rep, w')"
    and "s \<in> {OSDP_ERR_NOT_SUPPORTED, OSDP_ERR_BAD_PAYLOAD, OSDP_ERR_BAD_LENGTH, OSDP_ERR_INVALID_ARG}"
  shows "\<exists>r pd'. osdp_pd_internal_dispatch pd w ch OSDP_CMD_KEYSET (Some ([1, 16] @ k)) 18
      = (OSDP_PD_DISPATCH_SEND, r, pd', w') \<and>
    rp_code r = OSDP_REPLY_NAK \<and> sc_scbk (pd_sc pd') = k \<and> sc_scbk_set (pd_sc pd')"
  using assms keyset_record [OF assms(1), of pd]
  by (auto simp: osdp_pd_internal_dispatch_def handle_status_request_def dispatch_app_def
      osdp_pd_internal_observe_command_def osdp_pd_internal_is_observed_command_def apply_app_status_def nak_into_def
      apply_keyset_for_channel_def)

theorem keyset_rotates_on_refusal_witness:
  "let pd = osdp_pd_set_command_handler (osdp_pd_init 1) (Some (\<lambda>w c p n r. (OSDP_ERR_NOT_SUPPORTED, r, w)))
   in \<exists>r pd'. osdp_pd_internal_dispatch pd () OSDP_PD_CH_SC1 OSDP_CMD_KEYSET (Some ([1, 16] @ replicate 16 7)) 18
        = (OSDP_PD_DISPATCH_SEND, r, pd', ()) \<and>
      rp_code r = OSDP_REPLY_NAK \<and> sc_scbk (pd_sc pd') = replicate 16 7 \<and> sc_scbk_set (pd_sc pd')"
  unfolding Let_def by (rule keyset_rotates_on_refusal [where s = OSDP_ERR_NOT_SUPPORTED])
    (simp_all add: osdp_pd_set_command_handler_def)

lemma led_apply_loop_status:
  "led_apply_loop pd p now is = (s, pd') \<Longrightarrow> s = OSDP_OK \<or> s = OSDP_ERR_BAD_PAYLOAD \<or> s = OSDP_ERR_INVALID_ARG"
  by (induction "is" arbitrary: pd) (auto split: sum.splits option.splits prod.splits)

lemma observe_status:
  assumes "c \<in> {OSDP_CMD_LED, OSDP_CMD_BUZ}" "osdp_pd_internal_observe_command pd w c p n = (s, pd', w')"
  shows "s = OSDP_OK \<or> s = OSDP_ERR_BAD_PAYLOAD \<or> s = OSDP_ERR_INVALID_ARG"
  using assms unfolding osdp_pd_internal_observe_command_def osdp_pd_internal_is_observed_command_def Let_def
  by (auto split: if_splits prod.splits sum.splits option.splits dest!: led_apply_loop_status)

text \<open>An LED or buzzer command is never called unknown: when the application has no opinion about it,
  the reply is an ACK exactly when the bank took the command, and otherwise the NAK that says why, for a
  payload that does not decode (0x02) or a bank that is full (0x09).\<close>

theorem observed_command_answer:
  assumes "c \<in> {OSDP_CMD_LED, OSDP_CMD_BUZ}"
    and "pd_cmd_cb pd = None \<or> pd_cmd_cb pd = Some (\<lambda>w c p n r. (OSDP_ERR_NOT_SUPPORTED, r, w))"
    and "osdp_pd_internal_observe_command pd w c p n = (s, pd1, w1)"
  shows "osdp_pd_internal_dispatch pd w ch c p n =
    (OSDP_PD_DISPATCH_SEND,
     if s = OSDP_OK then ack_reply
     else if s = OSDP_ERR_BAD_PAYLOAD then nak_into OSDP_NAK_CMD_LENGTH else nak_into OSDP_NAK_RECORD_INVALID,
     pd1, w1)"
proof -
  have "s = OSDP_OK \<or> s = OSDP_ERR_BAD_PAYLOAD \<or> s = OSDP_ERR_INVALID_ARG"
    by (rule observe_status [OF assms(1,3)])
  then show ?thesis
    using assms
    by (auto simp: osdp_pd_internal_dispatch_def handle_status_request_def dispatch_app_def
        osdp_pd_internal_is_observed_command_def apply_app_status_def)
qed

theorem observed_command_answer_witness:
  "\<exists>pd'. osdp_pd_internal_dispatch (osdp_pd_init 1 :: unit osdp_pd) () OSDP_PD_CH_PLAIN OSDP_CMD_LED (Some [1, 2]) 2
     = (OSDP_PD_DISPATCH_SEND, nak_into OSDP_NAK_CMD_LENGTH, pd', ())"
proof -
  have "osdp_pd_internal_observe_command (osdp_pd_init 1 :: unit osdp_pd) () OSDP_CMD_LED (Some [1, 2]) 2
      = (OSDP_ERR_BAD_PAYLOAD, osdp_pd_init 1, ())"
    by (simp add: osdp_pd_internal_observe_command_def osdp_pd_internal_is_observed_command_def)
  from observed_command_answer [OF _ _ this, of OSDP_PD_CH_PLAIN] show ?thesis
    by (simp add: osdp_pd_init_def)
qed

text \<open>C26. COMSET is answered before it is obeyed: the reply is an osdp_COM whose fields are exactly the address
  and speed that are staged, an address above 0x7E is replaced by the current one, and the device still
  answers to its old address until the staged change is applied, which then takes effect as reported and
  forgets the retransmit cache.\<close>

theorem comset_reported_then_applied:
  assumes "osdp_comset_decode p n = Inr req"
    and "osdp_pd_internal_dispatch pd w ch OSDP_CMD_COMSET p n = (out, r, pd', w')"
  shows "\<exists>com. out = OSDP_PD_DISPATCH_SEND \<and> rp_code r = OSDP_REPLY_COM \<and>
    osdp_com_decode (rp_payload r) (rp_payload_len r) = Inr com \<and>
    pd_comset_pending pd' \<and> pd_address pd' = pd_address pd \<and>
    (co_address com \<le> OSDP_PD_MAX_ADDR \<or> co_address com = pd_address pd) \<and>
    (let pd2 = fst (osdp_pd_internal_apply_comset pd' w2)
     in pd_address pd2 = co_address com \<and> pd_comset_new_baud pd2 = co_baud_rate com \<and>
        \<not> pd_comset_pending pd2 \<and> \<not> pd_have_last pd2)"
proof -
  obtain addr baud w1 where cb: "(case pd_comset_cb pd of None \<Rightarrow> (cs_address req, cs_baud_rate req, w)
      | Some cb \<Rightarrow> cb w (cs_address req) (cs_baud_rate req) (cs_address req) (cs_baud_rate req)) = (addr, baud, w1)"
    by (metis prod_cases3)
  let ?com = "\<lparr>co_address = if addr > OSDP_PD_MAX_ADDR then pd_address pd else addr, co_baud_rate = baud\<rparr>"
  obtain q where q: "osdp_com_build ?com OSDP_COM_PAYLOAD_BYTES = Inr q"
    by (simp add: osdp_com_build_def)
  have d: "osdp_com_decode (Some q) (length q) = Inr ?com"
    using com.decode_build [OF _ q] q by (auto simp: osdp_com_build_def)
  have "out = OSDP_PD_DISPATCH_SEND" "r = scratch_reply OSDP_REPLY_COM q"
    "pd' = pd\<lparr>pd_comset_pending := True, pd_comset_new_address := (if addr > OSDP_PD_MAX_ADDR then pd_address pd else addr),
       pd_comset_new_baud := baud\<rparr>"
    using assms cb q
    by (auto simp: osdp_pd_internal_dispatch_def handle_comset_def osdp_pd_internal_comset_effective_def
        split: prod.splits)
  then show ?thesis
    using d by (intro exI [of _ ?com])
      (auto simp: scratch_reply_def osdp_pd_internal_apply_comset_def Let_def not_less split: option.splits)
qed

theorem comset_reported_then_applied_witness:
  "\<exists>out r pd' com. osdp_pd_internal_dispatch (osdp_pd_init 3 :: unit osdp_pd) () OSDP_PD_CH_PLAIN OSDP_CMD_COMSET
       (Some [9, 0x80, 0x25, 0, 0]) 5 = (out, r, pd', ()) \<and>
     rp_code r = OSDP_REPLY_COM \<and> osdp_com_decode (rp_payload r) (rp_payload_len r) = Inr com \<and>
     pd_address pd' = pd_address (osdp_pd_init 3 :: unit osdp_pd) \<and>
     pd_address (fst (osdp_pd_internal_apply_comset pd' ())) = co_address com"
proof -
  let ?pd = "osdp_pd_init 3 :: unit osdp_pd"
  obtain req where q: "osdp_comset_decode (Some [9, 0x80, 0x25, 0, 0]) 5 = Inr req"
    by (simp add: osdp_comset_decode_def)
  obtain out r pd' w' where d: "osdp_pd_internal_dispatch ?pd () OSDP_PD_CH_PLAIN OSDP_CMD_COMSET
      (Some [9, 0x80, 0x25, 0, 0]) 5 = (out, r, pd', w')"
    by (metis prod_cases4)
  from comset_reported_then_applied [OF q d, of "()"] d show ?thesis
    by (auto simp: Let_def)
qed

lemma pdcap_reply:
  assumes "pd_pdcap_records pd \<noteq> []" "length (pd_pdcap_records pd) \<le> OSDP_PD_MAX_PDCAP_RECORDS"
  defines "rs \<equiv> sort_key pc_function_code (osdp_pd_internal_fill_reserved_pdcap pd @ pd_pdcap_records pd)"
  shows "\<exists>p. handle_pdcap pd = Some (scratch_reply OSDP_REPLY_PDCAP p) \<and>
    osdp_pdcap_decode (Some p) (length p) (length p div OSDP_PDCAP_RECORD_BYTES) = Inr rs"
proof -
  let ?all = "osdp_pd_internal_fill_reserved_pdcap pd @ pd_pdcap_records pd"
  have l: "length ?all = 3 + length (pd_pdcap_records pd)"
    by (simp add: osdp_pd_internal_fill_reserved_pdcap_def Let_def)
  then have len: "length rs = 3 + length (pd_pdcap_records pd)"
    unfolding rs_def length_sort .
  have sorted: "osdp_pd_internal_sort_pdcap ?all (3 + length (pd_pdcap_records pd)) = rs"
    using sort_pdcap_eq [of ?all] l by (simp add: rs_def)
  obtain p where p: "osdp_pdcap_build (Some rs) (length rs) OSDP_PD_REPLY_SCRATCH_LEN = Inr p"
    using assms(2) len by (simp add: osdp_pdcap_build_def)
  have "osdp_pdcap_decode (ptr_of p) (length p) (length p div 3) = Inr rs"
    by (rule pdcap.decode_build [OF _ p]) simp
  moreover have "length p = length rs * 3"
    using p length_concat_records [of pdcap_record_bytes 3 rs] pdcap_record_roundtrip(1)
    by (auto simp: osdp_pdcap_build_def split: if_splits)
  then have "ptr_of p = Some p" using len by (auto simp: ptr_of_def)
  ultimately show ?thesis
    using p assms(1) by (intro exI [of _ p]) (simp add: handle_pdcap_def sorted len)
qed

text \<open>C28. osdp_CAP is answered with the truth: once a capability set is bound, the reply always fits, and what an
  ACU decodes from it is the three records computed from the current state and the bound records, in
  ascending order of function code.\<close>

theorem pdcap_reply_decodes:
  assumes "osdp_pd_set_pdcap pd0 (Some rs) (length rs) = (OSDP_OK, i, pd)" and "rs \<noteq> []"
  shows "\<exists>p. osdp_pd_internal_dispatch pd w ch OSDP_CMD_CAP q n
      = (OSDP_PD_DISPATCH_SEND, \<lparr>rp_code = OSDP_REPLY_PDCAP, rp_payload = Some p, rp_payload_len = length p\<rparr>, pd, w) \<and>
    osdp_pdcap_decode (Some p) (length p) (length p div OSDP_PDCAP_RECORD_BYTES)
      = Inr (sort_key pc_function_code (osdp_pd_internal_fill_reserved_pdcap pd @ rs))"
proof -
  have b: "pd_pdcap_records pd = rs" "length rs \<le> OSDP_PD_MAX_PDCAP_RECORDS"
    using set_pdcap_cases(1) [OF assms(1) refl] by simp_all
  obtain p where p: "handle_pdcap pd = Some (scratch_reply OSDP_REPLY_PDCAP p)"
    "osdp_pdcap_decode (Some p) (length p) (length p div OSDP_PDCAP_RECORD_BYTES)
      = Inr (sort_key pc_function_code (osdp_pd_internal_fill_reserved_pdcap pd @ rs))"
    using pdcap_reply [of pd] b assms(2) by auto
  then show ?thesis
    by (auto simp: osdp_pd_internal_dispatch_def handle_status_request_def scratch_reply_def)
qed

theorem pdcap_reply_decodes_witness:
  "\<exists>pd p. osdp_pd_set_pdcap (osdp_pd_init 1 :: unit osdp_pd) (Some ex_pdcap) (length ex_pdcap) = (OSDP_OK, 0, pd) \<and>
     osdp_pd_internal_dispatch pd () OSDP_PD_CH_PLAIN OSDP_CMD_CAP None 0
       = (OSDP_PD_DISPATCH_SEND, \<lparr>rp_code = OSDP_REPLY_PDCAP, rp_payload = Some p, rp_payload_len = length p\<rparr>, pd, ()) \<and>
     osdp_pdcap_decode (Some p) (length p) (length p div OSDP_PDCAP_RECORD_BYTES)
       = Inr (sort_key pc_function_code (osdp_pd_internal_fill_reserved_pdcap pd @ ex_pdcap))"
  using pdcap_reply_decodes [OF ex_pdcap_bound [of "osdp_pd_init 1 :: unit osdp_pd"], of "()" OSDP_PD_CH_PLAIN None 0]
    ex_pdcap_bound [of "osdp_pd_init 1 :: unit osdp_pd"]
  by (auto simp: ex_pdcap_def)

section \<open>Multi-part vendor messages\<close>

text \<open>The fragments of a vendor message, each in an osdp_MFG command of its own; \<open>None\<close> when one cannot be built.\<close>

fun send_mfg ::
  "'w osdp_pd \<Rightarrow> 'w \<Rightarrow> osdp_pd_channel \<Rightarrow> bytes \<Rightarrow> osdp_mp_fragment list
     \<Rightarrow> ((osdp_pd_dispatch_outcome \<times> osdp_pd_reply) list \<times> 'w osdp_pd \<times> 'w) option" where
  "send_mfg pd w ch v [] = Some ([], pd, w)"
| "send_mfg pd w ch v (f # fs) =
     (case osdp_mp_fragment_build f (OSDP_MP_HEADER_BYTES + mp_frag_len f) of
        Inl _ \<Rightarrow> None
      | Inr bs \<Rightarrow>
          (case osdp_mfg_build \<lparr>mf_vendor_code = v, mf_data = Some bs, mf_data_len = length bs\<rparr>
                  (OSDP_MFG_HEADER_BYTES + length bs) of
             Inl _ \<Rightarrow> None
           | Inr p \<Rightarrow>
               (case osdp_pd_internal_dispatch pd w ch OSDP_CMD_MFG (Some p) (length p) of
                  (out, r, pd1, w1) \<Rightarrow>
                    map_option (\<lambda>(rs, pd2, w2). ((out, r) # rs, pd2, w2)) (send_mfg pd1 w1 ch v fs))))"

lemma dispatch_mfg:
  "handle_mfg_multipart pd w p n = Some res \<Longrightarrow> osdp_pd_internal_dispatch pd w ch OSDP_CMD_MFG p n = res"
  by (simp add: osdp_pd_internal_dispatch_def handle_status_request_def)

lemma u16_of_nat_eq_0: "k < 65536 \<Longrightarrow> (word_of_nat k :: u16) = 0 \<longleftrightarrow> k = 0"
proof
  assume k: "k < 65536" and "(word_of_nat k :: u16) = 0"
  then have "unat (word_of_nat k :: u16) = 0" by simp
  with unat_of_nat_u16 [OF k] show "k = 0" by simp
qed simp

lemma mfg_codec:
  assumes "length v = 3" "bs \<noteq> []"
  defines "c \<equiv> \<lparr>mf_vendor_code = v, mf_data = Some bs, mf_data_len = length bs\<rparr>"
  shows "osdp_mfg_build c (OSDP_MFG_HEADER_BYTES + length bs) = Inr (v @ bs)"
    "osdp_mfg_decode (Some (v @ bs)) (length (v @ bs)) = Inr c"
  using assms by (simp_all add: osdp_mfg_build_def osdp_mfg_decode_def c_def ptr_bytes_def)

lemma reasm_holds_message:
  assumes "reasm_holds r msg (length msg)" "msg \<noteq> []" "length msg \<le> 65535"
  shows "take (unat (ra_total r)) (the (ra_buf r)) = msg"
  using assms by (auto simp: reasm_holds_def unat_of_nat_u16)

lemma mfg_fragment_step:
  assumes cb: "pd_mfg_cb pd = Some cb" "length v = 3" "off > 0 \<longrightarrow> pd_mfg_vendor pd = v"
    and h: "reasm_holds (pd_mfg_reasm pd) msg off"
    and n: "off + n \<le> length msg" "length msg \<le> 65535" "0 < n"
    and dec: "osdp_mp_fragment_decode (ptr_of bs) (length bs) zero_fragment = (OSDP_OK,
      \<lparr>mp_total_size = word_of_nat (length msg), mp_offset = word_of_nat off,
       mp_data = Some (take n (drop off msg)), mp_frag_len = n\<rparr>)" "bs \<noteq> []"
    and app: "cb w v msg ack_reply = (s, rep, w')"
  shows "\<exists>r'. reasm_holds r' msg (off + n) \<and>
    osdp_pd_internal_dispatch pd w ch OSDP_CMD_MFG (Some (v @ bs)) (length (v @ bs)) =
    (if off + n = length msg
     then (fst (apply_app_status s rep), snd (apply_app_status s rep),
           pd\<lparr>pd_mfg_vendor := v, pd_mfg_reasm := osdp_mp_reasm_reset r'\<rparr>, w')
     else (OSDP_PD_DISPATCH_SEND, ack_reply, pd\<lparr>pd_mfg_vendor := v, pd_mfg_reasm := r'\<rparr>, w))"
proof -
  let ?g = "\<lparr>mp_total_size = word_of_nat (length msg), mp_offset = word_of_nat off :: u16,
       mp_data = Some (take n (drop off msg)), mp_frag_len = n\<rparr>"
  obtain r' where r': "osdp_mp_reasm_push (pd_mfg_reasm pd) ?g OSDP_MP_IN_PROGRESS
      = (OSDP_OK, if off + n = length msg then OSDP_MP_COMPLETE else OSDP_MP_IN_PROGRESS, r')"
      "reasm_holds r' msg (off + n)"
    using reasm_push_holds [OF h n] by blast
  have msg: "msg \<noteq> []" using n by auto
  have off: "(word_of_nat off :: u16) = 0 \<longleftrightarrow> off = 0"
    using n by (intro u16_of_nat_eq_0) simp
  have v: "(if (word_of_nat off :: u16) = 0 then pd\<lparr>pd_mfg_vendor := v\<rparr> else pd) = pd\<lparr>pd_mfg_vendor := v\<rparr>"
    using cb(3) off by (cases "off = 0") auto
  have dc: "osdp_mp_fragment_decode (Some bs) (length bs) zero_fragment = (OSDP_OK, ?g)"
    using dec by (simp add: ptr_of_def)
  have ven: "((word_of_nat off :: u16) \<noteq> 0 \<and> pd_mfg_vendor pd \<noteq> v) = False"
    using cb(3) off by blast
  have pf: "pd_mfg_reasm (pd\<lparr>pd_mfg_vendor := v\<rparr>) = pd_mfg_reasm pd" "pd_mfg_vendor (pd\<lparr>pd_mfg_vendor := v\<rparr>) = v"
    by simp_all
  note eval = handle_mfg_multipart_def cb(1) option.case mfg_codec(2) [OF cb(2) dec(2)] sum.case Let_def
    osdp_mfg_cmd.simps dc prod.case osdp_mp_fragment.simps ven v pf r'(1) simp_thms if_False
  have "handle_mfg_multipart pd w (Some (v @ bs)) (length (v @ bs)) = Some
    (if off + n = length msg
     then (fst (apply_app_status s rep), snd (apply_app_status s rep),
           pd\<lparr>pd_mfg_vendor := v, pd_mfg_reasm := osdp_mp_reasm_reset r'\<rparr>, w')
     else (OSDP_PD_DISPATCH_SEND, ack_reply, pd\<lparr>pd_mfg_vendor := v, pd_mfg_reasm := r'\<rparr>, w))"
  proof (cases "off + n = length msg")
    case True
    have "take (unat (ra_total r')) (the (ra_buf r')) = msg"
      using reasm_holds_message [OF _ msg n(2)] r'(2) True by simp
    then show ?thesis
      by (simp only: eval True if_True app case_prod_beta fst_conv snd_conv)
  next
    case False
    then show ?thesis
      by (simp only: eval osdp_mp_state.simps if_True)
  qed
  from dispatch_mfg [OF this, of ch] r'(2) show ?thesis by blast
qed

lemma send_mfg_fragments:
  assumes "it_msg it = Some msg" "it_msg_len it = length msg" "0 < it_max_frag it"
    and "it_offset it < length msg" "length msg \<le> 65535" "reasm_holds (pd_mfg_reasm pd) msg (it_offset it)"
    and "pd_mfg_cb pd = Some cb" "length v = 3" "it_offset it > 0 \<longrightarrow> pd_mfg_vendor pd = v"
    and "cb w v msg ack_reply = (s, rep, w')"
  shows "\<exists>k pd'. send_mfg pd w ch v (mp_fragments it) =
      Some (replicate k (OSDP_PD_DISPATCH_SEND, ack_reply) @ [apply_app_status s rep], pd', w') \<and>
    \<not> ra_active (pd_mfg_reasm pd')"
  using assms
proof (induction it arbitrary: pd rule: mp_fragments.induct)
  case (1 it)
  let ?off = "it_offset it"
  obtain f n bs where f: "0 < n" "?off + n \<le> length msg" "mp_frag_len f = n"
    "osdp_mp_frag_iter_next it = Some (f, it\<lparr>it_offset := ?off + n\<rparr>)"
    "mp_fragments it = f # (if ?off + n = length msg then [] else mp_fragments (it\<lparr>it_offset := ?off + n\<rparr>))"
    "osdp_mp_fragment_build f (6 + n) = Inr bs"
    "osdp_mp_fragment_decode (ptr_of bs) (length bs) zero_fragment = (OSDP_OK,
       \<lparr>mp_total_size = word_of_nat (length msg), mp_offset = word_of_nat ?off,
        mp_data = Some (take n (drop ?off msg)), mp_frag_len = n\<rparr>)"
    by (rule mp_fragments_step [OF 1(2-6)])
  have ne: "bs \<noteq> []" using f(6) by (auto simp: osdp_mp_fragment_build_def split: if_splits)
  obtain r' where r': "reasm_holds r' msg (?off + n)"
    "osdp_pd_internal_dispatch pd w ch OSDP_CMD_MFG (Some (v @ bs)) (length (v @ bs)) =
      (if ?off + n = length msg
       then (fst (apply_app_status s rep), snd (apply_app_status s rep),
             pd\<lparr>pd_mfg_vendor := v, pd_mfg_reasm := osdp_mp_reasm_reset r'\<rparr>, w')
       else (OSDP_PD_DISPATCH_SEND, ack_reply, pd\<lparr>pd_mfg_vendor := v, pd_mfg_reasm := r'\<rparr>, w))"
    using mfg_fragment_step [OF 1(8,9,10,7) f(2) 1(6) f(1,7) ne 1(11), of ch] by auto
  note step = f(3,6) mfg_codec(1) [OF 1(9) ne] r'(2)
  show ?case
  proof (cases "?off + n = length msg")
    case True
    then show ?thesis
      using step by (intro exI [of _ 0]) (simp add: f(5) osdp_mp_reasm_reset_def)
  next
    case False
    let ?pd = "pd\<lparr>pd_mfg_vendor := v, pd_mfg_reasm := r'\<rparr>" and ?it = "it\<lparr>it_offset := ?off + n\<rparr>"
    have "\<exists>k pd'. send_mfg ?pd w ch v (mp_fragments ?it) =
        Some (replicate k (OSDP_PD_DISPATCH_SEND, ack_reply) @ [apply_app_status s rep], pd', w') \<and>
      \<not> ra_active (pd_mfg_reasm pd')"
      by (rule 1(1) [OF f(4) refl]) (use 1(2-11) False f(2) r'(1) in simp_all)
    then obtain k pd' where "send_mfg ?pd w ch v (mp_fragments ?it) =
        Some (replicate k (OSDP_PD_DISPATCH_SEND, ack_reply) @ [apply_app_status s rep], pd', w')"
      "\<not> ra_active (pd_mfg_reasm pd')" by blast
    then show ?thesis
      using False step by (intro exI [of _ "Suc k"] exI [of _ pd']) (simp add: f(5))
  qed
qed

text \<open>C24. A vendor message sent in fragments reaches the application once and whole: for every message of 1
  to 65535 bytes that fits the bound buffer and every fragment size, all fragments but the last are
  acknowledged, the last one makes the receiver's callback run with the vendor code and exactly the
  message, its verdict is the answer, and the reassembler is idle again.\<close>

theorem mfg_message_delivered:
  assumes "length vendor = 3" and "msg \<noteq> []" and "length msg \<le> 65535" and "length msg \<le> length buf"
    and "cb w vendor msg ack_reply = (s, rep, w')"
  shows "\<exists>k pd'. send_mfg (osdp_pd_set_mfg_receiver pd (Some buf) (length buf) (Some cb)) w ch vendor
        (mp_fragments (osdp_mp_frag_iter_init (Some msg) (length msg) max_frag))
      = Some (replicate k (OSDP_PD_DISPATCH_SEND, ack_reply) @ [apply_app_status s rep], pd', w') \<and>
    \<not> ra_active (pd_mfg_reasm pd')"
proof -
  let ?it = "osdp_mp_frag_iter_init (Some msg) (length msg) max_frag"
  have "reasm_holds (osdp_mp_reasm_init (Some buf) (length buf)) msg 0"
    using assms(4) by (simp add: reasm_holds_def osdp_mp_reasm_init_def)
  then show ?thesis
    by (intro send_mfg_fragments [where it = ?it and msg = msg and cb = cb and w' = w'])
      (use assms in \<open>simp_all add: osdp_mp_frag_iter_init_def osdp_pd_set_mfg_receiver_def\<close>)
qed

theorem mfg_message_delivered_witness:
  "\<exists>k pd'. send_mfg (osdp_pd_set_mfg_receiver (osdp_pd_init 1) (Some (replicate 10 0)) (length (replicate 10 (0 :: byte)))
        (Some (\<lambda>w v m r. (OSDP_OK, r, w @ [(v, m)])))) [] OSDP_PD_CH_PLAIN [1, 2, 3]
        (mp_fragments (osdp_mp_frag_iter_init (Some [7, 8, 9, 10, 11]) (length [7 :: byte, 8, 9, 10, 11]) 2))
      = Some (replicate k (OSDP_PD_DISPATCH_SEND, ack_reply) @ [apply_app_status OSDP_OK ack_reply], pd',
          [([1, 2, 3], [7, 8, 9, 10, 11])]) \<and>
    \<not> ra_active (pd_mfg_reasm pd')"
  by (rule mfg_message_delivered) simp_all

end
