(* ===== verification/PD_SC.thy ===== *)
theory PD_SC
  imports PD_Dispatch
begin

unbundle bit_operations_syntax

text \<open>
  The Secure Channel side of a peripheral device: \<^verbatim>\<open>pd/src/pd_sc.c\<close> (the handshake and the operational
  traffic), with the framing of replies from \<^verbatim>\<open>pd/src/pd.c\<close>. A handler returns the bytes it left in
  the TX buffer, the empty list standing for the return value 0: nothing is sent.
\<close>

section \<open>Framing replies\<close>

definition build_reply :: "'w osdp_pd \<Rightarrow> osdp_frame \<Rightarrow> osdp_pd_reply \<Rightarrow> bytes result" where
  "build_reply pd cmd reply =
     osdp_frame_build
       (zero_frame\<lparr>fr_address := fr_address cmd, fr_reply := True, fr_sequence := fr_sequence cmd,
          fr_integrity := fr_integrity cmd, fr_code := rp_code reply, fr_payload := rp_payload reply,
          fr_payload_len := rp_payload_len reply\<rparr>)
       (pd_tx_cap pd)"

definition osdp_pd_internal_build_busy :: "'w osdp_pd \<Rightarrow> osdp_frame \<Rightarrow> bytes result \<times> 'w osdp_pd" where
  "osdp_pd_internal_build_busy pd cmd =
     (osdp_frame_build
        (zero_frame\<lparr>fr_address := fr_address cmd, fr_reply := True, fr_sequence := 0,
           fr_integrity := fr_integrity cmd, fr_code := OSDP_REPLY_BUSY, fr_payload := None,
           fr_payload_len := 0\<rparr>)
        (pd_tx_cap pd),
      pd\<lparr>pd_reply_cacheable := False\<rparr>)"

definition build_nak :: "'w osdp_pd \<Rightarrow> osdp_frame \<Rightarrow> byte \<Rightarrow> bytes result" where
  "build_nak pd cmd error_code =
     build_reply pd cmd \<lparr>rp_code = OSDP_REPLY_NAK, rp_payload = Some [error_code], rp_payload_len = 1\<rparr>"

definition osdp_pd_internal_build_nak :: "'w osdp_pd \<Rightarrow> osdp_frame \<Rightarrow> byte \<Rightarrow> bytes result" where
  "osdp_pd_internal_build_nak pd cmd error_code = build_nak pd cmd error_code"

definition osdp_pd_internal_build_reply :: "'w osdp_pd \<Rightarrow> osdp_frame \<Rightarrow> osdp_pd_reply \<Rightarrow> bytes result" where
  "osdp_pd_internal_build_reply pd cmd reply = build_reply pd cmd reply"

text \<open>A length that stays 0 when the builder fails.\<close>

definition built_bytes :: "bytes result \<Rightarrow> bytes" where
  "built_bytes r = (case r of Inl _ \<Rightarrow> [] | Inr b \<Rightarrow> b)"

section \<open>The handshake\<close>

definition select_handshake_key :: "'w osdp_pd \<Rightarrow> byte \<Rightarrow> bytes option" where
  "select_handshake_key pd selector =
     (if selector = 1 \<and> sc_scbk_set (pd_sc pd) then Some (sc_scbk (pd_sc pd))
      else if selector = 0 \<and> sc_scbk_d_set (pd_sc pd) then Some (sc_scbk_d (pd_sc pd))
      else None)"

definition build_handshake_reply ::
  "'w osdp_pd \<Rightarrow> osdp_frame \<Rightarrow> byte \<Rightarrow> byte \<Rightarrow> byte \<Rightarrow> bytes \<Rightarrow> bytes result" where
  "build_handshake_reply pd cmd scb_type scb_selector_or_status reply_code payload =
     osdp_frame_build
       (zero_frame\<lparr>fr_address := pd_address pd, fr_reply := True, fr_sequence := fr_sequence cmd,
          fr_integrity := fr_integrity cmd, fr_has_scb := True, fr_scb_length := 3, fr_scb_type := scb_type,
          fr_scb_data := Some [scb_selector_or_status], fr_scb_data_len := 1, fr_code := reply_code,
          fr_payload := Some payload, fr_payload_len := length payload\<rparr>)
       (pd_tx_cap pd)"

text \<open>Updates of the session and of the handshake state.\<close>

abbreviation set_sc :: "('w osdp_pd_sc \<Rightarrow> 'w osdp_pd_sc) \<Rightarrow> 'w osdp_pd \<Rightarrow> 'w osdp_pd" where
  "set_sc f pd \<equiv> pd\<lparr>pd_sc := f (pd_sc pd)\<rparr>"

definition handle_chlng :: "'w osdp_pd \<Rightarrow> 'w \<Rightarrow> osdp_frame \<Rightarrow> bytes \<times> 'w osdp_pd \<times> 'w" where
  "handle_chlng pd w cmd =
     (let nak = (\<lambda>e. (built_bytes (osdp_pd_internal_build_nak pd cmd e), pd, w)) in
      if fr_code cmd \<noteq> OSDP_CMD_CHLNG then nak OSDP_NAK_UNKNOWN_CMD
      else if fr_payload_len cmd \<noteq> OSDP_SC_RND_LEN then nak OSDP_NAK_CMD_LENGTH
      else if fr_scb_data_len cmd < 1 \<or> fr_scb_data cmd = None then nak OSDP_NAK_UNSUPPORTED_SCB
      else
        let selector = the (fr_scb_data cmd) ! 0 in
        (case select_handshake_key pd selector of
           None \<Rightarrow> nak OSDP_NAK_UNSUPPORTED_SCB
         | Some key \<Rightarrow>
             (case rand_bytes (sc_crypto (pd_sc pd)) of
                None \<Rightarrow> nak OSDP_NAK_UNSUPPORTED_SCB
              | Some rnd \<Rightarrow>
                  (case rnd w OSDP_SC_RND_LEN of
                     (s, rnd_b, w1) \<Rightarrow>
                       let pd1 = set_sc (\<lambda>sc. sc\<lparr>sc_rnd_b := rnd_b\<rparr>) pd in
                       if s \<noteq> OSDP_OK then ([], pd1, w1)
                       else
                         let rnd_a = take OSDP_SC_RND_LEN (the (fr_payload cmd));
                             pd2 = set_sc (\<lambda>sc. sc\<lparr>sc_rnd_a := rnd_a, sc_key_selector := selector\<rparr>) pd1;
                             crypto = sc_crypto (pd_sc pd2)
                         in
                         (case osdp_sc_derive_session_keys crypto key rnd_a (ss_keys (sc_session (pd_sc pd2))) of
                            (s, keys) \<Rightarrow>
                              let pd3 = set_sc (\<lambda>sc. sc\<lparr>sc_session := (sc_session sc)\<lparr>ss_keys := keys\<rparr>\<rparr>) pd2 in
                              if s \<noteq> OSDP_OK then ([], pd3, w1)
                              else
                                (case osdp_sc_client_cryptogram crypto (s_enc keys) rnd_a rnd_b of
                                   Inl _ \<Rightarrow> ([], pd3, w1)
                                 | Inr client_crypto \<Rightarrow>
                                     (case build_handshake_reply pd3 cmd OSDP_SCS_12 selector OSDP_REPLY_CCRYPT
                                             (take OSDP_SC_CUID_LEN (sc_cuid (pd_sc pd3)) @ take OSDP_SC_RND_LEN rnd_b
                                              @ take OSDP_SC_CRYPTOGRAM_LEN client_crypto) of
                                        Inl _ \<Rightarrow> ([], pd3, w1)
                                      | Inr built \<Rightarrow>
                                          (built,
                                           set_sc (\<lambda>sc. sc\<lparr>sc_got_chlng := True,
                                             sc_session := (sc_session sc)\<lparr>ss_established := False\<rparr>\<rparr>) pd3,
                                           w1))))))))"

definition handle_scrypt :: "'w osdp_pd \<Rightarrow> osdp_frame \<Rightarrow> bytes \<times> 'w osdp_pd" where
  "handle_scrypt pd cmd =
     (let nak = (\<lambda>e. (built_bytes (osdp_pd_internal_build_nak pd cmd e), pd));
          sc = pd_sc pd; crypto = sc_crypto sc; session = sc_session sc; keys = ss_keys session in
      if fr_code cmd \<noteq> OSDP_CMD_SCRYPT then nak OSDP_NAK_UNKNOWN_CMD
      else if fr_payload_len cmd \<noteq> OSDP_SC_CRYPTOGRAM_LEN then nak OSDP_NAK_CMD_LENGTH
      else if \<not> sc_got_chlng sc then nak OSDP_NAK_UNSUPPORTED_SCB
      else if fr_scb_data_len cmd < 1 \<or> fr_scb_data cmd = None then nak OSDP_NAK_UNSUPPORTED_SCB
      else
        (case osdp_sc_server_cryptogram crypto (s_enc keys) (sc_rnd_a sc) (sc_rnd_b sc) of
           Inl _ \<Rightarrow> ([], pd)
         | Inr expected \<Rightarrow>
             let received = take OSDP_SC_CRYPTOGRAM_LEN (the (fr_payload cmd)) in
             if take OSDP_SC_CRYPTOGRAM_LEN expected \<noteq> received then
               (built_bytes (build_handshake_reply pd cmd OSDP_SCS_14 0xFF OSDP_REPLY_RMAC_I []),
                set_sc (\<lambda>sc. sc\<lparr>sc_got_chlng := False,
                  sc_session := (sc_session sc)\<lparr>ss_established := False\<rparr>\<rparr>) pd)
             else
               (case osdp_sc_initial_rmac crypto (s_mac1 keys) (s_mac2 keys) received of
                  Inl _ \<Rightarrow> ([], pd)
                | Inr initial_rmac \<Rightarrow>
                    (case build_handshake_reply pd cmd OSDP_SCS_14 0x01 OSDP_REPLY_RMAC_I
                            (take OSDP_SC_MAC_LEN initial_rmac) of
                       Inl _ \<Rightarrow> ([], pd)
                     | Inr built \<Rightarrow>
                         (built,
                          set_sc (\<lambda>sc. sc\<lparr>sc_session := session\<lparr>ss_last_outbound_mac := take OSDP_SC_MAC_LEN initial_rmac,
                              ss_last_inbound_mac := take OSDP_SC_MAC_LEN initial_rmac, ss_established := True\<rparr>,
                            sc_got_chlng := False\<rparr>) pd)))))"

section \<open>Operational traffic\<close>

definition handle_operational :: "'w osdp_pd \<Rightarrow> 'w \<Rightarrow> osdp_frame \<Rightarrow> bytes \<times> 'w osdp_pd \<times> 'w" where
  "handle_operational pd w cmd =
     (if \<not> ss_established (sc_session (pd_sc pd)) then
        (built_bytes (osdp_pd_internal_build_nak pd cmd OSDP_NAK_UNSUPPORTED_SCB), pd, w)
      else
        (case osdp_sc_unwrap_frame (sc_crypto (pd_sc pd)) (sc_session (pd_sc pd)) cmd (pd_rx_plain_cap pd) of
           Inl _ \<Rightarrow> ([], pd, w)
         | Inr (plain, session) \<Rightarrow>
             let pd1 = set_sc (\<lambda>sc. sc\<lparr>sc_session := session\<rparr>) pd in
             (case osdp_pd_internal_dispatch pd1 w OSDP_PD_CH_SC1 (fr_code cmd) (Some plain) (length plain) of
                (outcome, reply, pd2, w1) \<Rightarrow>
                  (case outcome of
                     OSDP_PD_DISPATCH_DROP \<Rightarrow> ([], pd2, w1)
                   | OSDP_PD_DISPATCH_BUSY \<Rightarrow>
                       (case osdp_pd_internal_build_busy pd2 cmd of (r, pd3) \<Rightarrow> (built_bytes r, pd3, w1))
                   | OSDP_PD_DISPATCH_SEND \<Rightarrow>
                       (case osdp_sc_wrap_frame (sc_crypto (pd_sc pd2)) (sc_session (pd_sc pd2))
                               (zero_frame\<lparr>fr_address := fr_address cmd, fr_reply := True,
                                  fr_sequence := fr_sequence cmd, fr_integrity := fr_integrity cmd,
                                  fr_has_scb := True, fr_scb_length := 2, fr_scb_type := OSDP_SCS_18,
                                  fr_code := rp_code reply, fr_payload := rp_payload reply,
                                  fr_payload_len := rp_payload_len reply\<rparr>)
                               (pd_tx_cap pd2) of
                          Inl _ \<Rightarrow> ([], pd2, w1)
                        | Inr (built, session') \<Rightarrow>
                            (built, set_sc (\<lambda>sc. sc\<lparr>sc_session := session'\<rparr>) pd2, w1))))))"

definition osdp_pd_internal_handle_sc_into_tx :: "'w osdp_pd \<Rightarrow> 'w \<Rightarrow> osdp_frame \<Rightarrow> bytes \<times> 'w osdp_pd \<times> 'w" where
  "osdp_pd_internal_handle_sc_into_tx pd w cmd =
     (if fr_scb_type cmd = OSDP_SCS_11 then handle_chlng pd w cmd
      else if fr_scb_type cmd = OSDP_SCS_13 then (case handle_scrypt pd cmd of (b, pd1) \<Rightarrow> (b, pd1, w))
      else if fr_scb_type cmd = OSDP_SCS_15 \<or> fr_scb_type cmd = OSDP_SCS_17 then handle_operational pd w cmd
      else (built_bytes (osdp_pd_internal_build_nak pd cmd OSDP_NAK_UNSUPPORTED_SCB), pd, w))"

section \<open>What the handlers leave alone\<close>

definition io_view :: "'w osdp_pd \<Rightarrow> 'w osdp_pd" where
  "io_view pd = (link_view pd)\<lparr>pd_sc := zero_pd_sc, pd_reply_cacheable := False\<rparr>"

lemma io_view_link: "link_view pd' = link_view pd \<Longrightarrow> io_view pd' = io_view pd"
  by (simp add: io_view_def)

lemma io_view_sc [simp]:
  "io_view (pd\<lparr>pd_sc := sc\<rparr>) = io_view pd" "io_view (pd\<lparr>pd_reply_cacheable := c\<rparr>) = io_view pd"
  by (simp_all add: io_view_def link_view_def)

lemma io_view_fields:
  assumes "io_view pd' = io_view pd"
  shows "pd_rx pd' = pd_rx pd" "pd_transport pd' = pd_transport pd" "pd_address pd' = pd_address pd"
    "pd_tx_cap pd' = pd_tx_cap pd" "pd_rx_plain_cap pd' = pd_rx_plain_cap pd" "pd_have_last pd' = pd_have_last pd"
    "pd_rpl_cache pd' = pd_rpl_cache pd" "pd_cmd_cache pd' = pd_cmd_cache pd"
    "pd_last_reply_len pd' = pd_last_reply_len pd" "pd_last_cmd_len pd' = pd_last_cmd_len pd"
    "pd_rpl_cache_cap pd' = pd_rpl_cache_cap pd" "pd_cmd_cache_cap pd' = pd_cmd_cache_cap pd"
    "pd_file_cap pd' = pd_file_cap pd" "pd_event_cap pd' = pd_event_cap pd" "pd_pdcap_records pd' = pd_pdcap_records pd"
  using arg_cong [OF assms, of pd_rx] arg_cong [OF assms, of pd_transport] arg_cong [OF assms, of pd_address]
    arg_cong [OF assms, of pd_tx_cap] arg_cong [OF assms, of pd_rx_plain_cap] arg_cong [OF assms, of pd_have_last]
    arg_cong [OF assms, of pd_rpl_cache] arg_cong [OF assms, of pd_cmd_cache]
    arg_cong [OF assms, of pd_last_reply_len] arg_cong [OF assms, of pd_last_cmd_len]
    arg_cong [OF assms, of pd_rpl_cache_cap] arg_cong [OF assms, of pd_cmd_cache_cap]
    arg_cong [OF assms, of pd_file_cap] arg_cong [OF assms, of pd_event_cap] arg_cong [OF assms, of pd_pdcap_records]
  by (simp_all add: io_view_def link_view_def)

lemma handle_chlng_io: "handle_chlng pd w cmd = (b, pd', w') \<Longrightarrow> io_view pd' = io_view pd"
  by (auto simp: handle_chlng_def Let_def split: if_splits option.splits sum.splits prod.splits)

lemma handle_scrypt_io: "handle_scrypt pd cmd = (b, pd') \<Longrightarrow> io_view pd' = io_view pd"
  by (auto simp: handle_scrypt_def Let_def split: if_splits sum.splits)

lemma handle_operational_io:
  assumes "handle_operational pd w cmd = (b, pd', w')"
  shows "io_view pd' = io_view pd"
proof -
  have d: "io_view pd2 = io_view pd"
    if "osdp_pd_internal_dispatch (set_sc f pd) w ch c p n = (out, r, pd2, w2)" for f ch c p n out r pd2 w2
    using io_view_link [OF dispatch_link [OF that]] by simp
  show ?thesis
    using assms
    by (auto simp: handle_operational_def Let_def osdp_pd_internal_build_busy_def
        split: if_splits sum.splits prod.splits osdp_pd_dispatch_outcome.splits dest!: d)
qed

lemma handle_sc_io:
  "osdp_pd_internal_handle_sc_into_tx pd w cmd = (b, pd', w') \<Longrightarrow> io_view pd' = io_view pd"
  by (auto simp: osdp_pd_internal_handle_sc_into_tx_def split: if_splits prod.splits
      dest: handle_chlng_io handle_scrypt_io handle_operational_io)

end
