(* ===== verification/PD_Tick.thy ===== *)
theory PD_Tick
  imports PD_SC
begin

unbundle bit_operations_syntax

text \<open>
  The main loop of a peripheral device: the rest of \<^verbatim>\<open>pd/src/pd.c\<close>. One tick checks the offline timer,
  drains the transport into the receive stream, answers every complete frame, and refreshes the
  reader banks. All loops are total functions here: the read loop is bounded by the size of the
  stream buffer, the write loop by the length of the frame, and the frame loop by the bytes pending
  in the stream, since processing a frame leaves the stream alone.
\<close>

section \<open>Sending and timers\<close>

function send_loop :: "('w \<Rightarrow> bytes \<Rightarrow> int \<times> 'w) \<Rightarrow> bytes \<Rightarrow> nat \<Rightarrow> 'w \<Rightarrow> nat \<times> 'w" where
  "send_loop write buf sent w =
     (if sent < length buf then
        (case write w (drop sent buf) of
           (n, w1) \<Rightarrow> if n \<le> 0 then (sent, w1) else send_loop write buf (sent + nat n) w1)
      else (sent, w))"
  by pat_completeness auto
termination
  by (relation "measure (\<lambda>(write, buf, sent, w). length buf - sent)") auto

declare send_loop.simps [simp del]

definition send_bytes :: "'w osdp_pd \<Rightarrow> 'w \<Rightarrow> bytes \<Rightarrow> 'w osdp_pd \<times> 'w" where
  "send_bytes pd w buf =
     (case tr_write (pd_transport pd) of
        None \<Rightarrow> (pd, w)
      | Some write \<Rightarrow>
          if length buf = 0 then (pd, w)
          else
            (case send_loop write buf 0 w of
               (sent, w1) \<Rightarrow>
                 if sent = 0 then (pd, w1)
                 else
                   (case tr_now_ms (pd_transport pd) of
                      None \<Rightarrow> (pd\<lparr>pd_online := True\<rparr>, w1)
                    | Some now_ms \<Rightarrow>
                        (case now_ms w1 of (now, w2) \<Rightarrow> (pd\<lparr>pd_last_comm_ms := now, pd_online := True\<rparr>, w2)))))"

definition check_offline_timeout :: "'w osdp_pd \<Rightarrow> 'w \<Rightarrow> 'w osdp_pd \<times> 'w" where
  "check_offline_timeout pd w =
     (if \<not> pd_online pd then (pd, w)
      else
        (case tr_now_ms (pd_transport pd) of
           None \<Rightarrow> (pd, w)
         | Some now_ms \<Rightarrow>
             (case now_ms w of
                (now, w1) \<Rightarrow>
                  if now - pd_last_comm_ms pd > OSDP_PD_OFFLINE_TIMEOUT_MS
                  then (osdp_pd_clear_events (pd\<lparr>pd_online := False, pd_have_last := False\<rparr>), w1)
                  else (pd, w1))))"

definition check_interchar_timeout :: "'w osdp_pd \<Rightarrow> 'w \<Rightarrow> 'w osdp_pd \<times> 'w" where
  "check_interchar_timeout pd w =
     (let pending = osdp_stream_pending (pd_rx pd) in
      if pending = 0 then (pd\<lparr>pd_rx_partial_len := 0\<rparr>, w)
      else
        (case tr_now_ms (pd_transport pd) of
           None \<Rightarrow> (pd, w)
         | Some now_ms \<Rightarrow>
             (case now_ms w of
                (now, w1) \<Rightarrow>
                  if pending \<noteq> pd_rx_partial_len pd
                  then (pd\<lparr>pd_rx_partial_len := pending, pd_rx_partial_ms := now\<rparr>, w1)
                  else if now - pd_rx_partial_ms pd \<ge> OSDP_PD_INTERCHAR_TIMEOUT_MS
                  then (pd\<lparr>pd_rx := osdp_stream_reset (pd_rx pd), pd_rx_partial_len := 0\<rparr>, w1)
                  else (pd, w1))))"

section \<open>Commands\<close>

definition clear_command_allowed_pre_sc :: "byte \<Rightarrow> bool" where
  "clear_command_allowed_pre_sc code \<longleftrightarrow> code = OSDP_CMD_ID \<or> code = OSDP_CMD_CAP \<or> code = OSDP_CMD_COMSET"

definition drop_session :: "'w osdp_pd \<Rightarrow> 'w osdp_pd" where
  "drop_session pd =
     (if ss_established (sc_session (pd_sc pd))
      then pd\<lparr>pd_sc := (pd_sc pd)\<lparr>sc_session := osdp_sc_session_init, sc_got_chlng := False\<rparr>\<rparr> else pd)"

definition handle_command_into_tx :: "'w osdp_pd \<Rightarrow> 'w \<Rightarrow> osdp_frame \<Rightarrow> bytes \<times> 'w osdp_pd \<times> 'w" where
  "handle_command_into_tx pd w cmd =
     (if fr_has_scb cmd then
        if osdp_pd_internal_sc_configured pd then osdp_pd_internal_handle_sc_into_tx pd w cmd
        else (built_bytes (build_nak pd cmd OSDP_NAK_UNSUPPORTED_SCB), pd, w)
      else
        let pd1 = drop_session pd in
        if fr_sequence cmd \<noteq> 0 \<and> ss_established (sc_session (pd_sc pd)) then
          (built_bytes (build_nak pd1 cmd OSDP_NAK_ENCRYPTION_REQUIRED), pd1, w)
        else if sc_scbk_set (pd_sc pd1) \<and> \<not> clear_command_allowed_pre_sc (fr_code cmd) then
          (built_bytes (build_nak pd1 cmd OSDP_NAK_ENCRYPTION_REQUIRED), pd1, w)
        else
          (case osdp_pd_internal_dispatch pd1 w OSDP_PD_CH_PLAIN (fr_code cmd) (fr_payload cmd) (fr_payload_len cmd) of
             (outcome, reply, pd2, w1) \<Rightarrow>
               (case outcome of
                  OSDP_PD_DISPATCH_BUSY \<Rightarrow>
                    (case osdp_pd_internal_build_busy pd2 cmd of (r, pd3) \<Rightarrow> (built_bytes r, pd3, w1))
                | OSDP_PD_DISPATCH_DROP \<Rightarrow> ([], pd2, w1)
                | OSDP_PD_DISPATCH_SEND \<Rightarrow> (built_bytes (build_reply pd2 cmd reply), pd2, w1))))"

definition cache_reply :: "'w osdp_pd \<Rightarrow> osdp_frame \<Rightarrow> bytes \<Rightarrow> 'w osdp_pd" where
  "cache_reply pd cmd tx =
     (let pd1 = (if length tx > 0 \<and> length tx \<le> pd_rpl_cache_cap pd
                 then pd\<lparr>pd_rpl_cache := mp_store (pd_rpl_cache pd) 0 tx, pd_last_reply_len := length tx\<rparr>
                 else pd\<lparr>pd_last_reply_len := 0\<rparr>);
          pd2 = (if fr_raw cmd \<noteq> None \<and> fr_raw_len cmd > 0 \<and> fr_raw_len cmd \<le> pd_cmd_cache_cap pd1
                 then pd1\<lparr>pd_cmd_cache := mp_store (pd_cmd_cache pd1) 0 (take (fr_raw_len cmd) (the (fr_raw cmd))),
                          pd_last_cmd_len := fr_raw_len cmd\<rparr>
                 else pd1\<lparr>pd_last_cmd_len := 0\<rparr>)
      in pd2\<lparr>pd_last_seq := fr_sequence cmd, pd_have_last := True\<rparr>)"

definition is_retransmit :: "'w osdp_pd \<Rightarrow> osdp_frame \<Rightarrow> bool" where
  "is_retransmit pd cmd =
     (if fr_sequence cmd = 0 \<or> \<not> pd_have_last pd then False
      else if pd_last_cmd_len pd = 0 \<or> fr_raw cmd = None then False
      else if fr_raw_len cmd \<noteq> pd_last_cmd_len pd then False
      else take (fr_raw_len cmd) (pd_cmd_cache pd) = take (fr_raw_len cmd) (the (fr_raw cmd)))"

definition process_frame :: "'w osdp_pd \<Rightarrow> 'w \<Rightarrow> osdp_frame \<Rightarrow> 'w osdp_pd \<times> 'w" where
  "process_frame pd w cmd =
     (if is_retransmit pd cmd then
        if pd_last_reply_len pd > 0 then send_bytes pd w (take (pd_last_reply_len pd) (pd_rpl_cache pd))
        else (pd, w)
      else
        (case handle_command_into_tx (pd\<lparr>pd_reply_cacheable := True\<rparr>) w cmd of
           (built, pd1, w1) \<Rightarrow>
             let pd2 = (if pd_reply_cacheable pd1 then cache_reply pd1 cmd built else pd1\<lparr>pd_have_last := False\<rparr>);
                 (pd3, w2) = (if length built > 0 then send_bytes pd2 w1 built else (pd2, w1))
             in if pd_comset_pending pd3 then osdp_pd_internal_apply_comset pd3 w2 else (pd3, w2)))"

section \<open>Processing a frame leaves the stream alone\<close>

lemma send_bytes_frame:
  "(fst (send_bytes pd w buf))\<lparr>pd_last_comm_ms := 0, pd_online := False\<rparr> = pd\<lparr>pd_last_comm_ms := 0, pd_online := False\<rparr>"
  by (simp add: send_bytes_def split: option.splits prod.splits)

lemma send_bytes_rx [simp]: "pd_rx (fst (send_bytes pd w buf)) = pd_rx pd"
  using arg_cong [OF send_bytes_frame [of pd w buf], of pd_rx] by simp

lemma drop_session_io [simp]: "io_view (drop_session pd) = io_view pd"
  by (simp add: drop_session_def)

lemma handle_command_io:
  assumes "handle_command_into_tx pd w cmd = (b, pd', w')"
  shows "io_view pd' = io_view pd"
proof -
  have d: "io_view pd2 = io_view pd"
    if "osdp_pd_internal_dispatch (drop_session pd) w ch c p n = (out, r, pd2, w2)" for ch c p n out r pd2 w2
    using io_view_link [OF dispatch_link [OF that]] by simp
  show ?thesis
    using assms
    by (auto simp: handle_command_into_tx_def Let_def osdp_pd_internal_build_busy_def
        split: if_splits prod.splits osdp_pd_dispatch_outcome.splits dest!: d dest: handle_sc_io)
qed

lemma cache_reply_rx [simp]: "pd_rx (cache_reply pd cmd tx) = pd_rx pd"
  by (simp add: cache_reply_def Let_def)

lemma apply_comset_rx [simp]: "pd_rx (fst (osdp_pd_internal_apply_comset pd w)) = pd_rx pd"
  by (simp add: osdp_pd_internal_apply_comset_def Let_def split: option.splits)

lemma process_frame_rx: "pd_rx (fst (process_frame pd w cmd)) = pd_rx pd"
proof -
  obtain built pd1 w1 where h: "handle_command_into_tx (pd\<lparr>pd_reply_cacheable := True\<rparr>) w cmd = (built, pd1, w1)"
    by (metis prod_cases3)
  have "pd_rx pd1 = pd_rx pd"
    using io_view_fields(1) [OF handle_command_io [OF h]] by simp
  then show ?thesis
    using h by (simp add: process_frame_def Let_def case_prod_beta)
qed

section \<open>The tick\<close>

function read_loop :: "('w \<Rightarrow> nat \<Rightarrow> int \<times> bytes \<times> 'w) \<Rightarrow> 'w osdp_pd \<Rightarrow> 'w \<Rightarrow> nat \<Rightarrow> 'w osdp_pd \<times> 'w" where
  "read_loop read pd w drained =
     (case read w 128 of
        (n, chunk, w1) \<Rightarrow>
          if n \<le> 0 then (pd, w1)
          else
            let pd1 = pd\<lparr>pd_rx := snd (osdp_stream_feed (pd_rx pd) (Some chunk) (nat n))\<rparr>;
                drained' = drained + nat n
            in if drained' \<ge> OSDP_STREAM_BUFFER_LEN then (pd1, w1) else read_loop read pd1 w1 drained')"
  by pat_completeness auto
termination
  by (relation "measure (\<lambda>(read, pd, w, drained). OSDP_STREAM_BUFFER_LEN - drained)") auto

declare read_loop.simps [simp del]

text \<open>What the tick does with a frame the stream produced, or with one that failed its check.\<close>

definition tick_frame :: "'w osdp_pd \<Rightarrow> 'w \<Rightarrow> osdp_status \<Rightarrow> osdp_frame \<Rightarrow> 'w osdp_pd \<times> 'w" where
  "tick_frame pd w r cmd =
     (if r \<noteq> OSDP_OK then
        if (r = OSDP_ERR_BAD_CRC \<or> r = OSDP_ERR_BAD_CHECKSUM) \<and> \<not> fr_reply cmd \<and> fr_address cmd = pd_address pd then
          (case osdp_pd_internal_build_nak pd cmd OSDP_NAK_BAD_CHECK of
             Inl _ \<Rightarrow> (pd, w)
           | Inr tx \<Rightarrow> if length tx > 0 then send_bytes pd w tx else (pd, w))
        else (pd, w)
      else if fr_reply cmd then (pd, w)
      else if fr_address cmd \<noteq> pd_address pd \<and> fr_address cmd \<noteq> OSDP_BROADCAST_ADDR then (pd, w)
      else process_frame pd w cmd)"

lemma tick_frame_rx: "pd_rx (fst (tick_frame pd w r cmd)) = pd_rx pd"
  by (auto simp: tick_frame_def process_frame_rx split: sum.splits)

lemma tick_frame_progress:
  assumes "(r, cmd, rx) = osdp_stream_next (pd_rx pd) zero_frame" "r \<noteq> OSDP_ERR_TRUNCATED"
  shows "osdp_stream_pending (pd_rx (fst (tick_frame (pd\<lparr>pd_rx := rx\<rparr>) w r cmd))) < osdp_stream_pending (pd_rx pd)"
  using assms stream_next_pending(2) [of "pd_rx pd" zero_frame]
  by (simp add: tick_frame_rx flip: assms(1))

function frame_loop :: "'w osdp_pd \<Rightarrow> 'w \<Rightarrow> 'w osdp_pd \<times> 'w" where
  "frame_loop pd w =
     (case osdp_stream_next (pd_rx pd) zero_frame of
        (r, cmd, rx) \<Rightarrow>
          if r = OSDP_ERR_TRUNCATED then (pd\<lparr>pd_rx := rx\<rparr>, w)
          else (case tick_frame (pd\<lparr>pd_rx := rx\<rparr>) w r cmd of (pd1, w1) \<Rightarrow> frame_loop pd1 w1))"
  by pat_completeness auto
termination
  by (relation "measure (\<lambda>(pd, w). osdp_stream_pending (pd_rx pd))") (auto simp: case_prod_beta intro: tick_frame_progress)

declare frame_loop.simps [simp del]

definition osdp_pd_tick :: "'w osdp_pd \<Rightarrow> 'w \<Rightarrow> 'w osdp_pd \<times> 'w" where
  "osdp_pd_tick pd w =
     (case tr_read (pd_transport pd) of
        None \<Rightarrow> (pd, w)
      | Some read \<Rightarrow>
          let (pd1, w1) = check_offline_timeout pd w;
              (pd2, w2) = read_loop read pd1 w1 0;
              (pd3, w3) = frame_loop pd2 w2;
              (pd4, w4) = check_interchar_timeout pd3 w3;
              (now, w5) = pd_now_ms pd4 w4;
              (pd5, w6) = pd_led_refresh pd4 now w5
          in pd_buz_refresh pd5 now w6)"

end
