(* ===== verification/PD_Invariant.thy ===== *)
theory PD_Invariant
  imports PD_Tick
begin

text \<open>
  The invariant of a peripheral device's context: in every state an application can bring about, the
  receive stream, the caches, the reader banks, the event queue, the file receiver and the vendor
  message reassembler stay inside the storage they were given. The calls of the interface are an inductive
  relation; their preconditions are what the header asks of the caller, that a buffer has
  the capacity passed with it.
\<close>

section \<open>The invariant\<close>

text \<open>The two retransmit caches, and the smallest regions the device accepts.\<close>

definition cache_wf :: "'w osdp_pd \<Rightarrow> bool" where
  "cache_wf pd \<longleftrightarrow>
     pd_rpl_cache_cap pd \<le> length (pd_rpl_cache pd) \<and> pd_last_reply_len pd \<le> pd_rpl_cache_cap pd \<and>
     pd_cmd_cache_cap pd \<le> length (pd_cmd_cache pd) \<and> pd_last_cmd_len pd \<le> pd_cmd_cache_cap pd \<and>
     OSDP_PD_BUF_MIN_LEN \<le> pd_tx_cap pd \<and> OSDP_PD_BUF_MIN_LEN \<le> pd_rx_plain_cap pd \<and>
     OSDP_PD_BUF_MIN_LEN \<le> pd_rpl_cache_cap pd \<and> OSDP_PD_BUF_MIN_LEN \<le> pd_cmd_cache_cap pd"

definition banks_wf :: "'w osdp_pd \<Rightarrow> bool" where
  "banks_wf pd \<longleftrightarrow> length (pd_leds pd) = OSDP_PD_MAX_LEDS \<and> length (pd_buzzers pd) = OSDP_PD_MAX_BUZZERS"

text \<open>The bytes of a bound event queue are always a sequence of whole events.\<close>

definition events_wf :: "'w osdp_pd \<Rightarrow> bool" where
  "events_wf pd \<longleftrightarrow> pd_event_buf pd = None \<or> (\<exists>q. events_held pd q)"

definition address_wf :: "'w osdp_pd \<Rightarrow> bool" where
  "address_wf pd \<longleftrightarrow> pd_address pd \<le> 0x7F \<and> (pd_comset_pending pd \<longrightarrow> pd_comset_new_address pd \<le> 0x7F)"

text \<open>A reassembler without a buffer refuses every fragment.\<close>

definition reasm_ok :: "osdp_mp_reasm \<Rightarrow> bool" where
  "reasm_ok r \<longleftrightarrow> ra_buf r = None \<or> reasm_wf r"

definition store_wf :: "'w osdp_pd \<Rightarrow> bool" where
  "store_wf pd \<longleftrightarrow> banks_wf pd \<and> events_wf pd \<and> address_wf pd \<and> ft_wf pd \<and> reasm_ok (pd_mfg_reasm pd) \<and>
     length (pd_pdcap_records pd) \<le> OSDP_PD_MAX_PDCAP_RECORDS"

definition pd_wf :: "'w osdp_pd \<Rightarrow> bool" where
  "pd_wf pd \<longleftrightarrow> stream_wf (pd_rx pd) \<and> cache_wf pd \<and> store_wf pd"

lemmas store_parts = banks_wf_def events_wf_def events_held_def address_wf_def ft_wf_def
lemmas store_defs = store_wf_def store_parts

section \<open>Commands keep the device's storage\<close>

lemma dequeue_wf:
  assumes "store_wf pd" "osdp_pd_internal_dequeue_event pd = (q, pd')"
  shows "store_wf pd'"
proof -
  have "events_wf pd'"
  proof (cases "pd_event_buf pd")
    case None
    then show ?thesis using assms by (auto simp: osdp_pd_internal_dequeue_event_def events_wf_def)
  next
    case (Some b)
    then obtain es where es: "events_held pd es" using assms(1) by (auto simp: store_wf_def events_wf_def)
    then show ?thesis
      using assms(2) dequeue_empty [of pd] dequeue_held(2) [of pd "fst (hd es)" "snd (hd es)" "tl es"]
      by (cases es) (auto simp: events_wf_def)
  qed
  moreover have "pd'\<lparr>pd_event_buf := None, pd_event_len := 0\<rparr> = pd\<lparr>pd_event_buf := None, pd_event_len := 0\<rparr>"
    using assms(2) by (auto simp: osdp_pd_internal_dequeue_event_def Let_def split: option.splits if_splits)
  note m = arg_cong [OF this]
  have "banks_wf pd'" "address_wf pd'" "ft_wf pd'" "reasm_ok (pd_mfg_reasm pd')"
    "length (pd_pdcap_records pd') \<le> OSDP_PD_MAX_PDCAP_RECORDS"
    using assms(1) m [of banks_wf] m [of address_wf] m [of ft_wf] m [of pd_mfg_reasm] m [of pd_pdcap_records]
    by (simp_all add: store_wf_def banks_wf_def address_wf_def ft_wf_def)
  ultimately show ?thesis by (simp add: store_wf_def)
qed

lemma filetransfer_store:
  assumes "store_wf pd" "osdp_pd_internal_filetransfer pd w p n = (r, pd', w')"
  shows "store_wf pd'"
proof -
  note m = arg_cong [OF filetransfer_mask [OF assms(2)]]
  have "banks_wf pd'" "events_wf pd'" "address_wf pd'" "reasm_ok (pd_mfg_reasm pd')"
    "length (pd_pdcap_records pd') \<le> OSDP_PD_MAX_PDCAP_RECORDS"
    using assms(1) m [of banks_wf] m [of events_wf] m [of address_wf] m [of pd_mfg_reasm]
      m [of pd_pdcap_records]
    by (simp_all add: store_wf_def ft_mask_def banks_wf_def events_wf_def events_held_def address_wf_def)
  moreover have "ft_wf pd'"
    using filetransfer_wf [OF _ assms(2)] assms(1) by (simp add: store_wf_def)
  ultimately show ?thesis by (simp add: store_wf_def)
qed

lemma reset_ok [simp]: "reasm_ok r \<Longrightarrow> reasm_ok (osdp_mp_reasm_reset r)"
  by (auto simp: reasm_ok_def osdp_mp_reasm_reset_def reasm_wf_def)

lemma push_ok:
  assumes "reasm_ok r" "osdp_mp_fragment_decode p n out = (OSDP_OK, f)" "osdp_mp_reasm_push r f st = (s, st', r')"
  shows "reasm_ok r'"
  using assms reasm_push_wf(1) [of r p n out f st s st' r'] by (auto simp: reasm_ok_def osdp_mp_reasm_push_def)

lemma mfg_store:
  assumes "store_wf pd" "handle_mfg_multipart pd w p n = Some (out, r, pd', w')"
  shows "store_wf pd'"
proof -
  have ok: "reasm_ok (pd_mfg_reasm pd)"
    using assms(1) by (simp add: store_wf_def)
  have "reasm_ok (pd_mfg_reasm pd')"
    using assms(2) ok unfolding handle_mfg_multipart_def Let_def
    by (auto split: option.splits sum.splits prod.splits if_splits dest!: push_ok [OF ok])
  moreover have "pd'\<lparr>pd_mfg_reasm := osdp_mp_reasm_init None 0, pd_mfg_vendor := []\<rparr>
      = pd\<lparr>pd_mfg_reasm := osdp_mp_reasm_init None 0, pd_mfg_vendor := []\<rparr>"
    using assms(2) by (auto simp: handle_mfg_multipart_def Let_def split: option.splits sum.splits prod.splits if_splits)
  note m = arg_cong [OF this]
  have "banks_wf pd'" "events_wf pd'" "address_wf pd'" "ft_wf pd'"
    "length (pd_pdcap_records pd') \<le> OSDP_PD_MAX_PDCAP_RECORDS"
    using assms(1) m [of banks_wf] m [of events_wf] m [of address_wf] m [of ft_wf] m [of pd_pdcap_records]
    by (simp_all add: store_wf_def banks_wf_def events_wf_def events_held_def address_wf_def ft_wf_def)
  ultimately show ?thesis by (simp add: store_wf_def)
qed

lemma comset_store:
  assumes "store_wf pd" "handle_comset pd w p n = (r, pd', w')"
  shows "store_wf pd'"
proof -
  have "a \<le> 0x7F" if "osdp_pd_internal_comset_effective pd w p n = (Inr (a, b, c), w1)" for a b c w1
    using that assms(1) unfolding osdp_pd_internal_comset_effective_def Let_def store_wf_def address_wf_def
    by (auto simp: word_le_nat_alt word_less_nat_alt split: sum.splits prod.splits if_splits)
  then show ?thesis
    using assms by (auto simp: handle_comset_def store_defs split: prod.splits sum.splits)
qed

lemma only_banks_store: "only_banks pd pd' \<Longrightarrow> store_wf pd \<Longrightarrow> store_wf pd'"
  by (elim only_banksE) (simp add: store_defs)

lemma keyset_store: "osdp_pd_internal_apply_keyset pd p n = (r, pd') \<Longrightarrow> store_wf pd \<Longrightarrow> store_wf pd'"
  by (auto simp: osdp_pd_internal_apply_keyset_def store_defs split: sum.splits if_splits)

lemma dispatch_app_store:
  assumes "dispatch_app pd w ch c p n = (out, r, pd', w')" "store_wf pd"
  shows "store_wf pd'"
  using assms(1) by (rule dispatch_app_cases) (metis keyset_store only_banks_store observe_command_only assms(2))

lemma dispatch_store:
  assumes "osdp_pd_internal_dispatch pd w ch c p n = (out, r, pd', w')" "store_wf pd"
  shows "store_wf pd'"
  using assms(1)
proof (cases rule: dispatch_cases)
  case filetransfer
  then show ?thesis
    by (auto simp: handle_filetransfer_def split: prod.splits sum.splits dest: filetransfer_store [OF assms(2)])
next
  case abort
  then show ?thesis
    using assms(2) by (auto simp: handle_abort_def store_defs Let_def split: prod.splits option.splits)
next
  case acurxsize
  then show ?thesis
    using assms(2) by (auto simp: handle_acurxsize_def store_defs split: sum.splits)
next
  case (app q pd1)
  then show ?thesis
    using dispatch_app_store dequeue_wf [OF assms(2)] assms(2) by metis
qed (use assms(2) in \<open>auto dest: comset_store mfg_store dequeue_wf\<close>)

section \<open>Frames and ticks keep the context\<close>

lemma store_updates [simp]:
  "store_wf (pd\<lparr>pd_sc := sc\<rparr>) = store_wf pd" "store_wf (pd\<lparr>pd_reply_cacheable := c\<rparr>) = store_wf pd"
  "store_wf (pd\<lparr>pd_rx := rx\<rparr>) = store_wf pd" "store_wf (pd\<lparr>pd_have_last := h\<rparr>) = store_wf pd"
  "store_wf (pd\<lparr>pd_last_comm_ms := t, pd_online := o1\<rparr>) = store_wf pd"
  by (simp_all add: store_defs)

lemma handle_chlng_sc: "handle_chlng pd w cmd = (b, pd', w') \<Longrightarrow> store_wf pd' = store_wf pd"
  by (auto simp: handle_chlng_def Let_def split: if_splits option.splits sum.splits prod.splits)

lemma handle_scrypt_sc: "handle_scrypt pd cmd = (b, pd') \<Longrightarrow> store_wf pd' = store_wf pd"
  by (auto simp: handle_scrypt_def Let_def split: if_splits sum.splits)

lemma handle_operational_store:
  assumes "handle_operational pd w cmd = (b, pd', w')" "store_wf pd"
  shows "store_wf pd'"
proof -
  have d: "store_wf pd2"
    if "osdp_pd_internal_dispatch (set_sc f pd) w ch c p n = (out, r, pd2, w2)" for f ch c p n out r pd2 w2
    using dispatch_store [OF that] assms(2) by simp
  show ?thesis
    using assms
    by (auto simp: handle_operational_def Let_def osdp_pd_internal_build_busy_def
        split: if_splits sum.splits prod.splits osdp_pd_dispatch_outcome.splits dest!: d)
qed

lemma handle_sc_store:
  "osdp_pd_internal_handle_sc_into_tx pd w cmd = (b, pd', w') \<Longrightarrow> store_wf pd \<Longrightarrow> store_wf pd'"
  by (auto simp: osdp_pd_internal_handle_sc_into_tx_def split: if_splits prod.splits
      dest: handle_chlng_sc handle_scrypt_sc handle_operational_store)

lemma drop_session_store [simp]: "store_wf (drop_session pd) = store_wf pd"
  by (simp add: drop_session_def)

lemma handle_command_store:
  assumes "handle_command_into_tx pd w cmd = (b, pd', w')" "store_wf pd"
  shows "store_wf pd'"
proof -
  have d: "store_wf pd2"
    if "osdp_pd_internal_dispatch (drop_session pd) w ch c p n = (out, r, pd2, w2)" for ch c p n out r pd2 w2
    using dispatch_store [OF that] assms(2) by simp
  show ?thesis
    using assms
    by (auto simp: handle_command_into_tx_def Let_def osdp_pd_internal_build_busy_def
        split: if_splits prod.splits osdp_pd_dispatch_outcome.splits dest!: d dest: handle_sc_store)
qed

lemma handle_command_wf:
  assumes "pd_wf pd" "handle_command_into_tx pd w cmd = (b, pd', w')"
  shows "pd_wf pd'"
  using assms(1) handle_command_store [OF assms(2)] io_view_fields [OF handle_command_io [OF assms(2)]]
  by (simp add: pd_wf_def cache_wf_def)

lemma cache_reply_wf:
  assumes "pd_wf pd"
  shows "pd_wf (cache_reply pd cmd tx)"
proof -
  have "length (mp_store (pd_rpl_cache pd) 0 tx) = length (pd_rpl_cache pd)" if "length tx \<le> pd_rpl_cache_cap pd"
    using that assms by (intro length_mp_store) (simp add: pd_wf_def cache_wf_def)
  moreover have "length (mp_store (pd_cmd_cache pd) 0 (take (fr_raw_len cmd) b)) = length (pd_cmd_cache pd)"
    if "fr_raw_len cmd \<le> pd_cmd_cache_cap pd" for b
    using that assms by (intro length_mp_store) (auto simp: pd_wf_def cache_wf_def min_def)
  ultimately show ?thesis
    using assms by (simp add: cache_reply_def Let_def pd_wf_def cache_wf_def store_defs)
qed

lemma send_bytes_wf: "pd_wf (fst (send_bytes pd w buf)) = pd_wf pd"
  using arg_cong [OF send_bytes_frame [of pd w buf], of pd_wf]
  by (simp add: pd_wf_def cache_wf_def store_defs)

lemma apply_comset_wf: "pd_wf pd \<Longrightarrow> pd_comset_pending pd \<Longrightarrow> pd_wf (fst (osdp_pd_internal_apply_comset pd w))"
  by (simp add: osdp_pd_internal_apply_comset_def Let_def pd_wf_def cache_wf_def store_defs split: option.splits)

lemma process_frame_wf:
  assumes "pd_wf pd"
  shows "pd_wf (fst (process_frame pd w cmd))"
proof -
  obtain built pd1 w1 where h: "handle_command_into_tx (pd\<lparr>pd_reply_cacheable := True\<rparr>) w cmd = (built, pd1, w1)"
    by (metis prod_cases3)
  have "pd_wf (pd\<lparr>pd_reply_cacheable := True\<rparr>)"
    using assms by (simp add: pd_wf_def cache_wf_def)
  then have 1: "pd_wf pd1" by (rule handle_command_wf [OF _ h])
  define pd2 where "pd2 = (if pd_reply_cacheable pd1 then cache_reply pd1 cmd built else pd1\<lparr>pd_have_last := False\<rparr>)"
  have "pd_wf pd2"
    using cache_reply_wf [OF 1] 1 by (simp add: pd2_def pd_wf_def cache_wf_def)
  define s where "s = (if 0 < length built then send_bytes pd2 w1 built else (pd2, w1))"
  have s: "pd_wf (fst s)"
    using \<open>pd_wf pd2\<close> by (simp add: s_def send_bytes_wf)
  have "process_frame pd w cmd =
      (if is_retransmit pd cmd
       then if pd_last_reply_len pd > 0 then send_bytes pd w (take (pd_last_reply_len pd) (pd_rpl_cache pd)) else (pd, w)
       else if pd_comset_pending (fst s) then osdp_pd_internal_apply_comset (fst s) (snd s) else (fst s, snd s))"
    by (simp only: process_frame_def h Let_def case_prod_beta prod.case s_def pd2_def fst_conv snd_conv)
  then show ?thesis
    using assms s apply_comset_wf [OF s] by (simp add: send_bytes_wf)
qed

lemma pd_tick_frame_wf: "pd_wf pd \<Longrightarrow> pd_wf (fst (tick_frame pd w r cmd))"
  by (auto simp: tick_frame_def process_frame_wf send_bytes_wf split: sum.splits)

lemma rx_wf: "pd_wf pd \<Longrightarrow> stream_wf rx \<Longrightarrow> pd_wf (pd\<lparr>pd_rx := rx\<rparr>)"
  by (simp add: pd_wf_def cache_wf_def)

lemma frame_loop_wf: "pd_wf pd \<Longrightarrow> pd_wf (fst (frame_loop pd w))"
proof (induction pd w rule: frame_loop.induct)
  case (1 pd w)
  obtain r cmd rx where n: "osdp_stream_next (pd_rx pd) zero_frame = (r, cmd, rx)"
    using prod_cases3 by blast
  obtain pd1 w1 where t: "tick_frame (pd\<lparr>pd_rx := rx\<rparr>) w r cmd = (pd1, w1)"
    by fastforce
  have "pd_wf (pd\<lparr>pd_rx := rx\<rparr>)"
    using 1(2) osdp_stream_next_queue(1) [OF _ n] by (intro rx_wf) (simp_all add: pd_wf_def)
  with pd_tick_frame_wf [OF this, of w r cmd] 1(1) [OF n [symmetric] refl _ t [symmetric]] show ?case
    by (subst frame_loop.simps) (simp add: n t)
qed

lemma read_loop_wf: "pd_wf pd \<Longrightarrow> pd_wf (fst (read_loop read pd w d))"
proof (induction read pd w d rule: read_loop.induct)
  case (1 read pd w d)
  obtain n chunk w1 where r: "read w 128 = (n, chunk, w1)"
    by (cases "read w 128")
  have "pd_wf (pd\<lparr>pd_rx := snd (osdp_stream_feed (pd_rx pd) (Some chunk) (nat n))\<rparr>)"
    using 1(2) by (intro rx_wf feed_wf_any) (simp_all add: pd_wf_def)
  then show ?case
    using 1(1) [OF r [symmetric] refl] r 1(2) by (subst read_loop.simps) (auto simp: Let_def)
qed

lemma clear_events_wf:
  assumes "pd_wf pd"
  shows "pd_wf (osdp_pd_clear_events pd)"
proof -
  have "events_wf (osdp_pd_clear_events pd)"
  proof (cases "pd_event_buf pd")
    case (Some b)
    then have "events_held (osdp_pd_clear_events pd) []"
      using assms by (auto simp: pd_wf_def store_wf_def events_wf_def events_held_def osdp_pd_clear_events_def)
    then show ?thesis by (auto simp: events_wf_def)
  qed (simp add: events_wf_def osdp_pd_clear_events_def)
  then show ?thesis
    using assms by (simp add: pd_wf_def cache_wf_def store_wf_def osdp_pd_clear_events_def banks_wf_def address_wf_def ft_wf_def)
qed

lemma offline_wf:
  assumes "pd_wf pd"
  shows "pd_wf (fst (check_offline_timeout pd w))"
proof -
  have "pd_wf (osdp_pd_clear_events (pd\<lparr>pd_online := False, pd_have_last := False\<rparr>))"
    using assms by (intro clear_events_wf) (simp add: pd_wf_def cache_wf_def store_defs)
  with assms show ?thesis
    by (simp add: check_offline_timeout_def split: option.splits prod.splits)
qed

lemma partial_updates [simp]:
  "pd_wf (pd\<lparr>pd_rx_partial_len := n\<rparr>) = pd_wf pd" "pd_wf (pd\<lparr>pd_rx_partial_ms := t\<rparr>) = pd_wf pd"
  by (simp_all add: pd_wf_def cache_wf_def store_defs)

lemma interchar_wf:
  assumes "pd_wf pd"
  shows "pd_wf (fst (check_interchar_timeout pd w))"
proof -
  have "pd_wf (pd\<lparr>pd_rx := osdp_stream_reset (pd_rx pd)\<rparr>)"
    using assms by (intro rx_wf) (auto simp: pd_wf_def stream_wf_def osdp_stream_reset_def osdp_stream_init_def)
  then have "pd_wf (pd\<lparr>pd_rx := osdp_stream_reset (pd_rx pd), pd_rx_partial_len := 0\<rparr>)"
    by simp
  moreover have "pd_wf (pd\<lparr>pd_rx_partial_len := n, pd_rx_partial_ms := t\<rparr>)" for n t
    using assms by simp
  ultimately show ?thesis
    using assms by (simp add: check_interchar_timeout_def Let_def split: option.splits prod.splits)
qed

lemma only_banks_wf: "only_banks pd pd' \<Longrightarrow> pd_wf pd \<Longrightarrow> pd_wf pd'"
  by (frule only_banks_store) (auto simp: pd_wf_def cache_wf_def elim!: only_banksE)

lemma tick_wf:
  assumes "pd_wf pd" "osdp_pd_tick pd w = (pd', w')"
  shows "pd_wf pd'"
proof (cases "tr_read (pd_transport pd)")
  case None
  then show ?thesis using assms by (simp add: osdp_pd_tick_def)
next
  case (Some read)
  obtain pd1 w1 where 1: "check_offline_timeout pd w = (pd1, w1)" by fastforce
  obtain pd2 w2 where 2: "read_loop read pd1 w1 0 = (pd2, w2)" by fastforce
  obtain pd3 w3 where 3: "frame_loop pd2 w2 = (pd3, w3)" by fastforce
  obtain pd4 w4 where 4: "check_interchar_timeout pd3 w3 = (pd4, w4)" by fastforce
  obtain now w5 where 5: "pd_now_ms pd4 w4 = (now, w5)" by fastforce
  obtain pd5 w6 where 6: "pd_led_refresh pd4 now w5 = (pd5, w6)" by fastforce
  have "pd_buz_refresh pd5 now w6 = (pd', w')"
    using assms(2) Some by (simp add: osdp_pd_tick_def 1 2 3 4 5 6)
  note b = pd_buz_refresh_only [OF this] pd_led_refresh_only [OF 6]
  have "pd_wf pd4"
    using offline_wf [OF assms(1), of w] read_loop_wf [of pd1 read w1 0] frame_loop_wf [of pd2 w2] interchar_wf [of pd3 w3]
    by (simp add: 1 2 3 4)
  then show ?thesis by (metis only_banks_wf b)
qed

section \<open>Calls of the interface\<close>

text \<open>A buffer has the capacity that is passed with it.\<close>

definition holds_cap :: "bytes_ptr \<Rightarrow> nat \<Rightarrow> bool" where
  "holds_cap p cap \<longleftrightarrow> (case p of None \<Rightarrow> True | Some b \<Rightarrow> length b = cap)"

inductive pd_call :: "'w osdp_pd \<Rightarrow> 'w osdp_pd \<Rightarrow> bool" where
  set_buffers: "holds_cap (bf_rpl_cache bufs) (bf_rpl_cache_cap bufs) \<Longrightarrow> holds_cap (bf_cmd_cache bufs) (bf_cmd_cache_cap bufs)
    \<Longrightarrow> pd_call pd (snd (osdp_pd_set_buffers pd bufs))"
| set_transport: "pd_call pd (osdp_pd_set_transport pd t)"
| set_command_handler: "pd_call pd (osdp_pd_set_command_handler pd ccb)"
| set_led_handler: "pd_call pd (osdp_pd_set_led_handler pd lcb)"
| set_buzzer_handler: "pd_call pd (osdp_pd_set_buzzer_handler pd bcb)"
| set_comset_handler: "pd_call pd (osdp_pd_set_comset_handler pd decide applied)"
| set_abort_handler: "pd_call pd (osdp_pd_set_abort_handler pd acb)"
| set_acurxsize_handler: "pd_call pd (osdp_pd_set_acurxsize_handler pd xcb)"
| set_keepactive_handler: "pd_call pd (osdp_pd_set_keepactive_handler pd kcb)"
| set_status_provider: "pd_call pd (osdp_pd_set_status_provider pd sp)"
| set_file_receiver: "holds_cap buf cap \<Longrightarrow> pd_call pd (osdp_pd_set_file_receiver pd buf cap fcb)"
| set_file_stream: "pd_call pd (osdp_pd_set_file_stream pd fcb)"
| set_mfg_receiver: "holds_cap buf cap \<Longrightarrow> pd_call pd (osdp_pd_set_mfg_receiver pd buf cap mcb)"
| set_event_queue: "holds_cap buf cap \<Longrightarrow> pd_call pd (osdp_pd_set_event_queue pd buf cap)"
| set_pdcap: "osdp_pd_set_pdcap pd (Some records) (length records) = (st, bad, pd') \<Longrightarrow> pd_call pd pd'"
| set_sc_crypto: "pd_call pd (osdp_pd_set_sc_crypto pd crypto)"
| set_sc_scbk: "pd_call pd (osdp_pd_set_sc_scbk pd key)"
| set_sc_scbk_d: "pd_call pd (osdp_pd_set_sc_scbk_d pd key)"
| set_sc_cuid: "pd_call pd (osdp_pd_set_sc_cuid pd cuid)"
| enqueue_event: "pd_call pd (snd (osdp_pd_enqueue_event pd code (ptr_of payload) (length payload)))"
| clear_events: "pd_call pd (osdp_pd_clear_events pd)"
| tick: "osdp_pd_tick pd w = (pd', w') \<Longrightarrow> pd_call pd pd'"

inductive pd_reachable :: "byte \<Rightarrow> 'w osdp_pd \<Rightarrow> bool" for a where
  init: "pd_reachable a (osdp_pd_init a)"
| call: "pd_reachable a pd \<Longrightarrow> pd_call pd pd' \<Longrightarrow> pd_reachable a pd'"

lemmas pd_setters = osdp_pd_set_transport_def osdp_pd_set_command_handler_def osdp_pd_set_led_handler_def
  osdp_pd_set_buzzer_handler_def osdp_pd_set_comset_handler_def osdp_pd_set_abort_handler_def
  osdp_pd_set_acurxsize_handler_def osdp_pd_set_keepactive_handler_def osdp_pd_set_status_provider_def
  osdp_pd_set_sc_crypto_def osdp_pd_set_sc_scbk_def osdp_pd_set_sc_scbk_d_def osdp_pd_set_sc_cuid_def
  osdp_pd_set_file_stream_def osdp_pd_set_file_receiver_def osdp_pd_set_mfg_receiver_def

lemma set_buffers_wf:
  assumes "pd_wf pd" "holds_cap (bf_rpl_cache bufs) (bf_rpl_cache_cap bufs)" "holds_cap (bf_cmd_cache bufs) (bf_cmd_cache_cap bufs)"
  shows "pd_wf (snd (osdp_pd_set_buffers pd bufs))"
proof (cases "fst (osdp_pd_set_buffers pd bufs) = OSDP_OK")
  case True
  have "store_wf (snd (osdp_pd_set_buffers pd bufs)) = store_wf pd"
    by (simp add: osdp_pd_set_buffers_def Let_def store_defs split: option.splits)
  with True assms show ?thesis
    by (auto simp: osdp_pd_set_buffers_def Let_def pd_wf_def cache_wf_def region_ok_def holds_cap_def
        split: option.splits if_splits)
next
  case False
  then show ?thesis using assms(1) by (auto simp: osdp_pd_set_buffers_def Let_def split: if_splits)
qed

lemma enqueue_wf:
  assumes "pd_wf pd"
  shows "pd_wf (snd (osdp_pd_enqueue_event pd c (ptr_of p) (length p)))" (is "pd_wf ?pd")
proof (cases "fst (osdp_pd_enqueue_event pd c (ptr_of p) (length p)) = OSDP_OK")
  case True
  then obtain b where "pd_event_buf pd = Some b"
    by (auto simp: osdp_pd_enqueue_event_def split: option.splits)
  then obtain q where "events_held pd q"
    using assms by (auto simp: pd_wf_def store_wf_def events_wf_def)
  then have "events_wf ?pd"
    using enqueue_held [of pd q c p ?pd] True by (metis events_wf_def prod.collapse)
  moreover have "?pd\<lparr>pd_event_buf := None, pd_event_len := 0\<rparr> = pd\<lparr>pd_event_buf := None, pd_event_len := 0\<rparr>"
    by (simp add: osdp_pd_enqueue_event_def Let_def split: option.splits)
  note m = arg_cong [OF this]
  have "pd_rx ?pd = pd_rx pd" "cache_wf ?pd" "banks_wf ?pd" "address_wf ?pd" "ft_wf ?pd" "reasm_ok (pd_mfg_reasm ?pd)"
    "length (pd_pdcap_records ?pd) \<le> OSDP_PD_MAX_PDCAP_RECORDS"
    using assms m [of pd_rx] m [of cache_wf] m [of banks_wf] m [of address_wf] m [of ft_wf] m [of pd_mfg_reasm]
      m [of pd_pdcap_records]
    by (simp_all add: pd_wf_def cache_wf_def store_wf_def banks_wf_def address_wf_def ft_wf_def)
  ultimately show ?thesis
    using assms by (simp add: pd_wf_def store_wf_def)
next
  case False
  then show ?thesis using assms by (auto simp: osdp_pd_enqueue_event_def Let_def split: option.splits if_splits)
qed

lemma set_event_queue_wf:
  assumes "pd_wf pd" "holds_cap buf cap"
  shows "pd_wf (osdp_pd_set_event_queue pd buf cap)"
proof -
  have "events_held (osdp_pd_set_event_queue pd buf cap) []" if "buf \<noteq> None"
    using that assms(2) by (auto simp: events_held_def osdp_pd_set_event_queue_def holds_cap_def)
  then have "events_wf (osdp_pd_set_event_queue pd buf cap)"
    by (cases "buf = None") (auto simp: events_wf_def osdp_pd_set_event_queue_def)
  then show ?thesis
    using assms(1) by (simp add: pd_wf_def cache_wf_def store_wf_def osdp_pd_set_event_queue_def banks_wf_def address_wf_def ft_wf_def)
qed

lemma pd_call_wf:
  assumes "pd_call pd pd'" "pd_wf pd"
  shows "pd_wf pd'"
  using assms
proof cases
  case (set_pdcap records st bad)
  then show ?thesis
    using set_pdcap_cases [OF set_pdcap(1)] assms(2)
    by (cases "st = OSDP_OK") (auto simp: pd_wf_def cache_wf_def store_defs)
next
  case (set_mfg_receiver buf cap mcb)
  then have "reasm_ok (osdp_mp_reasm_init buf cap)"
    by (auto simp: holds_cap_def reasm_ok_def reasm_wf_def osdp_mp_reasm_init_def split: option.splits)
  with set_mfg_receiver(1) assms(2) show ?thesis
    by (simp add: osdp_pd_set_mfg_receiver_def pd_wf_def cache_wf_def store_defs)
next
  case (set_file_receiver buf cap fcb)
  then show ?thesis
    using assms(2) by (simp add: osdp_pd_set_file_receiver_def pd_wf_def cache_wf_def store_defs holds_cap_def
        split: option.splits)
qed (use assms(2) in \<open>simp_all add: set_buffers_wf enqueue_wf set_event_queue_wf clear_events_wf tick_wf\<close>,
    simp_all add: pd_setters pd_wf_def cache_wf_def store_defs)

lemma init_wf: "pd_wf (osdp_pd_init a)"
proof -
  have "a AND 0x7F \<le> (0x7F :: byte)"
    by (simp add: word_and_le1)
  then show ?thesis
    by (simp add: osdp_pd_init_def pd_wf_def cache_wf_def store_defs stream_wf_def osdp_stream_init_def reasm_ok_def
        osdp_mp_reasm_init_def)
qed

lemma pd_reachable_wf: "pd_reachable a pd \<Longrightarrow> pd_wf pd"
  by (induction rule: pd_reachable.induct) (auto intro: init_wf pd_call_wf)

text \<open>C6. Whatever an application calls, in whatever order, and whatever bytes arrive, the context of a device
  stays well formed: the receive stream and both retransmit caches keep to their storage, with cached
  lengths inside the bound capacities; the LED and buzzer banks keep their sizes; the bytes of a bound event queue are a
  sequence of whole events; the file receiver and the vendor-message reassembler never promise more than
  their buffer holds; the capability set fits its reply, and the device address, also the one staged by
  COMSET, is one a frame can carry.\<close>

theorem pd_invariant:
  assumes "pd_reachable a pd"
  shows "stream_wf (pd_rx pd) \<and> cache_wf pd \<and> banks_wf pd \<and> events_wf pd \<and> address_wf pd \<and> ft_wf pd \<and>
    reasm_ok (pd_mfg_reasm pd) \<and> length (pd_pdcap_records pd) \<le> OSDP_PD_MAX_PDCAP_RECORDS"
  using pd_reachable_wf [OF assms] by (simp add: pd_wf_def store_wf_def)

definition ex_event_pd :: "unit osdp_pd" where
  "ex_event_pd = snd (osdp_pd_enqueue_event (osdp_pd_set_event_queue (osdp_pd_init 5) (Some (replicate 64 0)) 64)
     OSDP_REPLY_RAW (ptr_of [0, 1, 8, 0, 0xAB]) (length [0, 1, 8, 0, 0xAB :: byte]))"

theorem pd_invariant_witness:
  "stream_wf (pd_rx ex_event_pd) \<and> cache_wf ex_event_pd \<and> banks_wf ex_event_pd \<and> events_wf ex_event_pd \<and>
   address_wf ex_event_pd \<and> ft_wf ex_event_pd \<and> reasm_ok (pd_mfg_reasm ex_event_pd) \<and>
   length (pd_pdcap_records ex_event_pd) \<le> OSDP_PD_MAX_PDCAP_RECORDS"
proof -
  have "pd_reachable 5 (osdp_pd_set_event_queue (osdp_pd_init 5 :: unit osdp_pd) (Some (replicate 64 0)) 64)"
    by (intro pd_reachable.call [OF pd_reachable.init] pd_call.set_event_queue) (simp add: holds_cap_def)
  then have "pd_reachable 5 ex_event_pd"
    unfolding ex_event_pd_def by (rule pd_reachable.call) (rule pd_call.enqueue_event)
  then show ?thesis by (rule pd_invariant)
qed

end
