(* ===== verification/PD_Behaviour.thy ===== *)
theory PD_Behaviour
  imports PD_Tick
begin

unbundle bit_operations_syntax

text \<open>
  What a peripheral device promises as a whole, on top of the handlers: repeated commands are answered
  from the cache, unless the answer was osdp_BUSY, clear text is refused in secure mode, unauthenticated frames change nothing, and
  replies leave completely over a transport that takes them piecemeal.
\<close>

section \<open>Repeated commands\<close>

text \<open>What the cache holds after a command has been answered.\<close>

lemma process_frame_fresh:
  assumes "\<not> is_retransmit pd cmd" "handle_command_into_tx (pd\<lparr>pd_reply_cacheable := True\<rparr>) w cmd = (built, pd1, w1)"
    "pd_reply_cacheable pd1" "\<not> pd_comset_pending pd1" "process_frame pd w cmd = (pd2, w2)"
  shows "pd2\<lparr>pd_last_comm_ms := 0, pd_online := False\<rparr>
      = (cache_reply pd1 cmd built)\<lparr>pd_last_comm_ms := 0, pd_online := False\<rparr>"
proof -
  let ?pd = "cache_reply pd1 cmd built"
  define s where "s = (if 0 < length built then send_bytes ?pd w1 built else (?pd, w1))"
  have c: "\<not> pd_comset_pending ?pd"
    using assms(4) by (simp add: cache_reply_def Let_def)
  have m: "(fst s)\<lparr>pd_last_comm_ms := 0, pd_online := False\<rparr> = ?pd\<lparr>pd_last_comm_ms := 0, pd_online := False\<rparr>"
    by (simp add: s_def send_bytes_frame)
  have "\<not> pd_comset_pending (fst s)"
    using arg_cong [OF m, of pd_comset_pending] c by simp
  moreover have "process_frame pd w cmd
      = (if pd_comset_pending (fst s) then osdp_pd_internal_apply_comset (fst s) (snd s) else (fst s, snd s))"
    using assms(1-3) by (simp only: process_frame_def Let_def case_prod_beta if_False prod.case s_def fst_conv snd_conv if_True)
  ultimately have "pd2 = fst s"
    using assms(5) by (metis fst_conv prod.collapse)
  with m show ?thesis by (simp only:)
qed

lemma retransmit_step:
  assumes "\<not> is_retransmit pd cmd" "handle_command_into_tx (pd\<lparr>pd_reply_cacheable := True\<rparr>) w cmd = (built, pd1, w1)"
    "pd_reply_cacheable pd1" "\<not> pd_comset_pending pd1" "process_frame pd w cmd = (pd2, w2)"
    and c: "fr_sequence cmd \<noteq> 0" "fr_raw cmd = Some raw" "fr_raw_len cmd = length raw" "raw \<noteq> []"
      "length raw \<le> pd_cmd_cache_cap pd" "built \<noteq> []"
  shows "process_frame pd2 w3 cmd
    = (if length built \<le> pd_rpl_cache_cap pd then send_bytes pd2 w3 built else (pd2, w3))"
proof -
  note m = process_frame_fresh [OF assms(1-5)]
  have cap: "pd_cmd_cache_cap pd1 = pd_cmd_cache_cap pd" "pd_rpl_cache_cap pd1 = pd_rpl_cache_cap pd"
    using io_view_fields(11,12) [OF handle_command_io [OF assms(2)]] by simp_all
  let ?pd = "cache_reply pd1 cmd built"
  have f: "pd_have_last pd2 = pd_have_last ?pd" "pd_last_cmd_len pd2 = pd_last_cmd_len ?pd"
    "pd_cmd_cache pd2 = pd_cmd_cache ?pd" "pd_last_reply_len pd2 = pd_last_reply_len ?pd"
    "pd_rpl_cache pd2 = pd_rpl_cache ?pd"
    using arg_cong [OF m, of pd_have_last] arg_cong [OF m, of pd_last_cmd_len] arg_cong [OF m, of pd_cmd_cache]
      arg_cong [OF m, of pd_last_reply_len] arg_cong [OF m, of pd_rpl_cache] by simp_all
  have v: "pd_have_last ?pd" "pd_last_cmd_len ?pd = length raw" "take (length raw) (pd_cmd_cache ?pd) = raw"
    "length built \<le> pd_rpl_cache_cap pd \<Longrightarrow> pd_last_reply_len ?pd = length built"
    "length built \<le> pd_rpl_cache_cap pd \<Longrightarrow> take (length built) (pd_rpl_cache ?pd) = built"
    "\<not> length built \<le> pd_rpl_cache_cap pd \<Longrightarrow> pd_last_reply_len ?pd = 0"
    using c cap by (simp_all add: cache_reply_def Let_def mp_store_def)
  have "is_retransmit pd2 cmd"
    using c f v by (simp add: is_retransmit_def)
  then show ?thesis
    using f v c(6) by (auto simp: process_frame_def)
qed

section \<open>Sending\<close>

text \<open>A transport that takes at least one byte per call; \<open>accept\<close> is what the line does with bytes.\<close>

definition partial_writer :: "('w \<Rightarrow> bytes \<Rightarrow> 'w) \<Rightarrow> ('w \<Rightarrow> bytes \<Rightarrow> int \<times> 'w) \<Rightarrow> bool" where
  "partial_writer accept write \<longleftrightarrow>
     (\<forall>w a b. accept (accept w a) b = accept w (a @ b)) \<and> (\<forall>w. accept w [] = w) \<and>
     (\<forall>w b. b \<noteq> [] \<longrightarrow> (\<exists>k. 0 < k \<and> k \<le> length b \<and> write w b = (int k, accept w (take k b))))"

lemma send_loop_complete:
  assumes "partial_writer accept write" "sent \<le> length buf"
  shows "send_loop write buf sent w = (length buf, accept w (drop sent buf))"
  using assms(2)
proof (induction "length buf - sent" arbitrary: sent w rule: less_induct)
  case less
  have a: "\<And>w a b. accept (accept w a) b = accept w (a @ b)" "\<And>w. accept w [] = w"
    using assms(1) by (simp_all add: partial_writer_def)
  show ?case
  proof (cases "sent < length buf")
    case True
    then have "drop sent buf \<noteq> []" by simp
    then obtain k where k: "0 < k" "k \<le> length (drop sent buf)"
      "write w (drop sent buf) = (int k, accept w (take k (drop sent buf)))"
      using assms(1) unfolding partial_writer_def by blast
    have "take k (drop sent buf) @ drop (sent + k) buf = drop sent buf"
      by (simp add: add.commute flip: drop_drop)
    then have "accept (accept w (take k (drop sent buf))) (drop (sent + k) buf) = accept w (drop sent buf)"
      using a(1) by metis
    moreover have "send_loop write buf (sent + k) (accept w (take k (drop sent buf)))
        = (length buf, accept (accept w (take k (drop sent buf))) (drop (sent + k) buf))"
      using True k by (intro less.hyps) simp_all
    ultimately show ?thesis
      by (subst send_loop.simps) (simp only: k(3) True if_True prod.case of_nat_le_0_iff if_False nat_int less_imp_neq [OF k(1), symmetric])
  next
    case False
    with less.prems show ?thesis
      by (subst send_loop.simps) (simp add: a(2))
  qed
qed

section \<open>Short frames\<close>

text \<open>A frame within bounds is built, and the receiver reads it back.\<close>

lemma buildable_transfer:
  assumes "buildable f tot" "tot < cap" "frame_ptrs_ok f"
  obtains b where "osdp_frame_build f cap = Inr b" "length b = tot + 1"
    "osdp_frame_decode (Some (tl b)) (length b - 1) out = (OSDP_OK, as_received f (tl b))"
proof -
  let ?b = "OSDP_FRAME_MARK # build_body f tot (frame_mac_needed f)
             @ check_bytes (fr_integrity f) (build_body f tot (frame_mac_needed f))"
  have b: "osdp_frame_build f cap = Inr ?b"
    using assms by (auto simp: osdp_frame_build_eq)
  moreover have "length ?b = tot + 1"
    using buildable_layout(2) [OF assms(1,3)] by simp
  ultimately show ?thesis
    using build_decode [OF b assms(3)] by (intro that [OF b]) (simp_all add: osdp_frame_decode_def)
qed

lemma nak_built:
  assumes "fr_address cmd \<le> OSDP_BROADCAST_ADDR" "fr_sequence cmd \<le> 3" "9 < pd_tx_cap pd"
  obtains b f where "build_nak pd cmd e = Inr b" "b \<noteq> []" "length b = 8 + integrity_size (fr_integrity cmd)"
    "osdp_frame_decode (Some (tl b)) (length b - 1) out = (OSDP_OK, f)"
    "fr_reply f" "\<not> fr_has_scb f" "fr_address f = fr_address cmd" "fr_sequence f = fr_sequence cmd" "fr_code f = OSDP_REPLY_NAK"
    "fr_payload f = Some [e]"
proof -
  let ?f = "zero_frame\<lparr>fr_address := fr_address cmd, fr_reply := True, fr_sequence := fr_sequence cmd,
          fr_integrity := fr_integrity cmd, fr_code := OSDP_REPLY_NAK, fr_payload := Some [e],
          fr_payload_len := 1\<rparr>"
  have i: "integrity_size (fr_integrity cmd) \<le> 2"
    by (cases "fr_integrity cmd") (simp_all add: integrity_size_def)
  have "buildable ?f (7 + integrity_size (fr_integrity cmd))" "frame_ptrs_ok ?f"
    using assms(1,2) i
    by (simp_all add: buildable_def frame_ptrs_ok_def ptr_holds_def frame_mac_needed_def zero_frame_def)
  with buildable_transfer [of ?f "7 + integrity_size (fr_integrity cmd)" "pd_tx_cap pd" out] assms(3) i
  obtain b where "osdp_frame_build ?f (pd_tx_cap pd) = Inr b" "length b = 8 + integrity_size (fr_integrity cmd)"
    "osdp_frame_decode (Some (tl b)) (length b - 1) out = (OSDP_OK, as_received ?f (tl b))"
    by auto
  with i show ?thesis
    by (intro that [of b "as_received ?f (tl b)"])
      (auto simp: build_nak_def build_reply_def as_received_def ptr_bytes_def ptr_of_def zero_frame_def)
qed

section \<open>Answers that are not cached\<close>









section \<open>Clear text in secure mode\<close>

lemma clear_text_refused:
  assumes "\<not> fr_has_scb cmd"
    and "(sc_scbk_set (pd_sc pd) \<and> \<not> clear_command_allowed_pre_sc (fr_code cmd))
         \<or> (fr_sequence cmd \<noteq> 0 \<and> ss_established (sc_session (pd_sc pd)))"
  shows "handle_command_into_tx pd w cmd
    = (built_bytes (build_nak (drop_session pd) cmd OSDP_NAK_ENCRYPTION_REQUIRED), drop_session pd, w)"
proof -
  have "sc_scbk_set (pd_sc (drop_session pd)) = sc_scbk_set (pd_sc pd)"
    by (simp add: drop_session_def)
  with assms show ?thesis
    by (auto simp: handle_command_into_tx_def Let_def)
qed

lemma drop_session_ended: "\<not> osdp_pd_sc_established (drop_session pd)"
  by (simp add: drop_session_def osdp_pd_sc_established_def osdp_sc_session_init_def)

section \<open>Properties\<close>

definition ex_poll :: osdp_frame where
  "ex_poll = zero_frame\<lparr>fr_address := 5, fr_sequence := 1, fr_integrity := OSDP_INTEGRITY_CHECKSUM, fr_code := OSDP_CMD_POLL,
     fr_raw := Some [0x53, 5, 7, 0, 1, 0x60, 0x40], fr_raw_len := 7\<rparr>"

definition ex_pd :: "unit osdp_pd" where
  "ex_pd = osdp_pd_set_sc_scbk (osdp_pd_init 5) ex_key"

lemma ex_pd_fields:
  "pd_tx_cap ex_pd = 512" "pd_cmd_cache_cap ex_pd = 512" "pd_rpl_cache_cap ex_pd = 512" "sc_scbk_set (pd_sc ex_pd)"
  "\<not> ss_established (sc_session (pd_sc ex_pd))" "\<not> pd_comset_pending ex_pd" "\<not> pd_have_last ex_pd"
  by (simp_all add: ex_pd_def osdp_pd_set_sc_scbk_def osdp_pd_init_def zero_pd_sc_def osdp_sc_session_init_def)

lemma ex_poll_fields:
  "fr_integrity ex_poll = OSDP_INTEGRITY_CHECKSUM" "fr_address ex_poll = 5" "fr_sequence ex_poll = 1" "\<not> fr_has_scb ex_poll" "fr_code ex_poll = OSDP_CMD_POLL"
  "fr_raw ex_poll = Some [0x53, 5, 7, 0, 1, 0x60, 0x40]" "fr_raw_len ex_poll = length [0x53, 5, 7, 0, 1, 0x60, 0x40 :: byte]"
  by (simp_all add: ex_poll_def zero_frame_def)

lemma ex_poll_answer:
  fixes k
  defines "pd \<equiv> ex_pd\<lparr>pd_rpl_cache_cap := k\<rparr>"
  obtains b where "b \<noteq> []" "length b = 9"
    "handle_command_into_tx (pd\<lparr>pd_reply_cacheable := True\<rparr>) () ex_poll = (b, pd\<lparr>pd_reply_cacheable := True\<rparr>, ())"
proof -
  have d: "drop_session (pd\<lparr>pd_reply_cacheable := True\<rparr>) = pd\<lparr>pd_reply_cacheable := True\<rparr>"
    by (simp add: drop_session_def pd_def ex_pd_fields)
  obtain b where "build_nak (pd\<lparr>pd_reply_cacheable := True\<rparr>) ex_poll OSDP_NAK_ENCRYPTION_REQUIRED = Inr b" "b \<noteq> []"
      "length b = 9"
    by (rule nak_built [of ex_poll "pd\<lparr>pd_reply_cacheable := True\<rparr>" OSDP_NAK_ENCRYPTION_REQUIRED zero_frame])
      (simp_all add: ex_poll_fields pd_def ex_pd_fields integrity_size_def)
  then show ?thesis
    using clear_text_refused [of ex_poll "pd\<lparr>pd_reply_cacheable := True\<rparr>" "()", unfolded d]
    by (intro that [of b])
      (simp_all add: ex_poll_fields pd_def ex_pd_fields built_bytes_def clear_command_allowed_pre_sc_def)
qed

text \<open>C7. A command that is repeated byte for byte is not executed again: whatever the world looks like by then,
  the device sends exactly the reply it sent the first time, and does nothing else. This needs a sequence
  number other than zero and caches that hold the command and the reply, and does not apply to osdp_BUSY
  answers (which are not cacheable) or around a change of address.\<close>

theorem retransmit_replayed:
  assumes "\<not> is_retransmit pd cmd"
    and "handle_command_into_tx (pd\<lparr>pd_reply_cacheable := True\<rparr>) w cmd = (built, pd1, w1)"
    and "pd_reply_cacheable pd1" and "\<not> pd_comset_pending pd1" and "process_frame pd w cmd = (pd2, w2)"
    and "fr_sequence cmd \<noteq> 0" and "fr_raw cmd = Some raw" and "fr_raw_len cmd = length raw" and "raw \<noteq> []"
    and "length raw \<le> pd_cmd_cache_cap pd" and "built \<noteq> []" and "length built \<le> pd_rpl_cache_cap pd"
  shows "process_frame pd2 w3 cmd = send_bytes pd2 w3 built"
  using retransmit_step [OF assms(1-11)] assms(12) by simp

theorem retransmit_replayed_witness:
  "\<exists>b pd2 w2. b \<noteq> [] \<and> process_frame ex_pd () ex_poll = (pd2, w2) \<and> process_frame pd2 () ex_poll = send_bytes pd2 () b"
proof -
  have e: "ex_pd\<lparr>pd_rpl_cache_cap := 512\<rparr> = ex_pd"
    using ex_pd_fields(3) by simp
  obtain b where b: "b \<noteq> []" "length b = 9"
    "handle_command_into_tx (ex_pd\<lparr>pd_reply_cacheable := True\<rparr>) () ex_poll = (b, ex_pd\<lparr>pd_reply_cacheable := True\<rparr>, ())"
    using ex_poll_answer [of 512] unfolding e by metis
  obtain pd2 w2 where "process_frame ex_pd () ex_poll = (pd2, w2)"
    by (meson surj_pair)
  with retransmit_replayed [OF _ b(3) _ _ this _ ex_poll_fields(6,7), of "()"] b(1,2) show ?thesis
    by (auto simp: is_retransmit_def ex_pd_fields ex_poll_fields)
qed







text \<open>A defect: when the reply does not fit the reply cache, the repeated command is neither answered from the cache nor
  executed again, as the comment in \<^verbatim>\<open>cache_reply\<close> promises: it is recognised as a repetition and meets silence.\<close>

theorem oversized_reply_retransmit_silent:
  assumes "\<not> is_retransmit pd cmd"
    and "handle_command_into_tx (pd\<lparr>pd_reply_cacheable := True\<rparr>) w cmd = (built, pd1, w1)"
    and "pd_reply_cacheable pd1" and "\<not> pd_comset_pending pd1" and "process_frame pd w cmd = (pd2, w2)"
    and "fr_sequence cmd \<noteq> 0" and "fr_raw cmd = Some raw" and "fr_raw_len cmd = length raw" and "raw \<noteq> []"
    and "length raw \<le> pd_cmd_cache_cap pd" and "pd_rpl_cache_cap pd < length built"
  shows "process_frame pd2 w3 cmd = (pd2, w3)"
  using retransmit_step [OF assms(1-10)] assms(11) by fastforce

theorem oversized_reply_retransmit_silent_witness:
  "\<exists>pd2 w2. process_frame (ex_pd\<lparr>pd_rpl_cache_cap := 8\<rparr>) () ex_poll = (pd2, w2) \<and>
     process_frame pd2 () ex_poll = (pd2, ())"
proof -
  let ?pd = "ex_pd\<lparr>pd_rpl_cache_cap := 8\<rparr>"
  obtain b where b: "length b = 9"
    "handle_command_into_tx (?pd\<lparr>pd_reply_cacheable := True\<rparr>) () ex_poll = (b, ?pd\<lparr>pd_reply_cacheable := True\<rparr>, ())"
    by (rule ex_poll_answer)
  obtain pd2 w2 where "process_frame ?pd () ex_poll = (pd2, w2)"
    by (meson surj_pair)
  with oversized_reply_retransmit_silent [OF _ b(2) _ _ this _ ex_poll_fields(6,7), of "()"] b(1) show ?thesis
    by (auto simp: is_retransmit_def ex_pd_fields ex_poll_fields)
qed

definition ex_sc_pd :: "unit osdp_pd" where
  "ex_sc_pd = set_sc (\<lambda>sc. sc\<lparr>sc_crypto := ex_crypto, sc_crypto_set := True, sc_cuid_set := True,
     sc_session := ex_session\<rparr>) ex_pd"

lemma ex_sc_pd_fields:
  "sc_crypto (pd_sc ex_sc_pd) = ex_crypto" "sc_crypto_set (pd_sc ex_sc_pd)" "sc_cuid_set (pd_sc ex_sc_pd)"
  "sc_scbk_set (pd_sc ex_sc_pd)" "sc_session (pd_sc ex_sc_pd) = ex_session" "pd_tx_cap ex_sc_pd = 512"
  by (simp_all add: ex_sc_pd_def ex_pd_fields)

text \<open>C9. A device with an operational base key refuses every clear command other than osdp_ID, osdp_CAP and
  osdp_COMSET, whatever its sequence number, with or without a session: it is answered with a clear NAK 0x06 under its own
  address and sequence number, the application is not called, the base key stays and nothing outside the Secure Channel
  state changes. With sequence number zero, the restart of a connection, no session survives.\<close>

theorem clear_text_nak:
  assumes "\<not> fr_has_scb cmd" and "fr_address cmd \<le> OSDP_BROADCAST_ADDR" and "fr_sequence cmd \<le> 3" and "9 < pd_tx_cap pd"
    and "sc_scbk_set (pd_sc pd)" and "fr_code cmd \<notin> {OSDP_CMD_ID, OSDP_CMD_CAP, OSDP_CMD_COMSET}"
  shows "\<exists>b pd' f. handle_command_into_tx pd w cmd = (b, pd', w) \<and> pd'\<lparr>pd_sc := pd_sc pd\<rparr> = pd \<and>
    sc_scbk (pd_sc pd') = sc_scbk (pd_sc pd) \<and> sc_scbk_set (pd_sc pd') \<and>
    (fr_sequence cmd = 0 \<longrightarrow> \<not> osdp_pd_sc_established pd') \<and>
    osdp_frame_decode (Some (tl b)) (length b - 1) out = (OSDP_OK, f) \<and>
    fr_reply f \<and> \<not> fr_has_scb f \<and> fr_address f = fr_address cmd \<and> fr_sequence f = fr_sequence cmd \<and>
    fr_code f = OSDP_REPLY_NAK \<and> fr_payload f = Some [OSDP_NAK_ENCRYPTION_REQUIRED]"
proof -
  have d: "pd_tx_cap (drop_session pd) = pd_tx_cap pd" "(drop_session pd)\<lparr>pd_sc := pd_sc pd\<rparr> = pd"
      "sc_scbk (pd_sc (drop_session pd)) = sc_scbk (pd_sc pd)" "sc_scbk_set (pd_sc (drop_session pd)) = sc_scbk_set (pd_sc pd)"
    by (simp_all add: drop_session_def)
  obtain b f where b: "build_nak (drop_session pd) cmd OSDP_NAK_ENCRYPTION_REQUIRED = Inr b"
    and f: "osdp_frame_decode (Some (tl b)) (length b - 1) out = (OSDP_OK, f)" "fr_reply f" "\<not> fr_has_scb f"
      "fr_address f = fr_address cmd" "fr_sequence f = fr_sequence cmd" "fr_code f = OSDP_REPLY_NAK"
      "fr_payload f = Some [OSDP_NAK_ENCRYPTION_REQUIRED]"
    by (rule nak_built [of cmd "drop_session pd" OSDP_NAK_ENCRYPTION_REQUIRED out]) (use assms(2-4) d(1) in simp_all)
  have "handle_command_into_tx pd w cmd = (b, drop_session pd, w)"
    using clear_text_refused [of cmd pd w] assms(1,5,6) b
    by (simp add: built_bytes_def clear_command_allowed_pre_sc_def)
  with f d assms(5) drop_session_ended [of pd] show ?thesis by metis
qed

theorem clear_text_nak_witness:
  "osdp_pd_sc_established ex_sc_pd \<and>
   (\<exists>b pd' f. handle_command_into_tx ex_sc_pd () (ex_poll\<lparr>fr_sequence := 0\<rparr>) = (b, pd', ()) \<and> \<not> osdp_pd_sc_established pd' \<and>
      osdp_frame_decode (Some (tl b)) (length b - 1) zero_frame = (OSDP_OK, f) \<and>
      fr_code f = OSDP_REPLY_NAK \<and> fr_payload f = Some [OSDP_NAK_ENCRYPTION_REQUIRED])"
proof
  show "osdp_pd_sc_established ex_sc_pd"
    by (simp add: osdp_pd_sc_established_def ex_sc_pd_fields ex_session_def)
  show "\<exists>b pd' f. handle_command_into_tx ex_sc_pd () (ex_poll\<lparr>fr_sequence := 0\<rparr>) = (b, pd', ()) \<and> \<not> osdp_pd_sc_established pd' \<and>
      osdp_frame_decode (Some (tl b)) (length b - 1) zero_frame = (OSDP_OK, f) \<and>
      fr_code f = OSDP_REPLY_NAK \<and> fr_payload f = Some [OSDP_NAK_ENCRYPTION_REQUIRED]"
    using clear_text_nak [of "ex_poll\<lparr>fr_sequence := 0\<rparr>" ex_sc_pd "()" zero_frame]
    by (simp add: ex_poll_fields ex_sc_pd_fields) blast
qed

text \<open>During a session the same refusal meets every clear command with another sequence number, the three exempted ones
  included, and the session is over.\<close>

lemma clear_text_ends_session:
  assumes "\<not> fr_has_scb cmd" "fr_sequence cmd \<noteq> 0" "osdp_pd_sc_established pd"
  shows "handle_command_into_tx pd w cmd
      = (built_bytes (build_nak (drop_session pd) cmd OSDP_NAK_ENCRYPTION_REQUIRED), drop_session pd, w)"
    "\<not> osdp_pd_sc_established (drop_session pd)"
  using clear_text_refused [of cmd pd w] assms drop_session_ended by (simp_all add: osdp_pd_sc_established_def)

text \<open>A poll under SCS_15 whose MAC bytes are zero.\<close>

definition ex_forged :: bytes where
  "ex_forged = [0x53, 5, 13, 0, 9, 2, 0x15, 0x60, 0, 0, 0, 0, 0x1B]"

text \<open>C8. A secure command that does not authenticate has no effect: when the four MAC bytes of a decoded SCS_15 or
  SCS_17 frame are not those of the CBC-MAC chained from the last MAC this device sent, nothing is
  answered, the application is not called and the session is as before.\<close>

theorem forged_command_ignored:
  assumes "crypto_ok (sc_crypto (pd_sc pd))" and "osdp_pd_internal_sc_configured pd" and "osdp_pd_sc_established pd"
    and "s = sc_session (pd_sc pd)" and "keys_ok (ss_keys s)" and "length (ss_last_outbound_mac s) = 16"
    and "osdp_frame_decode (Some buf) (length buf) out = (OSDP_OK, cmd)"
    and "fr_has_scb cmd" and "fr_scb_type cmd \<in> {OSDP_SCS_15, OSDP_SCS_17}"
    and "fr_mac cmd \<noteq> Some (take 4 (cbc_mac (aes (sc_crypto (pd_sc pd))) (s_mac1 (ss_keys s)) (s_mac2 (ss_keys s))
           (ss_last_outbound_mac s)
           (blocks_of (mac_pad (take (length buf - integrity_size (fr_integrity cmd) - 4) buf)))))"
  shows "handle_command_into_tx pd w cmd = ([], pd, w)"
proof (cases "osdp_sc_unwrap_frame (sc_crypto (pd_sc pd)) s cmd (pd_rx_plain_cap pd)")
  case (Inl e)
  have "osdp_pd_internal_handle_sc_into_tx pd w cmd = handle_operational pd w cmd"
    using assms(9) by (auto simp: osdp_pd_internal_handle_sc_into_tx_def)
  with Inl assms(2,3,4,8) show ?thesis
    by (simp add: handle_command_into_tx_def handle_operational_def osdp_pd_sc_established_def)
next
  case (Inr r)
  then obtain p s' where "osdp_sc_unwrap_frame (sc_crypto (pd_sc pd)) s cmd (pd_rx_plain_cap pd) = Inr (p, s')"
    by (cases r) simp
  with unwrap_mac [OF assms(1,5,6,7) this] assms(10) show ?thesis by simp
qed

theorem forged_command_ignored_witness:
  "\<exists>cmd. osdp_frame_decode (Some ex_forged) (length ex_forged) zero_frame = (OSDP_OK, cmd) \<and>
     handle_command_into_tx ex_sc_pd () cmd = ([], ex_sc_pd, ())"
proof -
  let ?cmd = "snd (osdp_frame_decode (Some ex_forged) (length ex_forged) zero_frame)"
  have d: "osdp_frame_decode (Some ex_forged) (length ex_forged) zero_frame = (OSDP_OK, ?cmd)"
    and t: "fr_has_scb ?cmd" "fr_scb_type ?cmd \<in> {OSDP_SCS_15, OSDP_SCS_17}"
    and m: "fr_mac ?cmd \<noteq> Some (take 4 (cbc_mac (aes ex_crypto) (s_mac1 (ss_keys ex_session))
        (s_mac2 (ss_keys ex_session)) (ss_last_outbound_mac ex_session)
        (blocks_of (mac_pad (take (length ex_forged - integrity_size (fr_integrity ?cmd) - 4) ex_forged)))))"
    by code_simp+
  have "handle_command_into_tx ex_sc_pd () ?cmd = ([], ex_sc_pd, ())"
    using ex_crypto_ok ex_session_step(2,3) t m d
    by (intro forged_command_ignored [where s = ex_session and buf = ex_forged and out = zero_frame])
      (simp_all add: ex_sc_pd_fields osdp_pd_sc_established_def osdp_pd_internal_sc_configured_def ex_session_def ex_key_length)
  with d show ?thesis by blast
qed

text \<open>C11. Replies leave the device completely: over a transport that takes at least one byte of what it is
  offered, however few, sending a non-empty buffer puts exactly its bytes on the line, in order.\<close>

theorem reply_sent_whole:
  assumes "tr_write (pd_transport pd) = Some write" and "partial_writer accept write" and "buf \<noteq> []"
    and "send_bytes pd w buf = (pd', w')"
  shows "pd_online pd' \<and>
    w' = (case tr_now_ms (pd_transport pd) of None \<Rightarrow> accept w buf | Some now_ms \<Rightarrow> snd (now_ms (accept w buf)))"
proof -
  have "send_loop write buf 0 w = (length buf, accept w buf)"
    using send_loop_complete [OF assms(2), of 0 buf w] by simp
  with assms(1,3,4) show ?thesis
    by (auto simp: send_bytes_def split: option.splits prod.splits)
qed

theorem reply_sent_whole_witness:
  "\<exists>pd'. send_bytes (osdp_pd_set_transport (osdp_pd_init 5)
       \<lparr>tr_read = None, tr_write = Some (\<lambda>w b. (1, w @ take 1 b)), tr_now_ms = None\<rparr>) [9] [1, 2, 3 :: byte]
     = (pd', [9, 1, 2, 3])"
proof -
  let ?pd = "osdp_pd_set_transport (osdp_pd_init 5)
       \<lparr>tr_read = None, tr_write = Some (\<lambda>w b. (1, w @ take 1 b)), tr_now_ms = None\<rparr>"
  obtain pd' w' where s: "send_bytes ?pd [9] [1, 2, 3] = (pd', w')"
    by (meson surj_pair)
  have "partial_writer (@) (\<lambda>w b. (1, w @ take 1 b))"
    by (auto simp: partial_writer_def intro!: exI [of _ 1] simp: Suc_le_eq)
  from reply_sent_whole [OF _ this _ s] have "w' = [9, 1, 2, 3]"
    by (simp add: osdp_pd_set_transport_def)
  with s show ?thesis by blast
qed

end
