(* ===== verification/ACU_State.thy ===== *)
theory ACU_State
  imports PD_Reader
begin

unbundle bit_operations_syntax

text \<open>
  The state of a control unit: \<^verbatim>\<open>acu/include/osdp/osdp_acu.h\<close> and the parts of \<^verbatim>\<open>acu/src/acu.c\<close> that
  configure it, look up its device slots and mirror outgoing LED and buzzer commands in its banks.
  The conventions are those of \<open>PD_State\<close>: callbacks act on an environment of type \<open>'w\<close>, and \<open>None\<close> stands
  for NULL. A pointer to a slot is its index in the caller's array.
\<close>

section \<open>Types\<close>

abbreviation (input) OSDP_ACU_REPLY_TIMEOUT_MS :: u32 where "OSDP_ACU_REPLY_TIMEOUT_MS \<equiv> 200"
abbreviation (input) OSDP_ACU_OFFLINE_TIMEOUT_MS :: u32 where "OSDP_ACU_OFFLINE_TIMEOUT_MS \<equiv> 8000"
abbreviation (input) OSDP_ACU_INTERCHAR_TIMEOUT_MS :: u32 where "OSDP_ACU_INTERCHAR_TIMEOUT_MS \<equiv> 20"
abbreviation (input) OSDP_ACU_BUF_LEN :: nat where "OSDP_ACU_BUF_LEN \<equiv> OSDP_FRAME_MAX_LEN"
abbreviation (input) OSDP_ACU_MAX_LEDS :: nat where "OSDP_ACU_MAX_LEDS \<equiv> 16"
abbreviation (input) OSDP_ACU_MAX_BUZZERS :: nat where "OSDP_ACU_MAX_BUZZERS \<equiv> 8"

record 'w osdp_acu_transport =
  at_read :: "('w \<Rightarrow> nat \<Rightarrow> int \<times> bytes \<times> 'w) option"
  at_write :: "('w \<Rightarrow> bytes \<Rightarrow> int \<times> 'w) option"
  at_now_ms :: "('w \<Rightarrow> u32 \<times> 'w) option"

datatype osdp_acu_sc_phase =
    OSDP_ACU_SC_IDLE
  | OSDP_ACU_SC_AWAITING_CCRYPT
  | OSDP_ACU_SC_AWAITING_RMAC_I
  | OSDP_ACU_SC_ESTABLISHED

record osdp_acu_pd_slot =
  ap_in_use :: bool
  ap_address :: byte
  ap_next_seq :: byte
  ap_waiting :: bool
  ap_pending_seq :: byte
  ap_pending_code :: byte
  ap_pending_sent_ms :: u32
  ap_online :: bool
  ap_last_reply_ms :: u32
  ap_scbk_set :: bool
  ap_scbk :: bytes
  ap_scbk_d_set :: bool
  ap_scbk_d :: bytes
  ap_sc_phase :: osdp_acu_sc_phase
  ap_sc_key_selector :: byte
  ap_sc_rnd_a :: bytes
  ap_sc_rnd_b :: bytes
  ap_sc_cuid :: bytes
  ap_sc_session :: osdp_sc_session

record osdp_acu_reply_event =
  re_pd_address :: byte
  re_cmd_code :: byte
  re_reply_code :: byte
  re_payload :: bytes_ptr
  re_payload_len :: nat

record osdp_acu_timeout_event =
  te_pd_address :: byte
  te_cmd_code :: byte
  te_cmd_seq :: byte

datatype osdp_acu_sc_event_kind =
    OSDP_ACU_SC_EVENT_ESTABLISHED
  | OSDP_ACU_SC_EVENT_HANDSHAKE_FAILED
  | OSDP_ACU_SC_EVENT_SESSION_LOST

record osdp_acu_sc_event =
  se_pd_address :: byte
  se_kind :: osdp_acu_sc_event_kind

record osdp_acu_led_slot =
  als_used :: bool
  als_pd_address :: byte
  als_reader_no :: byte
  als_led_no :: byte
  als_last_color :: byte
  als_state :: osdp_led

record osdp_acu_buz_slot =
  abs_used :: bool
  abs_pd_address :: byte
  abs_reader_no :: byte
  abs_last_sounding :: bool
  abs_state :: osdp_buz

record 'w osdp_acu =
  ac_transport :: "'w osdp_acu_transport"
  ac_pds :: "osdp_acu_pd_slot list"
  ac_reply_cb :: "('w \<Rightarrow> osdp_acu_reply_event \<Rightarrow> 'w) option"
  ac_timeout_cb :: "('w \<Rightarrow> osdp_acu_timeout_event \<Rightarrow> 'w) option"
  ac_rx :: osdp_stream
  ac_rx_partial_len :: nat
  ac_rx_partial_ms :: u32
  ac_integrity :: osdp_integrity
  ac_sc_crypto :: "'w osdp_sc_crypto"
  ac_sc_crypto_set :: bool
  ac_sc_event_cb :: "('w \<Rightarrow> osdp_acu_sc_event \<Rightarrow> 'w) option"
  ac_leds :: "osdp_acu_led_slot list"
  ac_led_cb :: "('w \<Rightarrow> byte \<Rightarrow> byte \<Rightarrow> byte \<Rightarrow> byte \<Rightarrow> 'w) option"
  ac_buzzers :: "osdp_acu_buz_slot list"
  ac_buzzer_cb :: "('w \<Rightarrow> byte \<Rightarrow> byte \<Rightarrow> bool \<Rightarrow> byte \<Rightarrow> 'w) option"

section \<open>Initialisation and configuration\<close>

definition zero_acu_pd_slot :: osdp_acu_pd_slot where
  "zero_acu_pd_slot =
     \<lparr>ap_in_use = False, ap_address = 0, ap_next_seq = 0, ap_waiting = False, ap_pending_seq = 0,
      ap_pending_code = 0, ap_pending_sent_ms = 0, ap_online = False, ap_last_reply_ms = 0,
      ap_scbk_set = False, ap_scbk = replicate 16 0, ap_scbk_d_set = False, ap_scbk_d = replicate 16 0,
      ap_sc_phase = OSDP_ACU_SC_IDLE, ap_sc_key_selector = 0, ap_sc_rnd_a = replicate 8 0,
      ap_sc_rnd_b = replicate 8 0, ap_sc_cuid = replicate 8 0, ap_sc_session = osdp_sc_session_init\<rparr>"

definition zero_acu_led_slot :: osdp_acu_led_slot where
  "zero_acu_led_slot = \<lparr>als_used = False, als_pd_address = 0, als_reader_no = 0, als_led_no = 0,
     als_last_color = 0, als_state = osdp_led_init\<rparr>"

definition zero_acu_buz_slot :: osdp_acu_buz_slot where
  "zero_acu_buz_slot = \<lparr>abs_used = False, abs_pd_address = 0, abs_reader_no = 0, abs_last_sounding = False,
     abs_state = osdp_buz_init\<rparr>"

definition osdp_acu_init :: "nat \<Rightarrow> 'w osdp_acu" where
  "osdp_acu_init pd_count =
     \<lparr>ac_transport = \<lparr>at_read = None, at_write = None, at_now_ms = None\<rparr>,
      ac_pds = replicate pd_count zero_acu_pd_slot, ac_reply_cb = None, ac_timeout_cb = None,
      ac_rx = osdp_stream_init \<lparr>st_buffer = replicate OSDP_STREAM_BUFFER_LEN 0, st_fill = 0, st_pending_consume = 0\<rparr>,
      ac_rx_partial_len = 0, ac_rx_partial_ms = 0, ac_integrity = OSDP_INTEGRITY_CRC,
      ac_sc_crypto = \<lparr>aes128_ecb_encrypt = None, aes128_ecb_decrypt = None, rand_bytes = None\<rparr>,
      ac_sc_crypto_set = False, ac_sc_event_cb = None,
      ac_leds = replicate OSDP_ACU_MAX_LEDS zero_acu_led_slot, ac_led_cb = None,
      ac_buzzers = replicate OSDP_ACU_MAX_BUZZERS zero_acu_buz_slot, ac_buzzer_cb = None\<rparr>"

definition osdp_acu_set_transport :: "'w osdp_acu \<Rightarrow> 'w osdp_acu_transport \<Rightarrow> 'w osdp_acu" where
  "osdp_acu_set_transport acu transport = acu\<lparr>ac_transport := transport\<rparr>"

definition osdp_acu_set_reply_handler :: "'w osdp_acu \<Rightarrow> ('w \<Rightarrow> osdp_acu_reply_event \<Rightarrow> 'w) option \<Rightarrow> 'w osdp_acu" where
  "osdp_acu_set_reply_handler acu cb = acu\<lparr>ac_reply_cb := cb\<rparr>"

definition osdp_acu_set_timeout_handler :: "'w osdp_acu \<Rightarrow> ('w \<Rightarrow> osdp_acu_timeout_event \<Rightarrow> 'w) option \<Rightarrow> 'w osdp_acu" where
  "osdp_acu_set_timeout_handler acu cb = acu\<lparr>ac_timeout_cb := cb\<rparr>"

definition osdp_acu_set_integrity :: "'w osdp_acu \<Rightarrow> osdp_integrity \<Rightarrow> 'w osdp_acu" where
  "osdp_acu_set_integrity acu integrity = acu\<lparr>ac_integrity := integrity\<rparr>"

definition osdp_acu_set_led_handler :: "'w osdp_acu \<Rightarrow> ('w \<Rightarrow> byte \<Rightarrow> byte \<Rightarrow> byte \<Rightarrow> byte \<Rightarrow> 'w) option \<Rightarrow> 'w osdp_acu" where
  "osdp_acu_set_led_handler acu cb = acu\<lparr>ac_led_cb := cb\<rparr>"

definition osdp_acu_set_buzzer_handler ::
  "'w osdp_acu \<Rightarrow> ('w \<Rightarrow> byte \<Rightarrow> byte \<Rightarrow> bool \<Rightarrow> byte \<Rightarrow> 'w) option \<Rightarrow> 'w osdp_acu" where
  "osdp_acu_set_buzzer_handler acu cb = acu\<lparr>ac_buzzer_cb := cb\<rparr>"

definition osdp_acu_set_sc_crypto :: "'w osdp_acu \<Rightarrow> 'w osdp_sc_crypto \<Rightarrow> 'w osdp_acu" where
  "osdp_acu_set_sc_crypto acu crypto = acu\<lparr>ac_sc_crypto := crypto, ac_sc_crypto_set := True\<rparr>"

definition osdp_acu_set_sc_event_handler :: "'w osdp_acu \<Rightarrow> ('w \<Rightarrow> osdp_acu_sc_event \<Rightarrow> 'w) option \<Rightarrow> 'w osdp_acu" where
  "osdp_acu_set_sc_event_handler acu cb = acu\<lparr>ac_sc_event_cb := cb\<rparr>"

text \<open>Updating the slot at an index.\<close>

definition upd_slot :: "'w osdp_acu \<Rightarrow> nat \<Rightarrow> (osdp_acu_pd_slot \<Rightarrow> osdp_acu_pd_slot) \<Rightarrow> 'w osdp_acu" where
  "upd_slot acu i f = acu\<lparr>ac_pds := (ac_pds acu)[i := f (ac_pds acu ! i)]\<rparr>"

definition osdp_acu_register_pd :: "'w osdp_acu \<Rightarrow> nat \<Rightarrow> byte \<Rightarrow> osdp_status \<times> 'w osdp_acu" where
  "osdp_acu_register_pd acu slot_index pd_addr =
     (if slot_index \<ge> length (ac_pds acu) then (OSDP_ERR_INVALID_ARG, acu)
      else if pd_addr > OSDP_BROADCAST_ADDR then (OSDP_ERR_INVALID_ARG, acu)
      else (OSDP_OK, upd_slot acu slot_index
              (\<lambda>_. zero_acu_pd_slot\<lparr>ap_in_use := True, ap_address := pd_addr, ap_next_seq := 0\<rparr>)))"

definition find_slot_by_address :: "'w osdp_acu \<Rightarrow> byte \<Rightarrow> nat option" where
  "find_slot_by_address acu address = first_index (\<lambda>s. ap_in_use s \<and> ap_address s = address) (ac_pds acu)"

definition osdp_acu_set_pd_scbk :: "'w osdp_acu \<Rightarrow> byte \<Rightarrow> bytes \<Rightarrow> osdp_status \<times> 'w osdp_acu" where
  "osdp_acu_set_pd_scbk acu pd_addr scbk =
     (case find_slot_by_address acu pd_addr of
        None \<Rightarrow> (OSDP_ERR_INVALID_ARG, acu)
      | Some i \<Rightarrow>
          (OSDP_OK, upd_slot acu i (\<lambda>s. s\<lparr>ap_scbk := take OSDP_SC_KEY_LEN scbk, ap_scbk_set := True\<rparr>)))"

definition osdp_acu_set_pd_scbk_d :: "'w osdp_acu \<Rightarrow> byte \<Rightarrow> bytes \<Rightarrow> osdp_status \<times> 'w osdp_acu" where
  "osdp_acu_set_pd_scbk_d acu pd_addr scbk_d =
     (case find_slot_by_address acu pd_addr of
        None \<Rightarrow> (OSDP_ERR_INVALID_ARG, acu)
      | Some i \<Rightarrow>
          (OSDP_OK, upd_slot acu i (\<lambda>s. s\<lparr>ap_scbk_d := take OSDP_SC_KEY_LEN scbk_d, ap_scbk_d_set := True\<rparr>)))"

definition osdp_acu_is_pd_online :: "'w osdp_acu \<Rightarrow> byte \<Rightarrow> bool" where
  "osdp_acu_is_pd_online acu pd_addr =
     (case find_slot_by_address acu pd_addr of None \<Rightarrow> False | Some i \<Rightarrow> ap_online (ac_pds acu ! i))"

definition osdp_acu_is_pd_busy :: "'w osdp_acu \<Rightarrow> byte \<Rightarrow> bool" where
  "osdp_acu_is_pd_busy acu pd_addr =
     (case find_slot_by_address acu pd_addr of None \<Rightarrow> False | Some i \<Rightarrow> ap_waiting (ac_pds acu ! i))"

definition osdp_acu_is_pd_sc_established :: "'w osdp_acu \<Rightarrow> byte \<Rightarrow> bool" where
  "osdp_acu_is_pd_sc_established acu pd_addr =
     (case find_slot_by_address acu pd_addr of
        None \<Rightarrow> False | Some i \<Rightarrow> ap_sc_phase (ac_pds acu ! i) = OSDP_ACU_SC_ESTABLISHED)"

definition advance_sqn :: "byte \<Rightarrow> byte" where
  "advance_sqn current = (if current \<ge> 3 then 1 else current + 1)"

definition now_ms_or_zero :: "'w osdp_acu \<Rightarrow> 'w \<Rightarrow> u32 \<times> 'w" where
  "now_ms_or_zero acu w = (case at_now_ms (ac_transport acu) of None \<Rightarrow> (0, w) | Some now_ms \<Rightarrow> now_ms w)"

section \<open>The banks\<close>

text \<open>One pass over an array looks for a slot and remembers the first free one.\<close>

fun bank_scan :: "('s \<Rightarrow> bool) \<Rightarrow> ('s \<Rightarrow> bool) \<Rightarrow> nat \<Rightarrow> nat option \<Rightarrow> 's list \<Rightarrow> nat option \<times> nat option" where
  "bank_scan used hit i free_slot [] = (None, free_slot)"
| "bank_scan used hit i free_slot (s # ss) =
     (if used s \<and> hit s then (Some i, free_slot)
      else bank_scan used hit (i + 1) (if \<not> used s \<and> free_slot = None then Some i else free_slot) ss)"

definition acu_led_slot :: "'w osdp_acu \<Rightarrow> byte \<Rightarrow> byte \<Rightarrow> byte \<Rightarrow> nat option \<times> 'w osdp_acu" where
  "acu_led_slot acu pd_addr reader_no led_no =
     (case bank_scan als_used (\<lambda>s. als_pd_address s = pd_addr \<and> als_reader_no s = reader_no \<and> als_led_no s = led_no)
             0 None (ac_leds acu) of
        (Some i, _) \<Rightarrow> (Some i, acu)
      | (None, None) \<Rightarrow> (None, acu)
      | (None, Some i) \<Rightarrow>
          (Some i, acu\<lparr>ac_leds := (ac_leds acu)[i := \<lparr>als_used = True, als_pd_address = pd_addr,
             als_reader_no = reader_no, als_led_no = led_no, als_last_color = OSDP_LED_BLACK,
             als_state = osdp_led_init\<rparr>]\<rparr>))"

fun acu_led_refresh_slots ::
  "('w \<Rightarrow> byte \<Rightarrow> byte \<Rightarrow> byte \<Rightarrow> byte \<Rightarrow> 'w) \<Rightarrow> u32 \<Rightarrow> osdp_acu_led_slot list \<Rightarrow> 'w \<Rightarrow> osdp_acu_led_slot list \<times> 'w" where
  "acu_led_refresh_slots cb now [] w = ([], w)"
| "acu_led_refresh_slots cb now (s # ss) w =
     (if \<not> als_used s then let (ss', w') = acu_led_refresh_slots cb now ss w in (s # ss', w')
      else
        let color = osdp_led_color (als_state s) now in
        if color \<noteq> als_last_color s then
          let (ss', w') = acu_led_refresh_slots cb now ss
                (cb w (als_pd_address s) (als_reader_no s) (als_led_no s) color)
          in (s\<lparr>als_last_color := color\<rparr> # ss', w')
        else let (ss', w') = acu_led_refresh_slots cb now ss w in (s # ss', w'))"

definition acu_led_refresh :: "'w osdp_acu \<Rightarrow> u32 \<Rightarrow> 'w \<Rightarrow> 'w osdp_acu \<times> 'w" where
  "acu_led_refresh acu now w =
     (case ac_led_cb acu of
        None \<Rightarrow> (acu, w)
      | Some cb \<Rightarrow> let (ss, w') = acu_led_refresh_slots cb now (ac_leds acu) w in (acu\<lparr>ac_leds := ss\<rparr>, w'))"

fun acu_led_apply_loop :: "'w osdp_acu \<Rightarrow> byte \<Rightarrow> u32 \<Rightarrow> osdp_led_record list \<Rightarrow> 'w osdp_acu" where
  "acu_led_apply_loop acu pd_addr now [] = acu"
| "acu_led_apply_loop acu pd_addr now (r # rs) =
     (case acu_led_slot acu pd_addr (lr_reader_no r) (lr_led_no r) of
        (None, acu1) \<Rightarrow> acu_led_apply_loop acu1 pd_addr now rs
      | (Some k, acu1) \<Rightarrow>
          acu_led_apply_loop
            (acu1\<lparr>ac_leds := (ac_leds acu1)[k := (ac_leds acu1 ! k)
               \<lparr>als_state := osdp_led_apply (als_state (ac_leds acu1 ! k)) r now\<rparr>]\<rparr>)
            pd_addr now rs)"

definition acu_observe_led :: "'w osdp_acu \<Rightarrow> 'w \<Rightarrow> byte \<Rightarrow> byte \<Rightarrow> bytes_ptr \<Rightarrow> nat \<Rightarrow> 'w osdp_acu \<times> 'w" where
  "acu_observe_led acu w pd_addr cmd_code payload payload_len =
     (if cmd_code \<noteq> OSDP_CMD_LED then (acu, w)
      else
        (case osdp_led_decode payload payload_len OSDP_ACU_MAX_LEDS of
           Inl _ \<Rightarrow> (acu, w)
         | Inr recs \<Rightarrow>
             let (now, w1) = now_ms_or_zero acu w
             in acu_led_refresh (acu_led_apply_loop acu pd_addr now recs) now w1))"

definition acu_buz_slot :: "'w osdp_acu \<Rightarrow> byte \<Rightarrow> byte \<Rightarrow> nat option \<times> 'w osdp_acu" where
  "acu_buz_slot acu pd_addr reader_no =
     (case bank_scan abs_used (\<lambda>s. abs_pd_address s = pd_addr \<and> abs_reader_no s = reader_no)
             0 None (ac_buzzers acu) of
        (Some i, _) \<Rightarrow> (Some i, acu)
      | (None, None) \<Rightarrow> (None, acu)
      | (None, Some i) \<Rightarrow>
          (Some i, acu\<lparr>ac_buzzers := (ac_buzzers acu)[i := \<lparr>abs_used = True, abs_pd_address = pd_addr,
             abs_reader_no = reader_no, abs_last_sounding = False, abs_state = osdp_buz_init\<rparr>]\<rparr>))"

fun acu_buz_refresh_slots ::
  "('w \<Rightarrow> byte \<Rightarrow> byte \<Rightarrow> bool \<Rightarrow> byte \<Rightarrow> 'w) \<Rightarrow> u32 \<Rightarrow> osdp_acu_buz_slot list \<Rightarrow> 'w \<Rightarrow> osdp_acu_buz_slot list \<times> 'w" where
  "acu_buz_refresh_slots cb now [] w = ([], w)"
| "acu_buz_refresh_slots cb now (s # ss) w =
     (if \<not> abs_used s then let (ss', w') = acu_buz_refresh_slots cb now ss w in (s # ss', w')
      else
        let sounding = osdp_buz_sounding (abs_state s) now in
        if sounding \<noteq> abs_last_sounding s then
          let (ss', w') = acu_buz_refresh_slots cb now ss
                (cb w (abs_pd_address s) (abs_reader_no s) sounding (bu_tone (abs_state s)))
          in (s\<lparr>abs_last_sounding := sounding\<rparr> # ss', w')
        else let (ss', w') = acu_buz_refresh_slots cb now ss w in (s # ss', w'))"

definition acu_buz_refresh :: "'w osdp_acu \<Rightarrow> u32 \<Rightarrow> 'w \<Rightarrow> 'w osdp_acu \<times> 'w" where
  "acu_buz_refresh acu now w =
     (case ac_buzzer_cb acu of
        None \<Rightarrow> (acu, w)
      | Some cb \<Rightarrow> let (ss, w') = acu_buz_refresh_slots cb now (ac_buzzers acu) w in (acu\<lparr>ac_buzzers := ss\<rparr>, w'))"

definition acu_observe_buzzer :: "'w osdp_acu \<Rightarrow> 'w \<Rightarrow> byte \<Rightarrow> byte \<Rightarrow> bytes_ptr \<Rightarrow> nat \<Rightarrow> 'w osdp_acu \<times> 'w" where
  "acu_observe_buzzer acu w pd_addr cmd_code payload payload_len =
     (if cmd_code \<noteq> OSDP_CMD_BUZ then (acu, w)
      else
        (case osdp_buz_decode payload payload_len of
           Inl _ \<Rightarrow> (acu, w)
         | Inr buz \<Rightarrow>
             let (now, w1) = now_ms_or_zero acu w in
             (case acu_buz_slot acu pd_addr (bz_reader_no buz) of
                (None, acu1) \<Rightarrow> acu_buz_refresh acu1 now w1
              | (Some k, acu1) \<Rightarrow>
                  acu_buz_refresh
                    (acu1\<lparr>ac_buzzers := (ac_buzzers acu1)[k := (ac_buzzers acu1 ! k)
                       \<lparr>abs_state := osdp_buz_apply (abs_state (ac_buzzers acu1 ! k)) buz now\<rparr>]\<rparr>) now w1)))"

definition osdp_acu_buzzer_sounding :: "'w osdp_acu \<Rightarrow> byte \<Rightarrow> byte \<Rightarrow> 'w \<Rightarrow> bool \<times> 'w" where
  "osdp_acu_buzzer_sounding acu pd_addr reader_no w =
     (let (now, w') = now_ms_or_zero acu w in
      (case first_index (\<lambda>s. abs_used s \<and> abs_pd_address s = pd_addr \<and> abs_reader_no s = reader_no) (ac_buzzers acu) of
         Some i \<Rightarrow> osdp_buz_sounding (abs_state (ac_buzzers acu ! i)) now
       | None \<Rightarrow> False, w'))"

definition osdp_acu_led_color :: "'w osdp_acu \<Rightarrow> byte \<Rightarrow> byte \<Rightarrow> byte \<Rightarrow> 'w \<Rightarrow> byte \<times> 'w" where
  "osdp_acu_led_color acu pd_addr reader_no led_no w =
     (let (now, w') = now_ms_or_zero acu w in
      (case first_index (\<lambda>s. als_used s \<and> als_pd_address s = pd_addr \<and> als_reader_no s = reader_no
                             \<and> als_led_no s = led_no) (ac_leds acu) of
         Some i \<Rightarrow> osdp_led_color (als_state (ac_leds acu ! i)) now
       | None \<Rightarrow> OSDP_LED_BLACK, w'))"

end
