(* ===== verification/ACU_SC.thy ===== *)
theory ACU_SC
  imports ACU_State
begin

unbundle bit_operations_syntax

text \<open>
  The Secure Channel side of a control unit: \<^verbatim>\<open>acu/src/acu_sc.c\<close>, with the delivery of replies from
  \<^verbatim>\<open>acu/src/acu.c\<close> that both reply paths share. A slot pointer is an index that \<open>find_slot_by_address\<close>
  returned, so it is in range.
\<close>

section \<open>Helpers\<close>

definition reset_sc_handshake :: "osdp_acu_pd_slot \<Rightarrow> bool \<Rightarrow> osdp_acu_pd_slot" where
  "reset_sc_handshake slot clear_session =
     (let s = slot\<lparr>ap_sc_phase := OSDP_ACU_SC_IDLE, ap_sc_rnd_a := replicate 8 0, ap_sc_rnd_b := replicate 8 0,
                   ap_sc_cuid := replicate 8 0\<rparr>
      in if clear_session then s\<lparr>ap_sc_session := osdp_sc_session_init\<rparr> else s)"

definition fire_sc_event :: "'w osdp_acu \<Rightarrow> 'w \<Rightarrow> byte \<Rightarrow> osdp_acu_sc_event_kind \<Rightarrow> 'w" where
  "fire_sc_event acu w pd_addr kind =
     (case ac_sc_event_cb acu of None \<Rightarrow> w | Some cb \<Rightarrow> cb w \<lparr>se_pd_address = pd_addr, se_kind = kind\<rparr>)"

text \<open>Recording a command that is on the wire.\<close>

definition mark_pending :: "byte \<Rightarrow> byte \<Rightarrow> u32 \<Rightarrow> osdp_acu_pd_slot \<Rightarrow> osdp_acu_pd_slot" where
  "mark_pending sqn cmd_code now s =
     s\<lparr>ap_waiting := True, ap_pending_seq := sqn, ap_pending_code := cmd_code, ap_pending_sent_ms := now\<rparr>"

text \<open>The transport's write function is checked by \<open>osdp_acu_start_sc_handshake\<close> before the first call;
  the branch without one is a NULL call in the code.\<close>

definition acu_write :: "'w osdp_acu \<Rightarrow> 'w \<Rightarrow> bytes \<Rightarrow> osdp_status \<times> 'w" where
  "acu_write acu w tx_buf =
     (case at_write (ac_transport acu) of
        None \<Rightarrow> (OSDP_ERR_INVALID_ARG, w)
      | Some write \<Rightarrow>
          (case write w tx_buf of
             (tx, w1) \<Rightarrow> if tx < 0 \<or> tx \<noteq> int (length tx_buf) then (OSDP_ERR_NOT_SUPPORTED, w1) else (OSDP_OK, w1)))"

definition sc_cmd_frame ::
  "'w osdp_acu \<Rightarrow> osdp_acu_pd_slot \<Rightarrow> byte \<Rightarrow> byte \<Rightarrow> byte \<Rightarrow> bytes \<Rightarrow> osdp_frame" where
  "sc_cmd_frame acu slot scb_type key_selector_byte cmd_code payload =
     zero_frame\<lparr>fr_address := ap_address slot, fr_reply := False, fr_sequence := ap_next_seq slot AND 3,
       fr_integrity := ac_integrity acu, fr_has_scb := True, fr_scb_length := 3, fr_scb_type := scb_type,
       fr_scb_data := Some [key_selector_byte], fr_scb_data_len := 1, fr_code := cmd_code,
       fr_payload := Some payload, fr_payload_len := length payload\<rparr>"

definition send_sc_cmd ::
  "'w osdp_acu \<Rightarrow> 'w \<Rightarrow> nat \<Rightarrow> byte \<Rightarrow> byte \<Rightarrow> byte \<Rightarrow> bytes \<Rightarrow> osdp_status \<times> 'w osdp_acu \<times> 'w" where
  "send_sc_cmd acu w i scb_type key_selector_byte cmd_code payload =
     (let slot = ac_pds acu ! i;
          frame = sc_cmd_frame acu slot scb_type key_selector_byte cmd_code payload in
      (case osdp_frame_build frame OSDP_ACU_BUF_LEN of
         Inl s \<Rightarrow> (s, acu, w)
       | Inr tx_buf \<Rightarrow>
           (case acu_write acu w tx_buf of
              (s, w1) \<Rightarrow>
                if s \<noteq> OSDP_OK then (s, acu, w1)
                else
                  let (now, w2) = now_ms_or_zero acu w1
                  in (OSDP_OK, upd_slot acu i (mark_pending (fr_sequence frame) cmd_code now), w2))))"

definition osdp_acu_internal_sc_configured :: "'w osdp_acu \<Rightarrow> osdp_acu_pd_slot \<Rightarrow> bool \<Rightarrow> bool" where
  "osdp_acu_internal_sc_configured acu slot use_default_key =
     (if \<not> ac_sc_crypto_set acu then False
      else if aes128_ecb_encrypt (ac_sc_crypto acu) = None then False
      else if rand_bytes (ac_sc_crypto acu) = None then False
      else if use_default_key then ap_scbk_d_set slot
      else ap_scbk_set slot)"

section \<open>The handshake\<close>

definition osdp_acu_internal_send_chlng ::
  "'w osdp_acu \<Rightarrow> 'w \<Rightarrow> nat \<Rightarrow> bool \<Rightarrow> osdp_status \<times> 'w osdp_acu \<times> 'w" where
  "osdp_acu_internal_send_chlng acu w i use_default_key =
     (case rand_bytes (ac_sc_crypto acu) of
        None \<Rightarrow> (OSDP_ERR_INVALID_ARG, acu, w)
      | Some rnd \<Rightarrow>
          (case rnd w OSDP_SC_RND_LEN of
             (s, rnd_a, w1) \<Rightarrow>
               let acu1 = upd_slot acu i (\<lambda>sl. sl\<lparr>ap_sc_rnd_a := rnd_a\<rparr>) in
               if s \<noteq> OSDP_OK then (s, acu1, w1)
               else
                 let acu2 = upd_slot acu1 i (\<lambda>sl. sl\<lparr>ap_sc_key_selector := (if use_default_key then 0 else 1)\<rparr>);
                     slot = ac_pds acu2 ! i
                 in
                 (case send_sc_cmd acu2 w1 i OSDP_SCS_11 (ap_sc_key_selector slot) OSDP_CMD_CHLNG
                         (take OSDP_SC_RND_LEN (ap_sc_rnd_a slot)) of
                    (s, acu3, w2) \<Rightarrow>
                      if s \<noteq> OSDP_OK then (s, acu3, w2)
                      else (OSDP_OK, upd_slot acu3 i (\<lambda>sl. sl\<lparr>ap_sc_phase := OSDP_ACU_SC_AWAITING_CCRYPT\<rparr>), w2))))"

text \<open>The three steps every failure of the handshake takes.\<close>

definition handshake_failed :: "'w osdp_acu \<Rightarrow> 'w \<Rightarrow> nat \<Rightarrow> 'w osdp_acu \<times> 'w" where
  "handshake_failed acu w i =
     (let acu1 = upd_slot acu i (\<lambda>s. reset_sc_handshake (s\<lparr>ap_waiting := False\<rparr>) True)
      in (acu1, fire_sc_event acu1 w (ap_address (ac_pds acu1 ! i)) OSDP_ACU_SC_EVENT_HANDSHAKE_FAILED))"

text \<open>The tail of \<open>osdp_acu_internal_handle_ccrypt\<close>, once the Client Cryptogram has been verified: stash
  the session keys, advance the sequence number and answer with the Server Cryptogram.\<close>

definition send_scrypt :: "'w osdp_acu \<Rightarrow> 'w \<Rightarrow> nat \<Rightarrow> osdp_sc_session_keys \<Rightarrow> 'w osdp_acu \<times> 'w" where
  "send_scrypt acu w i keys =
     (let slot = ac_pds acu ! i;
          acu1 = upd_slot acu i (\<lambda>s. s\<lparr>ap_sc_session := (ap_sc_session s)\<lparr>ss_keys := keys\<rparr>\<rparr>) in
      (case osdp_sc_server_cryptogram (ac_sc_crypto acu) (s_enc keys) (ap_sc_rnd_a slot) (ap_sc_rnd_b slot) of
         Inl _ \<Rightarrow> handshake_failed acu1 w i
       | Inr server_crypto \<Rightarrow>
           let acu2 = upd_slot acu1 i
                 (\<lambda>s. s\<lparr>ap_next_seq := advance_sqn (ap_pending_seq s), ap_waiting := False\<rparr>) in
           (case send_sc_cmd acu2 w i OSDP_SCS_13 (ap_sc_key_selector slot) OSDP_CMD_SCRYPT
                   (take OSDP_SC_CRYPTOGRAM_LEN server_crypto) of
              (s, acu3, w1) \<Rightarrow>
                if s \<noteq> OSDP_OK then handshake_failed acu3 w1 i
                else (upd_slot acu3 i (\<lambda>s. s\<lparr>ap_sc_phase := OSDP_ACU_SC_AWAITING_RMAC_I\<rparr>), w1))))"

definition osdp_acu_internal_handle_ccrypt :: "'w osdp_acu \<Rightarrow> 'w \<Rightarrow> nat \<Rightarrow> osdp_frame \<Rightarrow> 'w osdp_acu \<times> 'w" where
  "osdp_acu_internal_handle_ccrypt acu w i frame =
     (let slot = ac_pds acu ! i; crypto = ac_sc_crypto acu in
      if fr_sequence frame \<noteq> ap_pending_seq slot then (acu, w)
      else if fr_code frame \<noteq> OSDP_REPLY_CCRYPT \<or> fr_scb_data_len frame < 1 \<or> fr_scb_data frame = None
            \<or> fr_payload_len frame \<noteq> OSDP_SC_CUID_LEN + OSDP_SC_RND_LEN + OSDP_SC_CRYPTOGRAM_LEN
        then handshake_failed acu w i
      else if the (fr_scb_data frame) ! 0 \<noteq> ap_sc_key_selector slot then handshake_failed acu w i
      else
        let p = the (fr_payload frame);
            cuid = take OSDP_SC_CUID_LEN p;
            rnd_b = take OSDP_SC_RND_LEN (drop OSDP_SC_CUID_LEN p);
            got_client = take OSDP_SC_CRYPTOGRAM_LEN (drop (OSDP_SC_CUID_LEN + OSDP_SC_RND_LEN) p);
            rnd_a = ap_sc_rnd_a slot;
            acu1 = upd_slot acu i (\<lambda>s. s\<lparr>ap_sc_cuid := cuid, ap_sc_rnd_b := rnd_b\<rparr>);
            key = (if ap_sc_key_selector slot = 1 then ap_scbk slot else ap_scbk_d slot)
        in
        (case osdp_sc_derive_session_keys crypto key rnd_a (ss_keys osdp_sc_session_init) of
           (s, keys) \<Rightarrow>
             if s \<noteq> OSDP_OK then handshake_failed acu1 w i
             else
               (case osdp_sc_client_cryptogram crypto (s_enc keys) rnd_a rnd_b of
                  Inl _ \<Rightarrow> handshake_failed acu1 w i
                | Inr expected_client \<Rightarrow>
                    if take OSDP_SC_CRYPTOGRAM_LEN expected_client \<noteq> got_client then handshake_failed acu1 w i
                    else send_scrypt acu1 w i keys)))"

definition osdp_acu_internal_handle_rmac_i :: "'w osdp_acu \<Rightarrow> 'w \<Rightarrow> nat \<Rightarrow> osdp_frame \<Rightarrow> 'w osdp_acu \<times> 'w" where
  "osdp_acu_internal_handle_rmac_i acu w i frame =
     (let slot = ac_pds acu ! i; crypto = ac_sc_crypto acu; keys = ss_keys (ap_sc_session slot) in
      if fr_sequence frame \<noteq> ap_pending_seq slot then (acu, w)
      else if fr_code frame \<noteq> OSDP_REPLY_RMAC_I \<or> fr_scb_data_len frame < 1 \<or> fr_scb_data frame = None
        then handshake_failed acu w i
      else if the (fr_scb_data frame) ! 0 \<noteq> 0x01 then handshake_failed acu w i
      else if fr_payload_len frame \<noteq> OSDP_SC_MAC_LEN then handshake_failed acu w i
      else
        (case osdp_sc_server_cryptogram crypto (s_enc keys) (ap_sc_rnd_a slot) (ap_sc_rnd_b slot) of
           Inl _ \<Rightarrow> handshake_failed acu w i
         | Inr server_crypto \<Rightarrow>
             (case osdp_sc_initial_rmac crypto (s_mac1 keys) (s_mac2 keys) server_crypto of
                Inl _ \<Rightarrow> handshake_failed acu w i
              | Inr expected_rmac \<Rightarrow>
                  if take OSDP_SC_MAC_LEN expected_rmac \<noteq> take OSDP_SC_MAC_LEN (the (fr_payload frame))
                  then handshake_failed acu w i
                  else
                    let m = take OSDP_SC_MAC_LEN expected_rmac;
                        acu1 = upd_slot acu i (\<lambda>s. s\<lparr>ap_sc_session := (ap_sc_session s)\<lparr>ss_last_outbound_mac := m,
                                 ss_last_inbound_mac := m, ss_established := True\<rparr>,
                                 ap_next_seq := advance_sqn (ap_pending_seq s), ap_waiting := False,
                                 ap_online := True\<rparr>);
                        (now, w1) = now_ms_or_zero acu1 w;
                        acu2 = upd_slot acu1 i (\<lambda>s. s\<lparr>ap_last_reply_ms := now, ap_sc_phase := OSDP_ACU_SC_ESTABLISHED\<rparr>)
                    in (acu2, fire_sc_event acu2 w1 (ap_address (ac_pds acu2 ! i)) OSDP_ACU_SC_EVENT_ESTABLISHED))))"

section \<open>Ending a session, and operational replies\<close>

definition lost_event :: "osdp_acu_sc_phase \<Rightarrow> osdp_acu_sc_event_kind option" where
  "lost_event phase =
     (case phase of
        OSDP_ACU_SC_ESTABLISHED \<Rightarrow> Some OSDP_ACU_SC_EVENT_SESSION_LOST
      | OSDP_ACU_SC_AWAITING_CCRYPT \<Rightarrow> Some OSDP_ACU_SC_EVENT_HANDSHAKE_FAILED
      | OSDP_ACU_SC_AWAITING_RMAC_I \<Rightarrow> Some OSDP_ACU_SC_EVENT_HANDSHAKE_FAILED
      | OSDP_ACU_SC_IDLE \<Rightarrow> None)"

definition osdp_acu_internal_terminate_sc :: "'w osdp_acu \<Rightarrow> 'w \<Rightarrow> nat \<Rightarrow> 'w osdp_acu \<times> 'w" where
  "osdp_acu_internal_terminate_sc acu w i =
     (let slot = ac_pds acu ! i;
          acu1 = upd_slot acu i (\<lambda>s. reset_sc_handshake (s\<lparr>ap_waiting := False, ap_next_seq := 0\<rparr>) True)
      in (acu1, case lost_event (ap_sc_phase slot) of
                  None \<Rightarrow> w
                | Some kind \<Rightarrow> fire_sc_event acu1 w (ap_address slot) kind))"

definition osdp_acu_internal_deliver_reply ::
  "'w osdp_acu \<Rightarrow> 'w \<Rightarrow> nat \<Rightarrow> osdp_frame \<Rightarrow> bytes_ptr \<Rightarrow> nat \<Rightarrow> 'w osdp_acu \<times> 'w" where
  "osdp_acu_internal_deliver_reply acu w i frame payload payload_len =
     (let (now, w1) = now_ms_or_zero acu w;
          cmd_code = ap_pending_code (ac_pds acu ! i);
          acu1 = upd_slot acu i (\<lambda>s. s\<lparr>ap_online := True, ap_last_reply_ms := now, ap_waiting := False,
                   ap_next_seq := advance_sqn (ap_pending_seq s)\<rparr>)
      in (acu1, case ac_reply_cb acu of
                  None \<Rightarrow> w1
                | Some cb \<Rightarrow> cb w1 \<lparr>re_pd_address = fr_address frame, re_cmd_code = cmd_code,
                    re_reply_code = fr_code frame, re_payload = payload, re_payload_len = payload_len\<rparr>))"

definition osdp_acu_internal_handle_sc_reply :: "'w osdp_acu \<Rightarrow> 'w \<Rightarrow> nat \<Rightarrow> osdp_frame \<Rightarrow> 'w osdp_acu \<times> 'w" where
  "osdp_acu_internal_handle_sc_reply acu w i frame =
     (let slot = ac_pds acu ! i in
      if fr_sequence frame = 0 then osdp_acu_internal_terminate_sc acu w i
      else if \<not> ap_waiting slot \<or> fr_sequence frame \<noteq> ap_pending_seq slot then (acu, w)
      else
        (case osdp_sc_unwrap_frame (ac_sc_crypto acu) (ap_sc_session slot) frame OSDP_ACU_BUF_LEN of
           Inl _ \<Rightarrow> osdp_acu_internal_terminate_sc acu w i
         | Inr (plaintext, session) \<Rightarrow>
             osdp_acu_internal_deliver_reply (upd_slot acu i (\<lambda>s. s\<lparr>ap_sc_session := session\<rparr>)) w i frame
               (Some plaintext) (length plaintext)))"

section \<open>What the handlers leave alone\<close>

text \<open>A handler changes one slot of the array and nothing else of the control unit.\<close>

definition slot_mask :: "nat \<Rightarrow> 'w osdp_acu \<Rightarrow> 'w osdp_acu" where
  "slot_mask i acu = acu\<lparr>ac_pds := (ac_pds acu)[i := zero_acu_pd_slot]\<rparr>"

lemma slot_mask_upd [simp]: "slot_mask i (upd_slot acu i f) = slot_mask i acu"
  by (simp add: slot_mask_def upd_slot_def)

lemma slot_maskD:
  assumes "slot_mask i b = slot_mask i a"
  shows "ac_rx b = ac_rx a" "ac_transport b = ac_transport a" "length (ac_pds b) = length (ac_pds a)"
    "j \<noteq> i \<Longrightarrow> ac_pds b ! j = ac_pds a ! j" "ac_sc_crypto b = ac_sc_crypto a" "ac_integrity b = ac_integrity a"
proof -
  have p: "(ac_pds b)[i := zero_acu_pd_slot] = (ac_pds a)[i := zero_acu_pd_slot]"
    using arg_cong [OF assms, of ac_pds] by (simp add: slot_mask_def)
  show "length (ac_pds b) = length (ac_pds a)"
    using arg_cong [OF p, of length] by simp
  show "j \<noteq> i \<Longrightarrow> ac_pds b ! j = ac_pds a ! j"
    using arg_cong [OF p, of "\<lambda>l. l ! j"] by simp
qed (use arg_cong [OF assms, of ac_rx] arg_cong [OF assms, of ac_transport] arg_cong [OF assms, of ac_sc_crypto]
      arg_cong [OF assms, of ac_integrity] in \<open>simp_all add: slot_mask_def\<close>)

lemma upd_slot_fields [simp]:
  "ac_rx (upd_slot a i f) = ac_rx a" "ac_transport (upd_slot a i f) = ac_transport a"
  "length (ac_pds (upd_slot a i f)) = length (ac_pds a)" "ac_sc_crypto (upd_slot a i f) = ac_sc_crypto a"
  "ac_integrity (upd_slot a i f) = ac_integrity a" "ac_sc_event_cb (upd_slot a i f) = ac_sc_event_cb a"
  "ac_reply_cb (upd_slot a i f) = ac_reply_cb a" "ac_sc_crypto_set (upd_slot a i f) = ac_sc_crypto_set a"
  by (simp_all add: upd_slot_def)

lemma upd_slot_nth [simp]: "i < length (ac_pds a) \<Longrightarrow> ac_pds (upd_slot a i f) ! i = f (ac_pds a ! i)"
  by (simp add: upd_slot_def)

lemma upd_slot_upd [simp]:
  "i < length (ac_pds a) \<Longrightarrow> upd_slot (upd_slot a i f) i g = upd_slot a i (\<lambda>s. g (f s))"
  by (simp add: upd_slot_def)

lemma handshake_failed_slot [simp]: "slot_mask i (fst (handshake_failed acu w i)) = slot_mask i acu"
  by (simp add: handshake_failed_def Let_def)

lemma send_sc_cmd_slot: "send_sc_cmd acu w i t k c p = (s, acu', w') \<Longrightarrow> slot_mask i acu' = slot_mask i acu"
  by (auto simp: send_sc_cmd_def Let_def split: sum.splits prod.splits if_splits)

lemma send_chlng_slot:
  "osdp_acu_internal_send_chlng acu w i d = (s, acu', w') \<Longrightarrow> slot_mask i acu' = slot_mask i acu"
  by (auto simp: osdp_acu_internal_send_chlng_def Let_def split: option.splits prod.splits if_splits
      dest!: send_sc_cmd_slot)

lemma terminate_sc_slot [simp]: "slot_mask i (fst (osdp_acu_internal_terminate_sc acu w i)) = slot_mask i acu"
  by (simp add: osdp_acu_internal_terminate_sc_def Let_def)

lemma deliver_reply_slot [simp]:
  "slot_mask i (fst (osdp_acu_internal_deliver_reply acu w i frame p n)) = slot_mask i acu"
  by (simp add: osdp_acu_internal_deliver_reply_def Let_def case_prod_beta)

lemma send_scrypt_slot [simp]: "slot_mask i (fst (send_scrypt acu w i keys)) = slot_mask i acu"
  by (auto simp: send_scrypt_def Let_def split: sum.splits prod.splits dest!: send_sc_cmd_slot)

lemma handle_ccrypt_slot [simp]: "slot_mask i (fst (osdp_acu_internal_handle_ccrypt acu w i frame)) = slot_mask i acu"
  by (simp add: osdp_acu_internal_handle_ccrypt_def Let_def split: sum.splits prod.splits)

lemma handle_rmac_i_slot [simp]: "slot_mask i (fst (osdp_acu_internal_handle_rmac_i acu w i frame)) = slot_mask i acu"
  unfolding osdp_acu_internal_handle_rmac_i_def Let_def
  by (simp add: case_prod_beta split: sum.splits)

lemma handle_sc_reply_slot [simp]: "slot_mask i (fst (osdp_acu_internal_handle_sc_reply acu w i frame)) = slot_mask i acu"
  unfolding osdp_acu_internal_handle_sc_reply_def Let_def
  by (simp split: sum.splits prod.splits)

end
