(* ===== verification/ACU.thy ===== *)
theory ACU
  imports ACU_SC
begin

unbundle bit_operations_syntax

text \<open>
  The main loop of a control unit: the rest of \<^verbatim>\<open>acu/src/acu.c\<close>. Commands go out one at a time per
  slot; a tick checks the timeouts of every slot, drains the transport into the receive stream,
  routes every complete reply and refreshes the reader banks. The loops are total functions: the
  read loop is bounded by the size of the stream buffer, the frame loop by the bytes pending in the
  stream, since routing a reply leaves the stream alone.
\<close>

section \<open>Replies\<close>

definition process_reply :: "'w osdp_acu \<Rightarrow> 'w \<Rightarrow> osdp_frame \<Rightarrow> 'w osdp_acu \<times> 'w" where
  "process_reply acu w frame =
     (case find_slot_by_address acu (fr_address frame) of
        None \<Rightarrow> (acu, w)
      | Some i \<Rightarrow>
          let slot = ac_pds acu ! i in
          if fr_sequence frame = 0 \<and> ap_sc_phase slot = OSDP_ACU_SC_ESTABLISHED
          then osdp_acu_internal_terminate_sc acu w i
          else if ap_sc_phase slot = OSDP_ACU_SC_ESTABLISHED \<and> fr_code frame \<noteq> OSDP_REPLY_BUSY
          then osdp_acu_internal_terminate_sc acu w i
          else if \<not> ap_waiting slot then (acu, w)
          else if fr_sequence frame \<noteq> ap_pending_seq slot then (acu, w)
          else osdp_acu_internal_deliver_reply acu w i frame (fr_payload frame) (fr_payload_len frame))"

section \<open>Timeouts\<close>

text \<open>The body of the scan for one slot: the reply timeout, then the online window.\<close>

definition scan_reply_timeout :: "'w osdp_acu \<Rightarrow> u32 \<Rightarrow> 'w \<Rightarrow> nat \<Rightarrow> 'w osdp_acu \<times> 'w" where
  "scan_reply_timeout acu now w i =
     (let slot = ac_pds acu ! i in
      if ap_waiting slot \<and> now - ap_pending_sent_ms slot > OSDP_ACU_REPLY_TIMEOUT_MS then
        let sqn = ap_pending_seq slot in
        (upd_slot acu i (\<lambda>s. s\<lparr>ap_waiting := False, ap_next_seq := sqn\<rparr>),
         case ac_timeout_cb acu of
           None \<Rightarrow> w
         | Some cb \<Rightarrow> cb w \<lparr>te_pd_address = ap_address slot, te_cmd_code = ap_pending_code slot, te_cmd_seq = sqn\<rparr>)
      else (acu, w))"

definition scan_online :: "'w osdp_acu \<Rightarrow> u32 \<Rightarrow> 'w \<Rightarrow> nat \<Rightarrow> 'w osdp_acu \<times> 'w" where
  "scan_online acu now w i =
     (let slot = ac_pds acu ! i in
      if ap_online slot \<and> now - ap_last_reply_ms slot > OSDP_ACU_OFFLINE_TIMEOUT_MS then
        let acu1 = upd_slot acu i (\<lambda>s. s\<lparr>ap_online := False\<rparr>) in
        if ap_sc_phase slot \<noteq> OSDP_ACU_SC_IDLE then osdp_acu_internal_terminate_sc acu1 w i else (acu1, w)
      else (acu, w))"

definition scan_slot :: "'w osdp_acu \<Rightarrow> u32 \<Rightarrow> 'w \<Rightarrow> nat \<Rightarrow> 'w osdp_acu \<times> 'w" where
  "scan_slot acu now w i =
     (if \<not> ap_in_use (ac_pds acu ! i) then (acu, w)
      else let (acu1, w1) = scan_reply_timeout acu now w i in scan_online acu1 now w1 i)"

fun scan_slots :: "'w osdp_acu \<Rightarrow> u32 \<Rightarrow> 'w \<Rightarrow> nat list \<Rightarrow> 'w osdp_acu \<times> 'w" where
  "scan_slots acu now w [] = (acu, w)"
| "scan_slots acu now w (i # is) = (let (acu1, w1) = scan_slot acu now w i in scan_slots acu1 now w1 is)"

definition scan_timeouts_and_offline :: "'w osdp_acu \<Rightarrow> 'w \<Rightarrow> 'w osdp_acu \<times> 'w" where
  "scan_timeouts_and_offline acu w =
     (case at_now_ms (ac_transport acu) of
        None \<Rightarrow> (acu, w)
      | Some now_ms \<Rightarrow> (case now_ms w of (now, w1) \<Rightarrow> scan_slots acu now w1 [0..<length (ac_pds acu)]))"

section \<open>Sending\<close>

definition command_frame :: "'w osdp_acu \<Rightarrow> osdp_acu_pd_slot \<Rightarrow> byte \<Rightarrow> byte \<Rightarrow> bytes_ptr \<Rightarrow> nat \<Rightarrow> osdp_frame" where
  "command_frame acu slot pd_addr cmd_code payload payload_len =
     zero_frame\<lparr>fr_address := pd_addr, fr_reply := False, fr_sequence := ap_next_seq slot AND 3,
       fr_integrity := ac_integrity acu, fr_code := cmd_code, fr_payload := payload, fr_payload_len := payload_len\<rparr>"

text \<open>The bytes of a command and the slot's session after wrapping: clear until the Secure Channel is
  established, wrapped from then on.\<close>

definition build_command ::
  "'w osdp_acu \<Rightarrow> osdp_acu_pd_slot \<Rightarrow> osdp_frame \<Rightarrow> (bytes \<times> osdp_sc_session) result" where
  "build_command acu slot frame =
     (if ap_sc_phase slot = OSDP_ACU_SC_ESTABLISHED then
        osdp_sc_wrap_frame (ac_sc_crypto acu) (ap_sc_session slot)
          (frame\<lparr>fr_has_scb := True, fr_scb_length := 2, fr_scb_type := OSDP_SCS_17\<rparr>) OSDP_ACU_BUF_LEN
      else
        (case osdp_frame_build frame OSDP_ACU_BUF_LEN of
           Inl s \<Rightarrow> Inl s
         | Inr tx_buf \<Rightarrow> Inr (tx_buf, ap_sc_session slot)))"

definition osdp_acu_send_command ::
  "'w osdp_acu \<Rightarrow> 'w \<Rightarrow> byte \<Rightarrow> byte \<Rightarrow> bytes_ptr \<Rightarrow> nat \<Rightarrow> osdp_status \<times> 'w osdp_acu \<times> 'w" where
  "osdp_acu_send_command acu w pd_addr cmd_code payload payload_len =
     (if payload_len > 0 \<and> payload = None then (OSDP_ERR_INVALID_ARG, acu, w)
      else
        (case find_slot_by_address acu pd_addr of
           None \<Rightarrow> (OSDP_ERR_INVALID_ARG, acu, w)
         | Some i \<Rightarrow>
             let slot = ac_pds acu ! i in
             if ap_waiting slot then (OSDP_ERR_NOT_SUPPORTED, acu, w)
             else if at_write (ac_transport acu) = None then (OSDP_ERR_INVALID_ARG, acu, w)
             else
               let frame = command_frame acu slot pd_addr cmd_code payload payload_len in
               (case build_command acu slot frame of
                  Inl br \<Rightarrow> (br, acu, w)
                | Inr (tx_buf, session) \<Rightarrow>
                    let acu1 = upd_slot acu i (\<lambda>s. s\<lparr>ap_sc_session := session\<rparr>) in
                    (case acu_write acu1 w tx_buf of
                       (s, w1) \<Rightarrow>
                         if s \<noteq> OSDP_OK then (s, acu1, w1)
                         else
                           let (now, w2) = now_ms_or_zero acu1 w1;
                               acu2 = upd_slot acu1 i (mark_pending (fr_sequence frame) cmd_code now);
                               (acu3, w3) = acu_observe_led acu2 w2 pd_addr cmd_code payload payload_len;
                               (acu4, w4) = acu_observe_buzzer acu3 w3 pd_addr cmd_code payload payload_len
                           in (OSDP_OK, acu4, w4)))))"

definition osdp_acu_start_sc_handshake ::
  "'w osdp_acu \<Rightarrow> 'w \<Rightarrow> byte \<Rightarrow> bool \<Rightarrow> osdp_status \<times> 'w osdp_acu \<times> 'w" where
  "osdp_acu_start_sc_handshake acu w pd_addr use_default_key =
     (case find_slot_by_address acu pd_addr of
        None \<Rightarrow> (OSDP_ERR_INVALID_ARG, acu, w)
      | Some i \<Rightarrow>
          let slot = ac_pds acu ! i in
          if at_write (ac_transport acu) = None then (OSDP_ERR_INVALID_ARG, acu, w)
          else if \<not> osdp_acu_internal_sc_configured acu slot use_default_key then (OSDP_ERR_INVALID_ARG, acu, w)
          else if ap_waiting slot then (OSDP_ERR_NOT_SUPPORTED, acu, w)
          else
            osdp_acu_internal_send_chlng
              (upd_slot acu i (\<lambda>s. s\<lparr>ap_sc_session := osdp_sc_session_init, ap_sc_phase := OSDP_ACU_SC_IDLE\<rparr>))
              w i use_default_key)"

section \<open>The tick\<close>

definition acu_check_interchar_timeout :: "'w osdp_acu \<Rightarrow> 'w \<Rightarrow> 'w osdp_acu \<times> 'w" where
  "acu_check_interchar_timeout acu w =
     (let pending = osdp_stream_pending (ac_rx acu) in
      if pending = 0 then (acu\<lparr>ac_rx_partial_len := 0\<rparr>, w)
      else
        (case at_now_ms (ac_transport acu) of
           None \<Rightarrow> (acu, w)
         | Some now_ms \<Rightarrow>
             (case now_ms w of
                (now, w1) \<Rightarrow>
                  if pending \<noteq> ac_rx_partial_len acu
                  then (acu\<lparr>ac_rx_partial_len := pending, ac_rx_partial_ms := now\<rparr>, w1)
                  else if now - ac_rx_partial_ms acu \<ge> OSDP_ACU_INTERCHAR_TIMEOUT_MS
                  then (acu\<lparr>ac_rx := osdp_stream_reset (ac_rx acu), ac_rx_partial_len := 0\<rparr>, w1)
                  else (acu, w1))))"

function acu_read_loop ::
  "('w \<Rightarrow> nat \<Rightarrow> int \<times> bytes \<times> 'w) \<Rightarrow> osdp_stream \<Rightarrow> 'w \<Rightarrow> nat \<Rightarrow> osdp_stream \<times> 'w" where
  "acu_read_loop read rx w drained =
     (case read w 128 of
        (n, chunk, w1) \<Rightarrow>
          if n \<le> 0 then (rx, w1)
          else
            let rx1 = snd (osdp_stream_feed rx (Some chunk) (nat n)); drained' = drained + nat n
            in if drained' \<ge> OSDP_STREAM_BUFFER_LEN then (rx1, w1) else acu_read_loop read rx1 w1 drained')"
  by pat_completeness auto
termination
  by (relation "measure (\<lambda>(read, rx, w, drained). OSDP_STREAM_BUFFER_LEN - drained)") auto

declare acu_read_loop.simps [simp del]

text \<open>Routing of one frame: Secure Channel replies by block type and phase, clear replies to
  \<open>process_reply\<close>.\<close>

definition route_sc_reply :: "'w osdp_acu \<Rightarrow> 'w \<Rightarrow> osdp_frame \<Rightarrow> 'w osdp_acu \<times> 'w" where
  "route_sc_reply acu w frame =
     (case find_slot_by_address acu (fr_address frame) of
        None \<Rightarrow> (acu, w)
      | Some i \<Rightarrow>
          let phase = ap_sc_phase (ac_pds acu ! i); t = fr_scb_type frame in
          if t = OSDP_SCS_12 then
            if phase = OSDP_ACU_SC_AWAITING_CCRYPT then osdp_acu_internal_handle_ccrypt acu w i frame else (acu, w)
          else if t = OSDP_SCS_14 then
            if phase = OSDP_ACU_SC_AWAITING_RMAC_I then osdp_acu_internal_handle_rmac_i acu w i frame else (acu, w)
          else if t = OSDP_SCS_16 \<or> t = OSDP_SCS_18 then
            if phase = OSDP_ACU_SC_ESTABLISHED then osdp_acu_internal_handle_sc_reply acu w i frame else (acu, w)
          else (acu, w))"

definition acu_tick_frame :: "'w osdp_acu \<Rightarrow> 'w \<Rightarrow> osdp_status \<Rightarrow> osdp_frame \<Rightarrow> 'w osdp_acu \<times> 'w" where
  "acu_tick_frame acu w r frame =
     (if r \<noteq> OSDP_OK then (acu, w)
      else if \<not> fr_reply frame then (acu, w)
      else if fr_has_scb frame then route_sc_reply acu w frame
      else process_reply acu w frame)"

lemma process_reply_rx: "ac_rx (fst (process_reply acu w frame)) = ac_rx acu"
  by (simp add: process_reply_def Let_def slot_maskD(1) [OF terminate_sc_slot] slot_maskD(1) [OF deliver_reply_slot]
      split: option.splits)

lemma route_sc_reply_rx: "ac_rx (fst (route_sc_reply acu w frame)) = ac_rx acu"
  by (simp add: route_sc_reply_def Let_def slot_maskD(1) [OF handle_ccrypt_slot] slot_maskD(1) [OF handle_rmac_i_slot]
      slot_maskD(1) [OF handle_sc_reply_slot] split: option.splits)

lemma acu_tick_frame_rx: "ac_rx (fst (acu_tick_frame acu w r frame)) = ac_rx acu"
  by (simp add: acu_tick_frame_def process_reply_rx route_sc_reply_rx)

lemma acu_tick_frame_progress:
  assumes "(r, frame, rx) = osdp_stream_next (ac_rx acu) zero_frame" "r \<noteq> OSDP_ERR_TRUNCATED"
  shows "osdp_stream_pending (ac_rx (fst (acu_tick_frame (acu\<lparr>ac_rx := rx\<rparr>) w r frame))) < osdp_stream_pending (ac_rx acu)"
  using assms stream_next_pending(2) [of "ac_rx acu" zero_frame]
  by (simp add: acu_tick_frame_rx flip: assms(1))

function acu_frame_loop :: "'w osdp_acu \<Rightarrow> 'w \<Rightarrow> 'w osdp_acu \<times> 'w" where
  "acu_frame_loop acu w =
     (case osdp_stream_next (ac_rx acu) zero_frame of
        (r, frame, rx) \<Rightarrow>
          if r = OSDP_ERR_TRUNCATED then (acu\<lparr>ac_rx := rx\<rparr>, w)
          else (case acu_tick_frame (acu\<lparr>ac_rx := rx\<rparr>) w r frame of (acu1, w1) \<Rightarrow> acu_frame_loop acu1 w1))"
  by pat_completeness auto
termination
  by (relation "measure (\<lambda>(acu, w). osdp_stream_pending (ac_rx acu))")
    (auto simp: case_prod_beta intro: acu_tick_frame_progress)

declare acu_frame_loop.simps [simp del]

definition osdp_acu_tick :: "'w osdp_acu \<Rightarrow> 'w \<Rightarrow> 'w osdp_acu \<times> 'w" where
  "osdp_acu_tick acu w =
     (case at_read (ac_transport acu) of
        None \<Rightarrow> (acu, w)
      | Some read \<Rightarrow>
          let (acu1, w1) = scan_timeouts_and_offline acu w;
              (rx, w2) = acu_read_loop read (ac_rx acu1) w1 0;
              (acu2, w3) = acu_frame_loop (acu1\<lparr>ac_rx := rx\<rparr>) w2;
              (acu3, w4) = acu_check_interchar_timeout acu2 w3;
              (now, w5) = now_ms_or_zero acu3 w4;
              (acu4, w6) = acu_led_refresh acu3 now w5
          in acu_buz_refresh acu4 now w6)"

end
