(* ===== verification/ACU_Behaviour.thy ===== *)
theory ACU_Behaviour
  imports ACU
begin

unbundle bit_operations_syntax

text \<open>
  The control unit as a state machine. Its states are those its application can bring about through the
  functions of \<^verbatim>\<open>osdp_acu.h\<close>, in any order and against any transport; the invariant below holds in all of
  them. The properties then say what a reply, a timeout and a lost device do to a slot.
\<close>

section \<open>The invariant of a slot\<close>

text \<open>Sequence numbers stay in two bits; a slot is in the established phase exactly when its session is; and a
  secured slot never sends or awaits sequence number 0, which would reset the device's session.\<close>

definition slot_ok :: "osdp_acu_pd_slot \<Rightarrow> bool" where
  "slot_ok s \<longleftrightarrow>
     ap_next_seq s \<le> 3 \<and> ap_pending_seq s \<le> 3 \<and>
     (ap_sc_phase s = OSDP_ACU_SC_ESTABLISHED \<longleftrightarrow> ss_established (ap_sc_session s)) \<and>
     (ap_sc_phase s = OSDP_ACU_SC_ESTABLISHED \<longrightarrow> ap_next_seq s \<noteq> 0 \<and> (ap_waiting s \<longrightarrow> ap_pending_seq s \<noteq> 0)) \<and>
     (\<not> ap_in_use s \<longrightarrow> \<not> ap_waiting s \<and> ap_sc_phase s = OSDP_ACU_SC_IDLE)"

definition acu_wf :: "'w osdp_acu \<Rightarrow> bool" where
  "acu_wf acu \<longleftrightarrow>
     stream_wf (ac_rx acu) \<and> length (ac_leds acu) = OSDP_ACU_MAX_LEDS \<and> length (ac_buzzers acu) = OSDP_ACU_MAX_BUZZERS \<and>
     list_all slot_ok (ac_pds acu)"

lemma sqn_masked: "(n :: byte) \<le> 3 \<Longrightarrow> n AND 3 = n"
proof -
  assume "n \<le> 3"
  then have "n = 0 \<or> n = 1 \<or> n = 2 \<or> n = 3"
    unfolding word_le_nat_alt by (simp add: word_unat_eq_iff) arith
  then show ?thesis by auto
qed

lemma advance_sqn_range: "advance_sqn s \<le> 3" "advance_sqn s \<noteq> 0"
proof -
  have "unat (s + 1) = unat s + 1" if "unat s < 3"
    using that by (simp add: unat_word_ariths(1))
  then show "advance_sqn s \<le> 3" "advance_sqn s \<noteq> 0"
    by (auto simp: advance_sqn_def word_le_nat_alt word_unat_eq_iff not_le)
qed

section \<open>Slots\<close>

lemma acu_slots_upd:
  "list_all slot_ok (ac_pds acu) \<Longrightarrow> (i < length (ac_pds acu) \<Longrightarrow> slot_ok (ac_pds acu ! i) \<Longrightarrow> slot_ok (f (ac_pds acu ! i)))
   \<Longrightarrow> list_all slot_ok (ac_pds (upd_slot acu i f))"
  by (cases "i < length (ac_pds acu)") (auto simp: upd_slot_def list_all_length nth_list_update)

lemma slot_ok_zero: "slot_ok zero_acu_pd_slot"
  by (simp add: slot_ok_def zero_acu_pd_slot_def osdp_sc_session_init_def)

lemma slot_ok_mark: "slot_ok s \<Longrightarrow> ap_in_use s \<Longrightarrow> slot_ok (mark_pending (ap_next_seq s AND 3) code now s)"
  by (simp add: slot_ok_def mark_pending_def sqn_masked)

lemma slot_ok_reset:
  "slot_ok s \<Longrightarrow> slot_ok (reset_sc_handshake (s\<lparr>ap_waiting := False\<rparr>) True)"
  "slot_ok s \<Longrightarrow> slot_ok (reset_sc_handshake (s\<lparr>ap_waiting := False, ap_next_seq := 0\<rparr>) True)"
  by (simp_all add: slot_ok_def reset_sc_handshake_def osdp_sc_session_init_def)

lemma slot_ok_served:
  "slot_ok s \<Longrightarrow> ap_in_use s \<Longrightarrow> slot_ok (s\<lparr>ap_online := True, ap_last_reply_ms := now, ap_waiting := False,
     ap_next_seq := advance_sqn (ap_pending_seq s)\<rparr>)"
  using advance_sqn_range by (simp add: slot_ok_def)

section \<open>Handlers\<close>

abbreviation (input) slots_ok :: "'w osdp_acu \<Rightarrow> bool" where
  "slots_ok acu \<equiv> list_all slot_ok (ac_pds acu)"

lemma slots_ok_nth: "slots_ok acu \<Longrightarrow> i < length (ac_pds acu) \<Longrightarrow> slot_ok (ac_pds acu ! i)"
  by (simp add: list_all_length)

lemma handshake_failed_ok: "slots_ok acu \<Longrightarrow> slots_ok (fst (handshake_failed acu w i))"
  by (simp add: handshake_failed_def Let_def acu_slots_upd slot_ok_reset)

lemma terminate_ok: "slots_ok acu \<Longrightarrow> slots_ok (fst (osdp_acu_internal_terminate_sc acu w i))"
  by (simp add: osdp_acu_internal_terminate_sc_def Let_def acu_slots_upd slot_ok_reset)

lemma send_sc_cmd_slots:
  assumes "send_sc_cmd acu w i t k c p = (st, acu', w')" "slots_ok acu" "ap_in_use (ac_pds acu ! i)"
  shows "slots_ok acu'" "length (ac_pds acu') = length (ac_pds acu)"
    "i < length (ac_pds acu) \<Longrightarrow> \<not> ss_established (ap_sc_session (ac_pds acu ! i)) \<Longrightarrow> \<not> ss_established (ap_sc_session (ac_pds acu' ! i))"
    "i < length (ac_pds acu) \<Longrightarrow> ap_in_use (ac_pds acu' ! i)"
  using assms
  by (auto simp: send_sc_cmd_def Let_def sc_cmd_frame_def slot_ok_mark mark_pending_def split: sum.splits prod.splits if_splits
      intro!: acu_slots_upd dest: slot_ok_mark)

lemma phase_ok:
  assumes "slots_ok acu" "i < length (ac_pds acu)" "\<not> ss_established (ap_sc_session (ac_pds acu ! i))" "ap_in_use (ac_pds acu ! i)"
    "ph \<noteq> OSDP_ACU_SC_ESTABLISHED"
  shows "slots_ok (upd_slot acu i (\<lambda>s. s\<lparr>ap_sc_phase := ph\<rparr>))"
  using assms by (auto intro!: acu_slots_upd simp: slot_ok_def)

lemma send_scrypt_ok:
  assumes "slots_ok acu" "i < length (ac_pds acu)" "ap_sc_phase (ac_pds acu ! i) = OSDP_ACU_SC_AWAITING_CCRYPT"
  shows "slots_ok (fst (send_scrypt acu w i keys))"
proof -
  let ?f = "\<lambda>s. s\<lparr>ap_sc_session := (ap_sc_session s)\<lparr>ss_keys := keys\<rparr>\<rparr>"
  let ?a = "upd_slot acu i ?f"
  let ?b = "upd_slot ?a i (\<lambda>s. s\<lparr>ap_next_seq := advance_sqn (ap_pending_seq s), ap_waiting := False\<rparr>)"
  have s: "slot_ok (ac_pds acu ! i)" "\<not> ss_established (ap_sc_session (ac_pds acu ! i))" "ap_in_use (ac_pds acu ! i)"
    using slots_ok_nth [OF assms(1,2)] assms(3) by (auto simp: slot_ok_def)
  have a: "slots_ok ?a"
    using assms(1) by (rule acu_slots_upd) (simp add: slot_ok_def)
  then have b: "slots_ok ?b"
    by (rule acu_slots_upd) (use advance_sqn_range in \<open>simp add: slot_ok_def\<close>)
  have bi: "i < length (ac_pds ?b)" "ap_in_use (ac_pds ?b ! i)" "\<not> ss_established (ap_sc_session (ac_pds ?b ! i))"
    using assms(2) s by simp_all
  show ?thesis
    using send_sc_cmd_slots [OF _ b bi(2)] bi(1,3) a
    by (auto simp: send_scrypt_def Let_def handshake_failed_ok intro!: phase_ok handshake_failed_ok split: sum.splits prod.splits simp del: upd_slot_upd)
qed

lemma handle_ccrypt_ok:
  assumes "slots_ok acu" "i < length (ac_pds acu)" "ap_sc_phase (ac_pds acu ! i) = OSDP_ACU_SC_AWAITING_CCRYPT"
  shows "slots_ok (fst (osdp_acu_internal_handle_ccrypt acu w i frame))"
proof -
  have "slots_ok (upd_slot acu i (\<lambda>s. s\<lparr>ap_sc_cuid := c, ap_sc_rnd_b := r\<rparr>))" for c r
    using assms(1) by (rule acu_slots_upd) (simp add: slot_ok_def)
  then show ?thesis
    using assms by (simp add: osdp_acu_internal_handle_ccrypt_def Let_def handshake_failed_ok send_scrypt_ok split: sum.splits prod.splits)
qed

lemma handle_rmac_i_ok:
  assumes "slots_ok acu" "i < length (ac_pds acu)" "ap_sc_phase (ac_pds acu ! i) = OSDP_ACU_SC_AWAITING_RMAC_I"
  shows "slots_ok (fst (osdp_acu_internal_handle_rmac_i acu w i frame))"
proof -
  have s: "slot_ok (ac_pds acu ! i)" "ap_in_use (ac_pds acu ! i)"
    using slots_ok_nth [OF assms(1,2)] assms(3) by (auto simp: slot_ok_def)
  have "slots_ok (upd_slot acu i (\<lambda>s. s\<lparr>ap_sc_session := (ap_sc_session s)\<lparr>ss_last_outbound_mac := m, ss_last_inbound_mac := m,
      ss_established := True\<rparr>, ap_next_seq := advance_sqn (ap_pending_seq s), ap_waiting := False, ap_online := True,
      ap_last_reply_ms := n, ap_sc_phase := OSDP_ACU_SC_ESTABLISHED\<rparr>))" for m n
    using assms(1) by (rule acu_slots_upd) (use s(2) advance_sqn_range in \<open>simp add: slot_ok_def\<close>)
  then show ?thesis
    using assms(1,2) unfolding osdp_acu_internal_handle_rmac_i_def Let_def
    by (simp add: handshake_failed_ok case_prod_beta split: sum.splits)
qed

lemma deliver_reply_ok:
  assumes "slots_ok acu" "ap_in_use (ac_pds acu ! i)"
  shows "slots_ok (fst (osdp_acu_internal_deliver_reply acu w i frame p n))"
  using assms by (auto simp: osdp_acu_internal_deliver_reply_def Let_def case_prod_beta intro!: acu_slots_upd slot_ok_served)

lemma unwrap_established:
  "osdp_sc_unwrap_frame c s f cap = Inr (p, s') \<Longrightarrow> ss_established s'"
  by (auto simp: osdp_sc_unwrap_frame_def Let_def split: if_splits sum.splits)

lemma wrap_established:
  "osdp_sc_wrap_frame c s f cap = Inr (b, s') \<Longrightarrow> ss_established s'"
  by (auto simp: osdp_sc_wrap_frame_def Let_def split: if_splits sum.splits)

lemma handle_sc_reply_ok:
  assumes "slots_ok acu" "i < length (ac_pds acu)" "ap_sc_phase (ac_pds acu ! i) = OSDP_ACU_SC_ESTABLISHED"
  shows "slots_ok (fst (osdp_acu_internal_handle_sc_reply acu w i frame))"
proof -
  have u: "ap_in_use (ac_pds acu ! i)"
    using slots_ok_nth [OF assms(1,2)] assms(3) by (auto simp: slot_ok_def)
  have "slots_ok (upd_slot acu i (\<lambda>s. s\<lparr>ap_sc_session := session\<rparr>))" if "ss_established session" for session
    using assms(1) by (rule acu_slots_upd) (use assms(3) that in \<open>auto simp: slot_ok_def\<close>)
  then show ?thesis
    unfolding osdp_acu_internal_handle_sc_reply_def Let_def
    using assms(1,2) u by (auto simp: terminate_ok split: sum.splits dest!: unwrap_established intro!: deliver_reply_ok)
qed

section \<open>The tick\<close>

lemma find_slot_in_range:
  "find_slot_by_address acu addr = Some i \<Longrightarrow> i < length (ac_pds acu)"
  "find_slot_by_address acu addr = Some i \<Longrightarrow> ap_in_use (ac_pds acu ! i)"
  by (auto simp: find_slot_by_address_def dest: first_index_SomeD)

lemma tick_frame_ok:
  assumes "slots_ok acu"
  shows "slots_ok (fst (acu_tick_frame acu w r frame))"
  using assms
  by (auto simp: acu_tick_frame_def route_sc_reply_def process_reply_def Let_def handle_ccrypt_ok handle_rmac_i_ok handle_sc_reply_ok
      terminate_ok deliver_reply_ok find_slot_in_range split: option.splits)

lemma acu_read_loop_wf: "stream_wf rx \<Longrightarrow> stream_wf (fst (acu_read_loop read rx w d))"
proof (induction read rx w d rule: acu_read_loop.induct)
  case (1 read rx w d)
  obtain n chunk w1 where r: "read w 128 = (n, chunk, w1)"
    by (cases "read w 128")
  show ?case
    using 1(1) [OF r [symmetric] refl] r 1(2) feed_wf_any [OF 1(2)]
    by (subst acu_read_loop.simps) (auto simp: Let_def)
qed

text \<open>What handling frames leaves alone: everything but the slots.\<close>

lemma slot_mask_pds: "slot_mask i b = slot_mask i a \<Longrightarrow> b\<lparr>ac_pds := []\<rparr> = a\<lparr>ac_pds := []\<rparr>"
  by (drule arg_cong [where f = "\<lambda>a. a\<lparr>ac_pds := []\<rparr>"]) (simp add: slot_mask_def)

lemma acu_tick_frame_pds: "(fst (acu_tick_frame acu w r f))\<lparr>ac_pds := []\<rparr> = acu\<lparr>ac_pds := []\<rparr>"
  by (simp add: acu_tick_frame_def route_sc_reply_def process_reply_def Let_def slot_mask_pds [OF handle_ccrypt_slot]
      slot_mask_pds [OF handle_rmac_i_slot] slot_mask_pds [OF handle_sc_reply_slot] slot_mask_pds [OF terminate_sc_slot]
      slot_mask_pds [OF deliver_reply_slot] split: option.splits)

lemma tick_frame_rest:
  "length (ac_pds (fst (acu_tick_frame acu w r f))) = length (ac_pds acu)"
  "ac_leds (fst (acu_tick_frame acu w r f)) = ac_leds acu" "ac_buzzers (fst (acu_tick_frame acu w r f)) = ac_buzzers acu"
proof -
  show "length (ac_pds (fst (acu_tick_frame acu w r f))) = length (ac_pds acu)"
    by (simp add: acu_tick_frame_def route_sc_reply_def process_reply_def Let_def slot_maskD(3) [OF handle_ccrypt_slot]
      slot_maskD(3) [OF handle_rmac_i_slot] slot_maskD(3) [OF handle_sc_reply_slot] slot_maskD(3) [OF terminate_sc_slot]
      slot_maskD(3) [OF deliver_reply_slot] split: option.splits)
qed (use arg_cong [OF acu_tick_frame_pds, of ac_leds] arg_cong [OF acu_tick_frame_pds, of ac_buzzers] in simp_all)

lemma tick_frame_wf:
  assumes "acu_wf acu" "stream_wf rx"
  shows "acu_wf (fst (acu_tick_frame (acu\<lparr>ac_rx := rx\<rparr>) w r f))"
  using assms tick_frame_ok [of "acu\<lparr>ac_rx := rx\<rparr>" w r f]
  by (simp add: acu_wf_def tick_frame_rest acu_tick_frame_rx)

lemma acu_frame_loop_wf:
  "acu_wf acu \<Longrightarrow> acu_wf (fst (acu_frame_loop acu w)) \<and> length (ac_pds (fst (acu_frame_loop acu w))) = length (ac_pds acu)"
proof (induction acu w rule: acu_frame_loop.induct)
  case (1 acu w)
  obtain r f rx where n: "osdp_stream_next (ac_rx acu) zero_frame = (r, f, rx)"
    by (cases "osdp_stream_next (ac_rx acu) zero_frame")
  have wf: "stream_wf rx"
    using rx.next_wf [OF _ n] 1(2) by (simp add: acu_wf_def)
  obtain acu1 w1 where t: "acu_tick_frame (acu\<lparr>ac_rx := rx\<rparr>) w r f = (acu1, w1)"
    by (meson surj_pair)
  have "acu_wf acu1" "length (ac_pds acu1) = length (ac_pds acu)"
    using tick_frame_wf [OF 1(2) wf, of w r f] tick_frame_rest(1) [of "acu\<lparr>ac_rx := rx\<rparr>" w r f] t by simp_all
  with 1 wf n t show ?case
    by (subst (1 2) acu_frame_loop.simps) (auto simp: acu_wf_def)
qed

lemma slot_mask_wf:
  assumes "slot_mask i b = slot_mask i a" "slots_ok b" "acu_wf a"
  shows "acu_wf b \<and> length (ac_pds b) = length (ac_pds a)"
  using slot_maskD(1,3) [OF assms(1)] arg_cong [OF assms(1), of ac_leds] arg_cong [OF assms(1), of ac_buzzers] assms(2,3)
  by (simp add: acu_wf_def slot_mask_def)

lemma acu_wf_upd:
  assumes "acu_wf acu" "\<And>s. slot_ok s \<Longrightarrow> slot_ok (f s)"
  shows "acu_wf (upd_slot acu i f) \<and> length (ac_pds (upd_slot acu i f)) = length (ac_pds acu)"
  using acu_slots_upd [of acu i f] assms by (intro slot_mask_wf [of i]) (simp_all add: acu_wf_def)

lemma scan_slot_wf:
  fixes acu :: "'w osdp_acu"
  assumes "acu_wf acu"
  shows "acu_wf (fst (scan_slot acu now w i)) \<and> length (ac_pds (fst (scan_slot acu now w i))) = length (ac_pds acu)"
proof -
  have ok: "slots_ok acu"
    using assms by (simp add: acu_wf_def)
  have r: "slots_ok (fst (scan_reply_timeout acu now w i)) \<and> slot_mask i (fst (scan_reply_timeout acu now w i)) = slot_mask i acu"
    using ok by (auto simp: scan_reply_timeout_def Let_def slot_ok_def intro!: acu_slots_upd)
  have "slots_ok (fst (scan_online a now v i)) \<and> slot_mask i (fst (scan_online a now v i)) = slot_mask i a" if "slots_ok a" for a :: "'w osdp_acu" and v
  proof -
    have "slots_ok (upd_slot a i (\<lambda>s. s\<lparr>ap_online := False\<rparr>))"
      using that by (rule acu_slots_upd) (simp add: slot_ok_def)
    with that show ?thesis
      by (auto simp: scan_online_def Let_def terminate_ok)
  qed
  with r ok have "slots_ok (fst (scan_slot acu now w i)) \<and> slot_mask i (fst (scan_slot acu now w i)) = slot_mask i acu"
    by (simp add: scan_slot_def case_prod_beta)
  with slot_mask_wf [OF _ _ assms] show ?thesis by blast
qed

lemma scan_slots_wf:
  "acu_wf acu \<Longrightarrow> acu_wf (fst (scan_slots acu now w is)) \<and> length (ac_pds (fst (scan_slots acu now w is))) = length (ac_pds acu)"
proof (induction "is" arbitrary: acu w)
  case (Cons i "is")
  have "acu_wf (fst (scan_slot acu now w i)) \<and> length (ac_pds (fst (scan_slot acu now w i))) = length (ac_pds acu)"
    using scan_slot_wf [OF Cons.prems] by blast
  with Cons.IH show ?case
    by (simp add: Let_def case_prod_beta)
qed simp

lemma refresh_wf:
  "acu_wf acu \<Longrightarrow> acu_wf (fst (acu_led_refresh acu now w))" "acu_wf acu \<Longrightarrow> acu_wf (fst (acu_buz_refresh acu now w))"
  "ac_pds (fst (acu_led_refresh acu now w)) = ac_pds acu" "ac_pds (fst (acu_buz_refresh acu now w)) = ac_pds acu"
proof -
  have l: "length (fst (acu_led_refresh_slots cb now ss w)) = length ss" for cb ss and w :: 'a
    by (induction ss arbitrary: w) (simp_all add: Let_def case_prod_beta)
  have b: "length (fst (acu_buz_refresh_slots cb now ss w)) = length ss" for cb ss and w :: 'a
    by (induction ss arbitrary: w) (simp_all add: Let_def case_prod_beta)
  show "acu_wf acu \<Longrightarrow> acu_wf (fst (acu_led_refresh acu now w))" "acu_wf acu \<Longrightarrow> acu_wf (fst (acu_buz_refresh acu now w))"
    "ac_pds (fst (acu_led_refresh acu now w)) = ac_pds acu" "ac_pds (fst (acu_buz_refresh acu now w)) = ac_pds acu"
    using l b by (auto simp: acu_led_refresh_def acu_buz_refresh_def acu_wf_def case_prod_beta split: option.splits)
qed

lemma bank_wf:
  "acu_wf acu \<Longrightarrow> length l = length (ac_leds acu) \<Longrightarrow> acu_wf (acu\<lparr>ac_leds := l\<rparr>)"
  "acu_wf acu \<Longrightarrow> length b = length (ac_buzzers acu) \<Longrightarrow> acu_wf (acu\<lparr>ac_buzzers := b\<rparr>)"
  by (simp_all add: acu_wf_def)

lemma led_apply_wf: "acu_wf acu \<Longrightarrow> acu_wf (acu_led_apply_loop acu a now rs) \<and> ac_pds (acu_led_apply_loop acu a now rs) = ac_pds acu"
proof (induction rs arbitrary: acu)
  case (Cons r rs)
  obtain k acu1 where k: "acu_led_slot acu a (lr_reader_no r) (lr_led_no r) = (k, acu1)"
    by (meson surj_pair)
  then have "acu_wf acu1 \<and> ac_pds acu1 = ac_pds acu"
    using Cons.prems by (auto simp: acu_led_slot_def acu_wf_def split: prod.splits option.splits)
  then show ?case
    using Cons.IH k by (cases k) (simp_all add: bank_wf)
qed simp

lemma observe_led_wf:
  assumes "acu_wf acu"
  shows "acu_wf (fst (acu_observe_led acu w a c p n))" "ac_pds (fst (acu_observe_led acu w a c p n)) = ac_pds acu"
  using led_apply_wf [OF assms] assms by (auto simp: acu_observe_led_def refresh_wf case_prod_beta split: sum.splits)

lemma observe_buzzer_wf:
  assumes "acu_wf acu"
  shows "acu_wf (fst (acu_observe_buzzer acu w a c p n))" "ac_pds (fst (acu_observe_buzzer acu w a c p n)) = ac_pds acu"
proof -
  have k: "acu_wf (snd (acu_buz_slot acu a r))" "ac_pds (snd (acu_buz_slot acu a r)) = ac_pds acu" for r
    using assms by (auto simp: acu_buz_slot_def acu_wf_def split: prod.splits option.splits)
  then show "acu_wf (fst (acu_observe_buzzer acu w a c p n))" "ac_pds (fst (acu_observe_buzzer acu w a c p n)) = ac_pds acu"
    using assms by (auto simp: acu_observe_buzzer_def refresh_wf bank_wf case_prod_beta split: sum.splits option.splits)
qed

lemma acu_tick_wf:
  assumes "acu_wf acu" "osdp_acu_tick acu w = (acu', w')"
  shows "acu_wf acu' \<and> length (ac_pds acu') = length (ac_pds acu)"
proof (cases "at_read (ac_transport acu)")
  case (Some read)
  define A where "A = scan_timeouts_and_offline acu w"
  define R where "R = acu_read_loop read (ac_rx (fst A)) (snd A) 0"
  define B where "B = acu_frame_loop ((fst A)\<lparr>ac_rx := fst R\<rparr>) (snd R)"
  define C where "C = acu_check_interchar_timeout (fst B) (snd B)"
  have a: "acu_wf (fst A) \<and> length (ac_pds (fst A)) = length (ac_pds acu)"
    using scan_slots_wf [OF assms(1)] assms(1) by (simp add: A_def scan_timeouts_and_offline_def case_prod_beta split: option.splits)
  then have "acu_wf ((fst A)\<lparr>ac_rx := fst R\<rparr>)"
    using acu_read_loop_wf [of "ac_rx (fst A)"] by (simp add: acu_wf_def R_def)
  then have b: "acu_wf (fst B) \<and> length (ac_pds (fst B)) = length (ac_pds acu)"
    using acu_frame_loop_wf [of "(fst A)\<lparr>ac_rx := fst R\<rparr>" "snd R"] a by (simp add: B_def)
  then have c: "acu_wf (fst C) \<and> length (ac_pds (fst C)) = length (ac_pds acu)"
    by (auto simp: C_def acu_check_interchar_timeout_def Let_def acu_wf_def osdp_stream_reset_def osdp_stream_init_def stream_wf_def
        split: option.splits prod.splits)
  have "(acu', w') = (let (now, w5) = now_ms_or_zero (fst C) (snd C); (acu4, w6) = acu_led_refresh (fst C) now w5 in acu_buz_refresh acu4 now w6)"
    using assms(2) Some by (simp add: osdp_acu_tick_def A_def R_def B_def C_def Let_def case_prod_beta)
  with c show ?thesis
    by (simp add: Let_def case_prod_beta prod_eq_iff refresh_wf)
qed (use assms in \<open>simp add: osdp_acu_tick_def\<close>)

section \<open>Sending\<close>

lemma build_command_session:
  assumes "build_command acu s f = Inr (b, session)" "slot_ok s" "ap_in_use s"
  shows "slot_ok (mark_pending (ap_next_seq s AND 3) code now (s\<lparr>ap_sc_session := session\<rparr>))" "slot_ok (s\<lparr>ap_sc_session := session\<rparr>)"
proof -
  have "ss_established session \<longleftrightarrow> ss_established (ap_sc_session s)"
    using assms(1,2) wrap_established by (fastforce simp: build_command_def slot_ok_def split: if_splits sum.splits)
  with assms(2) show a: "slot_ok (s\<lparr>ap_sc_session := session\<rparr>)"
    by (simp add: slot_ok_def)
  with assms(3) show "slot_ok (mark_pending (ap_next_seq s AND 3) code now (s\<lparr>ap_sc_session := session\<rparr>))"
    using slot_ok_mark [OF a] by simp
qed

lemma send_command_wf:
  assumes "acu_wf acu" "osdp_acu_send_command acu w a c p n = (st, acu', w')"
  shows "acu_wf acu' \<and> length (ac_pds acu') = length (ac_pds acu)"
proof (cases "acu' = acu")
  case False
  obtain i where f: "find_slot_by_address acu a = Some i"
    using assms(2) False by (auto simp: osdp_acu_send_command_def split: if_splits option.splits)
  note i = find_slot_in_range [OF f]
  let ?s = "ac_pds acu ! i" and ?f = "command_frame acu (ac_pds acu ! i) a c p n"
  obtain b session where b: "build_command acu ?s ?f = Inr (b, session)"
    using assms(2) False f by (auto simp: osdp_acu_send_command_def Let_def split: if_splits sum.splits)
  have ok: "slots_ok acu" "slot_ok ?s"
    using assms(1) i(1) slots_ok_nth by (auto simp: acu_wf_def)
  have u: "acu_wf (upd_slot acu i g)" if "slot_ok (g ?s)" for g
    using slot_mask_wf [OF slot_mask_upd _ assms(1)] acu_slots_upd [OF ok(1), of i g] that by blast
  have w: "acu_wf (upd_slot acu i (\<lambda>s. mark_pending (ap_next_seq ?s AND 3) c now (s\<lparr>ap_sc_session := session\<rparr>)))"
      "acu_wf (upd_slot acu i (\<lambda>s. s\<lparr>ap_sc_session := session\<rparr>))" for now
    using build_command_session [OF b ok(2) i(2)] by (simp_all add: u)
  show ?thesis
    using assms(2) False f i b
    by (auto simp: osdp_acu_send_command_def Let_def command_frame_def observe_led_wf observe_buzzer_wf w
        split: if_splits prod.splits dest!: arg_cong [where f = fst])
qed (use assms in simp)

text \<open>A slot that may take part in a handshake.\<close>

definition unsecured :: "'w osdp_acu \<Rightarrow> nat \<Rightarrow> bool" where
  "unsecured acu i \<longleftrightarrow> slots_ok acu \<and> i < length (ac_pds acu) \<and> ap_in_use (ac_pds acu ! i) \<and>
     \<not> ss_established (ap_sc_session (ac_pds acu ! i))"

lemma unsecured_upd:
  assumes "unsecured acu i" "slot_ok (g (ac_pds acu ! i))" "ap_in_use (g (ac_pds acu ! i))"
    "\<not> ss_established (ap_sc_session (g (ac_pds acu ! i)))"
  shows "unsecured (upd_slot acu i g) i"
  using assms by (simp add: unsecured_def acu_slots_upd)

lemma unsecured_slot: "unsecured acu i \<Longrightarrow> slot_ok (ac_pds acu ! i)"
  by (simp add: unsecured_def slots_ok_nth)

lemma send_chlng_ok:
  assumes "unsecured acu i" "osdp_acu_internal_send_chlng acu w i d = (st, acu', w')"
  shows "slots_ok acu'"
proof (cases "rand_bytes (ac_sc_crypto acu)")
  case (Some rnd)
  obtain s r w1 where r: "rnd w OSDP_SC_RND_LEN = (s, r, w1)"
    by (cases "rnd w OSDP_SC_RND_LEN")
  let ?k = "if d then 0 else 1 :: byte"
  let ?a = "upd_slot acu i (\<lambda>sl. sl\<lparr>ap_sc_rnd_a := r\<rparr>)"
  let ?b = "upd_slot acu i (\<lambda>sl. sl\<lparr>ap_sc_rnd_a := r, ap_sc_key_selector := ?k\<rparr>)"
  have u: "slot_ok (ac_pds acu ! i)" "ap_in_use (ac_pds acu ! i)" "\<not> ss_established (ap_sc_session (ac_pds acu ! i))"
    using assms(1) unsecured_slot by (auto simp: unsecured_def)
  have a: "unsecured ?a i" "unsecured ?b i"
    by (rule unsecured_upd [OF assms(1)]; use u in \<open>simp add: slot_ok_def\<close>)+
  obtain s2 acu3 w2 where c: "send_sc_cmd ?b w1 i OSDP_SCS_11 ?k OSDP_CMD_CHLNG (take OSDP_SC_RND_LEN r) = (s2, acu3, w2)"
    by (metis prod_cases3)
  have "unsecured acu3 i"
    using send_sc_cmd_slots [OF c] a(2) u assms(1) by (simp add: unsecured_def)
  then have "slots_ok acu3" "slots_ok (upd_slot acu3 i (\<lambda>sl. sl\<lparr>ap_sc_phase := OSDP_ACU_SC_AWAITING_CCRYPT\<rparr>))"
    by (auto simp: unsecured_def intro!: phase_ok)
  with a(1) assms Some r c show ?thesis
    by (auto simp: osdp_acu_internal_send_chlng_def Let_def unsecured_def split: if_splits)
qed (use assms in \<open>simp add: osdp_acu_internal_send_chlng_def unsecured_def\<close>)

lemma start_handshake_wf:
  assumes "acu_wf acu" "osdp_acu_start_sc_handshake acu w a d = (st, acu', w')"
  shows "acu_wf acu' \<and> length (ac_pds acu') = length (ac_pds acu)"
proof (cases "acu' = acu")
  case False
  obtain i where f: "find_slot_by_address acu a = Some i"
    using assms(2) False by (auto simp: osdp_acu_start_sc_handshake_def split: if_splits option.splits)
  note i = find_slot_in_range [OF f]
  let ?a = "upd_slot acu i (\<lambda>s. s\<lparr>ap_sc_session := osdp_sc_session_init, ap_sc_phase := OSDP_ACU_SC_IDLE\<rparr>)"
  have "slots_ok ?a"
    using assms(1) i(2) by (intro acu_slots_upd) (simp_all add: acu_wf_def slot_ok_def osdp_sc_session_init_def)
  then have u: "unsecured ?a i"
    using i by (simp add: unsecured_def osdp_sc_session_init_def)
  have s: "osdp_acu_internal_send_chlng ?a w i d = (st, acu', w')"
    using assms(2) False f by (auto simp: osdp_acu_start_sc_handshake_def Let_def split: if_splits)
  show ?thesis
    using slot_mask_wf [OF _ send_chlng_ok [OF u s] assms(1)] send_chlng_slot [OF s] by simp
qed (use assms in simp)

section \<open>The application's interface\<close>

text \<open>One call of a function of \<^verbatim>\<open>osdp_acu.h\<close> that changes the context, against any transport, crypto and
  environment.\<close>

inductive acu_call :: "'w osdp_acu \<Rightarrow> 'w osdp_acu \<Rightarrow> bool" where
  set_transport: "acu_call acu (osdp_acu_set_transport acu t)"
| set_reply_handler: "acu_call acu (osdp_acu_set_reply_handler acu rcb)"
| set_timeout_handler: "acu_call acu (osdp_acu_set_timeout_handler acu tcb)"
| set_integrity: "acu_call acu (osdp_acu_set_integrity acu integrity)"
| set_led_handler: "acu_call acu (osdp_acu_set_led_handler acu lcb)"
| set_buzzer_handler: "acu_call acu (osdp_acu_set_buzzer_handler acu bcb)"
| set_sc_crypto: "acu_call acu (osdp_acu_set_sc_crypto acu c)"
| set_sc_event_handler: "acu_call acu (osdp_acu_set_sc_event_handler acu ecb)"
| register_pd: "acu_call acu (snd (osdp_acu_register_pd acu i a))"
| set_pd_scbk: "acu_call acu (snd (osdp_acu_set_pd_scbk acu a k))"
| set_pd_scbk_d: "acu_call acu (snd (osdp_acu_set_pd_scbk_d acu a k))"
| send_command: "osdp_acu_send_command acu w a c p n = (st, acu', w') \<Longrightarrow> acu_call acu acu'"
| start_sc_handshake: "osdp_acu_start_sc_handshake acu w a d = (st, acu', w') \<Longrightarrow> acu_call acu acu'"
| tick: "osdp_acu_tick acu w = (acu', w') \<Longrightarrow> acu_call acu acu'"

inductive acu_reachable :: "nat \<Rightarrow> 'w osdp_acu \<Rightarrow> bool" for n where
  init: "acu_reachable n (osdp_acu_init n)"
| call: "acu_reachable n acu \<Longrightarrow> acu_call acu acu' \<Longrightarrow> acu_reachable n acu'"

lemma acu_call_wf:
  assumes "acu_call acu acu'" "acu_wf acu"
  shows "acu_wf acu' \<and> length (ac_pds acu') = length (ac_pds acu)"
  using assms
proof cases
  case (register_pd i a)
  have "slot_ok (zero_acu_pd_slot\<lparr>ap_in_use := True, ap_address := a, ap_next_seq := 0\<rparr>)"
    by (simp add: slot_ok_def zero_acu_pd_slot_def osdp_sc_session_init_def)
  with acu_wf_upd [OF assms(2)] register_pd assms(2) show ?thesis
    by (simp add: osdp_acu_register_pd_def)
next
  case (set_pd_scbk a k)
  with acu_wf_upd [OF assms(2)] assms(2) show ?thesis
    by (simp add: osdp_acu_set_pd_scbk_def slot_ok_def split: option.splits)
next
  case (set_pd_scbk_d a k)
  with acu_wf_upd [OF assms(2)] assms(2) show ?thesis
    by (simp add: osdp_acu_set_pd_scbk_d_def slot_ok_def split: option.splits)
next
  case send_command
  with assms(2) show ?thesis by (rule send_command_wf)
next
  case start_sc_handshake
  with assms(2) show ?thesis by (rule start_handshake_wf)
next
  case tick
  with assms(2) show ?thesis by (rule acu_tick_wf)
qed (simp_all add: acu_wf_def osdp_acu_set_transport_def osdp_acu_set_reply_handler_def osdp_acu_set_timeout_handler_def
    osdp_acu_set_integrity_def osdp_acu_set_led_handler_def osdp_acu_set_buzzer_handler_def osdp_acu_set_sc_crypto_def
    osdp_acu_set_sc_event_handler_def)

lemma acu_init_wf: "acu_wf (osdp_acu_init n)"
  by (simp add: acu_wf_def osdp_acu_init_def osdp_stream_init_def stream_wf_def list_all_length slot_ok_zero)

lemma acu_reachable_inv:
  assumes "acu_reachable n acu"
  shows "acu_wf acu" "length (ac_pds acu) = n"
  using assms by (induction, simp_all add: acu_init_wf acu_call_wf) (simp add: osdp_acu_init_def)

section \<open>A reply handled twice\<close>

text \<open>No handler changes which slot answers for an address.\<close>

definition same_slots :: "'w osdp_acu \<Rightarrow> 'w osdp_acu \<Rightarrow> bool" where
  "same_slots a b \<longleftrightarrow> map (\<lambda>s. (ap_in_use s, ap_address s)) (ac_pds a) = map (\<lambda>s. (ap_in_use s, ap_address s)) (ac_pds b)"

lemma same_slots_upd:
  assumes "\<And>s. ap_in_use (f s) = ap_in_use s" "\<And>s. ap_address (f s) = ap_address s"
  shows "same_slots (upd_slot acu i f) b \<longleftrightarrow> same_slots acu b"
proof (cases "i < length (ac_pds acu)")
  case True
  have "map (\<lambda>s. (ap_in_use s, ap_address s)) ((ac_pds acu)[i := f (ac_pds acu ! i)]) = map (\<lambda>s. (ap_in_use s, ap_address s)) (ac_pds acu)"
    using True assms by (simp add: map_update list_update_same_conv)
  then show ?thesis by (simp add: same_slots_def upd_slot_def)
qed (simp add: same_slots_def upd_slot_def list_update_beyond)

lemma first_index_map: "first_index P (map f xs) = first_index (P \<circ> f) xs"
  by (induction xs) auto

lemma same_slots_find: "same_slots a b \<Longrightarrow> find_slot_by_address a addr = find_slot_by_address b addr"
  using first_index_map [of "\<lambda>(u, a). u \<and> a = addr" "\<lambda>s. (ap_in_use s, ap_address s)" "ac_pds a"]
    first_index_map [of "\<lambda>(u, a). u \<and> a = addr" "\<lambda>s. (ap_in_use s, ap_address s)" "ac_pds b"]
  by (simp add: same_slots_def find_slot_by_address_def comp_def)

lemma same_slots_refl [simp]: "same_slots a a"
  by (simp add: same_slots_def)

lemma handshake_failed_effect:
  assumes "i < length (ac_pds acu)"
  shows "same_slots (fst (handshake_failed acu w i)) b \<longleftrightarrow> same_slots acu b" "ap_sc_phase (ac_pds (fst (handshake_failed acu w i)) ! i) = OSDP_ACU_SC_IDLE"
  using assms by (simp_all add: handshake_failed_def Let_def reset_sc_handshake_def same_slots_upd)

lemma terminate_effect:
  assumes "i < length (ac_pds acu)"
  shows "same_slots (fst (osdp_acu_internal_terminate_sc acu w i)) b \<longleftrightarrow> same_slots acu b"
    "ap_sc_phase (ac_pds (fst (osdp_acu_internal_terminate_sc acu w i)) ! i) = OSDP_ACU_SC_IDLE"
    "\<not> ap_waiting (ac_pds (fst (osdp_acu_internal_terminate_sc acu w i)) ! i)"
  using assms by (simp_all add: osdp_acu_internal_terminate_sc_def Let_def reset_sc_handshake_def same_slots_upd)

lemma deliver_effect:
  assumes "i < length (ac_pds acu)"
  shows "same_slots (fst (osdp_acu_internal_deliver_reply acu w i f p n)) b \<longleftrightarrow> same_slots acu b"
    "ap_sc_phase (ac_pds (fst (osdp_acu_internal_deliver_reply acu w i f p n)) ! i) = ap_sc_phase (ac_pds acu ! i)"
    "\<not> ap_waiting (ac_pds (fst (osdp_acu_internal_deliver_reply acu w i f p n)) ! i)"
  using assms by (simp_all add: osdp_acu_internal_deliver_reply_def Let_def case_prod_beta same_slots_upd)

lemma send_sc_cmd_effect:
  assumes "send_sc_cmd acu w i t k c p = (st, acu', w')"
  shows "same_slots acu' b \<longleftrightarrow> same_slots acu b" "length (ac_pds acu') = length (ac_pds acu)"
  using assms
  by (auto simp: send_sc_cmd_def Let_def mark_pending_def same_slots_upd split: sum.splits prod.splits if_splits)

lemma send_scrypt_effect:
  assumes "i < length (ac_pds acu)"
  shows "same_slots (fst (send_scrypt acu w i keys)) b \<longleftrightarrow> same_slots acu b"
    "ap_sc_phase (ac_pds (fst (send_scrypt acu w i keys)) ! i) \<noteq> OSDP_ACU_SC_AWAITING_CCRYPT"
proof -
  let ?a = "upd_slot acu i (\<lambda>s. s\<lparr>ap_sc_session := (ap_sc_session s)\<lparr>ss_keys := keys\<rparr>\<rparr>)"
  let ?b = "upd_slot ?a i (\<lambda>s. s\<lparr>ap_next_seq := advance_sqn (ap_pending_seq s), ap_waiting := False\<rparr>)"
  have s: "same_slots ?a b \<longleftrightarrow> same_slots acu b" "same_slots ?b b \<longleftrightarrow> same_slots acu b" and l: "i < length (ac_pds ?b)"
    using assms by (simp_all add: same_slots_upd del: upd_slot_upd)
  show "same_slots (fst (send_scrypt acu w i keys)) b \<longleftrightarrow> same_slots acu b"
    "ap_sc_phase (ac_pds (fst (send_scrypt acu w i keys)) ! i) \<noteq> OSDP_ACU_SC_AWAITING_CCRYPT"
    using send_sc_cmd_effect [where acu = ?b] s l assms
    by (auto simp: send_scrypt_def Let_def handshake_failed_effect same_slots_upd simp del: upd_slot_upd split: sum.splits prod.splits)
qed

lemma handle_ccrypt_effect:
  assumes "i < length (ac_pds acu)"
  shows "same_slots (fst (osdp_acu_internal_handle_ccrypt acu w i f)) b \<longleftrightarrow> same_slots acu b"
    "(\<forall>v. osdp_acu_internal_handle_ccrypt acu v i f = (acu, v)) \<or>
     ap_sc_phase (ac_pds (fst (osdp_acu_internal_handle_ccrypt acu w i f)) ! i) \<noteq> OSDP_ACU_SC_AWAITING_CCRYPT"
  unfolding osdp_acu_internal_handle_ccrypt_def Let_def
  using assms by (auto simp: handshake_failed_effect send_scrypt_effect same_slots_upd split: sum.splits prod.splits)

lemma handle_rmac_i_effect:
  assumes "i < length (ac_pds acu)"
  shows "same_slots (fst (osdp_acu_internal_handle_rmac_i acu w i f)) b \<longleftrightarrow> same_slots acu b"
    "(\<forall>v. osdp_acu_internal_handle_rmac_i acu v i f = (acu, v)) \<or>
     ap_sc_phase (ac_pds (fst (osdp_acu_internal_handle_rmac_i acu w i f)) ! i) \<noteq> OSDP_ACU_SC_AWAITING_RMAC_I"
  unfolding osdp_acu_internal_handle_rmac_i_def Let_def
  using assms by (auto simp: handshake_failed_effect same_slots_upd case_prod_beta split: sum.splits)

lemma handle_sc_reply_effect:
  assumes "i < length (ac_pds acu)"
  shows "same_slots (fst (osdp_acu_internal_handle_sc_reply acu w i f)) b \<longleftrightarrow> same_slots acu b"
    "(\<forall>v. osdp_acu_internal_handle_sc_reply acu v i f = (acu, v)) \<or>
     ap_sc_phase (ac_pds (fst (osdp_acu_internal_handle_sc_reply acu w i f)) ! i) = OSDP_ACU_SC_IDLE \<or>
     fr_sequence f \<noteq> 0 \<and> \<not> ap_waiting (ac_pds (fst (osdp_acu_internal_handle_sc_reply acu w i f)) ! i)"
  unfolding osdp_acu_internal_handle_sc_reply_def Let_def
  using assms by (auto simp: terminate_effect deliver_effect same_slots_upd split: sum.splits prod.splits)

lemma process_reply_effect:
  "same_slots (fst (process_reply acu w f)) b \<longleftrightarrow> same_slots acu b"
  "(\<forall>v. process_reply acu v f = (acu, v)) \<or>
     (\<exists>i. find_slot_by_address acu (fr_address f) = Some i \<and> \<not> ap_waiting (ac_pds (fst (process_reply acu w f)) ! i) \<and>
        (ap_sc_phase (ac_pds (fst (process_reply acu w f)) ! i) = OSDP_ACU_SC_ESTABLISHED \<longrightarrow>
           fr_sequence f \<noteq> 0 \<and> fr_code f = OSDP_REPLY_BUSY))"
  unfolding process_reply_def Let_def
  by (auto simp: terminate_effect deliver_effect find_slot_in_range split: option.splits)

lemma route_twice:
  assumes "route_sc_reply acu w f = (acu1, w1)"
  shows "route_sc_reply acu1 v f = (acu1, v)"
proof (cases "find_slot_by_address acu (fr_address f)")
  case None
  with assms show ?thesis
    by (auto simp: route_sc_reply_def)
next
  case (Some i)
  note l = find_slot_in_range(1) [OF Some]
  note e = handle_ccrypt_effect [OF l, where w = w and f = f] handle_rmac_i_effect [OF l, where w = w and f = f] handle_sc_reply_effect [OF l, where w = w and f = f]
  have "same_slots acu1 acu"
    using assms Some e(1,3,5) [where b = acu] by (auto simp: route_sc_reply_def Let_def split: if_splits)
  then have "find_slot_by_address acu1 (fr_address f) = Some i"
    using Some by (simp add: same_slots_find)
  with assms Some e(2,4,6) show ?thesis
    by (auto simp: route_sc_reply_def osdp_acu_internal_handle_sc_reply_def Let_def split: if_splits)
qed

lemma process_reply_twice:
  assumes "process_reply acu w f = (acu1, w1)"
  shows "process_reply acu1 v f = (acu1, v)"
proof -
  have "find_slot_by_address acu1 (fr_address f) = find_slot_by_address acu (fr_address f)"
    using process_reply_effect(1) [of acu w f acu] assms by (simp add: same_slots_find)
  with process_reply_effect(2) [where acu = acu and f = f and w = w] assms show ?thesis
    by (auto simp: process_reply_def Let_def)
qed

lemma tick_frame_twice:
  "acu_tick_frame acu w r f = (acu1, w1) \<Longrightarrow> acu_tick_frame acu1 v r f = (acu1, v)"
  by (auto simp: acu_tick_frame_def process_reply_twice route_twice split: if_splits)

section \<open>Properties\<close>

text \<open>C5. Whatever an application does with a control unit, in any order and on any line, the context stays
  well formed: the table of devices keeps its size, the receive stream its bounds, sequence numbers stay in
  0 to 3, the phase of a slot and the state of its session agree, and a secured slot never uses sequence
  number 0.\<close>

theorem acu_invariant:
  assumes "acu_reachable n acu" and "i < n"
  shows "length (ac_pds acu) = n \<and> stream_wf (ac_rx acu) \<and>
    ap_next_seq (ac_pds acu ! i) \<le> 3 \<and> ap_pending_seq (ac_pds acu ! i) \<le> 3 \<and>
    (ap_sc_phase (ac_pds acu ! i) = OSDP_ACU_SC_ESTABLISHED \<longleftrightarrow> ss_established (ap_sc_session (ac_pds acu ! i))) \<and>
    (ap_sc_phase (ac_pds acu ! i) = OSDP_ACU_SC_ESTABLISHED \<longrightarrow>
       ap_next_seq (ac_pds acu ! i) \<noteq> 0 \<and> (ap_waiting (ac_pds acu ! i) \<longrightarrow> ap_pending_seq (ac_pds acu ! i) \<noteq> 0))"
proof -
  have "slot_ok (ac_pds acu ! i)"
    using acu_reachable_inv [OF assms(1)] assms(2) by (simp add: acu_wf_def list_all_length)
  with acu_reachable_inv [OF assms(1)] show ?thesis
    by (simp add: acu_wf_def slot_ok_def)
qed

theorem acu_invariant_witness:
  "length (ac_pds (snd (osdp_acu_register_pd (osdp_acu_init 2 :: unit osdp_acu) 1 5))) = 2 \<and>
   stream_wf (ac_rx (snd (osdp_acu_register_pd (osdp_acu_init 2 :: unit osdp_acu) 1 5)))"
proof -
  have "acu_reachable 2 (snd (osdp_acu_register_pd (osdp_acu_init 2 :: unit osdp_acu) 1 5))"
    by (rule acu_reachable.call [OF acu_reachable.init acu_call.register_pd])
  from acu_invariant [OF this, of 1] show ?thesis by simp
qed

text \<open>C10. A reply that arrives twice counts once: whatever a control unit made of a frame - delivered it, took it
  as a step of the handshake, ended the session over it or dropped it - the same frame again changes neither the
  context nor the application, whenever it arrives.\<close>

theorem duplicate_reply_ignored:
  "acu_tick_frame (fst (acu_tick_frame acu w r frame)) v r frame = (fst (acu_tick_frame acu w r frame), v)"
  by (rule tick_frame_twice [of acu w r frame _ "snd (acu_tick_frame acu w r frame)"]) simp

text \<open>C12. Clear replies during an established session: any reply other than osdp_BUSY ends the session, whatever its
  sequence number. The slot is idle with an empty session, waits for nothing and starts again at sequence number
  zero, the application is told that the session is lost and gets no reply, and no other slot changes. An
  osdp_BUSY with a sequence number other than zero leaves the session as it is: it is delivered when it answers the
  pending command, and ignored otherwise.\<close>

theorem clear_reply_in_session:
  assumes "find_slot_by_address acu (fr_address frame) = Some i" and "fr_reply frame" and "\<not> fr_has_scb frame"
    and "s = ac_pds acu ! i" and "ap_sc_phase s = OSDP_ACU_SC_ESTABLISHED"
    and "acu_tick_frame acu w OSDP_OK frame = (acu', w')" and "s' = ac_pds acu' ! i"
  shows "(fr_code frame \<noteq> OSDP_REPLY_BUSY \<longrightarrow>
      ap_sc_phase s' = OSDP_ACU_SC_IDLE \<and> ap_sc_session s' = osdp_sc_session_init \<and> \<not> ap_waiting s' \<and> ap_next_seq s' = 0 \<and>
      w' = fire_sc_event acu w (ap_address s) OSDP_ACU_SC_EVENT_SESSION_LOST) \<and>
    (fr_code frame = OSDP_REPLY_BUSY \<and> fr_sequence frame \<noteq> 0 \<longrightarrow>
      ap_sc_phase s' = OSDP_ACU_SC_ESTABLISHED \<and> ap_sc_session s' = ap_sc_session s \<and>
      (acu', w') = (if ap_waiting s \<and> fr_sequence frame = ap_pending_seq s
                    then osdp_acu_internal_deliver_reply acu w i frame (fr_payload frame) (fr_payload_len frame) else (acu, w))) \<and>
    (\<forall>j. j \<noteq> i \<longrightarrow> ac_pds acu' ! j = ac_pds acu ! j)"
proof -
  have i: "i < length (ac_pds acu)"
    by (rule find_slot_in_range [OF assms(1)])
  have t: "process_reply acu w frame = (acu', w')"
    using assms(2,3,6) by (simp add: acu_tick_frame_def)
  show ?thesis
  proof (cases "fr_code frame \<noteq> OSDP_REPLY_BUSY \<or> fr_sequence frame = 0")
    case True
    then have "osdp_acu_internal_terminate_sc acu w i = (acu', w')"
      using t assms(1,4,5) by (auto simp: process_reply_def Let_def split: if_splits)
    with True i assms(4,5,7) show ?thesis
      by (auto simp: osdp_acu_internal_terminate_sc_def Let_def reset_sc_handshake_def lost_event_def fire_sc_event_def upd_slot_def)
  next
    case False
    then have "(acu', w') = (if ap_waiting s \<and> fr_sequence frame = ap_pending_seq s
        then osdp_acu_internal_deliver_reply acu w i frame (fr_payload frame) (fr_payload_len frame) else (acu, w))"
      using t assms(1,4) by (auto simp: process_reply_def Let_def split: if_splits)
    with False i assms(4,5,7) show ?thesis
      by (auto simp: osdp_acu_internal_deliver_reply_def Let_def upd_slot_def split: if_splits prod.splits)
  qed
qed

definition ex_secured :: "osdp_acu_sc_event list osdp_acu" where
  "ex_secured = (osdp_acu_init 1)\<lparr>ac_sc_event_cb := Some (\<lambda>w e. w @ [e]), ac_pds := [zero_acu_pd_slot\<lparr>ap_in_use := True,
     ap_address := 5, ap_next_seq := 2, ap_sc_phase := OSDP_ACU_SC_ESTABLISHED, ap_sc_session := ex_session\<rparr>]\<rparr>"

theorem clear_reply_in_session_witness:
  "\<exists>acu'. acu_tick_frame ex_secured [] OSDP_OK (zero_frame\<lparr>fr_address := 5, fr_reply := True, fr_sequence := 1, fr_code := OSDP_REPLY_ACK\<rparr>)
     = (acu', [\<lparr>se_pd_address = 5, se_kind = OSDP_ACU_SC_EVENT_SESSION_LOST\<rparr>]) \<and>
   ap_sc_phase (ac_pds acu' ! 0) = OSDP_ACU_SC_IDLE \<and> ap_sc_session (ac_pds acu' ! 0) = osdp_sc_session_init"
proof -
  let ?f = "zero_frame\<lparr>fr_address := 5, fr_reply := True, fr_sequence := 1, fr_code := OSDP_REPLY_ACK\<rparr>"
  obtain acu' w' where t: "acu_tick_frame ex_secured [] OSDP_OK ?f = (acu', w')"
    by (meson surj_pair)
  have f: "find_slot_by_address ex_secured (fr_address ?f) = Some 0" "ap_sc_phase (ac_pds ex_secured ! 0) = OSDP_ACU_SC_ESTABLISHED"
      "ap_address (ac_pds ex_secured ! 0) = 5"
    by (simp_all add: ex_secured_def find_slot_by_address_def zero_acu_pd_slot_def)
  from clear_reply_in_session [OF f(1) _ _ refl f(2) t refl] f(3) t show ?thesis
    by (simp add: zero_frame_def fire_sc_event_def ex_secured_def)
qed

text \<open>A defect: the osdp_BUSY a device sends has sequence number zero, and zero is looked at first. So it ends an
  established session, although the comment exempts osdp_BUSY, and outside a session it is dropped when the pending
  command has another sequence number.\<close>

theorem busy_reply_ends_session:
  assumes "find_slot_by_address acu (fr_address frame) = Some i" and "fr_reply frame" and "\<not> fr_has_scb frame"
    and "fr_sequence frame = 0" and "fr_code frame = OSDP_REPLY_BUSY"
    and "acu_tick_frame acu w OSDP_OK frame = (acu', w')"
  shows "(ap_sc_phase (ac_pds acu ! i) = OSDP_ACU_SC_ESTABLISHED \<longrightarrow>
      ap_sc_phase (ac_pds acu' ! i) = OSDP_ACU_SC_IDLE \<and> \<not> ss_established (ap_sc_session (ac_pds acu' ! i)) \<and>
      w' = fire_sc_event acu w (ap_address (ac_pds acu ! i)) OSDP_ACU_SC_EVENT_SESSION_LOST) \<and>
    (ap_sc_phase (ac_pds acu ! i) \<noteq> OSDP_ACU_SC_ESTABLISHED \<and> ap_pending_seq (ac_pds acu ! i) \<noteq> 0 \<longrightarrow> acu' = acu \<and> w' = w)"
proof -
  have t: "process_reply acu w frame = (acu', w')"
    using assms(2,3,6) by (simp add: acu_tick_frame_def)
  show ?thesis
  proof (cases "ap_sc_phase (ac_pds acu ! i) = OSDP_ACU_SC_ESTABLISHED")
    case True
    with t assms(1,4) find_slot_in_range [OF assms(1)] show ?thesis
      by (auto simp: process_reply_def osdp_acu_internal_terminate_sc_def Let_def reset_sc_handshake_def osdp_sc_session_init_def
          lost_event_def fire_sc_event_def)
  next
    case False
    with t assms(1,4) show ?thesis
      by (auto simp: process_reply_def Let_def split: if_splits)
  qed
qed

theorem busy_reply_ends_session_witness:
  "\<exists>acu'. acu_tick_frame ex_secured [] OSDP_OK (zero_frame\<lparr>fr_address := 5, fr_reply := True, fr_code := OSDP_REPLY_BUSY\<rparr>)
     = (acu', [\<lparr>se_pd_address = 5, se_kind = OSDP_ACU_SC_EVENT_SESSION_LOST\<rparr>]) \<and> \<not> osdp_acu_is_pd_sc_established acu' 5"
proof -
  let ?f = "zero_frame\<lparr>fr_address := 5, fr_reply := True, fr_code := OSDP_REPLY_BUSY\<rparr>"
  obtain acu' w' where t: "acu_tick_frame ex_secured [] OSDP_OK ?f = (acu', w')"
    by (meson surj_pair)
  have f: "find_slot_by_address ex_secured (fr_address ?f) = Some 0" "ap_sc_phase (ac_pds ex_secured ! 0) = OSDP_ACU_SC_ESTABLISHED"
      "ap_address (ac_pds ex_secured ! 0) = 5"
    by (simp_all add: ex_secured_def find_slot_by_address_def zero_acu_pd_slot_def)
  have "find_slot_by_address acu' 5 = Some 0"
    using t f by (simp add: acu_tick_frame_def process_reply_def osdp_acu_internal_terminate_sc_def zero_frame_def Let_def)
      (auto simp: find_slot_by_address_def upd_slot_def ex_secured_def reset_sc_handshake_def zero_acu_pd_slot_def)
  with busy_reply_ends_session [OF f(1) _ _ _ _ t] f(2,3) t show ?thesis
    by (simp add: zero_frame_def osdp_acu_is_pd_sc_established_def fire_sc_event_def ex_secured_def)
qed

end
