(* ===== verification/Link.thy ===== *)
theory Link
  imports PD_Behaviour ACU_Behaviour
begin

unbundle bit_operations_syntax

text \<open>
  A control unit and a peripheral device on one line. The line is the environment both sides act on: one
  byte queue per direction, a clock, and whatever the applications keep. The two transports below are the
  documented read, write and clock functions of an undisturbed line; everything else is the code of
  \<^verbatim>\<open>acu/src\<close> and \<^verbatim>\<open>pd/src\<close> run against it, tick by tick.
\<close>

section \<open>The line\<close>

record 'a bus =
  bus_down :: bytes
  bus_up :: bytes
  bus_ms :: u32
  bus_app :: 'a

definition acu_port :: "'a bus osdp_acu_transport" where
  "acu_port = \<lparr>at_read = Some (\<lambda>w n. (int (length (take n (bus_up w))), take n (bus_up w), w\<lparr>bus_up := drop n (bus_up w)\<rparr>)),
     at_write = Some (\<lambda>w b. (int (length b), w\<lparr>bus_down := bus_down w @ b\<rparr>)),
     at_now_ms = Some (\<lambda>w. (bus_ms w, w))\<rparr>"

definition pd_port :: "'a bus osdp_pd_transport" where
  "pd_port = \<lparr>tr_read = Some (\<lambda>w n. (int (length (take n (bus_down w))), take n (bus_down w), w\<lparr>bus_down := drop n (bus_down w)\<rparr>)),
     tr_write = Some (\<lambda>w b. (int (length b), w\<lparr>bus_up := bus_up w @ b\<rparr>)),
     tr_now_ms = Some (\<lambda>w. (bus_ms w, w))\<rparr>"

text \<open>Callbacks of the applications leave the line alone.\<close>

definition line :: "'a bus \<Rightarrow> bytes \<times> bytes \<times> u32" where
  "line w = (bus_down w, bus_up w, bus_ms w)"

definition quiet :: "('a bus \<Rightarrow> 'a bus) \<Rightarrow> bool" where
  "quiet f \<longleftrightarrow> (\<forall>w. line (f w) = line w)"

lemma quiet_line: "quiet f \<Longrightarrow> line (f w) = line w"
  by (simp add: quiet_def)

lemma lineD:
  assumes "line w' = line w"
  shows "bus_down w' = bus_down w" "bus_up w' = bus_up w" "bus_ms w' = bus_ms w"
  using assms by (simp_all add: line_def)

section \<open>Receiving\<close>

text \<open>Both sides read alike; the device keeps its stream in its context.\<close>

lemma read_loop_stream:
  "read_loop read pd w d = (case acu_read_loop read (pd_rx pd) w d of (rx, w') \<Rightarrow> (pd\<lparr>pd_rx := rx\<rparr>, w'))"
proof (induction read pd w d rule: read_loop.induct)
  case (1 read pd w d)
  obtain n chunk w1 where r: "read w 128 = (n, chunk, w1)"
    using prod_cases3 by blast
  show ?case
    using 1 [OF r [symmetric] refl] r
    by (subst read_loop.simps, subst acu_read_loop.simps) (auto simp: Let_def split: prod.splits)
qed

text \<open>The interface between the read loops and a transport: a port hands out a queue of bytes in chunks.
  Both read loops then take the whole queue, as far as the stream has room for it.\<close>

locale byte_port =
  fixes read :: "'w \<Rightarrow> nat \<Rightarrow> int \<times> bytes \<times> 'w" and q :: "'w \<Rightarrow> bytes" and set_q :: "bytes \<Rightarrow> 'w \<Rightarrow> 'w"
  assumes read_chunk: "read w n = (int (length (take n (q w))), take n (q w), set_q (drop n (q w)) w)"
    and queue_set: "q (set_q b w) = b"
    and set_set: "set_q b (set_q c w) = set_q b w"
    and set_queue: "set_q (q w) w = w"
begin

lemma read_step:
  fixes rx w d
  defines "c \<equiv> take 128 (q w)" and "w1 \<equiv> set_q (drop 128 (q w)) w"
  defines "rx1 \<equiv> snd (osdp_stream_feed rx (Some c) (length c))"
  assumes "q w \<noteq> []"
  shows "acu_read_loop read rx w d
    = (if d + length c \<ge> OSDP_STREAM_BUFFER_LEN then (rx1, w1) else acu_read_loop read rx1 w1 (d + length c))"
  using assms(4) unfolding c_def w1_def rx1_def
  by (subst acu_read_loop.simps) (auto simp: read_chunk Let_def min_def split: if_splits)

lemma read_queue:
  assumes "stream_wf rx" "length (stream_live rx) + length (q w) \<le> OSDP_STREAM_BUFFER_LEN"
    "d + length (q w) \<le> OSDP_STREAM_BUFFER_LEN"
  shows "\<exists>rx'. acu_read_loop read rx w d = (rx', set_q [] w) \<and> stream_wf rx' \<and> stream_live rx' = stream_live rx @ q w"
  using assms
proof (induction "length (q w)" arbitrary: rx w d rule: less_induct)
  case less
  let ?c = "take 128 (q w)" and ?w = "set_q (drop 128 (q w)) w"
  let ?rx = "snd (osdp_stream_feed rx (Some ?c) (length ?c))"
  have s1: "stream_wf ?rx" "stream_live ?rx = stream_live rx @ ?c"
    using less.prems(2) by (intro rx.feed_wf [OF less.prems(1)] rx.feed_append less.prems(1); simp)+
  have len: "length ?c + length (drop 128 (q w)) = length (q w)" by simp
  show ?case
  proof (cases "q w = []")
    case True
    then show ?thesis
      using less.prems set_queue [of w] by (subst acu_read_loop.simps) (simp add: read_chunk)
  next
    case False
    show ?thesis
    proof (cases "d + length ?c \<ge> OSDP_STREAM_BUFFER_LEN")
      case True
      then have "drop 128 (q w) = []"
        using less.prems(3) len by simp
      with True read_step [OF False, of rx d] s1 show ?thesis
        by (metis append_take_drop_id append_Nil2)
    next
      case F: False
      have "length (drop 128 (q w)) < length (q w)"
        using False by simp
      moreover have "length (stream_live ?rx) + length (drop 128 (q w)) \<le> OSDP_STREAM_BUFFER_LEN"
        "d + length ?c + length (drop 128 (q w)) \<le> OSDP_STREAM_BUFFER_LEN"
        unfolding s1(2) length_append using less.prems(2,3) len by (auto simp del: length_drop length_take)
      ultimately have "\<exists>rx'. acu_read_loop read ?rx ?w (d + length ?c) = (rx', set_q [] ?w) \<and> stream_wf rx' \<and>
          stream_live rx' = stream_live ?rx @ q ?w"
        using less.hyps [of ?w ?rx "d + length ?c"] s1(1) unfolding queue_set by blast
      with F read_step [OF False, of rx d] s1(2) show ?thesis
        by (simp add: queue_set set_set)
    qed
  qed
qed

lemma read_all:
  assumes "stream_wf rx" "stream_live rx = []" "length (q w) \<le> OSDP_STREAM_BUFFER_LEN"
  obtains rx' where "acu_read_loop read rx w 0 = (rx', set_q [] w)" "stream_wf rx'" "stream_live rx' = q w"
  using read_queue [of rx w 0] assms that by auto

lemma read_all_pd:
  assumes "stream_wf (pd_rx pd)" "stream_live (pd_rx pd) = []" "length (q w) \<le> OSDP_STREAM_BUFFER_LEN"
  obtains rx' where "read_loop read pd w 0 = (pd\<lparr>pd_rx := rx'\<rparr>, set_q [] w)" "stream_wf rx'" "stream_live rx' = q w"
  using read_queue [of "pd_rx pd" w 0] assms that by (auto simp: read_loop_stream)

end

interpretation up: byte_port "the (at_read acu_port)" bus_up "\<lambda>b w. w\<lparr>bus_up := b\<rparr>"
  by unfold_locales (simp_all add: acu_port_def)

interpretation down: byte_port "the (tr_read pd_port)" bus_down "\<lambda>b w. w\<lparr>bus_down := b\<rparr>"
  by unfold_locales (simp_all add: pd_port_def)

section \<open>One frame through the loops\<close>

lemma acu_frame_loop_one:
  assumes "stream_wf (ac_rx acu)" "stream_live (ac_rx acu) = b" "osdp_frame_build f cap = Inr b" "frame_ptrs_ok f"
  obtains rx1 rx2 where "stream_wf rx1" "stream_live rx1 = []" "stream_wf rx2" "stream_live rx2 = []"
    "acu_frame_loop acu w = (case acu_tick_frame (acu\<lparr>ac_rx := rx1\<rparr>) w OSDP_OK (as_received f (tl b)) of
       (acu1, w1) \<Rightarrow> (acu1\<lparr>ac_rx := rx2\<rparr>, w1))"
proof (rule stream_one_frame [OF assms])
  fix rx1 rx2
  assume rx: "stream_wf rx1" "stream_live rx1 = []" "stream_wf rx2" "stream_live rx2 = []"
    and n: "osdp_stream_next (ac_rx acu) zero_frame = (OSDP_OK, as_received f (tl b), rx1)"
      "osdp_stream_next rx1 zero_frame = (OSDP_ERR_TRUNCATED, zero_frame, rx2)"
  obtain acu1 w1 where t: "acu_tick_frame (acu\<lparr>ac_rx := rx1\<rparr>) w OSDP_OK (as_received f (tl b)) = (acu1, w1)"
    by (meson surj_pair)
  have "ac_rx acu1 = rx1"
    using acu_tick_frame_rx [of "acu\<lparr>ac_rx := rx1\<rparr>" w OSDP_OK "as_received f (tl b)"] t by simp
  then have "acu_frame_loop acu w = (acu1\<lparr>ac_rx := rx2\<rparr>, w1)"
    by (simp add: acu_frame_loop.simps [of acu] acu_frame_loop.simps [of acu1] n t)
  with that [OF rx] t show thesis by simp
qed

lemma pd_frame_loop_one:
  assumes "stream_wf (pd_rx pd)" "stream_live (pd_rx pd) = b" "osdp_frame_build f cap = Inr b" "frame_ptrs_ok f"
  obtains rx1 rx2 where "stream_wf rx1" "stream_live rx1 = []" "stream_wf rx2" "stream_live rx2 = []"
    "frame_loop pd w = (case tick_frame (pd\<lparr>pd_rx := rx1\<rparr>) w OSDP_OK (as_received f (tl b)) of
       (pd1, w1) \<Rightarrow> (pd1\<lparr>pd_rx := rx2\<rparr>, w1))"
proof (rule stream_one_frame [OF assms])
  fix rx1 rx2
  assume rx: "stream_wf rx1" "stream_live rx1 = []" "stream_wf rx2" "stream_live rx2 = []"
    and n: "osdp_stream_next (pd_rx pd) zero_frame = (OSDP_OK, as_received f (tl b), rx1)"
      "osdp_stream_next rx1 zero_frame = (OSDP_ERR_TRUNCATED, zero_frame, rx2)"
  obtain pd1 w1 where t: "tick_frame (pd\<lparr>pd_rx := rx1\<rparr>) w OSDP_OK (as_received f (tl b)) = (pd1, w1)"
    by (meson surj_pair)
  have "pd_rx pd1 = rx1"
    using tick_frame_rx [of "pd\<lparr>pd_rx := rx1\<rparr>" w OSDP_OK "as_received f (tl b)"] t by simp
  then have "frame_loop pd w = (pd1\<lparr>pd_rx := rx2\<rparr>, w1)"
    by (simp add: frame_loop.simps [of pd] frame_loop.simps [of pd1] n t)
  with that [OF rx] t show thesis by simp
qed

section \<open>One frame through a tick\<close>

text \<open>The context without the receive stream, its timer and the reader banks: what a tick changes apart from
  the frames it handles.\<close>

definition blank_stream :: osdp_stream where
  "blank_stream = \<lparr>st_buffer = [], st_fill = 0, st_pending_consume = 0\<rparr>"

definition acu_core :: "'w osdp_acu \<Rightarrow> 'w osdp_acu" where
  "acu_core acu = acu\<lparr>ac_rx := blank_stream, ac_leds := [], ac_buzzers := [], ac_rx_partial_len := 0, ac_rx_partial_ms := 0\<rparr>"

definition pd_core :: "'w osdp_pd \<Rightarrow> 'w osdp_pd" where
  "pd_core pd = pd\<lparr>pd_rx := blank_stream, pd_leds := [], pd_buzzers := [], pd_rx_partial_len := 0, pd_rx_partial_ms := 0\<rparr>"

definition idle_stream :: "osdp_stream \<Rightarrow> bool" where
  "idle_stream s \<longleftrightarrow> stream_wf s \<and> stream_live s = []"

definition acu_quiet :: "'a bus osdp_acu \<Rightarrow> bool" where
  "acu_quiet acu \<longleftrightarrow>
     (\<forall>cb. ac_led_cb acu = Some cb \<longrightarrow> (\<forall>p r l c. quiet (\<lambda>w. cb w p r l c))) \<and>
     (\<forall>cb. ac_buzzer_cb acu = Some cb \<longrightarrow> (\<forall>p r s t. quiet (\<lambda>w. cb w p r s t))) \<and>
     (\<forall>cb. ac_sc_event_cb acu = Some cb \<longrightarrow> (\<forall>e. quiet (\<lambda>w. cb w e))) \<and>
     (\<forall>cb. ac_reply_cb acu = Some cb \<longrightarrow> (\<forall>e. quiet (\<lambda>w. cb w e)))"

definition pd_quiet :: "'a bus osdp_pd \<Rightarrow> bool" where
  "pd_quiet pd \<longleftrightarrow>
     (\<forall>cb. pd_led_cb pd = Some cb \<longrightarrow> (\<forall>r l c. quiet (\<lambda>w. cb w r l c))) \<and>
     (\<forall>cb. pd_buzzer_cb pd = Some cb \<longrightarrow> (\<forall>r s t. quiet (\<lambda>w. cb w r s t)))"

lemma idle_pending: "idle_stream s \<Longrightarrow> osdp_stream_pending s = 0"
  using stream_live_length [of s] by (simp add: idle_stream_def)

lemma acu_led_slots_line:
  "(\<And>w p r l c. line (cb w p r l c) = line w) \<Longrightarrow> line (snd (acu_led_refresh_slots cb now ss w)) = line w"
  by (induction ss arbitrary: w) (simp_all add: Let_def case_prod_beta)

lemma acu_buz_slots_line:
  "(\<And>w p r l c. line (cb w p r l c) = line w) \<Longrightarrow> line (snd (acu_buz_refresh_slots cb now ss w)) = line w"
  by (induction ss arbitrary: w) (simp_all add: Let_def case_prod_beta)

lemma pd_led_slots_line:
  "(\<And>w r l c. line (cb w r l c) = line w) \<Longrightarrow> line (snd (led_refresh_slots cb now ss w)) = line w"
  by (induction ss arbitrary: w) (simp_all add: Let_def case_prod_beta)

lemma pd_buz_slots_line:
  "(\<And>w r l c. line (cb w r l c) = line w) \<Longrightarrow> line (snd (buz_refresh_slots cb now ss w)) = line w"
  by (induction ss arbitrary: w) (simp_all add: Let_def case_prod_beta)

lemma acu_refresh_core:
  assumes "acu_quiet acu"
  shows "acu_core (fst (acu_led_refresh acu now w)) = acu_core acu" "line (snd (acu_led_refresh acu now w)) = line w"
    "acu_core (fst (acu_buz_refresh acu now w)) = acu_core acu" "line (snd (acu_buz_refresh acu now w)) = line w"
    "ac_rx (fst (acu_led_refresh acu now w)) = ac_rx acu" "ac_rx (fst (acu_buz_refresh acu now w)) = ac_rx acu"
    "acu_quiet (fst (acu_led_refresh acu now w))"
  using assms
  by (auto simp: acu_led_slots_line acu_buz_slots_line acu_led_refresh_def acu_buz_refresh_def acu_core_def acu_quiet_def case_prod_beta quiet_def split: option.splits)

lemma pd_refresh_core:
  assumes "pd_quiet pd"
  shows "pd_core (fst (pd_led_refresh pd now w)) = pd_core pd" "line (snd (pd_led_refresh pd now w)) = line w"
    "pd_core (fst (pd_buz_refresh pd now w)) = pd_core pd" "line (snd (pd_buz_refresh pd now w)) = line w"
    "pd_rx (fst (pd_led_refresh pd now w)) = pd_rx pd" "pd_rx (fst (pd_buz_refresh pd now w)) = pd_rx pd"
    "pd_quiet (fst (pd_led_refresh pd now w))"
  using assms
  by (auto simp: pd_led_slots_line pd_buz_slots_line pd_led_refresh_def pd_buz_refresh_def pd_core_def pd_quiet_def case_prod_beta quiet_def split: option.splits)

lemma refresh_silent:
  "ac_led_cb acu = None \<Longrightarrow> acu_led_refresh acu now w = (acu, w)"
  "ac_buzzer_cb acu = None \<Longrightarrow> acu_buz_refresh acu now w = (acu, w)"
  "pd_led_cb pd = None \<Longrightarrow> pd_led_refresh pd now w = (pd, w)"
  "pd_buzzer_cb pd = None \<Longrightarrow> pd_buz_refresh pd now w = (pd, w)"
  by (simp_all add: acu_led_refresh_def acu_buz_refresh_def pd_led_refresh_def pd_buz_refresh_def)

lemma pds_onlyD:
  assumes "a\<lparr>ac_pds := []\<rparr> = b\<lparr>ac_pds := []\<rparr>"
  shows "ac_transport a = ac_transport b" "ac_rx a = ac_rx b" "acu_quiet a = acu_quiet b" "ac_led_cb a = ac_led_cb b"
    "ac_buzzer_cb a = ac_buzzer_cb b"
  using arg_cong [OF assms, of ac_transport] arg_cong [OF assms, of ac_rx] arg_cong [OF assms, of acu_quiet]
    arg_cong [OF assms, of ac_led_cb] arg_cong [OF assms, of ac_buzzer_cb]
  by (simp_all add: acu_quiet_def)

lemma acu_tick_one:
  fixes acu :: "'a bus osdp_acu"
  assumes tr: "ac_transport acu = acu_port" and q: "acu_quiet acu" and sc: "scan_timeouts_and_offline acu w = (acu, w)"
    and idle: "idle_stream (ac_rx acu)" and b: "osdp_frame_build f cap = Inr b" "frame_ptrs_ok f"
      "length b \<le> OSDP_STREAM_BUFFER_LEN" "bus_up w = b"
    and step: "\<And>rx. acu_tick_frame (acu\<lparr>ac_rx := rx\<rparr>) (w\<lparr>bus_up := []\<rparr>) OSDP_OK (as_received f (tl b)) = (h rx, v rx)"
  obtains rx acu' w' where "osdp_acu_tick acu w = (acu', w')" "idle_stream (ac_rx acu')"
    "acu_core acu' = acu_core (h rx)" "line w' = line (v rx)"
    "ac_led_cb acu = None \<and> ac_buzzer_cb acu = None \<longrightarrow> w' = v rx"
proof -
  obtain read where rd: "at_read (acu_port :: 'a bus osdp_acu_transport) = Some read"
    by (simp add: acu_port_def)
  obtain rx0 where r: "acu_read_loop read (ac_rx acu) w 0 = (rx0, w\<lparr>bus_up := []\<rparr>)" "stream_wf rx0" "stream_live rx0 = b"
    using up.read_all [of "ac_rx acu" w, unfolded rd option.sel] idle b(3,4) by (auto simp: idle_stream_def)
  let ?acu = "acu\<lparr>ac_rx := rx0\<rparr>"
  obtain rx1 rx2 where rx: "idle_stream rx2"
    "acu_frame_loop ?acu (w\<lparr>bus_up := []\<rparr>)
       = (case acu_tick_frame (?acu\<lparr>ac_rx := rx1\<rparr>) (w\<lparr>bus_up := []\<rparr>) OSDP_OK (as_received f (tl b)) of
           (acu1, w1) \<Rightarrow> (acu1\<lparr>ac_rx := rx2\<rparr>, w1))"
    by (rule acu_frame_loop_one [of ?acu b f cap "w\<lparr>bus_up := []\<rparr>"]) (use r b(1,2) in \<open>auto simp: idle_stream_def\<close>)
  have loop: "acu_frame_loop ?acu (w\<lparr>bus_up := []\<rparr>) = ((h rx1)\<lparr>ac_rx := rx2\<rparr>, v rx1)"
    using rx(2) by (simp add: step)
  let ?h = "(h rx1)\<lparr>ac_rx := rx2, ac_rx_partial_len := 0\<rparr>"
  have keep: "(h rx1)\<lparr>ac_pds := []\<rparr> = (acu\<lparr>ac_rx := rx1\<rparr>)\<lparr>ac_pds := []\<rparr>"
    using acu_tick_frame_pds [of "acu\<lparr>ac_rx := rx1\<rparr>" "w\<lparr>bus_up := []\<rparr>" OSDP_OK "as_received f (tl b)"] by (simp add: step)
  have hq: "acu_quiet ?h" and ht: "ac_transport ?h = acu_port"
    using pds_onlyD(1,3) [OF keep] q tr by (simp_all add: acu_quiet_def)
  define L where "L = acu_led_refresh ?h (bus_ms (v rx1)) (v rx1)"
  define B where "B = acu_buz_refresh (fst L) (bus_ms (v rx1)) (snd L)"
  have i: "acu_check_interchar_timeout ((h rx1)\<lparr>ac_rx := rx2\<rparr>) (v rx1) = (?h, v rx1)"
    using rx(1) by (simp add: acu_check_interchar_timeout_def idle_pending)
  have n: "now_ms_or_zero ?h (v rx1) = (bus_ms (v rx1), v rx1)"
    unfolding now_ms_or_zero_def ht by (simp add: acu_port_def)
  have "osdp_acu_tick acu w = B"
    by (simp add: osdp_acu_tick_def tr rd sc r(1) loop i n L_def B_def split: prod.split)
  moreover note l = acu_refresh_core [OF hq, of "bus_ms (v rx1)" "v rx1", folded L_def]
  note m = acu_refresh_core [OF l(7), of "bus_ms (v rx1)" "snd L", folded B_def]
  have "idle_stream (ac_rx (fst B))" "acu_core (fst B) = acu_core (h rx1)" "line (snd B) = line (v rx1)"
    using l m rx(1) by (simp_all add: acu_core_def)
  moreover have "snd B = v rx1" if "ac_led_cb acu = None" "ac_buzzer_cb acu = None"
    using that pds_onlyD(4,5) [OF keep] by (simp add: B_def L_def refresh_silent)
  ultimately show ?thesis
    using that [of "fst B" "snd B" rx1] by simp
qed

lemma process_frame_fields:
  fixes pd :: "'w osdp_pd"
  shows "pd_transport (fst (process_frame pd w cmd)) = pd_transport pd" "pd_led_cb (fst (process_frame pd w cmd)) = pd_led_cb pd"
  "pd_buzzer_cb (fst (process_frame pd w cmd)) = pd_buzzer_cb pd"
proof -
  let ?v = "\<lambda>pd :: 'w osdp_pd. (pd_transport pd, pd_led_cb pd, pd_buzzer_cb pd)"
  have s: "?v (fst (send_bytes pd w b)) = ?v pd" for pd w b
    using arg_cong [OF send_bytes_frame [of pd w b], of ?v] by simp
  have c: "?v (cache_reply pd f b) = ?v pd" "?v (fst (osdp_pd_internal_apply_comset pd w)) = ?v pd" for pd w f b
    by (simp_all add: cache_reply_def osdp_pd_internal_apply_comset_def Let_def split: option.split)
  obtain built pd1 w1 where h: "handle_command_into_tx (pd\<lparr>pd_reply_cacheable := True\<rparr>) w cmd = (built, pd1, w1)"
    by (metis prod_cases3)
  have "?v pd1 = ?v pd"
    using arg_cong [OF handle_command_io [OF h], of ?v] by (simp add: io_view_def link_view_def)
  with s c have "?v (fst (process_frame pd w cmd)) = ?v pd"
    using h by (simp add: process_frame_def Let_def case_prod_beta)
  then show "pd_transport (fst (process_frame pd w cmd)) = pd_transport pd"
    "pd_led_cb (fst (process_frame pd w cmd)) = pd_led_cb pd" "pd_buzzer_cb (fst (process_frame pd w cmd)) = pd_buzzer_cb pd"
    by simp_all
qed

lemma pd_tick_one:
  fixes pd :: "'a bus osdp_pd"
  assumes tr: "pd_transport pd = pd_port" and q: "pd_quiet pd" and on: "check_offline_timeout pd w = (pd, w)"
    and idle: "idle_stream (pd_rx pd)" and b: "osdp_frame_build f cap = Inr b" "frame_ptrs_ok f"
      "length b \<le> OSDP_STREAM_BUFFER_LEN" "bus_down w = b"
    and f: "\<not> fr_reply f" "fr_address f = pd_address pd"
    and step: "\<And>rx. process_frame (pd\<lparr>pd_rx := rx\<rparr>) (w\<lparr>bus_down := []\<rparr>) (as_received f (tl b)) = (h rx, v rx)"
  obtains rx pd' w' where "osdp_pd_tick pd w = (pd', w')" "idle_stream (pd_rx pd')"
    "pd_core pd' = pd_core (h rx)" "line w' = line (v rx)"
    "pd_led_cb pd = None \<and> pd_buzzer_cb pd = None \<longrightarrow> w' = v rx"
proof -
  obtain read where rd: "tr_read (pd_port :: 'a bus osdp_pd_transport) = Some read"
    by (simp add: pd_port_def)
  obtain rx0 where r: "read_loop read pd w 0 = (pd\<lparr>pd_rx := rx0\<rparr>, w\<lparr>bus_down := []\<rparr>)" "stream_wf rx0" "stream_live rx0 = b"
    using down.read_all_pd [of pd w, unfolded rd option.sel] idle b(3,4) by (auto simp: idle_stream_def)
  let ?pd = "pd\<lparr>pd_rx := rx0\<rparr>"
  obtain rx1 rx2 where rx: "idle_stream rx2"
    "frame_loop ?pd (w\<lparr>bus_down := []\<rparr>)
       = (case tick_frame (?pd\<lparr>pd_rx := rx1\<rparr>) (w\<lparr>bus_down := []\<rparr>) OSDP_OK (as_received f (tl b)) of
           (pd1, w1) \<Rightarrow> (pd1\<lparr>pd_rx := rx2\<rparr>, w1))"
    by (rule pd_frame_loop_one [of ?pd b f cap "w\<lparr>bus_down := []\<rparr>"]) (use r b(1,2) in \<open>auto simp: idle_stream_def\<close>)
  have "fr_reply (as_received f (tl b)) = fr_reply f" "fr_address (as_received f (tl b)) = fr_address f"
    by (simp_all add: as_received_def)
  then have loop: "frame_loop ?pd (w\<lparr>bus_down := []\<rparr>) = ((h rx1)\<lparr>pd_rx := rx2\<rparr>, v rx1)"
    using rx(2) f by (simp add: tick_frame_def step)
  let ?h = "(h rx1)\<lparr>pd_rx := rx2, pd_rx_partial_len := 0\<rparr>"
  note keep = process_frame_fields [of "pd\<lparr>pd_rx := rx1\<rparr>" "w\<lparr>bus_down := []\<rparr>" "as_received f (tl b)", unfolded step]
  have hq: "pd_quiet ?h" and ht: "pd_transport ?h = pd_port"
    using keep q tr by (simp_all add: pd_quiet_def)
  define L where "L = pd_led_refresh ?h (bus_ms (v rx1)) (v rx1)"
  define B where "B = pd_buz_refresh (fst L) (bus_ms (v rx1)) (snd L)"
  have i: "check_interchar_timeout ((h rx1)\<lparr>pd_rx := rx2\<rparr>) (v rx1) = (?h, v rx1)"
    using rx(1) by (simp add: check_interchar_timeout_def idle_pending)
  have n: "pd_now_ms ?h (v rx1) = (bus_ms (v rx1), v rx1)"
    unfolding pd_now_ms_def ht by (simp add: pd_port_def)
  have "osdp_pd_tick pd w = B"
    by (simp add: osdp_pd_tick_def tr rd on r(1) loop i n L_def B_def split: prod.split)
  moreover note l = pd_refresh_core [OF hq, of "bus_ms (v rx1)" "v rx1", folded L_def]
  note m = pd_refresh_core [OF l(7), of "bus_ms (v rx1)" "snd L", folded B_def]
  have "idle_stream (pd_rx (fst B))" "pd_core (fst B) = pd_core (h rx1)" "line (snd B) = line (v rx1)"
    using l m rx(1) by (simp_all add: pd_core_def)
  moreover have "snd B = v rx1" if "pd_led_cb pd = None" "pd_buzzer_cb pd = None"
    using that keep by (simp add: B_def L_def refresh_silent)
  ultimately show ?thesis
    using that [of "fst B" "snd B" rx1] by simp
qed

section \<open>The two sides between messages\<close>

definition acu_fresh :: "'w osdp_acu \<Rightarrow> u32 \<Rightarrow> bool" where
  "acu_fresh acu now \<longleftrightarrow> (\<forall>s \<in> set (ac_pds acu). ap_in_use s \<longrightarrow>
     (ap_waiting s \<longrightarrow> now - ap_pending_sent_ms s \<le> OSDP_ACU_REPLY_TIMEOUT_MS) \<and>
     (ap_online s \<longrightarrow> now - ap_last_reply_ms s \<le> OSDP_ACU_OFFLINE_TIMEOUT_MS))"

definition acu_line_ok :: "'a bus osdp_acu \<Rightarrow> nat \<Rightarrow> byte \<Rightarrow> u32 \<Rightarrow> bool" where
  "acu_line_ok acu i addr now \<longleftrightarrow>
     ac_transport acu = acu_port \<and> acu_quiet acu \<and> idle_stream (ac_rx acu) \<and> acu_fresh acu now \<and>
     find_slot_by_address acu addr = Some i \<and> addr \<le> OSDP_BROADCAST_ADDR"

definition pd_line_ok :: "'a bus osdp_pd \<Rightarrow> byte \<Rightarrow> u32 \<Rightarrow> bool" where
  "pd_line_ok pd addr now \<longleftrightarrow>
     pd_transport pd = pd_port \<and> pd_quiet pd \<and> idle_stream (pd_rx pd) \<and> pd_address pd = addr \<and>
     \<not> pd_comset_pending pd \<and> 64 \<le> pd_tx_cap pd \<and>
     (pd_online pd \<longrightarrow> now - pd_last_comm_ms pd \<le> OSDP_PD_OFFLINE_TIMEOUT_MS)"

lemma scan_slot_fresh:
  assumes "acu_fresh acu now" "i < length (ac_pds acu)"
  shows "scan_slot acu now w i = (acu, w)"
proof -
  have "ac_pds acu ! i \<in> set (ac_pds acu)"
    using assms(2) by simp
  with assms(1) show ?thesis
    by (auto simp: scan_slot_def scan_reply_timeout_def scan_online_def acu_fresh_def Let_def not_le [symmetric])
qed

lemma scan_fresh:
  assumes "ac_transport acu = acu_port" "acu_fresh acu (bus_ms w)"
  shows "scan_timeouts_and_offline acu w = (acu, w)"
proof -
  have "set is \<subseteq> {..<length (ac_pds acu)} \<Longrightarrow> scan_slots acu (bus_ms w) w is = (acu, w)" for "is"
    by (induction "is") (simp_all add: scan_slot_fresh [OF assms(2)])
  from this [of "[0..<length (ac_pds acu)]"] show ?thesis
    by (simp add: scan_timeouts_and_offline_def assms(1) acu_port_def atLeast0LessThan)
qed

lemma acu_fresh_upd:
  assumes "acu_fresh acu now" "i < length (ac_pds acu)"
    "ap_waiting (f (ac_pds acu ! i)) \<Longrightarrow> now - ap_pending_sent_ms (f (ac_pds acu ! i)) \<le> 200"
    "ap_online (f (ac_pds acu ! i)) \<Longrightarrow> now - ap_last_reply_ms (f (ac_pds acu ! i)) \<le> 8000"
  shows "acu_fresh (upd_slot acu i f) now"
  using assms set_update_subset_insert [of "ac_pds acu" i "f (ac_pds acu ! i)"]
  by (auto simp: acu_fresh_def upd_slot_def)

lemma first_index_update: "first_index P xs = Some i \<Longrightarrow> P y \<Longrightarrow> first_index P (xs[i := y]) = Some i"
  by (induction xs arbitrary: i) (auto split: if_splits)

lemma find_slot_upd:
  assumes "find_slot_by_address acu addr = Some i" "ap_in_use (f (ac_pds acu ! i))" "ap_address (f (ac_pds acu ! i)) = addr"
  shows "find_slot_by_address (upd_slot acu i f) addr = Some i"
  using assms by (simp add: find_slot_by_address_def upd_slot_def first_index_update)

lemma find_slot_rx [simp]: "find_slot_by_address (acu\<lparr>ac_rx := rx\<rparr>) addr = find_slot_by_address acu addr"
  by (simp add: find_slot_by_address_def)

lemma acu_quiet_upd [simp]: "acu_quiet (upd_slot acu i f) = acu_quiet acu"
  by (simp add: acu_quiet_def upd_slot_def)

lemma acu_line_upd:
  assumes "acu_line_ok acu i addr now" "ap_in_use (f (ac_pds acu ! i))" "ap_address (f (ac_pds acu ! i)) = addr"
    "ap_waiting (f (ac_pds acu ! i)) \<Longrightarrow> now - ap_pending_sent_ms (f (ac_pds acu ! i)) \<le> 200"
    "ap_online (f (ac_pds acu ! i)) \<Longrightarrow> now - ap_last_reply_ms (f (ac_pds acu ! i)) \<le> 8000"
  shows "acu_line_ok (upd_slot acu i f) i addr now"
proof -
  have fs: "find_slot_by_address acu addr = Some i" and fr: "acu_fresh acu now"
    using assms(1) by (simp_all add: acu_line_ok_def)
  have "i < length (ac_pds acu)"
    using first_index_SomeD [OF fs [unfolded find_slot_by_address_def]] by simp
  with assms acu_fresh_upd [OF fr, of i f] find_slot_upd [OF fs, of f] show ?thesis
    by (simp add: acu_line_ok_def)
qed

lemma acu_line_slot:
  assumes "acu_line_ok acu i addr now"
  shows "i < length (ac_pds acu)" "ap_in_use (ac_pds acu ! i)" "ap_address (ac_pds acu ! i) = addr" "addr \<le> OSDP_BROADCAST_ADDR"
    "ap_online (ac_pds acu ! i) \<Longrightarrow> now - ap_last_reply_ms (ac_pds acu ! i) \<le> 8000"
    "ac_transport acu = acu_port" "find_slot_by_address acu addr = Some i"
proof -
  have fs: "find_slot_by_address acu addr = Some i"
    using assms by (simp add: acu_line_ok_def)
  from first_index_SomeD [OF fs [unfolded find_slot_by_address_def]]
  show "i < length (ac_pds acu)" "ap_in_use (ac_pds acu ! i)" "ap_address (ac_pds acu ! i) = addr" by simp_all
  with assms show "addr \<le> OSDP_BROADCAST_ADDR" "ac_transport acu = acu_port" "find_slot_by_address acu addr = Some i"
    "ap_online (ac_pds acu ! i) \<Longrightarrow> now - ap_last_reply_ms (ac_pds acu ! i) \<le> 8000"
    by (simp_all add: acu_line_ok_def acu_fresh_def)
qed

lemma acu_core_fields:
  assumes "acu_core a = acu_core b"
  shows "ac_pds a = ac_pds b" "ac_transport a = ac_transport b" "acu_quiet a = acu_quiet b" "ac_sc_crypto a = ac_sc_crypto b"
    "ac_integrity a = ac_integrity b" "acu_fresh a now = acu_fresh b now"
    "find_slot_by_address a addr = find_slot_by_address b addr" "ac_reply_cb a = ac_reply_cb b" "ac_sc_event_cb a = ac_sc_event_cb b"
    "ac_sc_crypto_set a = ac_sc_crypto_set b" "ac_led_cb a = ac_led_cb b" "ac_buzzer_cb a = ac_buzzer_cb b"
  using arg_cong [OF assms, of ac_led_cb] arg_cong [OF assms, of ac_buzzer_cb] arg_cong [OF assms, of ac_pds] arg_cong [OF assms, of ac_transport] arg_cong [OF assms, of acu_quiet]
    arg_cong [OF assms, of ac_sc_crypto] arg_cong [OF assms, of ac_integrity] arg_cong [OF assms, of "\<lambda>a. acu_fresh a now"]
    arg_cong [OF assms, of "\<lambda>a. find_slot_by_address a addr"] arg_cong [OF assms, of ac_reply_cb]
    arg_cong [OF assms, of ac_sc_event_cb] arg_cong [OF assms, of ac_sc_crypto_set]
  by (simp_all add: acu_core_def acu_quiet_def acu_fresh_def find_slot_by_address_def)

lemma pd_core_fields:
  assumes "pd_core a = pd_core b"
  shows "pd_sc a = pd_sc b" "pd_transport a = pd_transport b" "pd_quiet a = pd_quiet b" "pd_address a = pd_address b"
    "pd_tx_cap a = pd_tx_cap b" "pd_comset_pending a = pd_comset_pending b" "pd_online a = pd_online b"
    "pd_last_comm_ms a = pd_last_comm_ms b" "pd_last_cmd_len a = pd_last_cmd_len b" "pd_have_last a = pd_have_last b"
    "pd_rx_plain_cap a = pd_rx_plain_cap b" "pd_cmd_cache a = pd_cmd_cache b" "pd_led_cb a = pd_led_cb b"
    "pd_buzzer_cb a = pd_buzzer_cb b" "pd_cmd_cb a = pd_cmd_cb b" "pd_last_reply_len a = pd_last_reply_len b"
    "pd_rpl_cache a = pd_rpl_cache b"
  using arg_cong [OF assms, of pd_last_reply_len] arg_cong [OF assms, of pd_rpl_cache] arg_cong [OF assms, of pd_led_cb] arg_cong [OF assms, of pd_buzzer_cb] arg_cong [OF assms, of pd_cmd_cb] arg_cong [OF assms, of pd_sc] arg_cong [OF assms, of pd_transport] arg_cong [OF assms, of pd_quiet]
    arg_cong [OF assms, of pd_address] arg_cong [OF assms, of pd_tx_cap] arg_cong [OF assms, of pd_comset_pending]
    arg_cong [OF assms, of pd_online] arg_cong [OF assms, of pd_last_comm_ms] arg_cong [OF assms, of pd_last_cmd_len]
    arg_cong [OF assms, of pd_have_last] arg_cong [OF assms, of pd_rx_plain_cap] arg_cong [OF assms, of pd_cmd_cache]
  by (simp_all add: pd_core_def pd_quiet_def)

text \<open>What the applications configured and no command changes.\<close>

definition pd_conf where
  "pd_conf pd = (pd_cmd_cb pd, pd_led_cb pd, pd_buzzer_cb pd, pd_tx_cap pd, pd_rx_plain_cap pd)"

definition acu_conf where
  "acu_conf acu = (ac_reply_cb acu, ac_led_cb acu, ac_buzzer_cb acu)"

text \<open>A device whose caches hold a command and its reply.\<close>

definition replays :: "'w osdp_pd \<Rightarrow> bytes \<Rightarrow> bytes \<Rightarrow> bool" where
  "replays pd raw reply \<longleftrightarrow>
     pd_have_last pd \<and> pd_last_cmd_len pd = length raw \<and> take (length raw) (pd_cmd_cache pd) = raw \<and>
     pd_last_reply_len pd = length reply \<and> take (length reply) (pd_rpl_cache pd) = reply"

section \<open>A command through the device's tick\<close>

lemma pd_port_send:
  assumes "pd_transport pd = pd_port" "buf \<noteq> []"
  shows "send_bytes pd w buf = (pd\<lparr>pd_last_comm_ms := bus_ms w, pd_online := True\<rparr>, w\<lparr>bus_up := bus_up w @ buf\<rparr>)"
proof -
  let ?acc = "\<lambda>(w :: 'a bus) b. w\<lparr>bus_up := bus_up w @ b\<rparr>"
  have "partial_writer ?acc (\<lambda>w b. (int (length b), ?acc w b))"
    by (auto simp: partial_writer_def intro!: exI [of _ "length _"])
  then have "send_loop (\<lambda>w b. (int (length b), ?acc w b)) buf 0 w = (length buf, ?acc w buf)"
    using send_loop_complete [of ?acc _ 0 buf w] by simp
  with assms show ?thesis
    by (simp add: send_bytes_def pd_port_def)
qed

text \<open>What a handled command leaves of the device once its reply is cached and sent.\<close>

definition pd_replied :: "'w osdp_pd \<Rightarrow> osdp_frame \<Rightarrow> bytes \<Rightarrow> u32 \<Rightarrow> 'w osdp_pd" where
  "pd_replied pd cmd built now = (cache_reply pd cmd built)\<lparr>pd_last_comm_ms := now, pd_online := True\<rparr>"

lemma pd_replied_fields:
  fixes now :: u32
  assumes h: "handle_command_into_tx pd w cmd = (built, p, w1)" and cmd: "fr_raw cmd = Some raw" "fr_raw_len cmd = length raw"
    and p: "\<not> pd_comset_pending p"
  defines "d \<equiv> pd_replied p cmd built now"
  shows "pd_sc d = pd_sc p" "pd_transport d = pd_transport pd" "pd_address d = pd_address pd" "\<not> pd_comset_pending d"
    "pd_last_comm_ms d = now" "pd_quiet d = pd_quiet pd" "pd_conf d = pd_conf pd"
    "pd_last_cmd_len d = 0 \<or> pd_last_cmd_len d = length raw \<and> take (length raw) (pd_cmd_cache d) = raw"
    "raw \<noteq> [] \<Longrightarrow> built \<noteq> [] \<Longrightarrow> length raw \<le> pd_cmd_cache_cap pd \<Longrightarrow> length built \<le> pd_rpl_cache_cap pd \<Longrightarrow> replays d raw built"
proof -
  note i = handle_command_io [OF h]
  note io = io_view_fields [OF i]
  have cbs: "pd_led_cb p = pd_led_cb pd" "pd_buzzer_cb p = pd_buzzer_cb pd" "pd_cmd_cb p = pd_cmd_cb pd"
    using arg_cong [OF i, of pd_led_cb] arg_cong [OF i, of pd_buzzer_cb] arg_cong [OF i, of pd_cmd_cb]
    by (simp_all add: io_view_def link_view_def)
  show "pd_sc d = pd_sc p" "pd_transport d = pd_transport pd" "pd_address d = pd_address pd" "\<not> pd_comset_pending d"
    "pd_last_comm_ms d = now" "pd_quiet d = pd_quiet pd" "pd_conf d = pd_conf pd"
    "pd_last_cmd_len d = 0 \<or> pd_last_cmd_len d = length raw \<and> take (length raw) (pd_cmd_cache d) = raw"
    using io p cmd cbs
    by (simp_all add: d_def pd_replied_def pd_conf_def pd_quiet_def cache_reply_def Let_def mp_store_def)
  show "replays d raw built" if "raw \<noteq> []" "built \<noteq> []" "length raw \<le> pd_cmd_cache_cap pd" "length built \<le> pd_rpl_cache_cap pd"
    using that io(11,12) cmd by (auto simp: replays_def d_def pd_replied_def cache_reply_def Let_def mp_store_def)
qed

lemma pd_tick_command:
  fixes pd :: "'a bus osdp_pd"
  assumes ok: "pd_line_ok pd addr (bus_ms w)"
    and b: "osdp_frame_build f cap = Inr b" "frame_ptrs_ok f" "length b \<le> OSDP_STREAM_BUFFER_LEN" "bus_down w = b"
      "bus_up w = []"
    and f: "\<not> fr_reply f" "fr_address f = addr" "\<not> is_retransmit pd (as_received f (tl b))"
    and step: "\<And>rx. handle_command_into_tx (pd\<lparr>pd_rx := rx, pd_reply_cacheable := True\<rparr>) (w\<lparr>bus_down := []\<rparr>)
        (as_received f (tl b)) = (built, p rx, w1)" "built \<noteq> []"
      "\<And>rx. pd_reply_cacheable (p rx)" "\<And>rx. \<not> pd_comset_pending (p rx)" "line w1 = ([], [], bus_ms w)"
  obtains rx pd' w' where "osdp_pd_tick pd w = (pd', w')" "pd_line_ok pd' addr (bus_ms w')" "line w' = ([], built, bus_ms w)"
    "pd_sc pd' = pd_sc (p rx)" "pd_conf pd' = pd_conf pd"
    "pd_last_cmd_len pd' = 0 \<or> pd_last_cmd_len pd' = length b - 1 \<and> take (length b - 1) (pd_cmd_cache pd') = tl b"
    "pd_led_cb pd = None \<and> pd_buzzer_cb pd = None \<longrightarrow> w' = w1\<lparr>bus_up := built\<rparr>"
    "pd_last_comm_ms pd' = bus_ms w"
    "length (tl b) \<le> pd_cmd_cache_cap pd \<and> length built \<le> pd_rpl_cache_cap pd \<longrightarrow> replays pd' (tl b) built"
proof -
  let ?cmd = "as_received f (tl b)" and ?h = "\<lambda>rx. pd_replied (p rx) (as_received f (tl b)) built (bus_ms w)"
  have raw: "fr_raw ?cmd = Some (tl b)" "fr_raw_len ?cmd = length (tl b)"
    by (simp_all add: as_received_def)
  note h = pd_replied_fields [OF step(1) raw step(4), where now = "bus_ms w"]
  have c: "pd_transport (cache_reply (p rx) ?cmd built) = pd_port" "\<not> pd_comset_pending (cache_reply (p rx) ?cmd built)" for rx
    using h(2,4) [of rx] ok by (simp_all add: pd_replied_def pd_line_ok_def)
  have "is_retransmit (pd\<lparr>pd_rx := rx\<rparr>) ?cmd = is_retransmit pd ?cmd" for rx
    by (simp add: is_retransmit_def)
  with f(3) have r: "\<not> is_retransmit (pd\<lparr>pd_rx := rx\<rparr>) ?cmd" for rx by simp
  have "bus_ms w1 = bus_ms w" "bus_up w1 = []"
    using step(5) by (simp_all add: line_def)
  then have pf: "process_frame (pd\<lparr>pd_rx := rx\<rparr>) (w\<lparr>bus_down := []\<rparr>) ?cmd = (?h rx, w1\<lparr>bus_up := built\<rparr>)" for rx
    using r [of rx] step(1) [of rx] step(2-4) c [of rx] pd_port_send [OF c(1) step(2), of rx w1]
    by (simp add: process_frame_def pd_replied_def)
  have on: "check_offline_timeout pd w = (pd, w)"
    using ok by (auto simp: check_offline_timeout_def pd_line_ok_def pd_port_def not_less [symmetric])
  obtain rx pd' w' where t: "osdp_pd_tick pd w = (pd', w')" "idle_stream (pd_rx pd')" "pd_core pd' = pd_core (?h rx)"
      "line w' = line (w1\<lparr>bus_up := built\<rparr>)" "pd_led_cb pd = None \<and> pd_buzzer_cb pd = None \<longrightarrow> w' = w1\<lparr>bus_up := built\<rparr>"
    by (rule pd_tick_one [OF _ _ on _ b(1-4) f(1) _ pf]) (use ok f(2) in \<open>simp_all add: pd_line_ok_def\<close>)
  note k = pd_core_fields [OF t(3)] and v = h [of rx]
  have l: "line w' = ([], built, bus_ms w)"
    using t(4) step(5) by (simp add: line_def)
  have pc: "pd_conf pd' = pd_conf pd"
    using v(7) k by (simp add: pd_conf_def)
  have "pd_line_ok pd' addr (bus_ms w')"
    using t(2) k v(2-6) pc ok l by (simp add: pd_line_ok_def line_def pd_conf_def pd_quiet_def)
  moreover have "replays pd' (tl b) built" if "length (tl b) \<le> pd_cmd_cache_cap pd" "length built \<le> pd_rpl_cache_cap pd"
  proof -
    have "length (tl b) \<noteq> 0"
      using built_frame_bytes(4) [OF b(1,2)] by simp
    then have "tl b \<noteq> []"
      by (simp only: length_0_conv not_False_eq_True)
    with v(9) step(2) that k show ?thesis by (simp add: replays_def)
  qed
  ultimately show ?thesis
    using that [OF t(1) _ l _ pc] k v(1,5,8) t(5) by simp
qed

section \<open>A reply through the control unit's tick\<close>

lemma acu_tick_reply:
  fixes acu :: "'a bus osdp_acu"
  assumes ok: "acu_line_ok acu i addr (bus_ms w)"
    and b: "osdp_frame_build f cap = Inr b" "frame_ptrs_ok f" "length b \<le> OSDP_STREAM_BUFFER_LEN" "bus_up w = b"
    and step: "\<And>rx. acu_tick_frame (acu\<lparr>ac_rx := rx\<rparr>) (w\<lparr>bus_up := []\<rparr>) OSDP_OK (as_received f (tl b))
        = (upd_slot (acu\<lparr>ac_rx := rx\<rparr>) i g, v)" "bus_ms v = bus_ms w"
    and g: "ap_in_use (g (ac_pds acu ! i))" "ap_address (g (ac_pds acu ! i)) = addr"
      "ap_waiting (g (ac_pds acu ! i)) \<Longrightarrow> bus_ms w - ap_pending_sent_ms (g (ac_pds acu ! i)) \<le> 200"
      "ap_online (g (ac_pds acu ! i)) \<Longrightarrow> bus_ms w - ap_last_reply_ms (g (ac_pds acu ! i)) \<le> 8000"
  obtains acu' w' where "osdp_acu_tick acu w = (acu', w')" "acu_line_ok acu' i addr (bus_ms w')" "line w' = line v"
    "ac_pds acu' = (ac_pds acu)[i := g (ac_pds acu ! i)]" "ac_sc_crypto acu' = ac_sc_crypto acu"
    "ac_integrity acu' = ac_integrity acu" "acu_conf acu' = acu_conf acu" "ac_led_cb acu = None \<and> ac_buzzer_cb acu = None \<longrightarrow> w' = v"
proof -
  have tr: "ac_transport acu = acu_port" and q: "acu_quiet acu" and idle: "idle_stream (ac_rx acu)"
    and fr: "acu_fresh acu (bus_ms w)"
    using ok by (simp_all add: acu_line_ok_def)
  obtain rx acu' w' where t: "osdp_acu_tick acu w = (acu', w')" "idle_stream (ac_rx acu')"
      "acu_core acu' = acu_core (upd_slot (acu\<lparr>ac_rx := rx\<rparr>) i g)" "line w' = line v"
      "ac_led_cb acu = None \<and> ac_buzzer_cb acu = None \<longrightarrow> w' = v"
    by (rule acu_tick_one [OF tr q scan_fresh [OF tr fr] idle b step(1)])
  note k = acu_core_fields [OF t(3)]
  have "acu_line_ok (upd_slot acu i g) i addr (bus_ms w)"
    using ok g by (rule acu_line_upd)
  then have "acu_line_ok acu' i addr (bus_ms w')"
    using k t(2,4) lineD(3) [OF t(4)] step(2)
    by (simp add: acu_line_ok_def acu_fresh_def find_slot_by_address_def upd_slot_def acu_quiet_def)
  with that [OF t(1) _ t(4)] k t(5) show ?thesis by (simp add: upd_slot_def acu_conf_def)
qed

end
