(* ===== verification/Handshake.thy ===== *)
theory Handshake
  imports Link
begin

unbundle bit_operations_syntax

text \<open>
  The Secure Channel handshake between the two sides: what each handler of \<^verbatim>\<open>acu/src/acu_sc.c\<close> and
  \<^verbatim>\<open>pd/src/pd_sc.c\<close> makes of the other's frame, and the whole exchange over the line.
\<close>

section \<open>Values of the key schedule\<close>

definition session_keys :: "'w osdp_sc_crypto \<Rightarrow> bytes \<Rightarrow> bytes \<Rightarrow> osdp_sc_session_keys" where
  "session_keys crypto key rnd_a =
     \<lparr>s_enc = aes crypto key (build_derivation_input 0x82 rnd_a),
      s_mac1 = aes crypto key (build_derivation_input 0x01 rnd_a),
      s_mac2 = aes crypto key (build_derivation_input 0x02 rnd_a)\<rparr>"

lemma crypto_okE:
  assumes "crypto_ok c"
  obtains enc where "aes128_ecb_encrypt c = Some enc"
    "\<And>k b. length k = 16 \<Longrightarrow> length b = 16 \<Longrightarrow> enc k b = Inr (aes c k b) \<and> length (aes c k b) = 16"
  using assms aes_eq unfolding crypto_ok_def by blast

lemma derive_ok:
  assumes "crypto_ok c" "length key = 16" "length rnd_a = 8"
  shows "osdp_sc_derive_session_keys c key rnd_a out = (OSDP_OK, session_keys c key rnd_a)"
    "keys_ok (session_keys c key rnd_a)"
proof -
  obtain enc where e: "aes128_ecb_encrypt c = Some enc"
    "\<And>k b. length k = 16 \<Longrightarrow> length b = 16 \<Longrightarrow> enc k b = Inr (aes c k b) \<and> length (aes c k b) = 16"
    by (rule crypto_okE [OF assms(1)]) blast
  have l: "length (build_derivation_input x rnd_a) = 16" for x
    using assms(3) by (simp add: build_derivation_input_def)
  show "osdp_sc_derive_session_keys c key rnd_a out = (OSDP_OK, session_keys c key rnd_a)"
    "keys_ok (session_keys c key rnd_a)"
    using e assms(2) l by (simp_all add: osdp_sc_derive_session_keys_def session_keys_def keys_ok_def)
qed

lemma cryptogram_ok:
  assumes "crypto_ok c" "length senc = 16" "length a = 8" "length b = 8"
  shows "osdp_sc_client_cryptogram c senc a b = Inr (aes c senc (a @ b))" "length (aes c senc (a @ b)) = 16"
    "osdp_sc_server_cryptogram c senc a b = Inr (aes c senc (b @ a))" "length (aes c senc (b @ a)) = 16"
proof -
  obtain enc where e: "aes128_ecb_encrypt c = Some enc"
    "\<And>k b. length k = 16 \<Longrightarrow> length b = 16 \<Longrightarrow> enc k b = Inr (aes c k b) \<and> length (aes c k b) = 16"
    by (rule crypto_okE [OF assms(1)]) blast
  then show "osdp_sc_client_cryptogram c senc a b = Inr (aes c senc (a @ b))" "length (aes c senc (a @ b)) = 16"
    "osdp_sc_server_cryptogram c senc a b = Inr (aes c senc (b @ a))" "length (aes c senc (b @ a)) = 16"
    using assms(2-4) by (simp_all add: osdp_sc_client_cryptogram_def osdp_sc_server_cryptogram_def cryptogram_def)
qed

definition initial_rmac :: "'w osdp_sc_crypto \<Rightarrow> osdp_sc_session_keys \<Rightarrow> bytes \<Rightarrow> bytes" where
  "initial_rmac c k sc = aes c (s_mac2 k) (aes c (s_mac1 k) sc)"

lemma initial_rmac_ok:
  assumes "crypto_ok c" "keys_ok k" "length sc = 16"
  shows "osdp_sc_initial_rmac c (s_mac1 k) (s_mac2 k) sc = Inr (initial_rmac c k sc)" "length (initial_rmac c k sc) = 16"
proof -
  obtain enc where e: "aes128_ecb_encrypt c = Some enc"
    "\<And>k b. length k = 16 \<Longrightarrow> length b = 16 \<Longrightarrow> enc k b = Inr (aes c k b) \<and> length (aes c k b) = 16"
    by (rule crypto_okE [OF assms(1)]) blast
  then show "osdp_sc_initial_rmac c (s_mac1 k) (s_mac2 k) sc = Inr (initial_rmac c k sc)" "length (initial_rmac c k sc) = 16"
    using assms(2,3) by (simp_all add: osdp_sc_initial_rmac_def initial_rmac_def keys_ok_def)
qed

text \<open>Two vtables with the same block cipher; their random sources may differ.\<close>

definition same_cipher :: "'w osdp_sc_crypto \<Rightarrow> 'w osdp_sc_crypto \<Rightarrow> bool" where
  "same_cipher c c' \<longleftrightarrow>
     aes128_ecb_encrypt c = aes128_ecb_encrypt c' \<and> aes128_ecb_decrypt c = aes128_ecb_decrypt c'"

lemma aes_cong: "same_cipher c c' \<Longrightarrow> aes c = aes c'"
  by (intro ext) (simp add: aes_def same_cipher_def)

section \<open>Handshake frames\<close>

definition hs_frame :: "byte \<Rightarrow> bool \<Rightarrow> byte \<Rightarrow> osdp_integrity \<Rightarrow> byte \<Rightarrow> byte \<Rightarrow> byte \<Rightarrow> bytes \<Rightarrow> osdp_frame" where
  "hs_frame addr reply sqn integrity scb_type sel code payload =
     zero_frame\<lparr>fr_address := addr, fr_reply := reply, fr_sequence := sqn, fr_integrity := integrity,
       fr_has_scb := True, fr_scb_length := 3, fr_scb_type := scb_type, fr_scb_data := Some [sel],
       fr_scb_data_len := 1, fr_code := code, fr_payload := Some payload, fr_payload_len := length payload\<rparr>"

lemma hs_frame_ptrs: "frame_ptrs_ok (hs_frame addr reply sqn integrity t sel code payload)"
  by (simp add: hs_frame_def frame_ptrs_ok_def ptr_holds_def zero_frame_def)

lemma hs_frame_built:
  assumes "addr \<le> OSDP_BROADCAST_ADDR" "sqn \<le> 3" "t < OSDP_SCS_15" "length payload \<le> 32" "64 \<le> cap"
  shows "\<exists>b. osdp_frame_build (hs_frame addr reply sqn integrity t sel code payload) cap = Inr b \<and>
    length b = 10 + length payload + integrity_size integrity \<and> length b \<le> 44"
proof -
  have m: "osdp_scb_mac_len t = 0"
    using assms(3) by (auto simp: osdp_scb_mac_len_def word_le_nat_alt word_less_nat_alt)
  have i: "integrity_size integrity \<le> 2"
    by (cases integrity) (simp_all add: integrity_size_def)
  have "buildable (hs_frame addr reply sqn integrity t sel code payload) (9 + length payload + integrity_size integrity)"
    using assms(1,2,4) i m by (simp add: buildable_def hs_frame_def frame_mac_needed_def zero_frame_def)
  then obtain b where "osdp_frame_build (hs_frame addr reply sqn integrity t sel code payload) cap = Inr b"
    "length b = 9 + length payload + integrity_size integrity + 1"
    by (rule buildable_transfer [where cap = cap and out = zero_frame]) (use assms(4,5) i hs_frame_ptrs in auto)
  with i assms(4) show ?thesis by simp
qed

lemma hs_received:
  fixes addr reply sqn integrity t sel code payload raw
  defines "g \<equiv> as_received (hs_frame addr reply sqn integrity t sel code payload) raw"
  shows "fr_address g = addr" "fr_reply g = reply" "fr_sequence g = sqn" "fr_integrity g = integrity" "fr_has_scb g"
    "fr_scb_type g = t" "fr_scb_data g = Some [sel]" "fr_scb_data_len g = 1" "fr_code g = code"
    "fr_payload_len g = length payload" "payload \<noteq> [] \<Longrightarrow> fr_payload g = Some payload"
    "fr_raw g = Some raw" "fr_raw_len g = length raw"
  by (simp_all add: g_def as_received_def hs_frame_def ptr_bytes_def ptr_of_def)

lemma sc_cmd_frame_hs:
  "sc_cmd_frame acu slot t k c p = hs_frame (ap_address slot) False (ap_next_seq slot AND 3) (ac_integrity acu) t k c p"
  by (simp add: sc_cmd_frame_def hs_frame_def)

lemma build_handshake_reply_hs:
  "build_handshake_reply pd cmd t s c p
     = osdp_frame_build (hs_frame (pd_address pd) True (fr_sequence cmd) (fr_integrity cmd) t s c p) (pd_tx_cap pd)"
  by (simp add: build_handshake_reply_def hs_frame_def)

lemma and_3_le: "(x :: byte) AND 3 \<le> 3"
  by (simp add: word_and_le1)

lemma sc_configured_rx [simp]:
  "osdp_pd_internal_sc_configured (pd\<lparr>pd_rx := rx\<rparr>) = osdp_pd_internal_sc_configured pd"
  "osdp_pd_internal_sc_configured (pd\<lparr>pd_reply_cacheable := x\<rparr>) = osdp_pd_internal_sc_configured pd"
  "select_handshake_key (pd\<lparr>pd_rx := rx\<rparr>) sel = select_handshake_key pd sel"
  "select_handshake_key (pd\<lparr>pd_reply_cacheable := x\<rparr>) sel = select_handshake_key pd sel"
  by (simp_all add: osdp_pd_internal_sc_configured_def select_handshake_key_def)

section \<open>The device's side\<close>

definition pd_challenged :: "'w osdp_sc_crypto \<Rightarrow> bytes \<Rightarrow> byte \<Rightarrow> bytes \<Rightarrow> bytes \<Rightarrow> 'w osdp_pd \<Rightarrow> 'w osdp_pd" where
  "pd_challenged c key sel rnd_a rnd_b pd =
     set_sc (\<lambda>sc. sc\<lparr>sc_rnd_a := rnd_a, sc_rnd_b := rnd_b, sc_key_selector := sel, sc_got_chlng := True,
       sc_session := (sc_session sc)\<lparr>ss_keys := session_keys c key rnd_a, ss_established := False\<rparr>\<rparr>) pd"

definition ccrypt_payload :: "'w osdp_sc_crypto \<Rightarrow> bytes \<Rightarrow> bytes \<Rightarrow> bytes \<Rightarrow> bytes \<Rightarrow> bytes" where
  "ccrypt_payload c key cuid rnd_a rnd_b = cuid @ rnd_b @ aes c (s_enc (session_keys c key rnd_a)) (rnd_a @ rnd_b)"

lemma pd_answers_chlng:
  assumes conf: "osdp_pd_internal_sc_configured pd" "crypto_ok (sc_crypto (pd_sc pd))"
      "rand_bytes (sc_crypto (pd_sc pd)) = Some rnd" "length (sc_cuid (pd_sc pd)) = 8" "64 \<le> pd_tx_cap pd"
      "pd_address pd \<le> OSDP_BROADCAST_ADDR"
    and key: "select_handshake_key pd sel = Some key" "length key = 16"
    and rnd: "rnd w 8 = (OSDP_OK, rnd_b, w1)" "length rnd_b = 8" "length rnd_a = 8" "sqn \<le> 3"
  defines "c \<equiv> sc_crypto (pd_sc pd)"
  obtains b where
    "handle_command_into_tx pd w (as_received (hs_frame addr False sqn integrity OSDP_SCS_11 sel OSDP_CMD_CHLNG rnd_a) raw)
       = (b, pd_challenged c key sel rnd_a rnd_b pd, w1)"
    "osdp_frame_build (hs_frame (pd_address pd) True sqn integrity OSDP_SCS_12 sel OSDP_REPLY_CCRYPT
       (ccrypt_payload c key (sc_cuid (pd_sc pd)) rnd_a rnd_b)) (pd_tx_cap pd) = Inr b"
    "length b \<le> 44"
proof -
  let ?cmd = "as_received (hs_frame addr False sqn integrity OSDP_SCS_11 sel OSDP_CMD_CHLNG rnd_a) raw"
  note d = derive_ok [OF conf(2) key(2) rnd(3), folded c_def]
  have senc: "length (s_enc (session_keys c key rnd_a)) = 16"
    using d(2) by (simp add: keys_ok_def)
  note cc = cryptogram_ok [OF conf(2) senc rnd(3,2), folded c_def]
  have "length (ccrypt_payload c key (sc_cuid (pd_sc pd)) rnd_a rnd_b) = 32"
    using conf(4) rnd(2) cc(2) by (simp add: ccrypt_payload_def)
  then obtain b where b: "osdp_frame_build (hs_frame (pd_address pd) True sqn integrity OSDP_SCS_12 sel OSDP_REPLY_CCRYPT
       (ccrypt_payload c key (sc_cuid (pd_sc pd)) rnd_a rnd_b)) (pd_tx_cap pd) = Inr b" "length b \<le> 44"
    using hs_frame_built [OF conf(6) rnd(4) _ _ conf(5), of OSDP_SCS_12
      "ccrypt_payload c key (sc_cuid (pd_sc pd)) rnd_a rnd_b" True integrity sel OSDP_REPLY_CCRYPT] by auto
  have ne: "rnd_a \<noteq> []"
    using rnd(3) by auto
  have "handle_chlng pd w ?cmd = (b, pd_challenged c key sel rnd_a rnd_b pd, w1)"
    using rnd(2,3) conf(4) cc(2) b(1) unfolding ccrypt_payload_def
    by (simp add: handle_chlng_def Let_def hs_received ne key(1) conf(3) [folded c_def] rnd(1) c_def [symmetric] d(1) cc(1)
        build_handshake_reply_hs pd_challenged_def)
  then have "handle_command_into_tx pd w ?cmd = (b, pd_challenged c key sel rnd_a rnd_b pd, w1)"
    using conf(1) by (simp add: handle_command_into_tx_def hs_received osdp_pd_internal_handle_sc_into_tx_def)
  with b that show ?thesis by blast
qed

definition pd_keyed :: "'w osdp_sc_crypto \<Rightarrow> osdp_sc_session_keys \<Rightarrow> bytes \<Rightarrow> 'w osdp_pd \<Rightarrow> 'w osdp_pd" where
  "pd_keyed c keys server_crypto pd =
     set_sc (\<lambda>sc. sc\<lparr>sc_session := (sc_session sc)\<lparr>ss_last_outbound_mac := initial_rmac c keys server_crypto,
       ss_last_inbound_mac := initial_rmac c keys server_crypto, ss_established := True\<rparr>, sc_got_chlng := False\<rparr>) pd"

lemma pd_answers_scrypt:
  assumes conf: "osdp_pd_internal_sc_configured pd" "crypto_ok (sc_crypto (pd_sc pd))" "64 \<le> pd_tx_cap pd"
      "pd_address pd \<le> OSDP_BROADCAST_ADDR" "sc_got_chlng (pd_sc pd)" "keys_ok (ss_keys (sc_session (pd_sc pd)))"
      "length (sc_rnd_a (pd_sc pd)) = 8" "length (sc_rnd_b (pd_sc pd)) = 8" "sqn \<le> 3"
  defines "c \<equiv> sc_crypto (pd_sc pd)" and "keys \<equiv> ss_keys (sc_session (pd_sc pd))"
  defines "server_crypto \<equiv> aes c (s_enc keys) (sc_rnd_b (pd_sc pd) @ sc_rnd_a (pd_sc pd))"
  obtains b where
    "handle_command_into_tx pd w (as_received (hs_frame addr False sqn integrity OSDP_SCS_13 sel OSDP_CMD_SCRYPT server_crypto) raw)
       = (b, pd_keyed c keys server_crypto pd, w)"
    "osdp_frame_build (hs_frame (pd_address pd) True sqn integrity OSDP_SCS_14 0x01 OSDP_REPLY_RMAC_I
       (initial_rmac c keys server_crypto)) (pd_tx_cap pd) = Inr b"
    "length b \<le> 44"
proof -
  let ?cmd = "as_received (hs_frame addr False sqn integrity OSDP_SCS_13 sel OSDP_CMD_SCRYPT server_crypto) raw"
  have senc: "length (s_enc keys) = 16"
    using conf(6) by (simp add: keys_ok_def keys_def)
  note cc = cryptogram_ok(3,4) [OF conf(2) [folded c_def] senc conf(7,8), folded server_crypto_def]
  note m = initial_rmac_ok [OF conf(2) [folded c_def] conf(6) [folded keys_def] cc(2)]
  obtain b where b: "osdp_frame_build (hs_frame (pd_address pd) True sqn integrity OSDP_SCS_14 0x01 OSDP_REPLY_RMAC_I
       (initial_rmac c keys server_crypto)) (pd_tx_cap pd) = Inr b" "length b \<le> 44"
    using hs_frame_built [OF conf(4,9) _ _ conf(3), of OSDP_SCS_14 "initial_rmac c keys server_crypto" True integrity
      "0x01" OSDP_REPLY_RMAC_I] m(2) by auto
  have ne: "server_crypto \<noteq> []"
    using cc(2) by auto
  have "handle_scrypt pd ?cmd = (b, pd_keyed c keys server_crypto pd)"
    using ne cc(2) m b(1) conf(5)
    by (simp add: handle_scrypt_def Let_def hs_received c_def [symmetric] keys_def [symmetric] cc(1)
        build_handshake_reply_hs pd_keyed_def)
  then have "handle_command_into_tx pd w ?cmd = (b, pd_keyed c keys server_crypto pd, w)"
    using conf(1) by (simp add: handle_command_into_tx_def hs_received osdp_pd_internal_handle_sc_into_tx_def)
  with b that show ?thesis by blast
qed

section \<open>The control unit's side\<close>

lemma acu_port_write: "at_write (acu_port :: 'a bus osdp_acu_transport) = Some (\<lambda>w b. (int (length b), w\<lparr>bus_down := bus_down w @ b\<rparr>))"
  "at_now_ms (acu_port :: 'a bus osdp_acu_transport) = Some (\<lambda>w. (bus_ms w, w))"
  by (simp_all add: acu_port_def)

lemma acu_port_send:
  assumes "ac_transport acu = acu_port"
  shows "acu_write acu w b = (OSDP_OK, w\<lparr>bus_down := bus_down w @ b\<rparr>)" "now_ms_or_zero acu w = (bus_ms w, w)"
  using assms by (simp_all add: acu_write_def now_ms_or_zero_def acu_port_write)

lemma send_sc_cmd_ok:
  fixes acu :: "'a bus osdp_acu"
  assumes "ac_transport acu = acu_port" "i < length (ac_pds acu)" "ap_address (ac_pds acu ! i) \<le> OSDP_BROADCAST_ADDR"
    "t < OSDP_SCS_15" "length p \<le> 32"
  obtains b where
    "send_sc_cmd acu w i t k c p = (OSDP_OK, upd_slot acu i (mark_pending (ap_next_seq (ac_pds acu ! i) AND 3) c (bus_ms w)),
       w\<lparr>bus_down := bus_down w @ b\<rparr>)"
    "osdp_frame_build (hs_frame (ap_address (ac_pds acu ! i)) False (ap_next_seq (ac_pds acu ! i) AND 3) (ac_integrity acu) t k c p)
       OSDP_ACU_BUF_LEN = Inr b"
    "length b \<le> 44" "length b = 10 + length p + integrity_size (ac_integrity acu)"
proof -
  let ?s = "ac_pds acu ! i"
  have "fr_sequence (sc_cmd_frame acu ?s t k c p) = ap_next_seq ?s AND 3"
    by (simp add: sc_cmd_frame_def)
  moreover obtain b where "osdp_frame_build (hs_frame (ap_address ?s) False (ap_next_seq ?s AND 3) (ac_integrity acu) t k c p)
       OSDP_ACU_BUF_LEN = Inr b" "length b \<le> 44" "length b = 10 + length p + integrity_size (ac_integrity acu)"
    using hs_frame_built [OF assms(3) _ assms(4,5), where cap = OSDP_ACU_BUF_LEN and sqn = "ap_next_seq ?s AND 3"
      and reply = False and integrity = "ac_integrity acu" and sel = k and code = c] and_3_le by auto
  ultimately show ?thesis
    using that by (simp add: send_sc_cmd_def sc_cmd_frame_hs acu_port_send [OF assms(1)])
qed

lemma find_slotD:
  assumes "find_slot_by_address acu addr = Some i"
  shows "i < length (ac_pds acu)" "ap_in_use (ac_pds acu ! i)" "ap_address (ac_pds acu ! i) = addr"
  using first_index_SomeD [OF assms [unfolded find_slot_by_address_def]] by simp_all

definition key_selector :: "bool \<Rightarrow> byte" where
  "key_selector use_default_key = (if use_default_key then 0 else 1)"

definition acu_challenging :: "byte \<Rightarrow> bytes \<Rightarrow> byte \<Rightarrow> u32 \<Rightarrow> osdp_acu_pd_slot \<Rightarrow> osdp_acu_pd_slot" where
  "acu_challenging sel rnd_a sqn now s =
     (mark_pending sqn OSDP_CMD_CHLNG now s)\<lparr>ap_sc_session := osdp_sc_session_init, ap_sc_rnd_a := rnd_a,
       ap_sc_key_selector := sel, ap_sc_phase := OSDP_ACU_SC_AWAITING_CCRYPT\<rparr>"

lemma acu_starts_handshake:
  fixes acu :: "'a bus osdp_acu"
  assumes "ac_transport acu = acu_port" "find_slot_by_address acu addr = Some i" "addr \<le> OSDP_BROADCAST_ADDR"
    "osdp_acu_internal_sc_configured acu (ac_pds acu ! i) d" "\<not> ap_waiting (ac_pds acu ! i)"
    "rand_bytes (ac_sc_crypto acu) = Some rnd" "rnd w 8 = (OSDP_OK, rnd_a, w1)" "length rnd_a = 8"
  defines "sqn \<equiv> ap_next_seq (ac_pds acu ! i) AND 3"
  obtains b where
    "osdp_acu_start_sc_handshake acu w addr d
       = (OSDP_OK, upd_slot acu i (acu_challenging (key_selector d) rnd_a sqn (bus_ms w1)), w1\<lparr>bus_down := bus_down w1 @ b\<rparr>)"
    "osdp_frame_build (hs_frame addr False sqn (ac_integrity acu) OSDP_SCS_11 (key_selector d) OSDP_CMD_CHLNG rnd_a)
       OSDP_ACU_BUF_LEN = Inr b"
    "length b \<le> 44" "length b = 18 + integrity_size (ac_integrity acu)"
proof -
  note f = find_slotD [OF assms(2)]
  let ?acu = "upd_slot acu i (\<lambda>s. s\<lparr>ap_sc_session := osdp_sc_session_init, ap_sc_phase := OSDP_ACU_SC_IDLE,
     ap_sc_rnd_a := rnd_a, ap_sc_key_selector := key_selector d\<rparr>)"
  have s: "ac_transport ?acu = acu_port" "i < length (ac_pds ?acu)" "ac_integrity ?acu = ac_integrity acu"
    "ap_address (ac_pds ?acu ! i) = addr" "ap_next_seq (ac_pds ?acu ! i) = ap_next_seq (ac_pds acu ! i)"
    using assms(1) f by simp_all
  obtain b where b:
    "send_sc_cmd ?acu w1 i OSDP_SCS_11 (key_selector d) OSDP_CMD_CHLNG rnd_a
       = (OSDP_OK, upd_slot ?acu i (mark_pending sqn OSDP_CMD_CHLNG (bus_ms w1)), w1\<lparr>bus_down := bus_down w1 @ b\<rparr>)"
    "osdp_frame_build (hs_frame addr False sqn (ac_integrity acu) OSDP_SCS_11 (key_selector d) OSDP_CMD_CHLNG rnd_a)
       OSDP_ACU_BUF_LEN = Inr b" "length b \<le> 44" "length b = 10 + length rnd_a + integrity_size (ac_integrity acu)"
    by (rule send_sc_cmd_ok [OF s(1,2), of OSDP_SCS_11 rnd_a w1 "key_selector d" OSDP_CMD_CHLNG])
      (use s(3-5) assms(3,8) in \<open>simp_all add: sqn_def\<close>)
  have e: "(\<lambda>s. (mark_pending sqn OSDP_CMD_CHLNG (bus_ms w1) (s\<lparr>ap_sc_session := osdp_sc_session_init,
      ap_sc_phase := OSDP_ACU_SC_IDLE, ap_sc_rnd_a := rnd_a, ap_sc_key_selector := key_selector d\<rparr>))
        \<lparr>ap_sc_phase := OSDP_ACU_SC_AWAITING_CCRYPT\<rparr>) = acu_challenging (key_selector d) rnd_a sqn (bus_ms w1)"
    by (rule ext, rule osdp_acu_pd_slot.equality) (simp_all add: acu_challenging_def mark_pending_def)
  have w: "at_write (ac_transport acu) \<noteq> None"
    by (simp add: assms(1) acu_port_write)
  have "osdp_acu_start_sc_handshake acu w addr d
      = (OSDP_OK, upd_slot acu i (acu_challenging (key_selector d) rnd_a sqn (bus_ms w1)), w1\<lparr>bus_down := bus_down w1 @ b\<rparr>)"
    using w f assms(2,4,5,6,7,8) b(1) e
    by (simp add: osdp_acu_start_sc_handshake_def osdp_acu_internal_send_chlng_def Let_def key_selector_def [symmetric])
  with b that assms(8) show ?thesis by simp
qed

definition acu_answering :: "osdp_sc_session_keys \<Rightarrow> bytes \<Rightarrow> bytes \<Rightarrow> u32 \<Rightarrow> osdp_acu_pd_slot \<Rightarrow> osdp_acu_pd_slot" where
  "acu_answering keys cuid rnd_b now s =
     (mark_pending (advance_sqn (ap_pending_seq s) AND 3) OSDP_CMD_SCRYPT now s)
       \<lparr>ap_sc_session := (ap_sc_session s)\<lparr>ss_keys := keys\<rparr>, ap_sc_cuid := cuid, ap_sc_rnd_b := rnd_b,
        ap_next_seq := advance_sqn (ap_pending_seq s), ap_sc_phase := OSDP_ACU_SC_AWAITING_RMAC_I\<rparr>"

definition slot_key :: "osdp_acu_pd_slot \<Rightarrow> bytes" where
  "slot_key s = (if ap_sc_key_selector s = 1 then ap_scbk s else ap_scbk_d s)"

lemma acu_sends_scrypt:
  fixes acu :: "'a bus osdp_acu"
  assumes tr: "ac_transport acu = acu_port" "i < length (ac_pds acu)" "ap_address (ac_pds acu ! i) = addr"
      "addr \<le> OSDP_BROADCAST_ADDR"
    and c: "crypto_ok (ac_sc_crypto acu)" "keys_ok keys"
    and l: "length (ap_sc_rnd_a (ac_pds acu ! i)) = 8" "length (ap_sc_rnd_b (ac_pds acu ! i)) = 8"
  defines "s \<equiv> ac_pds acu ! i"
  defines "server_crypto \<equiv> aes (ac_sc_crypto acu) (s_enc keys) (ap_sc_rnd_b s @ ap_sc_rnd_a s)"
    and "sqn \<equiv> advance_sqn (ap_pending_seq s) AND 3"
  obtains b where
    "send_scrypt acu w i keys
       = (upd_slot acu i (acu_answering keys (ap_sc_cuid s) (ap_sc_rnd_b s) (bus_ms w)), w\<lparr>bus_down := bus_down w @ b\<rparr>)"
    "osdp_frame_build (hs_frame addr False sqn (ac_integrity acu) OSDP_SCS_13 (ap_sc_key_selector s) OSDP_CMD_SCRYPT
       server_crypto) OSDP_ACU_BUF_LEN = Inr b"
    "length b \<le> 44" "length b = 26 + integrity_size (ac_integrity acu)"
proof -
  have senc: "length (s_enc keys) = 16"
    using c(2) by (simp add: keys_ok_def)
  note cc = cryptogram_ok(3,4) [OF c(1) senc l, folded s_def, folded server_crypto_def]
  let ?acu = "upd_slot acu i (\<lambda>s. s\<lparr>ap_sc_session := (ap_sc_session s)\<lparr>ss_keys := keys\<rparr>,
     ap_next_seq := advance_sqn (ap_pending_seq s), ap_waiting := False\<rparr>)"
  have a: "ac_transport ?acu = acu_port" "i < length (ac_pds ?acu)" "ac_integrity ?acu = ac_integrity acu"
    "ap_address (ac_pds ?acu ! i) = addr" "ap_next_seq (ac_pds ?acu ! i) = advance_sqn (ap_pending_seq s)"
    using tr by (simp_all add: s_def)
  obtain b where b:
    "send_sc_cmd ?acu w i OSDP_SCS_13 (ap_sc_key_selector s) OSDP_CMD_SCRYPT server_crypto
       = (OSDP_OK, upd_slot ?acu i (mark_pending sqn OSDP_CMD_SCRYPT (bus_ms w)), w\<lparr>bus_down := bus_down w @ b\<rparr>)"
    "osdp_frame_build (hs_frame addr False sqn (ac_integrity acu) OSDP_SCS_13 (ap_sc_key_selector s) OSDP_CMD_SCRYPT
       server_crypto) OSDP_ACU_BUF_LEN = Inr b" "length b \<le> 44" "length b = 10 + length server_crypto + integrity_size (ac_integrity acu)"
    by (rule send_sc_cmd_ok [OF a(1,2), of OSDP_SCS_13 server_crypto w "ap_sc_key_selector s" OSDP_CMD_SCRYPT])
      (use a(3-5) tr(4) cc(2) in \<open>simp_all add: sqn_def\<close>)
  have e: "(mark_pending sqn OSDP_CMD_SCRYPT (bus_ms w) (s\<lparr>ap_sc_session := (ap_sc_session s)\<lparr>ss_keys := keys\<rparr>,
      ap_next_seq := advance_sqn (ap_pending_seq s), ap_waiting := False\<rparr>))\<lparr>ap_sc_phase := OSDP_ACU_SC_AWAITING_RMAC_I\<rparr>
        = acu_answering keys (ap_sc_cuid s) (ap_sc_rnd_b s) (bus_ms w) s"
    by (rule osdp_acu_pd_slot.equality) (simp_all add: acu_answering_def mark_pending_def sqn_def)
  have "send_scrypt acu w i keys
       = (upd_slot acu i (acu_answering keys (ap_sc_cuid s) (ap_sc_rnd_b s) (bus_ms w)), w\<lparr>bus_down := bus_down w @ b\<rparr>)"
    using tr(2) b(1) cc
    by (simp add: send_scrypt_def Let_def s_def [symmetric] upd_slot_def e)
  with b that cc(2) show ?thesis by simp
qed

lemma acu_takes_ccrypt:
  fixes acu :: "'a bus osdp_acu"
  assumes tr: "ac_transport acu = acu_port" "i < length (ac_pds acu)" "ap_address (ac_pds acu ! i) = addr"
      "addr \<le> OSDP_BROADCAST_ADDR"
    and c: "crypto_ok (ac_sc_crypto acu)" "length (slot_key (ac_pds acu ! i)) = 16" "ap_pending_seq (ac_pds acu ! i) = sqn"
    and l: "length (ap_sc_rnd_a (ac_pds acu ! i)) = 8" "length rnd_b = 8" "length cuid = 8"
  defines "s \<equiv> ac_pds acu ! i" and "cr \<equiv> ac_sc_crypto acu"
  defines "keys \<equiv> session_keys cr (slot_key s) (ap_sc_rnd_a s)"
  obtains b where
    "osdp_acu_internal_handle_ccrypt acu w i (as_received (hs_frame addr True sqn integrity OSDP_SCS_12 (ap_sc_key_selector s)
       OSDP_REPLY_CCRYPT (ccrypt_payload cr (slot_key s) cuid (ap_sc_rnd_a s) rnd_b)) raw)
       = (upd_slot acu i (acu_answering keys cuid rnd_b (bus_ms w)), w\<lparr>bus_down := bus_down w @ b\<rparr>)"
    "osdp_frame_build (hs_frame addr False (advance_sqn sqn AND 3) (ac_integrity acu) OSDP_SCS_13 (ap_sc_key_selector s)
       OSDP_CMD_SCRYPT (aes cr (s_enc keys) (rnd_b @ ap_sc_rnd_a s))) OSDP_ACU_BUF_LEN = Inr b"
    "length b \<le> 44" "length b = 26 + integrity_size (ac_integrity acu)"
proof -
  let ?p = "ccrypt_payload cr (slot_key s) cuid (ap_sc_rnd_a s) rnd_b"
  let ?acu = "upd_slot acu i (\<lambda>s. s\<lparr>ap_sc_cuid := cuid, ap_sc_rnd_b := rnd_b\<rparr>)"
  note d = derive_ok [OF c(1,2) l(1), folded s_def, folded cr_def, folded keys_def]
  have senc: "length (s_enc keys) = 16"
    using d(2) by (simp add: keys_ok_def)
  note cc = cryptogram_ok(1,2) [OF c(1) senc l(1,2), folded s_def, folded cr_def]
  have p: "?p \<noteq> []" "length ?p = 32" "take 8 ?p = cuid" "take 8 (drop 8 ?p) = rnd_b"
    "take 16 (drop 16 ?p) = aes cr (s_enc keys) (ap_sc_rnd_a s @ rnd_b)"
    using l(2,3) cc(2) by (auto simp: ccrypt_payload_def keys_def)
  have a: "ac_pds ?acu ! i = s\<lparr>ap_sc_cuid := cuid, ap_sc_rnd_b := rnd_b\<rparr>"
    using tr(2) by (simp add: s_def)
  obtain b where b: "send_scrypt ?acu w i keys
       = (upd_slot ?acu i (acu_answering keys cuid rnd_b (bus_ms w)), w\<lparr>bus_down := bus_down w @ b\<rparr>)"
    "osdp_frame_build (hs_frame addr False (advance_sqn sqn AND 3) (ac_integrity acu) OSDP_SCS_13 (ap_sc_key_selector s)
       OSDP_CMD_SCRYPT (aes cr (s_enc keys) (rnd_b @ ap_sc_rnd_a s))) OSDP_ACU_BUF_LEN = Inr b"
    "length b \<le> 44" "length b = 26 + integrity_size (ac_integrity acu)"
    by (rule acu_sends_scrypt [of ?acu i addr keys w, unfolded a])
      (use tr c d(2) l in \<open>simp_all add: s_def cr_def\<close>)
  have e: "upd_slot ?acu i (acu_answering keys cuid rnd_b (bus_ms w)) = upd_slot acu i (acu_answering keys cuid rnd_b (bus_ms w))"
    using tr(2) by (simp add: acu_answering_def [abs_def] mark_pending_def)
  have "osdp_acu_internal_handle_ccrypt acu w i (as_received (hs_frame addr True sqn integrity OSDP_SCS_12 (ap_sc_key_selector s)
       OSDP_REPLY_CCRYPT ?p) raw) = send_scrypt ?acu w i keys"
    using c(3) d(1) cc p
    by (simp add: osdp_acu_internal_handle_ccrypt_def Let_def hs_received s_def [symmetric] cr_def [symmetric] slot_key_def [symmetric])
  with b e that show ?thesis by simp
qed

definition acu_keyed :: "bytes \<Rightarrow> u32 \<Rightarrow> osdp_acu_pd_slot \<Rightarrow> osdp_acu_pd_slot" where
  "acu_keyed rmac now s =
     s\<lparr>ap_sc_session := (ap_sc_session s)\<lparr>ss_last_outbound_mac := rmac, ss_last_inbound_mac := rmac, ss_established := True\<rparr>,
       ap_next_seq := advance_sqn (ap_pending_seq s), ap_waiting := False, ap_online := True, ap_last_reply_ms := now,
       ap_sc_phase := OSDP_ACU_SC_ESTABLISHED\<rparr>"

lemma acu_takes_rmac_i:
  fixes acu :: "'a bus osdp_acu"
  assumes tr: "ac_transport acu = acu_port" "i < length (ac_pds acu)"
    and c: "crypto_ok (ac_sc_crypto acu)" "keys_ok (ss_keys (ap_sc_session (ac_pds acu ! i)))"
      "ap_pending_seq (ac_pds acu ! i) = sqn"
    and l: "length (ap_sc_rnd_a (ac_pds acu ! i)) = 8" "length (ap_sc_rnd_b (ac_pds acu ! i)) = 8"
  defines "s \<equiv> ac_pds acu ! i" and "cr \<equiv> ac_sc_crypto acu"
  defines "rmac \<equiv> initial_rmac cr (ss_keys (ap_sc_session s))
     (aes cr (s_enc (ss_keys (ap_sc_session s))) (ap_sc_rnd_b s @ ap_sc_rnd_a s))"
  shows "osdp_acu_internal_handle_rmac_i acu w i (as_received (hs_frame addr True sqn integrity OSDP_SCS_14 0x01
       OSDP_REPLY_RMAC_I rmac) raw)
     = (upd_slot acu i (acu_keyed rmac (bus_ms w)),
        fire_sc_event acu w (ap_address s) OSDP_ACU_SC_EVENT_ESTABLISHED)"
proof -
  let ?keys = "ss_keys (ap_sc_session s)"
  have senc: "length (s_enc ?keys) = 16"
    using c(2) by (simp add: keys_ok_def s_def)
  note cc = cryptogram_ok(3,4) [OF c(1) senc l(1,2) [folded s_def], folded cr_def]
  note m = initial_rmac_ok [OF c(1) c(2) [folded s_def] cc(2) [unfolded cr_def], folded cr_def, folded rmac_def]
  have ne: "rmac \<noteq> []"
    using m(2) by auto
  have n: "now_ms_or_zero (upd_slot acu i f) w = (bus_ms w, w)" for f
    using tr(1) by (intro acu_port_send(2)) simp
  have e: "upd_slot acu i (\<lambda>sl. sl\<lparr>ap_sc_session := (ap_sc_session sl)\<lparr>ss_last_outbound_mac := rmac,
       ss_last_inbound_mac := rmac, ss_established := True\<rparr>, ap_next_seq := advance_sqn (ap_pending_seq sl),
       ap_waiting := False, ap_online := True, ap_last_reply_ms := bus_ms w, ap_sc_phase := OSDP_ACU_SC_ESTABLISHED\<rparr>)
     = upd_slot acu i (acu_keyed rmac (bus_ms w))"
    by (simp add: acu_keyed_def [abs_def])
  have f: "fire_sc_event (upd_slot acu i g) w a k = fire_sc_event acu w a k" for g a k
    by (simp add: fire_sc_event_def)
  show ?thesis
    using ne c(3) cc(1) m tr(2) n
    by (simp add: osdp_acu_internal_handle_rmac_i_def Let_def hs_received s_def [symmetric] cr_def [symmetric] e f)
qed

text \<open>The sequence number of a cached command can be read off its control byte.\<close>

lemma cached_sequence:
  assumes "osdp_frame_build f cap = Inr b" "frame_ptrs_ok f"
    "n = 0 \<or> n = length b - 1 \<and> take (length b - 1) cache = tl b"
  shows "n = 0 \<or> n > 4 \<and> cache ! 4 AND 3 = fr_sequence f"
proof -
  obtain tot where t: "buildable f tot" and tl: "tl b = build_body f tot (frame_mac_needed f)
      @ check_bytes (fr_integrity f) (build_body f tot (frame_mac_needed f))"
    using assms(1) by (auto simp: osdp_frame_build_eq)
  have "tl b ! 4 = ctrl_byte (fr_sequence f) (fr_integrity f = OSDP_INTEGRITY_CRC) (fr_has_scb f)"
    unfolding tl by (simp add: build_body_def ctrl_byte_def)
  then have c: "tl b ! 4 AND 3 = fr_sequence f"
    using t ctrl_byte_fields(2) [of "fr_sequence f"] by (simp add: buildable_def)
  have l: "4 < length b - 1"
    using built_frame_bytes(4) [OF assms(1,2)] by simp
  have "cache ! 4 = tl b ! 4" if "take (length b - 1) cache = tl b"
    using that l by (metis nth_take)
  with assms(3) c l show ?thesis by auto
qed

section \<open>The exchange over the line\<close>

definition rand_ok :: "'a bus osdp_sc_crypto \<Rightarrow> bool" where
  "rand_ok c \<longleftrightarrow> (\<exists>rnd. rand_bytes c = Some rnd \<and>
     (\<forall>w. \<exists>r w'. rnd w OSDP_SC_RND_LEN = (OSDP_OK, r, w') \<and> length r = OSDP_SC_RND_LEN \<and> line w' = line w))"

text \<open>Both sides configured for a handshake with the same key.\<close>

definition handshake_ready :: "'a bus osdp_acu \<Rightarrow> nat \<Rightarrow> 'a bus osdp_pd \<Rightarrow> bool \<Rightarrow> bool" where
  "handshake_ready acu i pd d \<longleftrightarrow>
     (let s = ac_pds acu ! i; key = (if d then ap_scbk_d s else ap_scbk s) in
      osdp_acu_internal_sc_configured acu s d \<and> crypto_ok (ac_sc_crypto acu) \<and> rand_ok (ac_sc_crypto acu) \<and>
      \<not> ap_waiting s \<and> ap_next_seq s = 0 \<and> length key = OSDP_SC_KEY_LEN \<and>
      osdp_pd_internal_sc_configured pd \<and> crypto_ok (sc_crypto (pd_sc pd)) \<and> rand_ok (sc_crypto (pd_sc pd)) \<and>
      length (sc_cuid (pd_sc pd)) = OSDP_SC_CUID_LEN \<and> select_handshake_key pd (key_selector d) = Some key \<and>
      same_cipher (sc_crypto (pd_sc pd)) (ac_sc_crypto acu))"

text \<open>After the challenge and its answer.\<close>

definition challenge_answered ::
  "'a bus osdp_acu \<Rightarrow> nat \<Rightarrow> 'a bus osdp_pd \<Rightarrow> byte \<Rightarrow> bytes \<Rightarrow> bytes \<Rightarrow> bytes \<Rightarrow> bytes \<Rightarrow> bool" where
  "challenge_answered acu i pd sel key rnd_a rnd_b b \<longleftrightarrow>
     (let s = ac_pds acu ! i; c = ac_sc_crypto acu; sc = pd_sc pd in
      crypto_ok c \<and> ap_sc_phase s = OSDP_ACU_SC_AWAITING_CCRYPT \<and> ap_pending_seq s = 0 \<and> ap_sc_key_selector s = sel \<and>
      slot_key s = key \<and> length key = 16 \<and> ap_sc_rnd_a s = rnd_a \<and> length rnd_a = 8 \<and> length rnd_b = 8 \<and>
      osdp_pd_internal_sc_configured pd \<and> crypto_ok (sc_crypto sc) \<and> same_cipher (sc_crypto sc) c \<and> sc_got_chlng sc \<and>
      sc_rnd_a sc = rnd_a \<and> sc_rnd_b sc = rnd_b \<and> length (sc_cuid sc) = 8 \<and>
      ss_keys (sc_session sc) = session_keys c key rnd_a \<and>
      pd_last_cmd_len pd \<in> {0, 17 + integrity_size (ac_integrity acu)} \<and>
      (\<exists>cap. osdp_frame_build (hs_frame (pd_address pd) True 0 (ac_integrity acu) OSDP_SCS_12 sel OSDP_REPLY_CCRYPT
        (ccrypt_payload c key (sc_cuid sc) rnd_a rnd_b)) cap = Inr b) \<and> length b \<le> 44)"

text \<open>The control unit's half: the challenge is on the line and the slot waits for its answer.\<close>

lemma acu_chlng_sent:
  fixes acu :: "'a bus osdp_acu"
  assumes ok: "acu_line_ok acu i addr (bus_ms w)" "line w = ([], [], now)" and rdy: "handshake_ready acu i pd d"
  obtains rnd_a v b where "length rnd_a = 8" "line v = line w"
    "osdp_acu_start_sc_handshake acu w addr d
       = (OSDP_OK, upd_slot acu i (acu_challenging (key_selector d) rnd_a 0 now), v\<lparr>bus_down := b\<rparr>)"
    "osdp_frame_build (hs_frame addr False 0 (ac_integrity acu) OSDP_SCS_11 (key_selector d) OSDP_CMD_CHLNG rnd_a)
       OSDP_ACU_BUF_LEN = Inr b" "length b \<le> 44" "length b = 18 + integrity_size (ac_integrity acu)"
proof -
  have cf: "ac_transport acu = acu_port" "find_slot_by_address acu addr = Some i" "addr \<le> OSDP_BROADCAST_ADDR"
      "osdp_acu_internal_sc_configured acu (ac_pds acu ! i) d" "\<not> ap_waiting (ac_pds acu ! i)" "ap_next_seq (ac_pds acu ! i) = 0"
      "rand_ok (ac_sc_crypto acu)"
    using ok(1) rdy by (simp_all add: acu_line_ok_def handshake_ready_def Let_def)
  obtain rnda rnd_a v where ra: "rand_bytes (ac_sc_crypto acu) = Some rnda" "rnda w 8 = (OSDP_OK, rnd_a, v)" "length rnd_a = 8"
      "line v = line w"
    using cf(7) unfolding rand_ok_def by blast
  have v: "bus_ms v = now" "bus_down v = []"
    using ra(4) ok(2) by (simp_all add: line_def)
  show ?thesis
    by (rule acu_starts_handshake [OF cf(1-3) _ _ ra(1-3), of d])
      (use cf(4-6) v that [OF ra(3,4)] in simp_all)
qed

text \<open>The device's half: it answers the challenge and remembers both random numbers and the derived keys.\<close>

lemma pd_chlng_tick:
  fixes pd :: "'a bus osdp_pd"
  assumes ok: "pd_line_ok pd addr now" "line w1 = (b1, [], now)" "addr \<le> OSDP_BROADCAST_ADDR"
    and cf: "osdp_pd_internal_sc_configured pd" "crypto_ok (sc_crypto (pd_sc pd))" "rand_ok (sc_crypto (pd_sc pd))"
      "length (sc_cuid (pd_sc pd)) = 8" "select_handshake_key pd sel = Some key" "length key = 16" "length rnd_a = 8"
    and b1: "osdp_frame_build (hs_frame addr False 0 integrity OSDP_SCS_11 sel OSDP_CMD_CHLNG rnd_a) OSDP_ACU_BUF_LEN = Inr b1"
      "length b1 \<le> 44"
  defines "c \<equiv> sc_crypto (pd_sc pd)"
  obtains pd1 w2 rx rnd_b b where "osdp_pd_tick pd w1 = (pd1, w2)" "pd_line_ok pd1 addr now" "line w2 = ([], b, now)"
    "length rnd_b = 8"
    "pd_sc pd1 = pd_sc (pd_challenged c key sel rnd_a rnd_b (pd\<lparr>pd_rx := rx, pd_reply_cacheable := True\<rparr>))"
    "pd_conf pd1 = pd_conf pd" "pd_last_cmd_len pd1 \<in> {0, length b1 - 1}"
    "osdp_frame_build (hs_frame addr True 0 integrity OSDP_SCS_12 sel OSDP_REPLY_CCRYPT
       (ccrypt_payload c key (sc_cuid (pd_sc pd)) rnd_a rnd_b)) (pd_tx_cap pd) = Inr b" "length b \<le> 44"
proof -
  have ms: "bus_ms w1 = now" "bus_up w1 = []" "bus_down w1 = b1" and pa: "pd_address pd = addr" "64 \<le> pd_tx_cap pd"
    using ok(1,2) by (simp_all add: line_def pd_line_ok_def)
  let ?w = "w1\<lparr>bus_down := []\<rparr>" and ?cmd = "as_received (hs_frame addr False 0 integrity OSDP_SCS_11 sel OSDP_CMD_CHLNG rnd_a) (tl b1)"
  obtain rndb rnd_b v where rb: "rand_bytes c = Some rndb" "rndb ?w 8 = (OSDP_OK, rnd_b, v)" "length rnd_b = 8" "line v = line ?w"
    using cf(3) unfolding rand_ok_def c_def by blast
  let ?p = "\<lambda>rx. pd_challenged c key sel rnd_a rnd_b (pd\<lparr>pd_rx := rx, pd_reply_cacheable := True\<rparr>)"
  obtain b where b: "osdp_frame_build (hs_frame addr True 0 integrity OSDP_SCS_12 sel OSDP_REPLY_CCRYPT
       (ccrypt_payload c key (sc_cuid (pd_sc pd)) rnd_a rnd_b)) (pd_tx_cap pd) = Inr b" "length b \<le> 44"
    by (rule pd_answers_chlng [of pd rndb sel key ?w rnd_b v rnd_a 0 addr integrity "tl b1"])
      (use cf pa ok(3) rb in \<open>simp_all add: c_def\<close>)
  have h: "handle_command_into_tx (pd\<lparr>pd_rx := rx, pd_reply_cacheable := True\<rparr>) ?w ?cmd = (b, ?p rx, v)" for rx
    by (rule pd_answers_chlng [of "pd\<lparr>pd_rx := rx, pd_reply_cacheable := True\<rparr>" rndb sel key ?w rnd_b v rnd_a 0 addr integrity "tl b1"])
      (use cf pa ok(3) rb b in \<open>simp_all add: c_def\<close>)
  have v: "line v = ([], [], bus_ms w1)" and ne: "b \<noteq> []" and nr: "\<not> is_retransmit pd ?cmd"
    using rb(4) ms(2) b(1) by (auto simp: line_def osdp_frame_build_eq is_retransmit_def hs_received)
  show ?thesis
  proof (rule pd_tick_command [OF _ b1(1) hs_frame_ptrs _ ms(3,2) _ _ nr h ne _ _ v, of addr])
    fix rx pd1 w2
    assume t: "osdp_pd_tick pd w1 = (pd1, w2)" "pd_line_ok pd1 addr (bus_ms w2)" "line w2 = ([], b, bus_ms w1)"
      "pd_sc pd1 = pd_sc (?p rx)" "pd_conf pd1 = pd_conf pd"
      "pd_last_cmd_len pd1 = 0 \<or> pd_last_cmd_len pd1 = length b1 - 1 \<and> take (length b1 - 1) (pd_cmd_cache pd1) = tl b1"
    have "bus_ms w2 = now" "pd_last_cmd_len pd1 \<in> {0, length b1 - 1}"
      using t(3,6) ms(1) by (auto simp: line_def)
    with that [OF t(1) _ _ rb(3) t(4,5) _ b] t(2,3) ms(1) show ?thesis by simp
  qed (use ok(1) ms b1(2) in \<open>simp_all add: hs_frame_def pd_challenged_def pd_line_ok_def\<close>)
qed

lemma challenge_step:
  fixes acu :: "'a bus osdp_acu"
  assumes ok: "acu_line_ok acu i addr (bus_ms w)" "pd_line_ok pd addr (bus_ms w)" "line w = ([], [], now)"
    and rdy: "handshake_ready acu i pd d"
  defines "key \<equiv> if d then ap_scbk_d (ac_pds acu ! i) else ap_scbk (ac_pds acu ! i)"
  obtains acu1 w1 pd1 w2 rnd_a rnd_b b where
    "osdp_acu_start_sc_handshake acu w addr d = (OSDP_OK, acu1, w1)" "osdp_pd_tick pd w1 = (pd1, w2)"
    "acu_line_ok acu1 i addr now" "pd_line_ok pd1 addr now" "line w2 = ([], b, now)"
    "challenge_answered acu1 i pd1 (key_selector d) key rnd_a rnd_b b"
    "acu_conf acu1 = acu_conf acu" "pd_conf pd1 = pd_conf pd"
proof -
  note sl = acu_line_slot [OF ok(1)]
  have now: "bus_ms w = now" "bus_down w = []" "bus_up w = []"
    using ok(3) by (simp_all add: line_def)
  have cf: "crypto_ok (ac_sc_crypto acu)" "length key = 16" "osdp_pd_internal_sc_configured pd" "crypto_ok (sc_crypto (pd_sc pd))"
      "rand_ok (sc_crypto (pd_sc pd))" "length (sc_cuid (pd_sc pd)) = 8" "select_handshake_key pd (key_selector d) = Some key"
      "aes (sc_crypto (pd_sc pd)) = aes (ac_sc_crypto acu)" "same_cipher (sc_crypto (pd_sc pd)) (ac_sc_crypto acu)"
    using rdy by (simp_all add: handshake_ready_def Let_def key_def aes_cong)
  obtain rnd_a v b1 where a: "length rnd_a = 8" "line v = line w"
      "osdp_acu_start_sc_handshake acu w addr d
         = (OSDP_OK, upd_slot acu i (acu_challenging (key_selector d) rnd_a 0 now), v\<lparr>bus_down := b1\<rparr>)"
      "osdp_frame_build (hs_frame addr False 0 (ac_integrity acu) OSDP_SCS_11 (key_selector d) OSDP_CMD_CHLNG rnd_a)
         OSDP_ACU_BUF_LEN = Inr b1" "length b1 \<le> 44" "length b1 = 18 + integrity_size (ac_integrity acu)"
    by (rule acu_chlng_sent [OF ok(1,3) rdy])
  have w1: "line (v\<lparr>bus_down := b1\<rparr>) = (b1, [], now)"
    using a(2) now by (simp add: line_def)
  let ?c = "sc_crypto (pd_sc pd)" and ?acu = "upd_slot acu i (acu_challenging (key_selector d) rnd_a 0 now)"
  obtain pd1 w2 rx rnd_b b where t: "osdp_pd_tick pd (v\<lparr>bus_down := b1\<rparr>) = (pd1, w2)" "pd_line_ok pd1 addr now" "line w2 = ([], b, now)"
      "length rnd_b = 8" "pd_sc pd1 = pd_sc (pd_challenged ?c key (key_selector d) rnd_a rnd_b (pd\<lparr>pd_rx := rx, pd_reply_cacheable := True\<rparr>))"
      "pd_conf pd1 = pd_conf pd" "pd_last_cmd_len pd1 \<in> {0, length b1 - 1}"
      "osdp_frame_build (hs_frame addr True 0 (ac_integrity acu) OSDP_SCS_12 (key_selector d) OSDP_REPLY_CCRYPT
         (ccrypt_payload ?c key (sc_cuid (pd_sc pd)) rnd_a rnd_b)) (pd_tx_cap pd) = Inr b" "length b \<le> 44"
    by (rule pd_chlng_tick [OF ok(2) [unfolded now(1)] w1 sl(4) cf(3-7,2) a(1,4,5)])
  have "acu_line_ok ?acu i addr now" and "acu_conf ?acu = acu_conf acu"
    using ok(1) sl(2,3,5) now(1)
    by (intro acu_line_upd, simp_all add: acu_challenging_def mark_pending_def acu_conf_def upd_slot_def)
  moreover have "osdp_pd_internal_sc_configured pd1"
    using t(5) cf(3) by (auto simp: osdp_pd_internal_sc_configured_def pd_challenged_def split: if_splits)
  then have "challenge_answered ?acu i pd1 (key_selector d) key rnd_a rnd_b b"
    using cf(1,2,4,6,8,9) a(1,6) t(2,4,5,7-9) sl(1)
    by (auto simp: challenge_answered_def Let_def acu_challenging_def mark_pending_def slot_key_def key_def key_selector_def
        pd_challenged_def session_keys_def ccrypt_payload_def pd_line_ok_def)
  ultimately show ?thesis
    using that [OF a(3) t(1)] t(2,3,6) by simp
qed

lemma route_hs:
  assumes "find_slot_by_address acu addr = Some i"
  shows "acu_tick_frame acu w OSDP_OK (as_received (hs_frame addr True sqn integrity OSDP_SCS_12 sel code p) raw)
      = (if ap_sc_phase (ac_pds acu ! i) = OSDP_ACU_SC_AWAITING_CCRYPT
         then osdp_acu_internal_handle_ccrypt acu w i (as_received (hs_frame addr True sqn integrity OSDP_SCS_12 sel code p) raw)
         else (acu, w))"
    "acu_tick_frame acu w OSDP_OK (as_received (hs_frame addr True sqn integrity OSDP_SCS_14 sel code p) raw)
      = (if ap_sc_phase (ac_pds acu ! i) = OSDP_ACU_SC_AWAITING_RMAC_I
         then osdp_acu_internal_handle_rmac_i acu w i (as_received (hs_frame addr True sqn integrity OSDP_SCS_14 sel code p) raw)
         else (acu, w))"
  using assms by (simp_all add: acu_tick_frame_def route_sc_reply_def hs_received Let_def)

lemma acu_ccrypt_tick:
  fixes acu :: "'a bus osdp_acu"
  assumes ok: "acu_line_ok acu i addr now" "line w = ([], b, now)" "pd_address pd = addr"
    and ch: "challenge_answered acu i pd sel key rnd_a rnd_b b"
  defines "c \<equiv> ac_sc_crypto acu"
  defines "keys \<equiv> session_keys c key rnd_a"
  obtains acu1 w1 b2 where "osdp_acu_tick acu w = (acu1, w1)" "acu_line_ok acu1 i addr now" "line w1 = (b2, [], now)"
    "ac_pds acu1 ! i = acu_answering keys (sc_cuid (pd_sc pd)) rnd_b now (ac_pds acu ! i)"
    "ac_sc_crypto acu1 = c" "ac_integrity acu1 = ac_integrity acu" "acu_conf acu1 = acu_conf acu"
    "osdp_frame_build (hs_frame addr False 1 (ac_integrity acu) OSDP_SCS_13 sel OSDP_CMD_SCRYPT
       (aes c (s_enc keys) (rnd_b @ rnd_a))) OSDP_ACU_BUF_LEN = Inr b2"
    "length b2 \<le> 44" "length b2 = 26 + integrity_size (ac_integrity acu)"
proof -
  note sl = acu_line_slot [OF ok(1)]
  have ms: "bus_ms w = now" "bus_up w = b" "bus_down w = []"
    using ok(2) by (simp_all add: line_def)
  have h: "crypto_ok c" "ap_sc_phase (ac_pds acu ! i) = OSDP_ACU_SC_AWAITING_CCRYPT" "ap_pending_seq (ac_pds acu ! i) = 0"
      "ap_sc_key_selector (ac_pds acu ! i) = sel" "slot_key (ac_pds acu ! i) = key" "length key = 16"
      "ap_sc_rnd_a (ac_pds acu ! i) = rnd_a" "length rnd_a = 8" "length rnd_b = 8" "length (sc_cuid (pd_sc pd)) = 8" "length b \<le> 44"
    using ch by (simp_all add: challenge_answered_def Let_def c_def)
  obtain cap where b: "osdp_frame_build (hs_frame addr True 0 (ac_integrity acu) OSDP_SCS_12 sel OSDP_REPLY_CCRYPT
        (ccrypt_payload c key (sc_cuid (pd_sc pd)) rnd_a rnd_b)) cap = Inr b"
    using ch ok(3) by (auto simp: challenge_answered_def Let_def c_def)
  let ?f = "hs_frame addr True 0 (ac_integrity acu) OSDP_SCS_12 sel OSDP_REPLY_CCRYPT (ccrypt_payload c key (sc_cuid (pd_sc pd)) rnd_a rnd_b)"
  let ?g = "acu_answering keys (sc_cuid (pd_sc pd)) rnd_b now"
  have sq: "advance_sqn 0 AND 3 = (1 :: byte)"
    by (simp add: advance_sqn_def)
  obtain b2 where b2: "osdp_frame_build (hs_frame addr False 1 (ac_integrity acu) OSDP_SCS_13 sel OSDP_CMD_SCRYPT
       (aes c (s_enc keys) (rnd_b @ rnd_a))) OSDP_ACU_BUF_LEN = Inr b2" "length b2 \<le> 44" "length b2 = 26 + integrity_size (ac_integrity acu)"
    by (rule acu_takes_ccrypt [of acu i addr 0 rnd_b "sc_cuid (pd_sc pd)"])
      (use sl h in \<open>simp_all add: sq c_def keys_def\<close>)
  have st: "acu_tick_frame (acu\<lparr>ac_rx := rx\<rparr>) (w\<lparr>bus_up := []\<rparr>) OSDP_OK (as_received ?f (tl b))
      = (upd_slot (acu\<lparr>ac_rx := rx\<rparr>) i ?g, w\<lparr>bus_up := [], bus_down := b2\<rparr>)" for rx
    unfolding route_hs(1) [OF find_slot_rx [of rx acu addr, unfolded sl(7)]]
    by (rule acu_takes_ccrypt [of "acu\<lparr>ac_rx := rx\<rparr>" i addr 0 rnd_b "sc_cuid (pd_sc pd)" "w\<lparr>bus_up := []\<rparr>" "ac_integrity acu" "tl b"])
      (use sl h b2 ms in \<open>simp_all add: sq c_def keys_def\<close>)
  obtain acu1 w1 where "osdp_acu_tick acu w = (acu1, w1)" "acu_line_ok acu1 i addr (bus_ms w1)"
      "line w1 = line (w\<lparr>bus_up := [], bus_down := b2\<rparr>)" "ac_pds acu1 = (ac_pds acu)[i := ?g (ac_pds acu ! i)]"
      "ac_sc_crypto acu1 = c" "ac_integrity acu1 = ac_integrity acu" "acu_conf acu1 = acu_conf acu"
    by (rule acu_tick_reply [OF _ b hs_frame_ptrs _ ms(2) st, of addr])
      (use ok(1) ms sl h(11) in \<open>simp_all add: acu_answering_def mark_pending_def c_def\<close>)
  with that b2 ms sl(1) show ?thesis
    by (simp add: line_def)
qed

lemma pd_scrypt_tick:
  fixes acu :: "'a bus osdp_acu"
  assumes ok: "pd_line_ok pd addr now" "line w1 = (b2, [], now)" "addr \<le> OSDP_BROADCAST_ADDR"
    and ch: "challenge_answered acu i pd sel key rnd_a rnd_b b"
  defines "c \<equiv> ac_sc_crypto acu"
  defines "keys \<equiv> session_keys c key rnd_a"
  defines "rmac \<equiv> initial_rmac c keys (aes c (s_enc keys) (rnd_b @ rnd_a))"
  assumes b2: "osdp_frame_build (hs_frame addr False 1 (ac_integrity acu) OSDP_SCS_13 sel OSDP_CMD_SCRYPT
       (aes c (s_enc keys) (rnd_b @ rnd_a))) OSDP_ACU_BUF_LEN = Inr b2"
    "length b2 \<le> 44" "length b2 = 26 + integrity_size (ac_integrity acu)"
  obtains pd1 w2 b3 where "osdp_pd_tick pd w1 = (pd1, w2)" "pd_line_ok pd1 addr now" "line w2 = ([], b3, now)"
    "ss_established (sc_session (pd_sc pd1))" "ss_keys (sc_session (pd_sc pd1)) = keys"
    "ss_last_inbound_mac (sc_session (pd_sc pd1)) = rmac" "ss_last_outbound_mac (sc_session (pd_sc pd1)) = rmac"
    "osdp_frame_build (hs_frame addr True 1 (ac_integrity acu) OSDP_SCS_14 0x01 OSDP_REPLY_RMAC_I rmac) (pd_tx_cap pd) = Inr b3"
    "length b3 \<le> 44" "sc_crypto (pd_sc pd1) = sc_crypto (pd_sc pd)"
    "osdp_pd_internal_sc_configured pd1" "pd_conf pd1 = pd_conf pd"
    "pd_last_cmd_len pd1 = 0 \<or> pd_last_cmd_len pd1 = length b2 - 1 \<and> take (length b2 - 1) (pd_cmd_cache pd1) = tl b2"
proof -
  have ms: "bus_ms w1 = now" "bus_up w1 = []" "bus_down w1 = b2"
    using ok(2) by (simp_all add: line_def)
  have pa: "pd_address pd = addr" "64 \<le> pd_tx_cap pd" "\<not> pd_comset_pending pd"
    using ok(1) by (simp_all add: pd_line_ok_def)
  have h: "osdp_pd_internal_sc_configured pd" "crypto_ok (sc_crypto (pd_sc pd))" "sc_got_chlng (pd_sc pd)"
      "sc_rnd_a (pd_sc pd) = rnd_a" "sc_rnd_b (pd_sc pd) = rnd_b" "ss_keys (sc_session (pd_sc pd)) = keys"
      "length rnd_a = 8" "length rnd_b = 8" "aes (sc_crypto (pd_sc pd)) = aes c" "length key = 16" "crypto_ok c"
      "pd_last_cmd_len pd \<in> {0, 17 + integrity_size (ac_integrity acu)}"
    using ch by (simp_all add: challenge_answered_def Let_def c_def keys_def aes_cong)
  have k: "keys_ok keys"
    using derive_ok(2) [OF h(11,10,7)] by (simp add: keys_def)
  have im: "initial_rmac (sc_crypto (pd_sc pd)) = initial_rmac c"
    by (intro ext) (simp add: initial_rmac_def h(9))
  let ?cmd = "as_received (hs_frame addr False 1 (ac_integrity acu) OSDP_SCS_13 sel OSDP_CMD_SCRYPT (aes c (s_enc keys) (rnd_b @ rnd_a))) (tl b2)"
  let ?p = "\<lambda>rx. pd_keyed (sc_crypto (pd_sc pd)) keys (aes c (s_enc keys) (rnd_b @ rnd_a)) (pd\<lparr>pd_rx := rx, pd_reply_cacheable := True\<rparr>)"
  obtain b3 where b3: "osdp_frame_build (hs_frame addr True 1 (ac_integrity acu) OSDP_SCS_14 0x01 OSDP_REPLY_RMAC_I rmac)
      (pd_tx_cap pd) = Inr b3" "length b3 \<le> 44"
    by (rule pd_answers_scrypt [of pd 1 "w1\<lparr>bus_down := []\<rparr>" addr "ac_integrity acu" sel "tl b2"])
      (use h k pa ok(3) in \<open>simp_all add: rmac_def im\<close>)
  have st: "handle_command_into_tx (pd\<lparr>pd_rx := rx, pd_reply_cacheable := True\<rparr>) (w1\<lparr>bus_down := []\<rparr>) ?cmd
      = (b3, ?p rx, w1\<lparr>bus_down := []\<rparr>)" for rx
    by (rule pd_answers_scrypt [of "pd\<lparr>pd_rx := rx, pd_reply_cacheable := True\<rparr>" 1 "w1\<lparr>bus_down := []\<rparr>" addr "ac_integrity acu" sel "tl b2"])
      (use h k pa ok(3) b3 in \<open>simp_all add: rmac_def im\<close>)
  have nr: "\<not> is_retransmit pd ?cmd"
    using h(12) b2(3) by (auto simp: is_retransmit_def hs_received)
  have ne: "b3 \<noteq> []"
    using b3(1) by (auto simp: osdp_frame_build_eq)
  obtain rx pd1 w2 where t: "osdp_pd_tick pd w1 = (pd1, w2)" "pd_line_ok pd1 addr (bus_ms w2)" "line w2 = ([], b3, bus_ms w1)"
      "pd_sc pd1 = pd_sc (?p rx)" "pd_conf pd1 = pd_conf pd"
      "pd_last_cmd_len pd1 = 0 \<or> pd_last_cmd_len pd1 = length b2 - 1 \<and> take (length b2 - 1) (pd_cmd_cache pd1) = tl b2"
    by (rule pd_tick_command [OF _ b2(1) hs_frame_ptrs _ ms(3,2) _ _ nr st ne, of addr])
      (use ok(1) ms b2(2) pa in \<open>simp_all add: hs_frame_def pd_keyed_def line_def\<close>)
  have "bus_ms w2 = now"
    using t(3) ms by (simp add: line_def)
  moreover have "sc_crypto (pd_sc pd1) = sc_crypto (pd_sc pd)" "osdp_pd_internal_sc_configured pd1"
    using t(4) h(1) by (auto simp: pd_keyed_def osdp_pd_internal_sc_configured_def split: if_splits)
  ultimately show ?thesis
    using that [OF t(1) _ _ _ _ _ _ b3] t ms h(6) by (simp add: pd_keyed_def rmac_def im)
qed

lemma acu_rmac_tick:
  fixes acu :: "'a bus osdp_acu"
  assumes ok: "acu_line_ok acu i addr now" "line w = ([], b, now)"
    and s: "crypto_ok (ac_sc_crypto acu)" "ap_sc_phase (ac_pds acu ! i) = OSDP_ACU_SC_AWAITING_RMAC_I"
      "ap_pending_seq (ac_pds acu ! i) = 1" "ss_keys (ap_sc_session (ac_pds acu ! i)) = keys" "keys_ok keys"
      "ap_sc_rnd_a (ac_pds acu ! i) = rnd_a" "ap_sc_rnd_b (ac_pds acu ! i) = rnd_b" "length rnd_a = 8" "length rnd_b = 8"
      "rmac = initial_rmac (ac_sc_crypto acu) keys (aes (ac_sc_crypto acu) (s_enc keys) (rnd_b @ rnd_a))"
    and b: "osdp_frame_build (hs_frame addr True 1 (ac_integrity acu) OSDP_SCS_14 0x01 OSDP_REPLY_RMAC_I rmac) cap = Inr b"
      "length b \<le> 44"
  obtains acu1 w1 where "osdp_acu_tick acu w = (acu1, w1)" "acu_line_ok acu1 i addr now" "line w1 = ([], [], now)"
    "ac_pds acu1 ! i = acu_keyed rmac now (ac_pds acu ! i)" "ac_sc_crypto acu1 = ac_sc_crypto acu"
    "ac_integrity acu1 = ac_integrity acu" "acu_conf acu1 = acu_conf acu"
proof -
  note sl = acu_line_slot [OF ok(1)]
  have ms: "bus_ms w = now" "bus_up w = b" "bus_down w = []"
    using ok(2) by (simp_all add: line_def)
  let ?f = "hs_frame addr True 1 (ac_integrity acu) OSDP_SCS_14 0x01 OSDP_REPLY_RMAC_I rmac"
  let ?v = "fire_sc_event acu (w\<lparr>bus_up := []\<rparr>) addr OSDP_ACU_SC_EVENT_ESTABLISHED"
  have ev: "line ?v = ([], [], now)"
    using ok(1) ms by (auto simp: fire_sc_event_def acu_line_ok_def acu_quiet_def quiet_def line_def split: option.split)
  have st: "acu_tick_frame (acu\<lparr>ac_rx := rx\<rparr>) (w\<lparr>bus_up := []\<rparr>) OSDP_OK (as_received ?f (tl b))
      = (upd_slot (acu\<lparr>ac_rx := rx\<rparr>) i (acu_keyed rmac now), ?v)" for rx
    using acu_takes_rmac_i [of "acu\<lparr>ac_rx := rx\<rparr>" i 1 "w\<lparr>bus_up := []\<rparr>" addr "ac_integrity acu" "tl b"] sl s ms
    unfolding route_hs(2) [OF find_slot_rx [of rx acu addr, unfolded sl(7)]]
    by (simp add: fire_sc_event_def)
  have bm: "bus_ms ?v = bus_ms w"
    using ev ms by (simp add: line_def)
  obtain acu1 w1 where "osdp_acu_tick acu w = (acu1, w1)" "acu_line_ok acu1 i addr (bus_ms w1)" "line w1 = line ?v"
      "ac_pds acu1 = (ac_pds acu)[i := acu_keyed rmac now (ac_pds acu ! i)]"
      "ac_sc_crypto acu1 = ac_sc_crypto acu" "ac_integrity acu1 = ac_integrity acu" "acu_conf acu1 = acu_conf acu"
    by (rule acu_tick_reply [OF _ b(1) hs_frame_ptrs _ ms(2) st bm, of addr])
      (use ok(1) ms sl b(2) in \<open>simp_all add: acu_keyed_def\<close>)
  with that ev sl(1) show ?thesis
    by (simp add: line_def)
qed

text \<open>The run: the control unit starts, then both sides tick in turn.\<close>

definition handshake_run ::
  "'a bus osdp_acu \<Rightarrow> 'a bus osdp_pd \<Rightarrow> 'a bus \<Rightarrow> byte \<Rightarrow> bool \<Rightarrow> osdp_status \<times> 'a bus osdp_acu \<times> 'a bus osdp_pd \<times> 'a bus" where
  "handshake_run acu pd w addr use_default_key =
     (case osdp_acu_start_sc_handshake acu w addr use_default_key of
        (st, acu1, w1) \<Rightarrow>
          (case osdp_pd_tick pd w1 of (pd1, w2) \<Rightarrow>
             (case osdp_acu_tick acu1 w2 of (acu2, w3) \<Rightarrow>
                (case osdp_pd_tick pd1 w3 of (pd2, w4) \<Rightarrow>
                   (case osdp_acu_tick acu2 w4 of (acu3, w5) \<Rightarrow> (st, acu3, pd2, w5))))))"

text \<open>A link with an established session, between two commands.\<close>

definition link_secure :: "'a bus osdp_acu \<Rightarrow> nat \<Rightarrow> 'a bus osdp_pd \<Rightarrow> byte \<Rightarrow> 'a bus \<Rightarrow> bool" where
  "link_secure acu i pd addr w \<longleftrightarrow>
     (let s = ac_pds acu ! i in
      acu_line_ok acu i addr (bus_ms w) \<and> pd_line_ok pd addr (bus_ms w) \<and> bus_down w = [] \<and> bus_up w = [] \<and>
      ap_sc_phase s = OSDP_ACU_SC_ESTABLISHED \<and> \<not> ap_waiting s \<and> ap_next_seq s \<in> {1, 2, 3} \<and>
      crypto_ok (ac_sc_crypto acu) \<and> crypto_ok (sc_crypto (pd_sc pd)) \<and>
      same_cipher (sc_crypto (pd_sc pd)) (ac_sc_crypto acu) \<and>
      osdp_pd_internal_sc_configured pd \<and>
      (pd_last_cmd_len pd = 0 \<or> pd_last_cmd_len pd > 4 \<and> pd_cmd_cache pd ! 4 AND 3 \<noteq> ap_next_seq s) \<and>
      sc_in_step (ap_sc_session s) (sc_session (pd_sc pd)))"

text \<open>After the cryptograms: the device's session is keyed and its initial reply MAC is on the line.\<close>

definition session_offered ::
  "'a bus osdp_acu \<Rightarrow> nat \<Rightarrow> 'a bus osdp_pd \<Rightarrow> osdp_sc_session_keys \<Rightarrow> bytes \<Rightarrow> bytes \<Rightarrow> bytes \<Rightarrow> bool" where
  "session_offered acu i pd keys rnd_a rnd_b b \<longleftrightarrow>
     (let s = ac_pds acu ! i; c = ac_sc_crypto acu; p = sc_session (pd_sc pd);
          rmac = initial_rmac c keys (aes c (s_enc keys) (rnd_b @ rnd_a)) in
      crypto_ok c \<and> keys_ok keys \<and> length rmac = 16 \<and>
      ap_sc_phase s = OSDP_ACU_SC_AWAITING_RMAC_I \<and> ap_pending_seq s = 1 \<and> ss_keys (ap_sc_session s) = keys \<and>
      ap_sc_rnd_a s = rnd_a \<and> ap_sc_rnd_b s = rnd_b \<and> length rnd_a = 8 \<and> length rnd_b = 8 \<and>
      ss_established p \<and> ss_keys p = keys \<and> ss_last_inbound_mac p = rmac \<and> ss_last_outbound_mac p = rmac \<and>
      crypto_ok (sc_crypto (pd_sc pd)) \<and> same_cipher (sc_crypto (pd_sc pd)) c \<and> osdp_pd_internal_sc_configured pd \<and>
      (pd_last_cmd_len pd = 0 \<or> pd_last_cmd_len pd > 4 \<and> pd_cmd_cache pd ! 4 AND 3 = 1) \<and>
      (\<exists>cap. osdp_frame_build (hs_frame (pd_address pd) True 1 (ac_integrity acu) OSDP_SCS_14 0x01 OSDP_REPLY_RMAC_I rmac) cap
         = Inr b) \<and> length b \<le> 44)"

lemma session_secrets:
  assumes "crypto_ok c" "length key = 16" "length rnd_a = 8" "length rnd_b = 8"
  defines "keys \<equiv> session_keys c key rnd_a"
  shows "keys_ok keys" "length (initial_rmac c keys (aes c (s_enc keys) (rnd_b @ rnd_a))) = 16"
proof -
  show k: "keys_ok keys"
    unfolding keys_def by (rule derive_ok(2) [OF assms(1-3)])
  then have "length (aes c (s_enc keys) (rnd_b @ rnd_a)) = 16"
    using cryptogram_ok(4) [OF assms(1) _ assms(3,4), of "s_enc keys"] by (simp add: keys_ok_def)
  then show "length (initial_rmac c keys (aes c (s_enc keys) (rnd_b @ rnd_a))) = 16"
    by (rule initial_rmac_ok(2) [OF assms(1) k])
qed

lemma cryptograms_exchanged:
  fixes acu :: "'a bus osdp_acu"
  assumes ok: "acu_line_ok acu i addr now" "pd_line_ok pd addr now" "line w = ([], b, now)"
    and ch: "challenge_answered acu i pd sel key rnd_a rnd_b b"
  obtains acu1 w1 pd1 w2 b1 where "osdp_acu_tick acu w = (acu1, w1)" "osdp_pd_tick pd w1 = (pd1, w2)"
    "acu_line_ok acu1 i addr now" "pd_line_ok pd1 addr now" "line w2 = ([], b1, now)"
    "session_offered acu1 i pd1 (session_keys (ac_sc_crypto acu) key rnd_a) rnd_a rnd_b b1"
    "acu_conf acu1 = acu_conf acu" "pd_conf pd1 = pd_conf pd"
proof -
  define c where "c = ac_sc_crypto acu"
  define keys where "keys = session_keys c key rnd_a"
  define rmac where "rmac = initial_rmac c keys (aes c (s_enc keys) (rnd_b @ rnd_a))"
  have pa: "pd_address pd = addr"
    using ok(2) by (simp add: pd_line_ok_def)
  have h: "crypto_ok c" "length key = 16" "length rnd_a = 8" "length rnd_b = 8" "crypto_ok (sc_crypto (pd_sc pd))"
      "same_cipher (sc_crypto (pd_sc pd)) c" "ap_sc_rnd_a (ac_pds acu ! i) = rnd_a" "ap_pending_seq (ac_pds acu ! i) = 0"
    using ch by (simp_all add: challenge_answered_def Let_def c_def)
  obtain acu1 w1 b2 where s: "osdp_acu_tick acu w = (acu1, w1)" "acu_line_ok acu1 i addr now" "line w1 = (b2, [], now)"
      "ac_pds acu1 ! i = acu_answering keys (sc_cuid (pd_sc pd)) rnd_b now (ac_pds acu ! i)"
      "ac_sc_crypto acu1 = c" "ac_integrity acu1 = ac_integrity acu" "acu_conf acu1 = acu_conf acu"
      "osdp_frame_build (hs_frame addr False 1 (ac_integrity acu) OSDP_SCS_13 sel OSDP_CMD_SCRYPT
         (aes c (s_enc keys) (rnd_b @ rnd_a))) OSDP_ACU_BUF_LEN = Inr b2"
      "length b2 \<le> 44" "length b2 = 26 + integrity_size (ac_integrity acu)"
    by (rule acu_ccrypt_tick [OF ok(1,3) pa ch, folded c_def, folded keys_def])
  obtain pd1 w2 b1 where t: "osdp_pd_tick pd w1 = (pd1, w2)" "pd_line_ok pd1 addr now" "line w2 = ([], b1, now)"
      "ss_established (sc_session (pd_sc pd1))" "ss_keys (sc_session (pd_sc pd1)) = keys"
      "ss_last_inbound_mac (sc_session (pd_sc pd1)) = rmac" "ss_last_outbound_mac (sc_session (pd_sc pd1)) = rmac"
      "osdp_frame_build (hs_frame addr True 1 (ac_integrity acu) OSDP_SCS_14 0x01 OSDP_REPLY_RMAC_I rmac) (pd_tx_cap pd) = Inr b1"
      "length b1 \<le> 44" "sc_crypto (pd_sc pd1) = sc_crypto (pd_sc pd)" "osdp_pd_internal_sc_configured pd1" "pd_conf pd1 = pd_conf pd"
      "pd_last_cmd_len pd1 = 0 \<or> pd_last_cmd_len pd1 = length b2 - 1 \<and> take (length b2 - 1) (pd_cmd_cache pd1) = tl b2"
    by (rule pd_scrypt_tick [OF ok(2) s(3) acu_line_slot(4) [OF ok(1)] ch s(8-10) [unfolded keys_def c_def],
          folded c_def, folded keys_def, folded rmac_def])
  have "pd_last_cmd_len pd1 = 0 \<or> pd_last_cmd_len pd1 > 4 \<and> pd_cmd_cache pd1 ! 4 AND 3 = 1" "pd_address pd1 = addr"
    using cached_sequence [OF s(8) hs_frame_ptrs t(13)] t(2) by (simp_all add: hs_frame_def pd_line_ok_def)
  then have "session_offered acu1 i pd1 keys rnd_a rnd_b b1"
    using session_secrets [OF h(1-4)] h t(4-11) s(5,6)
    by (auto simp: session_offered_def Let_def rmac_def keys_def [symmetric] s(4) acu_answering_def mark_pending_def advance_sqn_def)
  with that [OF s(1) t(1) s(2) t(2,3) _ s(7) t(12)] show ?thesis by (simp add: keys_def c_def)
qed

lemma rmac_step:
  fixes acu :: "'a bus osdp_acu"
  assumes ok: "acu_line_ok acu i addr now" "pd_line_ok pd addr now" "line w = ([], b, now)"
    and off: "session_offered acu i pd keys rnd_a rnd_b b"
  obtains acu1 w1 where "osdp_acu_tick acu w = (acu1, w1)" "link_secure acu1 i pd addr w1" "bus_ms w1 = now"
    "acu_conf acu1 = acu_conf acu"
proof -
  define rmac where "rmac = initial_rmac (ac_sc_crypto acu) keys (aes (ac_sc_crypto acu) (s_enc keys) (rnd_b @ rnd_a))"
  have h: "crypto_ok (ac_sc_crypto acu)" "ap_sc_phase (ac_pds acu ! i) = OSDP_ACU_SC_AWAITING_RMAC_I"
      "ap_pending_seq (ac_pds acu ! i) = 1" "ss_keys (ap_sc_session (ac_pds acu ! i)) = keys" "keys_ok keys"
      "ap_sc_rnd_a (ac_pds acu ! i) = rnd_a" "ap_sc_rnd_b (ac_pds acu ! i) = rnd_b" "length rnd_a = 8" "length rnd_b = 8"
    using off by (simp_all add: session_offered_def Let_def)
  obtain cap where b: "osdp_frame_build (hs_frame addr True 1 (ac_integrity acu) OSDP_SCS_14 0x01 OSDP_REPLY_RMAC_I rmac) cap = Inr b"
      "length b \<le> 44"
    using off ok(2) by (auto simp: session_offered_def Let_def rmac_def pd_line_ok_def)
  obtain acu1 w1 where u: "osdp_acu_tick acu w = (acu1, w1)" "acu_line_ok acu1 i addr now" "line w1 = ([], [], now)"
      "ac_pds acu1 ! i = acu_keyed rmac now (ac_pds acu ! i)" "ac_sc_crypto acu1 = ac_sc_crypto acu" "acu_conf acu1 = acu_conf acu"
    by (rule acu_rmac_tick [OF ok(1,3) h rmac_def b])
  have l: "bus_ms w1 = now" "bus_down w1 = []" "bus_up w1 = []" and sq: "advance_sqn 1 = 2"
    using u(3) by (simp_all add: line_def, code_simp)
  have "sc_in_step (ap_sc_session (ac_pds acu1 ! i)) (sc_session (pd_sc pd))"
    using off by (simp add: session_offered_def Let_def sc_in_step_def u(4) acu_keyed_def rmac_def)
  then have "link_secure acu1 i pd addr w1"
    using u(2,5) ok(2) off l sq by (auto simp: session_offered_def link_secure_def Let_def u(4) acu_keyed_def)
  with that [OF u(1) _ l(1) u(6)] show ?thesis .
qed

lemma handshake_establishes:
  fixes acu :: "'a bus osdp_acu"
  assumes ok: "acu_line_ok acu i addr (bus_ms w)" "pd_line_ok pd addr (bus_ms w)" "bus_down w = []" "bus_up w = []"
    and rdy: "handshake_ready acu i pd d"
  obtains acu' pd' w' where "handshake_run acu pd w addr d = (OSDP_OK, acu', pd', w')" "link_secure acu' i pd' addr w'"
    "bus_ms w' = bus_ms w" "acu_conf acu' = acu_conf acu" "pd_conf pd' = pd_conf pd"
proof -
  let ?key = "if d then ap_scbk_d (ac_pds acu ! i) else ap_scbk (ac_pds acu ! i)" and ?now = "bus_ms w"
  have "line w = ([], [], ?now)"
    using ok by (simp add: line_def)
  then obtain acu1 w1 pd1 w2 rnd_a rnd_b b where s1:
      "osdp_acu_start_sc_handshake acu w addr d = (OSDP_OK, acu1, w1)" "osdp_pd_tick pd w1 = (pd1, w2)"
      "acu_line_ok acu1 i addr ?now" "pd_line_ok pd1 addr ?now" "line w2 = ([], b, ?now)"
      "challenge_answered acu1 i pd1 (key_selector d) ?key rnd_a rnd_b b" "acu_conf acu1 = acu_conf acu" "pd_conf pd1 = pd_conf pd"
    by (rule challenge_step [OF ok(1,2) _ rdy])
  obtain acu2 w3 pd2 w4 b2 where s2: "osdp_acu_tick acu1 w2 = (acu2, w3)" "osdp_pd_tick pd1 w3 = (pd2, w4)"
      "acu_line_ok acu2 i addr ?now" "pd_line_ok pd2 addr ?now" "line w4 = ([], b2, ?now)"
      "session_offered acu2 i pd2 (session_keys (ac_sc_crypto acu1) ?key rnd_a) rnd_a rnd_b b2"
      "acu_conf acu2 = acu_conf acu1" "pd_conf pd2 = pd_conf pd1"
    by (rule cryptograms_exchanged [OF s1(3-6)])
  obtain acu3 w5 where s3: "osdp_acu_tick acu2 w4 = (acu3, w5)" "link_secure acu3 i pd2 addr w5" "bus_ms w5 = ?now"
      "acu_conf acu3 = acu_conf acu2"
    by (rule rmac_step [OF s2(3-6)])
  have "handshake_run acu pd w addr d = (OSDP_OK, acu3, pd2, w5)"
    by (simp add: handshake_run_def s1(1,2) s2(1,2) s3(1))
  then show ?thesis
    by (rule that) (simp_all add: s1(7,8) s2(7,8) s3(2-4))
qed

end
