(* ===== verification/Tiny_AES.thy ===== *)
theory Tiny_AES
  imports SC_Crypto
begin

unbundle bit_operations_syntax

text \<open>
  The AES-128 block cipher the tools link: the vendored \<^verbatim>\<open>vendor/tiny-aes/aes.c\<close> in the configuration of its
  header (AES-128), the port \<^verbatim>\<open>ports/tiny/osdp_sc_tiny.c\<close> that binds it to the Secure Channel's vtable,
  and the port \<^verbatim>\<open>ports/wolfcrypt\<close>, where the cipher is a parameter.

  The cipher state \<^verbatim>\<open>state_t\<close>, a 4 by 4 array laid over the caller's 16-byte buffer, is the list of the
  16 bytes, \<^verbatim>\<open>state[i][j]\<close> being position \<open>4 * i + j\<close>; the round keys are the list of 176 bytes.
\<close>

section \<open>Tables\<close>

definition sbox :: bytes where
  "sbox =
    [0x63, 0x7c, 0x77, 0x7b, 0xf2, 0x6b, 0x6f, 0xc5, 0x30, 0x01, 0x67, 0x2b, 0xfe, 0xd7, 0xab, 0x76,
     0xca, 0x82, 0xc9, 0x7d, 0xfa, 0x59, 0x47, 0xf0, 0xad, 0xd4, 0xa2, 0xaf, 0x9c, 0xa4, 0x72, 0xc0,
     0xb7, 0xfd, 0x93, 0x26, 0x36, 0x3f, 0xf7, 0xcc, 0x34, 0xa5, 0xe5, 0xf1, 0x71, 0xd8, 0x31, 0x15,
     0x04, 0xc7, 0x23, 0xc3, 0x18, 0x96, 0x05, 0x9a, 0x07, 0x12, 0x80, 0xe2, 0xeb, 0x27, 0xb2, 0x75,
     0x09, 0x83, 0x2c, 0x1a, 0x1b, 0x6e, 0x5a, 0xa0, 0x52, 0x3b, 0xd6, 0xb3, 0x29, 0xe3, 0x2f, 0x84,
     0x53, 0xd1, 0x00, 0xed, 0x20, 0xfc, 0xb1, 0x5b, 0x6a, 0xcb, 0xbe, 0x39, 0x4a, 0x4c, 0x58, 0xcf,
     0xd0, 0xef, 0xaa, 0xfb, 0x43, 0x4d, 0x33, 0x85, 0x45, 0xf9, 0x02, 0x7f, 0x50, 0x3c, 0x9f, 0xa8,
     0x51, 0xa3, 0x40, 0x8f, 0x92, 0x9d, 0x38, 0xf5, 0xbc, 0xb6, 0xda, 0x21, 0x10, 0xff, 0xf3, 0xd2,
     0xcd, 0x0c, 0x13, 0xec, 0x5f, 0x97, 0x44, 0x17, 0xc4, 0xa7, 0x7e, 0x3d, 0x64, 0x5d, 0x19, 0x73,
     0x60, 0x81, 0x4f, 0xdc, 0x22, 0x2a, 0x90, 0x88, 0x46, 0xee, 0xb8, 0x14, 0xde, 0x5e, 0x0b, 0xdb,
     0xe0, 0x32, 0x3a, 0x0a, 0x49, 0x06, 0x24, 0x5c, 0xc2, 0xd3, 0xac, 0x62, 0x91, 0x95, 0xe4, 0x79,
     0xe7, 0xc8, 0x37, 0x6d, 0x8d, 0xd5, 0x4e, 0xa9, 0x6c, 0x56, 0xf4, 0xea, 0x65, 0x7a, 0xae, 0x08,
     0xba, 0x78, 0x25, 0x2e, 0x1c, 0xa6, 0xb4, 0xc6, 0xe8, 0xdd, 0x74, 0x1f, 0x4b, 0xbd, 0x8b, 0x8a,
     0x70, 0x3e, 0xb5, 0x66, 0x48, 0x03, 0xf6, 0x0e, 0x61, 0x35, 0x57, 0xb9, 0x86, 0xc1, 0x1d, 0x9e,
     0xe1, 0xf8, 0x98, 0x11, 0x69, 0xd9, 0x8e, 0x94, 0x9b, 0x1e, 0x87, 0xe9, 0xce, 0x55, 0x28, 0xdf,
     0x8c, 0xa1, 0x89, 0x0d, 0xbf, 0xe6, 0x42, 0x68, 0x41, 0x99, 0x2d, 0x0f, 0xb0, 0x54, 0xbb, 0x16]"

definition rsbox :: bytes where
  "rsbox =
    [0x52, 0x09, 0x6a, 0xd5, 0x30, 0x36, 0xa5, 0x38, 0xbf, 0x40, 0xa3, 0x9e, 0x81, 0xf3, 0xd7, 0xfb,
     0x7c, 0xe3, 0x39, 0x82, 0x9b, 0x2f, 0xff, 0x87, 0x34, 0x8e, 0x43, 0x44, 0xc4, 0xde, 0xe9, 0xcb,
     0x54, 0x7b, 0x94, 0x32, 0xa6, 0xc2, 0x23, 0x3d, 0xee, 0x4c, 0x95, 0x0b, 0x42, 0xfa, 0xc3, 0x4e,
     0x08, 0x2e, 0xa1, 0x66, 0x28, 0xd9, 0x24, 0xb2, 0x76, 0x5b, 0xa2, 0x49, 0x6d, 0x8b, 0xd1, 0x25,
     0x72, 0xf8, 0xf6, 0x64, 0x86, 0x68, 0x98, 0x16, 0xd4, 0xa4, 0x5c, 0xcc, 0x5d, 0x65, 0xb6, 0x92,
     0x6c, 0x70, 0x48, 0x50, 0xfd, 0xed, 0xb9, 0xda, 0x5e, 0x15, 0x46, 0x57, 0xa7, 0x8d, 0x9d, 0x84,
     0x90, 0xd8, 0xab, 0x00, 0x8c, 0xbc, 0xd3, 0x0a, 0xf7, 0xe4, 0x58, 0x05, 0xb8, 0xb3, 0x45, 0x06,
     0xd0, 0x2c, 0x1e, 0x8f, 0xca, 0x3f, 0x0f, 0x02, 0xc1, 0xaf, 0xbd, 0x03, 0x01, 0x13, 0x8a, 0x6b,
     0x3a, 0x91, 0x11, 0x41, 0x4f, 0x67, 0xdc, 0xea, 0x97, 0xf2, 0xcf, 0xce, 0xf0, 0xb4, 0xe6, 0x73,
     0x96, 0xac, 0x74, 0x22, 0xe7, 0xad, 0x35, 0x85, 0xe2, 0xf9, 0x37, 0xe8, 0x1c, 0x75, 0xdf, 0x6e,
     0x47, 0xf1, 0x1a, 0x71, 0x1d, 0x29, 0xc5, 0x89, 0x6f, 0xb7, 0x62, 0x0e, 0xaa, 0x18, 0xbe, 0x1b,
     0xfc, 0x56, 0x3e, 0x4b, 0xc6, 0xd2, 0x79, 0x20, 0x9a, 0xdb, 0xc0, 0xfe, 0x78, 0xcd, 0x5a, 0xf4,
     0x1f, 0xdd, 0xa8, 0x33, 0x88, 0x07, 0xc7, 0x31, 0xb1, 0x12, 0x10, 0x59, 0x27, 0x80, 0xec, 0x5f,
     0x60, 0x51, 0x7f, 0xa9, 0x19, 0xb5, 0x4a, 0x0d, 0x2d, 0xe5, 0x7a, 0x9f, 0x93, 0xc9, 0x9c, 0xef,
     0xa0, 0xe0, 0x3b, 0x4d, 0xae, 0x2a, 0xf5, 0xb0, 0xc8, 0xeb, 0xbb, 0x3c, 0x83, 0x53, 0x99, 0x61,
     0x17, 0x2b, 0x04, 0x7e, 0xba, 0x77, 0xd6, 0x26, 0xe1, 0x69, 0x14, 0x63, 0x55, 0x21, 0x0c, 0x7d]"

definition Rcon :: bytes where
  "Rcon = [0x8d, 0x01, 0x02, 0x04, 0x08, 0x10, 0x20, 0x40, 0x80, 0x1b, 0x36]"

definition getSBoxValue :: "byte \<Rightarrow> byte" where
  "getSBoxValue num = sbox ! unat num"

definition getSBoxInvert :: "byte \<Rightarrow> byte" where
  "getSBoxInvert num = rsbox ! unat num"

section \<open>The key schedule\<close>

text \<open>\<open>Nk\<close> words of key, \<open>Nb\<close> columns of state, \<open>Nr\<close> rounds. The round keys are written in order, so the
  array filled up to a position is the list that long; \<open>tempa\<close> holds the previous word.\<close>

abbreviation (input) Nb :: nat where "Nb \<equiv> 4"
abbreviation (input) Nk :: nat where "Nk \<equiv> 4"
abbreviation (input) Nr :: nat where "Nr \<equiv> 10"

definition RotWord :: "bytes \<Rightarrow> bytes" where
  "RotWord tempa = [tempa ! 1, tempa ! 2, tempa ! 3, tempa ! 0]"

definition SubWord :: "bytes \<Rightarrow> bytes" where
  "SubWord tempa = [getSBoxValue (tempa ! 0), getSBoxValue (tempa ! 1), getSBoxValue (tempa ! 2), getSBoxValue (tempa ! 3)]"

definition KeyExpansion_step :: "bytes \<Rightarrow> nat \<Rightarrow> bytes" where
  "KeyExpansion_step RoundKey i =
     (let k = (i - 1) * 4;
          tempa = [RoundKey ! k, RoundKey ! (k + 1), RoundKey ! (k + 2), RoundKey ! (k + 3)];
          tempa = (if i mod Nk = 0 then (let t = SubWord (RotWord tempa) in t[0 := t ! 0 XOR Rcon ! (i div Nk)]) else tempa);
          k = (i - Nk) * 4
      in RoundKey @ [RoundKey ! k XOR tempa ! 0, RoundKey ! (k + 1) XOR tempa ! 1,
                     RoundKey ! (k + 2) XOR tempa ! 2, RoundKey ! (k + 3) XOR tempa ! 3])"

definition KeyExpansion :: "bytes \<Rightarrow> bytes" where
  "KeyExpansion Key = foldl KeyExpansion_step (take (Nk * 4) Key) [Nk..<Nb * (Nr + 1)]"

record AES_ctx =
  cx_RoundKey :: bytes

definition AES_init_ctx :: "bytes \<Rightarrow> AES_ctx" where
  "AES_init_ctx key = \<lparr>cx_RoundKey = KeyExpansion key\<rparr>"

section \<open>The rounds\<close>

definition AddRoundKey :: "byte \<Rightarrow> bytes \<Rightarrow> bytes \<Rightarrow> bytes" where
  "AddRoundKey round state RoundKey =
     map (\<lambda>n. state ! n XOR RoundKey ! (unat round * Nb * 4 + n)) [0..<16]"

definition SubBytes :: "bytes \<Rightarrow> bytes" where
  "SubBytes state = map getSBoxValue state"

definition InvSubBytes :: "bytes \<Rightarrow> bytes" where
  "InvSubBytes state = map getSBoxInvert state"

text \<open>The rows are rotated by assignments through one temporary; each line below is one of them.\<close>

definition ShiftRows :: "bytes \<Rightarrow> bytes" where
  "ShiftRows state =
     (let temp = state ! 1;
          state = state[1 := state ! 5];
          state = state[5 := state ! 9];
          state = state[9 := state ! 13];
          state = state[13 := temp];
          temp = state ! 2;
          state = state[2 := state ! 10];
          state = state[10 := temp];
          temp = state ! 6;
          state = state[6 := state ! 14];
          state = state[14 := temp];
          temp = state ! 3;
          state = state[3 := state ! 15];
          state = state[15 := state ! 11];
          state = state[11 := state ! 7]
      in state[7 := temp])"

definition InvShiftRows :: "bytes \<Rightarrow> bytes" where
  "InvShiftRows state =
     (let temp = state ! 13;
          state = state[13 := state ! 9];
          state = state[9 := state ! 5];
          state = state[5 := state ! 1];
          state = state[1 := temp];
          temp = state ! 2;
          state = state[2 := state ! 10];
          state = state[10 := temp];
          temp = state ! 6;
          state = state[6 := state ! 14];
          state = state[14 := temp];
          temp = state ! 3;
          state = state[3 := state ! 7];
          state = state[7 := state ! 11];
          state = state[11 := state ! 15]
      in state[15 := temp])"

definition xtime :: "byte \<Rightarrow> byte" where
  "xtime x = push_bit 1 x XOR (drop_bit 7 x AND 1) * 0x1b"

definition MixColumns_step :: "bytes \<Rightarrow> nat \<Rightarrow> bytes" where
  "MixColumns_step state i =
     (let t = state ! (4 * i);
          Tmp = state ! (4 * i) XOR state ! (4 * i + 1) XOR state ! (4 * i + 2) XOR state ! (4 * i + 3);
          Tm = xtime (state ! (4 * i) XOR state ! (4 * i + 1));
          state = state[4 * i := state ! (4 * i) XOR (Tm XOR Tmp)];
          Tm = xtime (state ! (4 * i + 1) XOR state ! (4 * i + 2));
          state = state[4 * i + 1 := state ! (4 * i + 1) XOR (Tm XOR Tmp)];
          Tm = xtime (state ! (4 * i + 2) XOR state ! (4 * i + 3));
          state = state[4 * i + 2 := state ! (4 * i + 2) XOR (Tm XOR Tmp)];
          Tm = xtime (state ! (4 * i + 3) XOR t)
      in state[4 * i + 3 := state ! (4 * i + 3) XOR (Tm XOR Tmp)])"

definition MixColumns :: "bytes \<Rightarrow> bytes" where
  "MixColumns state = foldl MixColumns_step state [0..<4]"

text \<open>The factors are computed at C's \<^verbatim>\<open>int\<close>, but each is a bit times a byte, so nothing is lost at a byte's width.\<close>

definition Multiply :: "byte \<Rightarrow> byte \<Rightarrow> byte" where
  "Multiply x y =
     (y AND 1) * x XOR
     (drop_bit 1 y AND 1) * xtime x XOR
     (drop_bit 2 y AND 1) * xtime (xtime x) XOR
     (drop_bit 3 y AND 1) * xtime (xtime (xtime x)) XOR
     (drop_bit 4 y AND 1) * xtime (xtime (xtime (xtime x)))"

definition InvMixColumns_step :: "bytes \<Rightarrow> nat \<Rightarrow> bytes" where
  "InvMixColumns_step state i =
     (let a = state ! (4 * i); b = state ! (4 * i + 1); c = state ! (4 * i + 2); d = state ! (4 * i + 3);
          state = state[4 * i := Multiply a 0x0e XOR Multiply b 0x0b XOR Multiply c 0x0d XOR Multiply d 0x09];
          state = state[4 * i + 1 := Multiply a 0x09 XOR Multiply b 0x0e XOR Multiply c 0x0b XOR Multiply d 0x0d];
          state = state[4 * i + 2 := Multiply a 0x0d XOR Multiply b 0x09 XOR Multiply c 0x0e XOR Multiply d 0x0b]
      in state[4 * i + 3 := Multiply a 0x0b XOR Multiply b 0x0d XOR Multiply c 0x09 XOR Multiply d 0x0e])"

definition InvMixColumns :: "bytes \<Rightarrow> bytes" where
  "InvMixColumns state = foldl InvMixColumns_step state [0..<4]"

section \<open>The cipher and its inverse\<close>

lemma round_down_measure: "unat (r - 1) < unat r" if "r \<noteq> 0" for r :: byte
  using that by (simp add: unat_minus_one unat_gt_0)

lemma round_up_measure: "unat (9 - r) < unat (10 - r)" if "r \<noteq> 10" for r :: byte
proof -
  have "10 - r - 1 = 9 - r"
    by (simp add: algebra_simps)
  with round_down_measure [of "10 - r"] that show ?thesis
    by simp
qed

text \<open>The round loops have no bound of their own: they run until the counter, a byte, meets its last value.\<close>

function Cipher_rounds :: "byte \<Rightarrow> bytes \<Rightarrow> bytes \<Rightarrow> bytes" where
  "Cipher_rounds round state RoundKey =
     (let state = ShiftRows (SubBytes state)
      in if round = 10 then state
         else Cipher_rounds (round + 1) (AddRoundKey round (MixColumns state) RoundKey) RoundKey)"
  by pat_completeness auto

termination
  by (relation "measure (\<lambda>(round, _, _). unat (10 - round))") (auto simp: round_up_measure)

definition Cipher :: "bytes \<Rightarrow> bytes \<Rightarrow> bytes" where
  "Cipher state RoundKey = AddRoundKey 10 (Cipher_rounds 1 (AddRoundKey 0 state RoundKey) RoundKey) RoundKey"

function InvCipher_rounds :: "byte \<Rightarrow> bytes \<Rightarrow> bytes \<Rightarrow> bytes" where
  "InvCipher_rounds round state RoundKey =
     (let state = AddRoundKey round (InvSubBytes (InvShiftRows state)) RoundKey
      in if round = 0 then state
         else InvCipher_rounds (round - 1) (InvMixColumns state) RoundKey)"
  by pat_completeness auto

termination
  by (relation "measure (\<lambda>(round, _, _). unat round)") (auto simp: round_down_measure)

definition InvCipher :: "bytes \<Rightarrow> bytes \<Rightarrow> bytes" where
  "InvCipher state RoundKey = InvCipher_rounds 9 (AddRoundKey 10 state RoundKey) RoundKey"

definition AES_ECB_encrypt :: "AES_ctx \<Rightarrow> bytes \<Rightarrow> bytes" where
  "AES_ECB_encrypt ctx buf = Cipher buf (cx_RoundKey ctx)"

definition AES_ECB_decrypt :: "AES_ctx \<Rightarrow> bytes \<Rightarrow> bytes" where
  "AES_ECB_decrypt ctx buf = InvCipher buf (cx_RoundKey ctx)"

section \<open>The port\<close>

text \<open>The port copies the input block to the output buffer when the two differ and runs the cipher there; either way
  the output is the cipher's image of the input.\<close>

definition tiny_encrypt :: block_fn where
  "tiny_encrypt key inp = Inr (AES_ECB_encrypt (AES_init_ctx key) inp)"

definition tiny_decrypt :: block_fn where
  "tiny_decrypt key inp = Inr (AES_ECB_decrypt (AES_init_ctx key) inp)"

definition osdp_sc_tiny_aes128 :: "'w osdp_sc_crypto \<Rightarrow> 'w osdp_sc_crypto" where
  "osdp_sc_tiny_aes128 out = out\<lparr>aes128_ecb_encrypt := Some tiny_encrypt, aes128_ecb_decrypt := Some tiny_decrypt\<rparr>"

section \<open>Decryption undoes encryption\<close>

text \<open>A state of 16 bytes, by its bytes.\<close>

lemma state_bytes:
  assumes "length st = 16"
  obtains a b c d e f g h i j k l m n p q where "st = [a, b, c, d, e, f, g, h, i, j, k, l, m, n, p, q]"
  using assms by (auto simp: eval_nat_numeral length_Suc_conv)

lemma round_lengths [simp]:
  "length (SubBytes st) = length st" "length (InvSubBytes st) = length st" "length (ShiftRows st) = length st"
  "length (InvShiftRows st) = length st" "length (AddRoundKey r st rk) = 16"
  by (simp_all add: SubBytes_def InvSubBytes_def ShiftRows_def InvShiftRows_def AddRoundKey_def Let_def)

lemma mix_lengths [simp]: "length (MixColumns st) = length st" "length (InvMixColumns st) = length st"
  by (simp_all add: MixColumns_def MixColumns_step_def InvMixColumns_def InvMixColumns_step_def Let_def upt_rec numeral_2_eq_2)

lemma rsbox_sbox: "list_all (\<lambda>n. rsbox ! unat (sbox ! n) = of_nat n) [0..<256]"
  by code_simp

lemma getSBoxInvert_getSBoxValue [simp]: "getSBoxInvert (getSBoxValue x) = x"
proof -
  have "unat x \<in> set [0..<256]"
    by simp
  with rsbox_sbox show ?thesis
    by (simp add: getSBoxInvert_def getSBoxValue_def list_all_iff)
qed

lemma InvSubBytes_SubBytes [simp]: "InvSubBytes (SubBytes st) = st"
  by (simp add: InvSubBytes_def SubBytes_def comp_def)

lemma InvShiftRows_ShiftRows [simp]: "InvShiftRows (ShiftRows st) = st" if "length st = 16"
  by (rule state_bytes [OF that]) (simp add: InvShiftRows_def ShiftRows_def)

lemma AddRoundKey_twice [simp]: "AddRoundKey r (AddRoundKey r st rk) rk = st" if "length st = 16"
  by (rule nth_equalityI) (simp_all add: that AddRoundKey_def xor.assoc)

text \<open>Multiplication by \<open>X\<close> in the field is linear, so the two mixing matrices multiply to the identity coefficient
  by coefficient.\<close>

lemma bit_0_cases: "x AND 1 = 0 \<or> x AND 1 = (1 :: byte)"
  by (simp add: and_one_eq mod_2_eq_odd)

lemma xtime_xor: "xtime (x XOR y) = xtime x XOR xtime y"
proof -
  have "(drop_bit 7 (x XOR y) AND 1) * (0x1b :: byte) = (drop_bit 7 x AND 1) * 0x1b XOR (drop_bit 7 y AND 1) * 0x1b"
    by (simp add: and_one_eq mod_2_eq_odd drop_bit_xor even_xor_iff)
  then show ?thesis
    by (simp add: xtime_def push_bit_xor xor.assoc xor.left_commute)
qed

lemma Multiply_factors:
  "Multiply x 0x09 = x XOR xtime (xtime (xtime x))"
  "Multiply x 0x0b = x XOR xtime x XOR xtime (xtime (xtime x))"
  "Multiply x 0x0d = x XOR xtime (xtime x) XOR xtime (xtime (xtime x))"
  "Multiply x 0x0e = xtime x XOR xtime (xtime x) XOR xtime (xtime (xtime x))"
  by (simp_all add: Multiply_def)

text \<open>What the two column steps do to one column.\<close>

definition mix_column :: "byte \<Rightarrow> byte \<Rightarrow> byte \<Rightarrow> byte \<Rightarrow> bytes" where
  "mix_column a b c d =
     (let s = a XOR b XOR c XOR d
      in [a XOR (xtime (a XOR b) XOR s), b XOR (xtime (b XOR c) XOR s),
          c XOR (xtime (c XOR d) XOR s), d XOR (xtime (d XOR a) XOR s)])"

definition unmix_column :: "byte \<Rightarrow> byte \<Rightarrow> byte \<Rightarrow> byte \<Rightarrow> bytes" where
  "unmix_column a b c d =
     [Multiply a 0x0e XOR Multiply b 0x0b XOR Multiply c 0x0d XOR Multiply d 0x09,
      Multiply a 0x09 XOR Multiply b 0x0e XOR Multiply c 0x0b XOR Multiply d 0x0d,
      Multiply a 0x0d XOR Multiply b 0x09 XOR Multiply c 0x0e XOR Multiply d 0x0b,
      Multiply a 0x0b XOR Multiply b 0x0d XOR Multiply c 0x09 XOR Multiply d 0x0e]"

lemma column_unmixed:
  assumes "mix_column a b c d = [a', b', c', d']"
  shows "unmix_column a' b' c' d' = [a, b, c, d]"
proof -
  have "a' = a XOR (xtime (a XOR b) XOR (a XOR b XOR c XOR d))" "b' = b XOR (xtime (b XOR c) XOR (a XOR b XOR c XOR d))"
    "c' = c XOR (xtime (c XOR d) XOR (a XOR b XOR c XOR d))" "d' = d XOR (xtime (d XOR a) XOR (a XOR b XOR c XOR d))"
    using assms by (simp_all add: mix_column_def Let_def)
  then show ?thesis
    unfolding unmix_column_def Multiply_factors xtime_xor by (simp add: xtime_xor xor.assoc xor.commute xor.left_commute)
qed

lemma column_lengths: "length (mix_column a b c d) = 4" "length (unmix_column a b c d) = 4"
  by (simp_all add: mix_column_def unmix_column_def Let_def)

lemma column_steps:
  assumes "4 * i = length p"
  shows "MixColumns_step (p @ a # b # c # d # q) i = p @ mix_column a b c d @ q"
    and "InvMixColumns_step (p @ a # b # c # d # q) i = p @ unmix_column a b c d @ q"
  by (simp_all add: assms MixColumns_step_def InvMixColumns_step_def mix_column_def unmix_column_def Let_def nth_append
      list_update_append numeral_2_eq_2 numeral_3_eq_3)

text \<open>A loop over the four columns whose step rewrites one of them rewrites each.\<close>

lemma columns_loop:
  assumes step: "\<And>p a b c d q i. 4 * i = length p \<Longrightarrow> f (p @ a # b # c # d # q) i = p @ col a b c d @ q"
    and len: "\<And>a b c d. length (col a b c d) = 4"
  shows "foldl f [a, b, c, d, e, f', g, h, i, j, k, l, m, n, p, q] [0..<4]
    = col a b c d @ col e f' g h @ col i j k l @ col m n p q"
proof -
  have "[0..<4] = [0, 1, 2, 3 :: nat]"
    by (simp add: upt_rec)
  moreover have "f [a, b, c, d, e, f', g, h, i, j, k, l, m, n, p, q] 0 = col a b c d @ [e, f', g, h, i, j, k, l, m, n, p, q]"
    using step [of 0 "[]" a b c d] by simp
  moreover have "f (col a b c d @ [e, f', g, h, i, j, k, l, m, n, p, q]) 1 = col a b c d @ col e f' g h @ [i, j, k, l, m, n, p, q]"
    by (simp add: step len)
  moreover have "f (col a b c d @ col e f' g h @ [i, j, k, l, m, n, p, q]) 2 = col a b c d @ col e f' g h @ col i j k l @ [m, n, p, q]"
    using step [of 2 "col a b c d @ col e f' g h"] by (simp add: len)
  moreover have "f (col a b c d @ col e f' g h @ col i j k l @ [m, n, p, q]) 3
      = col a b c d @ col e f' g h @ col i j k l @ col m n p q"
    using step [of 3 "col a b c d @ col e f' g h @ col i j k l" m n p q "[]"] by (simp add: len)
  ultimately show ?thesis
    by simp
qed

lemmas MixColumns_columns = columns_loop [where f = MixColumns_step, OF column_steps(1) column_lengths(1), folded MixColumns_def]
lemmas InvMixColumns_columns =
  columns_loop [where f = InvMixColumns_step, OF column_steps(2) column_lengths(2), folded InvMixColumns_def]

lemma InvMixColumns_MixColumns [simp]: "InvMixColumns (MixColumns st) = st" if "length st = 16"
proof (rule state_bytes [OF that])
  fix a b c d e f g h i j k l m n p q assume st: "st = [a, b, c, d, e, f, g, h, i, j, k, l, m, n, p, q]"
  have bytes: "\<exists>a' b' c' d'. mix_column a b c d = [a', b', c', d']" for a b c d
    by (simp add: mix_column_def Let_def)
  obtain a' b' c' d' e' f' g' h' i' j' k' l' m' n' p' q' where m: "mix_column a b c d = [a', b', c', d']"
      "mix_column e f g h = [e', f', g', h']" "mix_column i j k l = [i', j', k', l']" "mix_column m n p q = [m', n', p', q']"
    using bytes by metis
  then show ?thesis
    by (simp add: st MixColumns_columns InvMixColumns_columns column_unmixed [OF m(1)] column_unmixed [OF m(2)]
        column_unmixed [OF m(3)] column_unmixed [OF m(4)])
qed

declare Cipher_rounds.simps [simp del] InvCipher_rounds.simps [simp del]

lemma InvCipher_rounds_unroll:
  assumes "length st = 16" "r \<noteq> 0"
  shows "InvCipher_rounds r (ShiftRows (SubBytes (AddRoundKey r (MixColumns st) rk))) rk = InvCipher_rounds (r - 1) st rk"
  using assms by (subst InvCipher_rounds.simps) simp

text \<open>Unwinding: the inverse rounds, run on what the rounds from \<open>r\<close> produced, arrive at the round before with the
  state of round \<open>r\<close> after its first two steps.\<close>

lemma InvCipher_rounds_Cipher_rounds:
  assumes "length st = 16" "r \<noteq> 0" "r \<le> 10"
  shows "InvCipher_rounds 9 (Cipher_rounds r st rk) rk = InvCipher_rounds (r - 1) (ShiftRows (SubBytes st)) rk"
  using assms
proof (induction r st rk rule: Cipher_rounds.induct)
  case (1 r st rk)
  show ?case
  proof (cases "r = 10")
    case True
    then show ?thesis by (subst Cipher_rounds.simps) simp
  next
    case False
    with 1 have "r < 10"
      by simp
    then have "r + 1 \<le> 10" "r + 1 \<noteq> 0"
      by (auto intro: inc_le simp: add_eq_0_iff2)
    with 1 False show ?thesis
      by (subst Cipher_rounds.simps) (simp add: Let_def InvCipher_rounds_unroll)
  qed
qed

lemma Cipher_rounds_length [simp]: "length st = 16 \<Longrightarrow> length (Cipher_rounds r st rk) = 16"
  by (induction r st rk rule: Cipher_rounds.induct) (subst Cipher_rounds.simps, simp add: Let_def)

lemma Cipher_length [simp]: "length (Cipher st rk) = 16"
  by (simp add: Cipher_def)

lemma InvCipher_Cipher: "InvCipher (Cipher st rk) rk = st" if "length st = 16"
  using that InvCipher_rounds_Cipher_rounds [of "AddRoundKey 0 st rk" 1 rk]
  by (simp add: InvCipher_def Cipher_def InvCipher_rounds.simps [of 0])

section \<open>Properties\<close>

lemma tiny_block_cipher_ok: "block_cipher_ok tiny_encrypt tiny_decrypt"
  by (simp add: block_cipher_ok_def tiny_encrypt_def tiny_decrypt_def AES_ECB_encrypt_def AES_ECB_decrypt_def InvCipher_Cipher)

text \<open>C35. The tiny-AES port is a conforming cipher provider: whatever vtable it is bound into, both block operations are
  present afterwards, encrypting a 16-byte block under a 16-byte key succeeds with 16 bytes, and decrypting that result
  under the same key gives the block back. This is the assumption every Secure Channel property makes of its provider.\<close>

theorem tiny_port_conforms: "crypto_ok (osdp_sc_tiny_aes128 v)"
  using tiny_block_cipher_ok by (simp add: crypto_ok_def osdp_sc_tiny_aes128_def)

end
