(* ===== verification/Conversation.thy ===== *)
theory Conversation
  imports Exchange Tiny_AES
begin

unbundle bit_operations_syntax

text \<open>
  One command and its reply over the established Secure Channel, and whole conversations of them. The
  abstract specification is the direct call: the device's application is handed the command, the control
  unit's reply handler is handed the answer, and nothing else happens. Frames, sequence numbers, padding,
  encryption, MACs, retransmission caches and timers are all on the concrete side.
\<close>

section \<open>The command on the device\<close>

text \<open>A command with another sequence number than the cached one is never taken for a retransmission.\<close>

lemma fresh_sequence:
  assumes "osdp_frame_build f cap = Inr b" "frame_ptrs_ok f"
    "pd_last_cmd_len pd = 0 \<or> pd_last_cmd_len pd > 4 \<and> pd_cmd_cache pd ! 4 AND 3 \<noteq> fr_sequence f"
  shows "\<not> is_retransmit pd (as_received f (tl b))"
proof
  assume "is_retransmit pd (as_received f (tl b))"
  then have r: "pd_last_cmd_len pd \<noteq> 0" "pd_last_cmd_len pd = length b - 1" "take (length b - 1) (pd_cmd_cache pd) = tl b"
    by (auto simp: is_retransmit_def as_received_def split: if_splits)
  then have "pd_cmd_cache pd ! 4 AND 3 = fr_sequence f"
    using cached_sequence [OF assms(1,2), where n = "pd_last_cmd_len pd" and cache = "pd_cmd_cache pd"] by simp
  with assms(3) r(1) show False by simp
qed

lemma pd_command_tick:
  fixes pd :: "'a bus osdp_pd"
  assumes ok: "pd_line_ok pd addr (bus_ms w)" "osdp_pd_internal_sc_configured pd" "line w = ([], [], bus_ms w)"
      "addr \<le> OSDP_BROADCAST_ADDR" "sqn \<le> 3" "crypto_ok (sc_crypto (pd_sc pd))"
      "pd_last_cmd_len pd = 0 \<or> pd_last_cmd_len pd > 4 \<and> pd_cmd_cache pd ! 4 AND 3 \<noteq> sqn"
    and conf: "pd_conf pd = (Some app, None, None, tcap, pcap)"
    and f: "osdp_frame_build t cap = Inr b" "frame_ptrs_ok t" "length b \<le> OSDP_STREAM_BUFFER_LEN" "fr_address t = addr" "\<not> fr_reply t"
      "fr_sequence (as_received t (tl b)) = sqn" "fr_code (as_received t (tl b)) = code"
      "fr_integrity (as_received t (tl b)) = integrity" "fr_has_scb (as_received t (tl b))"
      "fr_scb_type (as_received t (tl b)) = OSDP_SCS_15 \<or> fr_scb_type (as_received t (tl b)) = OSDP_SCS_17"
      "osdp_sc_unwrap_frame (sc_crypto (pd_sc pd)) (sc_session (pd_sc pd)) (as_received t (tl b)) pcap = Inr (p, s1)"
    and est: "ss_established (sc_session (pd_sc pd))" "sc_in_step s1 peer"
    and ans: "application_command code" "app_answer app w code p = ((OSDP_PD_DISPATCH_SEND, r), w')" "line w' = line w"
      "reply_fits tcap r"
  obtains pd' b' s2 where
    "osdp_sc_wrap_frame (sc_crypto (pd_sc pd)) s1 (sc_reply addr sqn integrity r) tcap = Inr (b', s2)"
    "osdp_pd_tick pd (w\<lparr>bus_down := b\<rparr>) = (pd', w'\<lparr>bus_up := b'\<rparr>)" "pd_line_ok pd' addr (bus_ms w)"
    "sc_session (pd_sc pd') = s2" "sc_crypto (pd_sc pd') = sc_crypto (pd_sc pd)" "osdp_pd_internal_sc_configured pd'"
    "pd_conf pd' = pd_conf pd" "pd_last_cmd_len pd' = 0 \<or> pd_last_cmd_len pd' > 4 \<and> pd_cmd_cache pd' ! 4 AND 3 = sqn"
    "pd_last_comm_ms pd' = bus_ms w"
    "length (tl b) \<le> pd_cmd_cache_cap pd \<and> length b' \<le> pd_rpl_cache_cap pd \<longrightarrow> replays pd' (tl b) b'"
proof -
  have cf: "pd_cmd_cb pd = Some app" "pd_tx_cap pd = tcap" "pd_rx_plain_cap pd = pcap" "pd_led_cb pd = None" "pd_buzzer_cb pd = None"
    using conf by (simp_all add: pd_conf_def)
  have st: "ss_established s1" "keys_ok (ss_keys s1)" "length (ss_last_inbound_mac s1) = 16"
    using est(2) unfolding sc_in_step_def by blast+
  note ro = sc_reply_ok(1-3) [OF ok(4,5) ans(4), of integrity]
  obtain b' s2 where wr: "osdp_sc_wrap_frame (sc_crypto (pd_sc pd)) s1 (sc_reply addr sqn integrity r) tcap = Inr (b', s2)"
    using wrap_succeeds_iff [OF ok(6) st ro(1), of tcap] ro(2,3) by auto
  obtain t' where t': "osdp_frame_build t' tcap = Inr b'"
    by (rule wrap_built [OF ok(6) st(2,3) ro(1) wr])
  have ne: "b' \<noteq> []"
    using t' by (auto simp: osdp_frame_build_eq)
  have nr: "\<not> is_retransmit pd (as_received t (tl b))"
    using ok(7) f(6) by (intro fresh_sequence [OF f(1,2)]) (simp add: as_received_def)
  have ad: "fr_address (as_received t (tl b)) = addr"
    using f(4) by (simp add: as_received_def)
  let ?w = "w\<lparr>bus_down := b\<rparr>"
  have we: "?w\<lparr>bus_down := []\<rparr> = w"
    using ok(3) by (simp add: line_def)
  have h: "handle_command_into_tx (pd\<lparr>pd_rx := rx, pd_reply_cacheable := True\<rparr>) (?w\<lparr>bus_down := []\<rparr>) (as_received t (tl b))
      = (b', set_sc (\<lambda>sc. sc\<lparr>sc_session := s2\<rparr>) (pd\<lparr>pd_rx := rx, pd_reply_cacheable := True\<rparr>), w')" for rx
    unfolding we
    by (rule pd_answers_command [OF _ _ _ ans(1,2) f(9,10,7) ad f(6,8)]) (use ok(2) est(1) cf f(11) wr in simp_all)
  obtain rx pd' w1 where t: "osdp_pd_tick pd ?w = (pd', w1)" "pd_line_ok pd' addr (bus_ms w1)" "line w1 = ([], b', bus_ms ?w)"
      "pd_sc pd' = pd_sc (set_sc (\<lambda>sc. sc\<lparr>sc_session := s2\<rparr>) (pd\<lparr>pd_rx := rx, pd_reply_cacheable := True\<rparr>))"
      "pd_conf pd' = pd_conf pd"
      "pd_last_cmd_len pd' = 0 \<or> pd_last_cmd_len pd' = length b - 1 \<and> take (length b - 1) (pd_cmd_cache pd') = tl b"
      "pd_led_cb pd = None \<and> pd_buzzer_cb pd = None \<longrightarrow> w1 = w'\<lparr>bus_up := b'\<rparr>" "pd_last_comm_ms pd' = bus_ms ?w"
      "length (tl b) \<le> pd_cmd_cache_cap pd \<and> length b' \<le> pd_rpl_cache_cap pd \<longrightarrow> replays pd' (tl b) b'"
    by (rule pd_tick_command [OF _ f(1-3) _ _ f(5,4) nr h ne]) (use ok ans(3) in \<open>simp_all add: pd_line_ok_def line_def\<close>)
  have sq: "pd_last_cmd_len pd' = 0 \<or> pd_last_cmd_len pd' > 4 \<and> pd_cmd_cache pd' ! 4 AND 3 = sqn"
    using cached_sequence [OF f(1,2) t(6)] f(6) by (simp add: as_received_def)
  have "osdp_pd_internal_sc_configured pd'"
    using t(4) ok(2) by (auto simp: osdp_pd_internal_sc_configured_def split: if_splits)
  with that [OF wr _ _ _ _ _ t(5) sq] t cf show ?thesis by (simp add: line_def)
qed

section \<open>The reply on the control unit\<close>

lemma advance_sqn_cases:
  assumes "sqn \<in> {1, 2, 3 :: byte}"
  shows "advance_sqn sqn \<in> {1, 2, 3}" "advance_sqn sqn \<noteq> sqn" "sqn AND 3 = sqn" "sqn \<noteq> 0" "sqn \<le> 3"
  using assms by (auto simp: advance_sqn_def word_le_nat_alt)

lemma acu_reply_tick:
  fixes acu :: "'a bus osdp_acu"
  assumes ok: "acu_line_ok acu i addr (bus_ms w)" "line w = ([], [], bus_ms w)" "acu_conf acu = (Some cb, None, None)"
    and s: "ap_sc_phase (ac_pds acu ! i) = OSDP_ACU_SC_ESTABLISHED" "ap_waiting (ac_pds acu ! i)"
      "ap_pending_seq (ac_pds acu ! i) = sqn" "ap_pending_code (ac_pds acu ! i) = code" "sqn \<noteq> 0"
    and f: "osdp_frame_build t cap = Inr b" "frame_ptrs_ok t" "length b \<le> OSDP_STREAM_BUFFER_LEN" "fr_address t = addr" "fr_reply t"
      "fr_sequence (as_received t (tl b)) = sqn" "fr_code (as_received t (tl b)) = rcode" "fr_has_scb (as_received t (tl b))"
      "fr_scb_type (as_received t (tl b)) = OSDP_SCS_16 \<or> fr_scb_type (as_received t (tl b)) = OSDP_SCS_18"
      "osdp_sc_unwrap_frame (ac_sc_crypto acu) (ap_sc_session (ac_pds acu ! i)) (as_received t (tl b)) OSDP_ACU_BUF_LEN
         = Inr (p, session)"
  obtains acu' where "osdp_acu_tick acu (w\<lparr>bus_up := b\<rparr>) = (acu', cb w (reply_event addr code rcode p))"
    "acu_line_ok acu' i addr (bus_ms w)" "ac_pds acu' ! i = acu_served (bus_ms w) session (ac_pds acu ! i)"
    "ac_sc_crypto acu' = ac_sc_crypto acu" "acu_conf acu' = acu_conf acu"
    "line (cb w (reply_event addr code rcode p)) = line w"
proof -
  note sl = acu_line_slot [OF ok(1)]
  have cf: "ac_reply_cb acu = Some cb" "ac_led_cb acu = None" "ac_buzzer_cb acu = None"
    using ok(3) by (simp_all add: acu_conf_def)
  let ?w = "w\<lparr>bus_up := b\<rparr>" and ?v = "cb w (reply_event addr code rcode p)"
  have we: "?w\<lparr>bus_up := []\<rparr> = w"
    using ok(2) by (simp add: line_def)
  have q: "line ?v = line w"
    using ok(1) cf(1) by (simp add: acu_line_ok_def acu_quiet_def quiet_def)
  have ad: "fr_address (as_received t (tl b)) = addr" "fr_reply (as_received t (tl b))"
    using f(4,5) by (simp_all add: as_received_def)
  have st: "acu_tick_frame (acu\<lparr>ac_rx := rx\<rparr>) (?w\<lparr>bus_up := []\<rparr>) OSDP_OK (as_received t (tl b))
      = (upd_slot (acu\<lparr>ac_rx := rx\<rparr>) i (acu_served (bus_ms w) session), ?v)" for rx
    unfolding we f(7) [symmetric]
    by (rule acu_takes_reply [OF _ _ _ _ _ _ s(5) _ ad(2) f(8,9) ad(1) f(6)]) (use sl s cf f(10) in simp_all)
  have bm: "bus_ms ?v = bus_ms ?w"
    using lineD(3) [OF q] by simp
  obtain acu' w' where "osdp_acu_tick acu ?w = (acu', w')" "acu_line_ok acu' i addr (bus_ms w')" "line w' = line ?v"
      "ac_pds acu' = (ac_pds acu)[i := acu_served (bus_ms w) session (ac_pds acu ! i)]"
      "ac_sc_crypto acu' = ac_sc_crypto acu" "ac_integrity acu' = ac_integrity acu" "acu_conf acu' = acu_conf acu"
      "ac_led_cb acu = None \<and> ac_buzzer_cb acu = None \<longrightarrow> w' = ?v"
    by (rule acu_tick_reply [OF _ f(1-3) _ st bm, of addr]) (use ok sl in \<open>simp_all add: acu_served_def\<close>)
  with that [of acu'] q sl(1) cf lineD(3) [OF q] show ?thesis by simp
qed

lemma acu_conf_upd [simp]: "acu_conf (upd_slot acu i f) = acu_conf acu"
  by (simp add: acu_conf_def upd_slot_def)

section \<open>One exchange\<close>

text \<open>The application sends a command, the device ticks, the control unit ticks.\<close>

definition exchange ::
  "'a bus osdp_acu \<Rightarrow> 'a bus osdp_pd \<Rightarrow> 'a bus \<Rightarrow> byte \<Rightarrow> byte \<Rightarrow> bytes
     \<Rightarrow> osdp_status \<times> 'a bus osdp_acu \<times> 'a bus osdp_pd \<times> 'a bus" where
  "exchange acu pd w addr code p =
     (case osdp_acu_send_command acu w addr code (Some p) (length p) of (st, acu1, w1) \<Rightarrow>
        (case osdp_pd_tick pd w1 of (pd1, w2) \<Rightarrow>
           (case osdp_acu_tick acu1 w2 of (acu2, w3) \<Rightarrow> (st, acu2, pd1, w3))))"

text \<open>The specification of an exchange: a call of the device's application and of the reply handler.\<close>

definition answer_event :: "byte \<Rightarrow> byte \<Rightarrow> osdp_pd_reply \<Rightarrow> osdp_acu_reply_event" where
  "answer_event addr code r = reply_event addr code (rp_code r) (ptr_bytes (rp_payload r) (rp_payload_len r))"

text \<open>The bytes of a command: the wrapped frame, as the device will take it in.\<close>

definition command_bytes :: "'w osdp_acu \<Rightarrow> nat \<Rightarrow> byte \<Rightarrow> byte \<Rightarrow> bytes \<Rightarrow> bytes \<Rightarrow> osdp_sc_session \<Rightarrow> bool" where
  "command_bytes acu i addr code p b session \<longleftrightarrow>
     osdp_sc_wrap_frame (ac_sc_crypto acu) (ap_sc_session (ac_pds acu ! i)) (sc_command acu (ac_pds acu ! i) addr code p)
       OSDP_ACU_BUF_LEN = Inr (b, session) \<and>
     (\<exists>t. osdp_frame_build t OSDP_ACU_BUF_LEN = Inr b \<and> frame_ptrs_ok t \<and> length b \<le> OSDP_STREAM_BUFFER_LEN \<and>
        fr_address t = addr \<and> \<not> fr_reply t \<and> fr_sequence t = ap_next_seq (ac_pds acu ! i))"

text \<open>A link with a command on the wire and its reply coming back.\<close>

lemma exchange_down:
  fixes acu :: "'a bus osdp_acu"
  assumes sec: "link_secure acu i pd addr w"
    and conf: "pd_conf pd = (Some app, None, None, tcap, pcap)"
    and cmd: "application_command code" "command_fits (length p) pcap"
    and ans: "app_answer app w code p = ((OSDP_PD_DISPATCH_SEND, r), w')" "line w' = line w" "reply_fits tcap r"
  defines "sqn \<equiv> ap_next_seq (ac_pds acu ! i)"
  obtains b a1 s1 integrity pd' b' s2 where
    "osdp_acu_send_command acu w addr code (Some p) (length p)
       = (OSDP_OK, upd_slot acu i (acu_commanding sqn code (bus_ms w) a1), w\<lparr>bus_down := b\<rparr>)" "sc_in_step s1 a1"
    "osdp_sc_wrap_frame (ac_sc_crypto acu) s1 (sc_reply addr sqn integrity r) tcap = Inr (b', s2)"
    "osdp_pd_tick pd (w\<lparr>bus_down := b\<rparr>) = (pd', w'\<lparr>bus_up := b'\<rparr>)" "pd_line_ok pd' addr (bus_ms w)"
    "sc_session (pd_sc pd') = s2" "sc_crypto (pd_sc pd') = sc_crypto (pd_sc pd)" "osdp_pd_internal_sc_configured pd'"
    "pd_conf pd' = pd_conf pd" "pd_last_cmd_len pd' = 0 \<or> pd_last_cmd_len pd' > 4 \<and> pd_cmd_cache pd' ! 4 AND 3 = sqn"
    "command_bytes acu i addr code p b a1" "pd_last_comm_ms pd' = bus_ms w"
    "length (tl b) \<le> pd_cmd_cache_cap pd \<and> length b' \<le> pd_rpl_cache_cap pd \<longrightarrow> replays pd' (tl b) b'"
proof -
  define s where "s = ac_pds acu ! i"
  define c where "c = ac_sc_crypto acu"
  have l: "acu_line_ok acu i addr (bus_ms w)" "pd_line_ok pd addr (bus_ms w)" "bus_down w = []" "bus_up w = []"
      "ap_sc_phase s = OSDP_ACU_SC_ESTABLISHED" "\<not> ap_waiting s" "sqn \<in> {1, 2, 3}" "crypto_ok c"
      "crypto_ok (sc_crypto (pd_sc pd))" "same_cipher (sc_crypto (pd_sc pd)) c" "osdp_pd_internal_sc_configured pd"
      "pd_last_cmd_len pd = 0 \<or> pd_last_cmd_len pd > 4 \<and> pd_cmd_cache pd ! 4 AND 3 \<noteq> sqn"
      "sc_in_step (ap_sc_session s) (sc_session (pd_sc pd))"
    using sec unfolding link_secure_def Let_def s_def c_def sqn_def by blast+
  note sl = acu_line_slot [OF l(1)] and sq = advance_sqn_cases [OF l(7)]
  note sc = same_cipher_frames [OF l(10)]
  have lw: "line w = ([], [], bus_ms w)"
    using l(3,4) by (simp add: line_def)
  let ?cmd = "sc_command acu s addr code p"
  note co = sc_command_ok [OF sl(4) cmd(2), of acu s code]
  have cf: "fr_address ?cmd = addr" "\<not> fr_reply ?cmd" "fr_sequence ?cmd = sqn" "fr_code ?cmd = code" "fr_payload_len ?cmd = length p"
      "fr_scb_type ?cmd = OSDP_SCS_17" "ptr_bytes (fr_payload ?cmd) (fr_payload_len ?cmd) = p"
    using sq(3) by (simp_all add: sc_command_def command_frame_def zero_frame_def sqn_def s_def ptr_bytes_def)
  obtain t b a1 s1 where m: "osdp_sc_wrap_frame c (ap_sc_session s) ?cmd OSDP_ACU_BUF_LEN = Inr (b, a1)"
      "osdp_frame_build t OSDP_ACU_BUF_LEN = Inr b" "frame_ptrs_ok t" "length b \<le> 1440" "fr_address t = addr" "\<not> fr_reply t"
      "fr_sequence (as_received t (tl b)) = sqn" "fr_code (as_received t (tl b)) = code" "fr_has_scb (as_received t (tl b))"
      "fr_scb_type (as_received t (tl b)) = OSDP_SCS_15 \<or> fr_scb_type (as_received t (tl b)) = OSDP_SCS_17"
      "osdp_sc_unwrap_frame c (sc_session (pd_sc pd)) (as_received t (tl b)) pcap = Inr (p, s1)" "sc_in_step s1 a1"
    by (rule wrap_transfer [OF l(8,13) co(1), of OSDP_ACU_BUF_LEN pcap])
      (use co(2) cmd(2) cf in \<open>auto simp: command_fits_def wrap_scb_type_def split: if_splits\<close>)
  have send: "osdp_acu_send_command acu w addr code (Some p) (length p)
      = (OSDP_OK, upd_slot acu i (acu_commanding sqn code (bus_ms w) a1), w\<lparr>bus_down := b\<rparr>)"
    using acu_sends_command [OF l(1,3) _ _ cmd(1), of p b a1] l(5,6) m(1) sq(3) by (simp add: s_def c_def sqn_def)
  obtain pd' b' s2 where d: "osdp_sc_wrap_frame (sc_crypto (pd_sc pd)) s1 (sc_reply addr sqn (fr_integrity (as_received t (tl b))) r) tcap
        = Inr (b', s2)" "osdp_pd_tick pd (w\<lparr>bus_down := b\<rparr>) = (pd', w'\<lparr>bus_up := b'\<rparr>)" "pd_line_ok pd' addr (bus_ms w)"
      "sc_session (pd_sc pd') = s2" "sc_crypto (pd_sc pd') = sc_crypto (pd_sc pd)" "osdp_pd_internal_sc_configured pd'"
      "pd_conf pd' = pd_conf pd" "pd_last_cmd_len pd' = 0 \<or> pd_last_cmd_len pd' > 4 \<and> pd_cmd_cache pd' ! 4 AND 3 = sqn"
      "pd_last_comm_ms pd' = bus_ms w"
      "length (tl b) \<le> pd_cmd_cache_cap pd \<and> length b' \<le> pd_rpl_cache_cap pd \<longrightarrow> replays pd' (tl b) b'"
    by (rule pd_command_tick [OF l(2,11) lw sl(4) sq(5) l(9,12) conf m(2-8) refl m(9,10) _ _ m(12) cmd(1) ans])
      (use m(11) l(13) in \<open>simp_all add: sc [symmetric] sc_in_step_def\<close>)
  have "command_bytes acu i addr code p b a1"
    using m(1-7) by (auto simp: command_bytes_def s_def c_def sqn_def as_received_def)
  with that [OF send m(12)] d sc(1) show ?thesis by (simp add: c_def)
qed

lemma exchange_up:
  fixes acu :: "'a bus osdp_acu"
  assumes ok: "acu_line_ok acu i addr (bus_ms w)" "line w = ([], [], bus_ms w)" "acu_conf acu = (Some cb, None, None)"
    "crypto_ok (ac_sc_crypto acu)"
    and s: "ap_sc_phase (ac_pds acu ! i) = OSDP_ACU_SC_ESTABLISHED" "ap_waiting (ac_pds acu ! i)"
      "ap_pending_seq (ac_pds acu ! i) = sqn" "ap_pending_code (ac_pds acu ! i) = code" "sqn \<in> {1, 2, 3}"
    and r: "sc_in_step s1 (ap_sc_session (ac_pds acu ! i))" "reply_fits tcap r"
      "osdp_sc_wrap_frame (ac_sc_crypto acu) s1 (sc_reply addr sqn integrity r) tcap = Inr (b, s2)"
  obtains acu' a2 where "osdp_acu_tick acu (w\<lparr>bus_up := b\<rparr>) = (acu', cb w (answer_event addr code r))"
    "acu_line_ok acu' i addr (bus_ms w)" "ac_pds acu' ! i = acu_served (bus_ms w) a2 (ac_pds acu ! i)" "sc_in_step a2 s2"
    "ac_sc_crypto acu' = ac_sc_crypto acu" "acu_conf acu' = acu_conf acu" "line (cb w (answer_event addr code r)) = line w"
proof -
  note sl = acu_line_slot [OF ok(1)] and sq = advance_sqn_cases [OF s(5)]
  let ?q = "ptr_bytes (rp_payload r) (rp_payload_len r)"
  note ro = sc_reply_ok(1-3) [OF sl(4) sq(5) r(2), of integrity]
  obtain t a2 where m: "osdp_frame_build t tcap = Inr b" "frame_ptrs_ok t" "length b \<le> 1440" "fr_address t = addr" "fr_reply t"
      "fr_sequence (as_received t (tl b)) = sqn" "fr_code (as_received t (tl b)) = rp_code r" "fr_has_scb (as_received t (tl b))"
      "fr_scb_type (as_received t (tl b)) = OSDP_SCS_16 \<or> fr_scb_type (as_received t (tl b)) = OSDP_SCS_18"
      "osdp_sc_unwrap_frame (ac_sc_crypto acu) (ap_sc_session (ac_pds acu ! i)) (as_received t (tl b)) OSDP_ACU_BUF_LEN = Inr (?q, a2)"
      "sc_in_step a2 s2"
    by (rule wrap_transfer [OF ok(4) r(1) ro(1) ro(3,2), of OSDP_ACU_BUF_LEN])
      (use sc_reply_ok(4) [OF sl(4) sq(5) r(2)] r(3) in \<open>auto simp: sc_reply_def wrap_scb_type_def split: if_splits\<close>)
  show ?thesis
    by (rule acu_reply_tick [OF ok(1-3) s(1-4) sq(4) m(1-10)]) (use that m(11) in \<open>simp add: answer_event_def\<close>)
qed

lemma link_secure_served:
  assumes "acu_line_ok acu i addr (bus_ms w)" "pd_line_ok pd addr (bus_ms w)" "line w = ([], [], bus_ms w)"
    and "ac_pds acu ! i = acu_served now session s" "ap_sc_phase s = OSDP_ACU_SC_ESTABLISHED" "ap_pending_seq s = sqn" "sqn \<in> {1, 2, 3}"
    and "crypto_ok (ac_sc_crypto acu)" "crypto_ok (sc_crypto (pd_sc pd))" "same_cipher (sc_crypto (pd_sc pd)) (ac_sc_crypto acu)"
    and "osdp_pd_internal_sc_configured pd" "pd_last_cmd_len pd = 0 \<or> pd_last_cmd_len pd > 4 \<and> pd_cmd_cache pd ! 4 AND 3 = sqn"
      "sc_in_step session (sc_session (pd_sc pd))"
  shows "link_secure acu i pd addr w"
proof -
  have f: "ap_sc_phase (ac_pds acu ! i) = OSDP_ACU_SC_ESTABLISHED" "\<not> ap_waiting (ac_pds acu ! i)"
      "ap_next_seq (ac_pds acu ! i) = advance_sqn sqn" "ap_sc_session (ac_pds acu ! i) = session"
    using assms(5,6) by (simp_all add: assms(4) acu_served_def)
  have "bus_down w = []" "bus_up w = []"
    using assms(3) by (simp_all add: line_def)
  moreover have "pd_last_cmd_len pd = 0 \<or> pd_last_cmd_len pd > 4 \<and> pd_cmd_cache pd ! 4 AND 3 \<noteq> advance_sqn sqn"
    using assms(12) advance_sqn_cases(2) [OF assms(7)] by auto
  ultimately show ?thesis
    unfolding link_secure_def Let_def f using assms(1,2,8-11,13) advance_sqn_cases(1) [OF assms(7)] f(2) by simp
qed

lemma exchange_step:
  fixes acu :: "'a bus osdp_acu"
  assumes sec: "link_secure acu i pd addr w"
    and conf: "acu_conf acu = (Some cb, None, None)" "pd_conf pd = (Some app, None, None, tcap, pcap)"
    and cmd: "application_command code" "command_fits (length p) pcap"
    and ans: "app_answer app w code p = ((OSDP_PD_DISPATCH_SEND, r), w')" "line w' = line w" "reply_fits tcap r"
  obtains acu' pd' where "exchange acu pd w addr code p = (OSDP_OK, acu', pd', cb w' (answer_event addr code r))"
    "link_secure acu' i pd' addr (cb w' (answer_event addr code r))" "acu_conf acu' = acu_conf acu" "pd_conf pd' = pd_conf pd"
proof -
  define sqn where "sqn = ap_next_seq (ac_pds acu ! i)"
  have l: "acu_line_ok acu i addr (bus_ms w)" "sqn \<in> {1, 2, 3}" "crypto_ok (ac_sc_crypto acu)" "bus_down w = []" "bus_up w = []"
      "crypto_ok (sc_crypto (pd_sc pd))" "same_cipher (sc_crypto (pd_sc pd)) (ac_sc_crypto acu)"
      "ap_sc_phase (ac_pds acu ! i) = OSDP_ACU_SC_ESTABLISHED"
    using sec unfolding link_secure_def Let_def sqn_def by blast+
  note sl = acu_line_slot [OF l(1)] and sq = advance_sqn_cases [OF l(2)]
  obtain b a1 s1 integrity pd' b' s2 where d:
      "osdp_acu_send_command acu w addr code (Some p) (length p)
         = (OSDP_OK, upd_slot acu i (acu_commanding sqn code (bus_ms w) a1), w\<lparr>bus_down := b\<rparr>)" "sc_in_step s1 a1"
      "osdp_sc_wrap_frame (ac_sc_crypto acu) s1 (sc_reply addr sqn integrity r) tcap = Inr (b', s2)"
      "osdp_pd_tick pd (w\<lparr>bus_down := b\<rparr>) = (pd', w'\<lparr>bus_up := b'\<rparr>)" "pd_line_ok pd' addr (bus_ms w)"
      "sc_session (pd_sc pd') = s2" "sc_crypto (pd_sc pd') = sc_crypto (pd_sc pd)" "osdp_pd_internal_sc_configured pd'"
      "pd_conf pd' = pd_conf pd" "pd_last_cmd_len pd' = 0 \<or> pd_last_cmd_len pd' > 4 \<and> pd_cmd_cache pd' ! 4 AND 3 = sqn"
    by (rule exchange_down [OF sec conf(2) cmd ans, folded sqn_def])
  let ?acu = "upd_slot acu i (acu_commanding sqn code (bus_ms w) a1)"
  have lo: "acu_line_ok ?acu i addr (bus_ms w)"
    using sl by (intro acu_line_upd [OF l(1)]) (simp_all add: acu_commanding_def mark_pending_def)
  have lw: "line w' = ([], [], bus_ms w')" "bus_ms w' = bus_ms w"
    using ans(2) l(4,5) by (simp_all add: line_def)
  obtain acu' a2 where r: "osdp_acu_tick ?acu (w'\<lparr>bus_up := b'\<rparr>) = (acu', cb w' (answer_event addr code r))"
      "acu_line_ok acu' i addr (bus_ms w')" "ac_pds acu' ! i = acu_served (bus_ms w') a2 (ac_pds ?acu ! i)" "sc_in_step a2 s2"
      "ac_sc_crypto acu' = ac_sc_crypto ?acu" "acu_conf acu' = acu_conf ?acu" "line (cb w' (answer_event addr code r)) = line w'"
    by (rule exchange_up [where acu = ?acu and i = i and sqn = sqn, OF _ lw(1) _ _ _ _ _ _ l(2) _ ans(3)])
      (use lo conf(1) l(3,8) sl(1) d(2,3) lw(2) in \<open>simp_all add: acu_commanding_def mark_pending_def\<close>)
  have "exchange acu pd w addr code p = (OSDP_OK, acu', pd', cb w' (answer_event addr code r))"
    using r(1) by (simp add: exchange_def d(1,4))
  moreover have "link_secure acu' i pd' addr (cb w' (answer_event addr code r))"
    using r(7) lw by (intro link_secure_served [OF _ _ _ r(3) _ _ l(2)])
      (use r d l sl(1) in \<open>simp_all add: acu_commanding_def mark_pending_def line_def\<close>)
  ultimately show ?thesis
    using that r(6) d(9) by simp
qed

section \<open>Conversations\<close>

fun conversation ::
  "'a bus osdp_acu \<Rightarrow> 'a bus osdp_pd \<Rightarrow> 'a bus \<Rightarrow> byte \<Rightarrow> (byte \<times> bytes) list
     \<Rightarrow> osdp_status \<times> 'a bus osdp_acu \<times> 'a bus osdp_pd \<times> 'a bus" where
  "conversation acu pd w addr [] = (OSDP_OK, acu, pd, w)"
| "conversation acu pd w addr ((code, p) # cs) =
     (case exchange acu pd w addr code p of (st, acu1, pd1, w1) \<Rightarrow>
        if st \<noteq> OSDP_OK then (st, acu1, pd1, w1) else conversation acu1 pd1 w1 addr cs)"

text \<open>The abstract system has no line, no frames and no sessions: a list of commands is a list of calls. It is
  undefined where a command or reply exceeds the buffers, where the application asks for no reply or a BUSY
  one, and for commands the library answers itself.\<close>

fun remote_calls ::
  "('a bus \<Rightarrow> byte \<Rightarrow> bytes_ptr \<Rightarrow> nat \<Rightarrow> osdp_pd_reply \<Rightarrow> osdp_status \<times> osdp_pd_reply \<times> 'a bus) \<Rightarrow>
   ('a bus \<Rightarrow> osdp_acu_reply_event \<Rightarrow> 'a bus) \<Rightarrow> nat \<Rightarrow> nat \<Rightarrow> byte \<Rightarrow> 'a bus \<Rightarrow> (byte \<times> bytes) list \<Rightarrow> 'a bus option" where
  "remote_calls app cb tcap pcap addr w [] = Some w"
| "remote_calls app cb tcap pcap addr w ((code, p) # cs) =
     (case app_answer app w code p of ((outcome, r), w') \<Rightarrow>
        if application_command code \<and> command_fits (length p) pcap \<and> outcome = OSDP_PD_DISPATCH_SEND \<and>
           line w' = line w \<and> reply_fits tcap r
        then remote_calls app cb tcap pcap addr (cb w' (answer_event addr code r)) cs else None)"

lemma conversation_calls:
  fixes acu :: "'a bus osdp_acu"
  assumes "link_secure acu i pd addr w" "acu_conf acu = (Some cb, None, None)" "pd_conf pd = (Some app, None, None, tcap, pcap)"
    "remote_calls app cb tcap pcap addr w cs = Some w'"
  obtains acu' pd' where "conversation acu pd w addr cs = (OSDP_OK, acu', pd', w')" "link_secure acu' i pd' addr w'"
proof -
  have "\<exists>acu' pd'. conversation acu pd w addr cs = (OSDP_OK, acu', pd', w') \<and> link_secure acu' i pd' addr w'"
    using assms
  proof (induction cs arbitrary: acu pd w)
    case (Cons c cs)
    obtain code p where c: "c = (code, p)"
      by (cases c)
    obtain r w1 where a: "app_answer app w code p = ((OSDP_PD_DISPATCH_SEND, r), w1)" "application_command code"
        "command_fits (length p) pcap" "line w1 = line w" "reply_fits tcap r"
        "remote_calls app cb tcap pcap addr (cb w1 (answer_event addr code r)) cs = Some w'"
      using Cons.prems(4) c by (auto split: prod.splits if_splits)
    obtain acu1 pd1 where e: "exchange acu pd w addr code p = (OSDP_OK, acu1, pd1, cb w1 (answer_event addr code r))"
        "link_secure acu1 i pd1 addr (cb w1 (answer_event addr code r))" "acu_conf acu1 = acu_conf acu" "pd_conf pd1 = pd_conf pd"
      by (rule exchange_step [OF Cons.prems(1-3) a(2,3,1,4,5)])
    from Cons.IH [OF e(2) _ _ a(6)] e Cons.prems(2,3) c show ?case by simp
  qed simp
  with that show ?thesis by blast
qed

section \<open>Properties\<close>

text \<open>The example: a control unit and a device that share a key, an application that echoes its command and a
  handler that records what it is told. The cipher is the tiny-AES port.\<close>

definition ex_bus_crypto :: "'a bus osdp_sc_crypto" where
  "ex_bus_crypto = osdp_sc_tiny_aes128 \<lparr>aes128_ecb_encrypt = None, aes128_ecb_decrypt = None,
     rand_bytes = Some (\<lambda>u n. (OSDP_OK, replicate n 7, u))\<rparr>"

definition ex_echo :: "'a bus \<Rightarrow> byte \<Rightarrow> bytes_ptr \<Rightarrow> nat \<Rightarrow> osdp_pd_reply \<Rightarrow> osdp_status \<times> osdp_pd_reply \<times> 'a bus" where
  "ex_echo w code p n r = (OSDP_OK, \<lparr>rp_code = OSDP_REPLY_MFGREP, rp_payload = p, rp_payload_len = n\<rparr>, w)"

definition ex_record :: "osdp_acu_reply_event list bus \<Rightarrow> osdp_acu_reply_event \<Rightarrow> osdp_acu_reply_event list bus" where
  "ex_record w e = w\<lparr>bus_app := bus_app w @ [e]\<rparr>"

definition ex_bus :: "osdp_acu_reply_event list bus" where
  "ex_bus = \<lparr>bus_down = [], bus_up = [], bus_ms = 42, bus_app = []\<rparr>"

definition ex_controller :: "osdp_acu_reply_event list bus osdp_acu" where
  "ex_controller = (osdp_acu_init 1)\<lparr>ac_transport := acu_port, ac_reply_cb := Some ex_record, ac_sc_crypto := ex_bus_crypto,
     ac_sc_crypto_set := True, ac_pds := [zero_acu_pd_slot\<lparr>ap_in_use := True, ap_address := 5, ap_scbk_set := True, ap_scbk := ex_key\<rparr>]\<rparr>"

definition ex_device :: "osdp_acu_reply_event list bus osdp_pd" where
  "ex_device = (osdp_pd_init 5)\<lparr>pd_transport := pd_port, pd_cmd_cb := Some ex_echo,
     pd_sc := zero_pd_sc\<lparr>sc_crypto := ex_bus_crypto, sc_crypto_set := True, sc_cuid := replicate 8 1, sc_cuid_set := True,
       sc_scbk := ex_key, sc_scbk_set := True\<rparr>\<rparr>"

lemma ex_bus_crypto_ok: "crypto_ok ex_bus_crypto" "rand_ok ex_bus_crypto"
  using tiny_block_cipher_ok by (auto simp: crypto_ok_def ex_bus_crypto_def osdp_sc_tiny_aes128_def rand_ok_def)

lemma ex_bus_crypto_set:
  "rand_bytes ex_bus_crypto = Some (\<lambda>u n. (OSDP_OK, replicate n 7, u))"
  "aes128_ecb_encrypt ex_bus_crypto = Some tiny_encrypt"
  by (simp_all add: ex_bus_crypto_def osdp_sc_tiny_aes128_def)

lemma init_streams_idle: "idle_stream (ac_rx (osdp_acu_init n))" "idle_stream (pd_rx (osdp_pd_init a))"
  by (simp_all add: idle_stream_def osdp_acu_init_def osdp_pd_init_def osdp_stream_init_def stream_wf_def stream_live_def)

lemma ex_lines_ok:
  "acu_line_ok ex_controller 0 5 (bus_ms ex_bus)" "pd_line_ok ex_device 5 (bus_ms ex_bus)" "bus_down ex_bus = []" "bus_up ex_bus = []"
  "acu_conf ex_controller = (Some ex_record, None, None)" "pd_conf ex_device = (Some ex_echo, None, None, OSDP_PD_BUF_LEN, OSDP_PD_BUF_LEN)"
  using init_streams_idle
  by (simp_all add: acu_line_ok_def ex_controller_def acu_quiet_def pd_line_ok_def ex_device_def pd_quiet_def ex_bus_def acu_fresh_def
      acu_conf_def pd_conf_def osdp_acu_init_def osdp_pd_init_def zero_acu_pd_slot_def find_slot_by_address_def quiet_def ex_record_def line_def)

lemma ex_handshake_ready: "handshake_ready ex_controller 0 ex_device False"
  using ex_key_length
  by (simp add: ex_bus_crypto_ok ex_bus_crypto_set handshake_ready_def ex_controller_def ex_device_def osdp_acu_internal_sc_configured_def zero_acu_pd_slot_def
      osdp_pd_internal_sc_configured_def select_handshake_key_def key_selector_def same_cipher_def)

text \<open>The established link of the second example, reached from the first by the handshake with the same
  sessions on both sides.\<close>

definition ex_open_controller :: "osdp_acu_reply_event list bus osdp_acu" where
  "ex_open_controller = ex_controller\<lparr>ac_pds := [zero_acu_pd_slot\<lparr>ap_in_use := True, ap_address := 5, ap_next_seq := 2,
     ap_sc_phase := OSDP_ACU_SC_ESTABLISHED, ap_sc_session := ex_session\<rparr>]\<rparr>"

definition ex_open_device :: "osdp_acu_reply_event list bus osdp_pd" where
  "ex_open_device = ex_device\<lparr>pd_sc := (pd_sc ex_device)\<lparr>sc_session := ex_session\<rparr>\<rparr>"

lemma ex_link_secure:
  "link_secure ex_open_controller 0 ex_open_device 5 ex_bus"
  "acu_conf ex_open_controller = (Some ex_record, None, None)"
  "pd_conf ex_open_device = (Some ex_echo, None, None, OSDP_PD_BUF_LEN, OSDP_PD_BUF_LEN)"
proof -
  have "sc_in_step ex_session ex_session"
    by (simp add: sc_in_step_def ex_session_def keys_ok_def ex_key_length)
  then show "link_secure ex_open_controller 0 ex_open_device 5 ex_bus"
    using ex_lines_ok ex_bus_crypto_ok(1)
    by (simp add: link_secure_def Let_def ex_open_controller_def ex_open_device_def acu_line_ok_def pd_line_ok_def acu_quiet_def
        pd_quiet_def acu_fresh_def zero_acu_pd_slot_def find_slot_by_address_def ex_controller_def ex_device_def same_cipher_def
        osdp_pd_internal_sc_configured_def osdp_pd_init_def)
qed (use ex_lines_ok(5,6) in \<open>simp_all add: ex_open_controller_def ex_open_device_def acu_conf_def pd_conf_def\<close>)

text \<open>C2. The Secure Channel handshake succeeds: when both sides are configured with the same key and cipher
  and the line between them is idle, starting the handshake and ticking the two sides in turn ends with
  the control unit reporting the device as secured, both sides holding the same session keys and chaining MACs,
  and the line idle again - a state in which every command below can be exchanged.\<close>

theorem secure_channel_established:
  fixes acu :: "'a bus osdp_acu" and pd :: "'a bus osdp_pd"
  assumes "acu_line_ok acu i addr (bus_ms w)" and "pd_line_ok pd addr (bus_ms w)" and "bus_down w = []" and "bus_up w = []"
    and "handshake_ready acu i pd use_default_key"
  shows "\<exists>acu' pd' w'. handshake_run acu pd w addr use_default_key = (OSDP_OK, acu', pd', w') \<and>
      osdp_acu_is_pd_sc_established acu' addr \<and> ss_established (sc_session (pd_sc pd')) \<and>
      ss_keys (ap_sc_session (ac_pds acu' ! i)) = ss_keys (sc_session (pd_sc pd')) \<and>
      ss_last_inbound_mac (ap_sc_session (ac_pds acu' ! i)) = ss_last_outbound_mac (sc_session (pd_sc pd')) \<and>
      link_secure acu' i pd' addr w'"
proof -
  obtain acu' pd' w' where r: "handshake_run acu pd w addr use_default_key = (OSDP_OK, acu', pd', w')"
      "link_secure acu' i pd' addr w'"
    by (rule handshake_establishes [OF assms])
  moreover have "osdp_acu_is_pd_sc_established acu' addr"
    using r(2) acu_line_slot(7) [of acu' i addr] by (auto simp: osdp_acu_is_pd_sc_established_def link_secure_def Let_def)
  ultimately show ?thesis
    by (auto simp: link_secure_def Let_def sc_in_step_def)
qed

theorem secure_channel_established_witness:
  "\<exists>acu' pd' w'. handshake_run ex_controller ex_device ex_bus 5 False = (OSDP_OK, acu', pd', w') \<and>
     osdp_acu_is_pd_sc_established acu' 5 \<and> ss_established (sc_session (pd_sc pd'))"
  using secure_channel_established [OF ex_lines_ok(1-4) ex_handshake_ready] by blast

text \<open>C1. Over the Secure Channel the two programs implement remote calls: for every list of commands for the
  application that fit the buffers, sending them one after the other and ticking both sides leaves the
  applications exactly as if the device's application had been called with each command, in order and once,
  and the control unit's handler with each answer - a reply, or the NAK the application's status stands for. Nothing is
  lost, repeated, reordered or altered on the way, and the link is ready for the next conversation.\<close>

theorem conversation_refines_calls:
  fixes acu :: "'a bus osdp_acu" and pd :: "'a bus osdp_pd"
  assumes "link_secure acu i pd addr w" and "acu_conf acu = (Some cb, None, None)"
    and "pd_conf pd = (Some app, None, None, tcap, pcap)" and "remote_calls app cb tcap pcap addr w cs = Some w'"
  shows "\<exists>acu' pd'. conversation acu pd w addr cs = (OSDP_OK, acu', pd', w') \<and> link_secure acu' i pd' addr w'"
  by (rule conversation_calls [OF assms]) blast

theorem conversation_refines_calls_witness:
  "\<exists>acu' pd'. conversation ex_open_controller ex_open_device ex_bus 5 [(OSDP_CMD_TEXT, [1, 2, 3]), (OSDP_CMD_ID, [])]
     = (OSDP_OK, acu', pd', ex_bus\<lparr>bus_app := [reply_event 5 OSDP_CMD_TEXT OSDP_REPLY_MFGREP [1, 2, 3],
          reply_event 5 OSDP_CMD_ID OSDP_REPLY_MFGREP []]\<rparr>)"
proof -
  have "remote_calls ex_echo ex_record 512 512 5 ex_bus [(OSDP_CMD_TEXT, [1, 2, 3]), (OSDP_CMD_ID, [])]
      = Some (ex_bus\<lparr>bus_app := [reply_event 5 OSDP_CMD_TEXT OSDP_REPLY_MFGREP [1, 2, 3],
          reply_event 5 OSDP_CMD_ID OSDP_REPLY_MFGREP []]\<rparr>)"
    by (simp add: app_answer_def ex_echo_def apply_app_status_def application_command_def command_fits_def reply_fits_def
        sc_body_len_def padded_len_def ptr_holds_def ex_record_def ex_bus_def line_def answer_event_def ptr_bytes_def)
  from conversation_refines_calls [OF ex_link_secure this] show ?thesis by blast
qed

end
