(* ===== verification/Recovery.thy ===== *)
theory Recovery
  imports Conversation
begin

unbundle bit_operations_syntax

text \<open>
  Lost messages. A reply that never arrives runs into the control unit's reply timeout; the application
  repeats the command, which goes out byte for byte as before, the device recognises it and answers from
  its reply cache without calling its application again, and the conversation goes on as if nothing had
  been lost.
\<close>

section \<open>Repeating a command\<close>

text \<open>Wrapping chains on the last reply received, so wrapping again before the next one gives the same
  bytes.\<close>

lemma wrap_again:
  assumes "osdp_sc_wrap_frame c a f cap = Inr (b, a1)"
  shows "osdp_sc_wrap_frame c a1 f cap = Inr (b, a1)"
proof -
  obtain m where a: "a1 = a\<lparr>ss_last_outbound_mac := m\<rparr>"
    using assms by (auto simp: osdp_sc_wrap_frame_def Let_def split: if_splits sum.splits)
  have f: "ss_keys a1 = ss_keys a" "ss_last_inbound_mac a1 = ss_last_inbound_mac a"
    by (simp_all add: a)
  have "wrap_template c a1 f cap = wrap_template c a f cap"
    unfolding wrap_template_def f ..
  with assms show ?thesis
    by (auto simp: a osdp_sc_wrap_frame_def Let_def split: if_splits sum.splits)
qed

lemma wrapped_length:
  assumes "crypto_ok c" "sc_in_step a s" "sc_template_ok f" "osdp_sc_wrap_frame c a f cap = Inr (b, a1)"
  shows "length b = sc_frame_len f + 1" "b \<noteq> []"
proof -
  have st: "keys_ok (ss_keys a)" "length (ss_last_inbound_mac a) = 16"
    using assms(2) unfolding sc_in_step_def by blast+
  show "length b = sc_frame_len f + 1"
    by (rule wrap_built [OF assms(1) st assms(3,4)])
  then show "b \<noteq> []" by auto
qed

section \<open>The timeout\<close>

definition give_up :: "osdp_acu_pd_slot \<Rightarrow> osdp_acu_pd_slot" where
  "give_up s = s\<lparr>ap_waiting := False, ap_next_seq := ap_pending_seq s\<rparr>"

definition timeout_reported :: "'w osdp_acu \<Rightarrow> nat \<Rightarrow> 'w \<Rightarrow> 'w" where
  "timeout_reported acu i w =
     (case ac_timeout_cb acu of
        None \<Rightarrow> w
      | Some cb \<Rightarrow> cb w \<lparr>te_pd_address = ap_address (ac_pds acu ! i), te_cmd_code = ap_pending_code (ac_pds acu ! i),
                          te_cmd_seq = ap_pending_seq (ac_pds acu ! i)\<rparr>)"

lemma scan_slots_append:
  "scan_slots acu now w (xs @ ys) = (case scan_slots acu now w xs of (acu1, w1) \<Rightarrow> scan_slots acu1 now w1 ys)"
  by (induction xs arbitrary: acu w) (simp_all add: Let_def case_prod_beta)

lemma scan_slots_idle: "(\<And>j. j \<in> set is \<Longrightarrow> scan_slot acu now w j = (acu, w)) \<Longrightarrow> scan_slots acu now w is = (acu, w)"
  by (induction "is") simp_all

lemma scan_one_timeout:
  assumes "acu_fresh (upd_slot acu i give_up) now" "i < length (ac_pds acu)" "ap_in_use (ac_pds acu ! i)"
    "ap_waiting (ac_pds acu ! i)" "now - ap_pending_sent_ms (ac_pds acu ! i) > OSDP_ACU_REPLY_TIMEOUT_MS"
  shows "scan_slots acu now w [0..<length (ac_pds acu)] = (upd_slot acu i give_up, timeout_reported acu i w)"
proof -
  let ?a = "upd_slot acu i give_up" and ?w = "timeout_reported acu i w"
  have other: "scan_slot acu now v j = (acu, v)" if "j \<noteq> i" "j < length (ac_pds acu)" for j v
  proof -
    have "ac_pds acu ! j = ac_pds ?a ! j"
      using that by (simp add: upd_slot_def)
    moreover have "ac_pds ?a ! j \<in> set (ac_pds ?a)"
      using that(2) by (intro nth_mem) simp
    ultimately show ?thesis
      using assms(1) by (auto simp: scan_slot_def scan_reply_timeout_def scan_online_def acu_fresh_def Let_def not_le [symmetric])
  qed
  have i: "upd_slot acu i (\<lambda>s. s\<lparr>ap_waiting := False, ap_next_seq := ap_pending_seq (ac_pds acu ! i)\<rparr>) = ?a"
    by (simp add: upd_slot_def give_up_def)
  have "ac_pds ?a ! i \<in> set (ac_pds ?a)"
    using assms(2) by (intro nth_mem) simp
  then have on: "scan_online ?a now ?w i = (?a, ?w)"
    using assms(1,2,3) by (auto simp: scan_online_def acu_fresh_def Let_def not_le [symmetric] give_up_def)
  have slot: "scan_slot acu now w i = (?a, ?w)"
    using assms(3-5) on by (simp add: scan_slot_def scan_reply_timeout_def Let_def i timeout_reported_def)
  have rest: "scan_slots ?a now ?w [Suc i..<length (ac_pds acu)] = (?a, ?w)"
    using scan_slot_fresh [OF assms(1)] by (intro scan_slots_idle) simp
  have "[0..<length (ac_pds acu)] = [0..<i] @ i # [Suc i..<length (ac_pds acu)]"
    using assms(2) upt_add_eq_append [of 0 i "length (ac_pds acu) - i"] by (simp add: upt_conv_Cons)
  then show ?thesis
    using scan_slots_idle [of "[0..<i]" acu now w] other assms(2) slot rest by (simp add: scan_slots_append)
qed

text \<open>A tick with nothing on the line.\<close>

lemma acu_tick_silent:
  fixes acu :: "'a bus osdp_acu"
  assumes tr: "ac_transport acu = acu_port" and scan: "scan_timeouts_and_offline acu w = (acu1, w1)"
    and a1: "ac_transport acu1 = acu_port" "idle_stream (ac_rx acu1)" "bus_up w1 = []" "ac_led_cb acu1 = None" "ac_buzzer_cb acu1 = None"
  obtains acu' where "osdp_acu_tick acu w = (acu', w1)" "idle_stream (ac_rx acu')" "acu_core acu' = acu_core acu1"
proof -
  obtain read where rd: "at_read (acu_port :: 'a bus osdp_acu_transport) = Some read"
    by (simp add: acu_port_def)
  have e: "w1\<lparr>bus_up := []\<rparr> = w1"
    using a1(3) by (cases w1) simp
  obtain rx where r: "acu_read_loop read (ac_rx acu1) w1 0 = (rx, w1)" "stream_wf rx" "stream_live rx = []"
    by (rule up.read_all [of "ac_rx acu1" w1, unfolded rd option.sel e]) (use a1(2,3) in \<open>simp_all add: idle_stream_def\<close>)
  obtain rx' where n: "osdp_stream_next rx zero_frame = (OSDP_ERR_TRUNCATED, zero_frame, rx')"
    by (rule rx.next_empty [OF r(2,3)])
  have rx': "idle_stream rx'"
    using rx.next_wf [OF r(2) n] rx.next_live [OF r(2) n] r(3) by (simp add: idle_stream_def queue_next_def)
  let ?h = "acu1\<lparr>ac_rx := rx', ac_rx_partial_len := 0\<rparr>"
  have "acu_frame_loop (acu1\<lparr>ac_rx := rx\<rparr>) w1 = (acu1\<lparr>ac_rx := rx'\<rparr>, w1)"
    by (simp add: acu_frame_loop.simps [of "acu1\<lparr>ac_rx := rx\<rparr>"] n)
  moreover have "acu_check_interchar_timeout (acu1\<lparr>ac_rx := rx'\<rparr>) w1 = (?h, w1)"
    using rx' by (simp add: acu_check_interchar_timeout_def idle_pending)
  moreover have "now_ms_or_zero ?h w1 = (bus_ms w1, w1)"
    using a1(1) by (simp add: now_ms_or_zero_def acu_port_def)
  ultimately have "osdp_acu_tick acu w = (?h, w1)"
    using a1(4,5) by (simp add: osdp_acu_tick_def tr rd scan r(1) refresh_silent)
  with that rx' show ?thesis by (simp add: acu_core_def)
qed

lemma acu_timeout_tick:
  fixes acu :: "'a bus osdp_acu"
  assumes ok: "acu_line_ok (upd_slot acu i give_up) i addr (bus_ms w)" "line w = ([], [], bus_ms w)" "acu_conf acu = (Some cb, None, None)"
    and s: "ap_waiting (ac_pds acu ! i)" "bus_ms w - ap_pending_sent_ms (ac_pds acu ! i) > OSDP_ACU_REPLY_TIMEOUT_MS"
    and q: "line (timeout_reported acu i w) = line w"
  obtains acu' where "osdp_acu_tick acu w = (acu', timeout_reported acu i w)" "acu_line_ok acu' i addr (bus_ms w)"
    "ac_pds acu' ! i = give_up (ac_pds acu ! i)" "ac_sc_crypto acu' = ac_sc_crypto acu" "acu_conf acu' = acu_conf acu"
    "ac_integrity acu' = ac_integrity acu"
proof -
  let ?a = "upd_slot acu i give_up" and ?w = "timeout_reported acu i w"
  note sl = acu_line_slot [OF ok(1)]
  have i: "i < length (ac_pds acu)"
    using sl(1) by simp
  have u: "ap_in_use (ac_pds acu ! i)" "ac_transport acu = acu_port" "acu_fresh ?a (bus_ms w)"
    using sl(2,6) i ok(1) by (simp_all add: give_up_def acu_line_ok_def)
  have scan: "scan_timeouts_and_offline acu w = (?a, ?w)"
    using scan_one_timeout [OF u(3) i u(1) s, of w] by (simp add: scan_timeouts_and_offline_def u(2) acu_port_def)
  obtain acu' where t: "osdp_acu_tick acu w = (acu', ?w)" "idle_stream (ac_rx acu')" "acu_core acu' = acu_core ?a"
    by (rule acu_tick_silent [OF u(2) scan])
      (use ok lineD(2) [OF q] in \<open>simp_all add: acu_line_ok_def acu_conf_def line_def upd_slot_def\<close>)
  note k = acu_core_fields [OF t(3)]
  have "acu_line_ok acu' i addr (bus_ms w)"
    using k t(2) ok(1) by (simp add: acu_line_ok_def acu_fresh_def find_slot_by_address_def acu_quiet_def)
  with that [OF t(1)] k i show ?thesis by (simp add: acu_conf_def upd_slot_def)
qed

section \<open>The replay\<close>

lemma pd_replay_tick:
  fixes pd :: "'a bus osdp_pd"
  assumes ok: "pd_line_ok pd addr (bus_ms w)" "pd_led_cb pd = None" "pd_buzzer_cb pd = None"
    and b: "osdp_frame_build t cap = Inr b" "frame_ptrs_ok t" "length b \<le> OSDP_STREAM_BUFFER_LEN" "bus_down w = b" "bus_up w = []"
    and t: "\<not> fr_reply t" "fr_address t = addr" "fr_sequence t \<noteq> 0"
    and r: "replays pd (tl b) reply" "reply \<noteq> []"
  obtains pd' where "osdp_pd_tick pd w = (pd', w\<lparr>bus_down := [], bus_up := reply\<rparr>)" "pd_line_ok pd' addr (bus_ms w)"
    "pd_sc pd' = pd_sc pd" "pd_conf pd' = pd_conf pd" "pd_last_cmd_len pd' = pd_last_cmd_len pd" "pd_cmd_cache pd' = pd_cmd_cache pd"
proof -
  define h where "h rx = pd\<lparr>pd_rx := rx, pd_last_comm_ms := bus_ms w, pd_online := True\<rparr>" for rx
  have tr: "pd_transport pd = pd_port"
    using ok(1) by (simp add: pd_line_ok_def)
  have "is_retransmit (pd\<lparr>pd_rx := rx\<rparr>) (as_received t (tl b))" for rx
    using built_frame_bytes(4) [OF b(1,2)] t(3) r(1) by (simp add: is_retransmit_def replays_def as_received_def)
  then have pf: "process_frame (pd\<lparr>pd_rx := rx\<rparr>) (w\<lparr>bus_down := []\<rparr>) (as_received t (tl b)) = (h rx, w\<lparr>bus_down := [], bus_up := reply\<rparr>)" for rx
    using r b(5) pd_port_send [of "pd\<lparr>pd_rx := rx\<rparr>" reply "w\<lparr>bus_down := []\<rparr>"] tr by (simp add: process_frame_def replays_def h_def)
  have on: "check_offline_timeout pd w = (pd, w)"
    using ok by (auto simp: check_offline_timeout_def pd_line_ok_def pd_port_def not_less [symmetric])
  obtain rx pd' where p: "osdp_pd_tick pd w = (pd', w\<lparr>bus_down := [], bus_up := reply\<rparr>)" "idle_stream (pd_rx pd')"
      "pd_core pd' = pd_core (h rx)"
    by (rule pd_tick_one [OF tr _ on _ b(1-4) t(1) _ pf]) (use ok t(2) in \<open>simp_all add: pd_line_ok_def\<close>)
  note k = pd_core_fields [OF p(3)]
  have "pd_line_ok pd' addr (bus_ms w)"
    using k p(2) ok(1) by (simp add: pd_line_ok_def h_def pd_quiet_def)
  with that [OF p(1)] k show ?thesis by (simp add: h_def pd_conf_def)
qed

text \<open>The repeated command and the cached reply: an exchange in which the device's application takes no part.\<close>

lemma exchange_replayed:
  fixes acu :: "'a bus osdp_acu"
  assumes ok: "acu_line_ok acu i addr (bus_ms w)" "line w = ([], [], bus_ms w)" "acu_conf acu = (Some cb, None, None)"
      "crypto_ok (ac_sc_crypto acu)"
    and s: "ap_sc_phase (ac_pds acu ! i) = OSDP_ACU_SC_ESTABLISHED" "\<not> ap_waiting (ac_pds acu ! i)"
      "ap_next_seq (ac_pds acu ! i) \<in> {1, 2, 3}" "command_bytes acu i addr code p b (ap_sc_session (ac_pds acu ! i))"
    and pd: "pd_line_ok pd addr (bus_ms w)" "pd_led_cb pd = None" "pd_buzzer_cb pd = None" "replays pd (tl b) b'"
    and cmd: "application_command code"
    and r: "sc_in_step s1 (ap_sc_session (ac_pds acu ! i))" "reply_fits tcap r"
      "osdp_sc_wrap_frame (ac_sc_crypto acu) s1 (sc_reply addr (ap_next_seq (ac_pds acu ! i)) integrity r) tcap = Inr (b', s2)"
  obtains acu' pd' a2 where "exchange acu pd w addr code p = (OSDP_OK, acu', pd', cb w (answer_event addr code r))"
    "acu_line_ok acu' i addr (bus_ms w)" "sc_in_step a2 s2" "line (cb w (answer_event addr code r)) = line w"
    "ac_pds acu' ! i = acu_served (bus_ms w) a2
       (acu_commanding (ap_next_seq (ac_pds acu ! i)) code (bus_ms w) (ap_sc_session (ac_pds acu ! i)) (ac_pds acu ! i))"
    "ac_sc_crypto acu' = ac_sc_crypto acu" "acu_conf acu' = acu_conf acu"
    "pd_line_ok pd' addr (bus_ms w)" "pd_sc pd' = pd_sc pd" "pd_last_cmd_len pd' = pd_last_cmd_len pd" "pd_cmd_cache pd' = pd_cmd_cache pd"
proof -
  note sl = acu_line_slot [OF ok(1)] and sq = advance_sqn_cases [OF s(3)]
  have lw: "bus_down w = []" "bus_up w = []"
    using ok(2) by (simp_all add: line_def)
  obtain t where c: "osdp_sc_wrap_frame (ac_sc_crypto acu) (ap_sc_session (ac_pds acu ! i)) (sc_command acu (ac_pds acu ! i) addr code p)
       OSDP_ACU_BUF_LEN = Inr (b, ap_sc_session (ac_pds acu ! i))" and t: "osdp_frame_build t OSDP_ACU_BUF_LEN = Inr b" "frame_ptrs_ok t"
      "length b \<le> OSDP_STREAM_BUFFER_LEN" "\<not> fr_reply t" "fr_address t = addr" "fr_sequence t = ap_next_seq (ac_pds acu ! i)"
    using s(4) by (auto simp: command_bytes_def)
  let ?acu = "upd_slot acu i (acu_commanding (ap_next_seq (ac_pds acu ! i)) code (bus_ms w) (ap_sc_session (ac_pds acu ! i)))"
  have send: "osdp_acu_send_command acu w addr code (Some p) (length p) = (OSDP_OK, ?acu, w\<lparr>bus_down := b\<rparr>)"
    using acu_sends_command [OF ok(1) lw(1) s(1,2) cmd c] sq(3) by simp
  have ne: "b' \<noteq> []"
    using wrapped_length(2) [OF ok(4) r(1) sc_reply_ok(1) [OF sl(4) sq(5) r(2)] r(3)] .
  have we: "w\<lparr>bus_up := b'\<rparr> = w\<lparr>bus_down := [], bus_up := b'\<rparr>"
    using lw(1) by (cases w) simp
  obtain pd' where p: "osdp_pd_tick pd (w\<lparr>bus_down := b\<rparr>) = (pd', w\<lparr>bus_up := b'\<rparr>)" "pd_line_ok pd' addr (bus_ms w)"
      "pd_sc pd' = pd_sc pd" "pd_last_cmd_len pd' = pd_last_cmd_len pd" "pd_cmd_cache pd' = pd_cmd_cache pd"
    by (rule pd_replay_tick [where w = "w\<lparr>bus_down := b\<rparr>" and t = t, OF _ pd(2,3) t(1-3) _ _ t(4,5) _ pd(4) ne])
      (use pd(1) lw(2) t(6) sq(4) in \<open>simp_all add: we\<close>)
  have lo: "acu_line_ok ?acu i addr (bus_ms w)"
    using sl by (intro acu_line_upd [OF ok(1)]) (simp_all add: acu_commanding_def mark_pending_def)
  obtain acu' a2 where u: "osdp_acu_tick ?acu (w\<lparr>bus_up := b'\<rparr>) = (acu', cb w (answer_event addr code r))"
      "acu_line_ok acu' i addr (bus_ms w)" "ac_pds acu' ! i = acu_served (bus_ms w) a2 (ac_pds ?acu ! i)" "sc_in_step a2 s2"
      "ac_sc_crypto acu' = ac_sc_crypto ?acu" "acu_conf acu' = acu_conf ?acu" "line (cb w (answer_event addr code r)) = line w"
    by (rule exchange_up [where acu = ?acu and i = i, OF lo ok(2) _ _ _ _ _ _ s(3) _ r(2)])
      (use ok(3,4) s(1) sl(1) r(1,3) in \<open>simp_all add: acu_commanding_def mark_pending_def\<close>)
  have "exchange acu pd w addr code p = (OSDP_OK, acu', pd', cb w (answer_event addr code r))"
    by (simp add: exchange_def send p(1) u(1))
  with that u p(2-5) sl(1) show ?thesis by simp
qed

section \<open>An exchange whose reply is lost\<close>

text \<open>The reply disappears from the line, \<open>dt\<close> milliseconds pass, the control unit ticks, and the application
  repeats the command.\<close>

definition reply_lost_exchange ::
  "'a bus osdp_acu \<Rightarrow> 'a bus osdp_pd \<Rightarrow> 'a bus \<Rightarrow> byte \<Rightarrow> byte \<Rightarrow> bytes \<Rightarrow> u32
     \<Rightarrow> osdp_status \<times> 'a bus osdp_acu \<times> 'a bus osdp_pd \<times> 'a bus" where
  "reply_lost_exchange acu pd w addr code p dt =
     (case osdp_acu_send_command acu w addr code (Some p) (length p) of (st, acu1, w1) \<Rightarrow>
        (case osdp_pd_tick pd w1 of (pd1, w2) \<Rightarrow>
           (case osdp_acu_tick acu1 (w2\<lparr>bus_up := [], bus_ms := bus_ms w2 + dt\<rparr>) of (acu2, w3) \<Rightarrow>
              exchange acu2 pd1 w3 addr code p)))"

definition timeout_event :: "byte \<Rightarrow> byte \<Rightarrow> byte \<Rightarrow> osdp_acu_timeout_event" where
  "timeout_event addr code sqn = \<lparr>te_pd_address = addr, te_cmd_code = code, te_cmd_seq = sqn\<rparr>"

text \<open>After the timeout the slot is free again and the same command has the same bytes.\<close>

lemma command_times_out:
  fixes acu :: "'a bus osdp_acu"
  assumes ok: "acu_line_ok acu i addr now" "acu_fresh acu (bus_ms w)" "line w = ([], [], bus_ms w)" "acu_conf acu = (Some cb, None, None)"
    and c: "command_bytes acu i addr code p b a1" "bus_ms w - now > OSDP_ACU_REPLY_TIMEOUT_MS"
  defines "acu1 \<equiv> upd_slot acu i (acu_commanding (ap_next_seq (ac_pds acu ! i)) code now a1)"
  assumes q: "line (timeout_reported acu1 i w) = line w"
  obtains acu' where "osdp_acu_tick acu1 w = (acu', timeout_reported acu1 i w)" "acu_line_ok acu' i addr (bus_ms w)"
    "ac_sc_crypto acu' = ac_sc_crypto acu" "acu_conf acu' = acu_conf acu" "command_bytes acu' i addr code p b a1"
    "ac_pds acu' ! i = give_up (acu_commanding (ap_next_seq (ac_pds acu ! i)) code now a1 (ac_pds acu ! i))"
proof -
  note sl = acu_line_slot [OF ok(1)]
  have lo: "acu_line_ok acu i addr (bus_ms w)"
    using ok(1,2) by (simp add: acu_line_ok_def)
  then have "acu_line_ok (upd_slot acu i (\<lambda>s. give_up (acu_commanding (ap_next_seq (ac_pds acu ! i)) code now a1 s))) i addr (bus_ms w)"
    by (rule acu_line_upd) (use sl acu_line_slot(5) [OF lo] in \<open>simp_all add: give_up_def acu_commanding_def mark_pending_def\<close>)
  then have lg: "acu_line_ok (upd_slot acu1 i give_up) i addr (bus_ms w)"
    using sl(1) by (simp add: acu1_def)
  obtain acu' where g: "osdp_acu_tick acu1 w = (acu', timeout_reported acu1 i w)" "acu_line_ok acu' i addr (bus_ms w)"
      "ac_pds acu' ! i = give_up (ac_pds acu1 ! i)" "ac_sc_crypto acu' = ac_sc_crypto acu1" "acu_conf acu' = acu_conf acu1"
      "ac_integrity acu' = ac_integrity acu1"
    by (rule acu_timeout_tick [OF lg ok(3) _ _ _ q])
      (use ok(4) sl(1) c(2) in \<open>simp_all add: acu1_def acu_commanding_def mark_pending_def\<close>)
  have s2: "ac_pds acu' ! i = give_up (acu_commanding (ap_next_seq (ac_pds acu ! i)) code now a1 (ac_pds acu ! i))"
    using g(3) sl(1) by (simp add: acu1_def)
  have "sc_command acu' (ac_pds acu' ! i) addr code p = sc_command acu (ac_pds acu ! i) addr code p"
    using g(6) by (simp add: s2 acu1_def sc_command_def command_frame_def give_up_def acu_commanding_def mark_pending_def)
  then have "command_bytes acu' i addr code p b a1"
    using c(1) g(4) wrap_again by (auto simp: command_bytes_def s2 acu1_def give_up_def acu_commanding_def mark_pending_def)
  with that [OF g(1,2)] g(4,5) s2 show ?thesis
    by (simp add: acu1_def)
qed

lemma retry_lengths:
  assumes "acu_line_ok acu i addr now" "crypto_ok (ac_sc_crypto acu)" "sc_in_step (ap_sc_session (ac_pds acu ! i)) s"
    "command_bytes acu i addr code p b a1" "sc_in_step s1 a1"
    "osdp_sc_wrap_frame (ac_sc_crypto acu) s1 (sc_reply addr sqn integrity r) tcap = Inr (b', s2)" "sqn \<le> 3"
    "command_fits (length p) pcap" "reply_fits tcap r"
  shows "length (tl b) \<le> sc_body_len (length p) + 14" "length b' \<le> tcap"
proof -
  note sl = acu_line_slot [OF assms(1)]
  have c: "osdp_sc_wrap_frame (ac_sc_crypto acu) (ap_sc_session (ac_pds acu ! i)) (sc_command acu (ac_pds acu ! i) addr code p)
       OSDP_ACU_BUF_LEN = Inr (b, a1)"
    using assms(4) by (simp add: command_bytes_def)
  show "length (tl b) \<le> sc_body_len (length p) + 14"
    using wrapped_length(1) [OF assms(2,3) sc_command_ok(1) [OF sl(4) assms(8)] c] integrity_size_le [of "ac_integrity acu"]
    by (simp add: sc_frame_len_def sc_command_def command_frame_def)
  show "length b' \<le> tcap"
    using wrapped_length(1) [OF assms(2,5) sc_reply_ok(1) [OF sl(4) assms(7,9)] assms(6)] sc_reply_ok(3) [OF sl(4) assms(7,9), of integrity]
    by simp
qed

text \<open>The repetition restores the link: the cached reply is the one the control unit's session expects.\<close>

lemma retry_answered:
  fixes acu :: "'a bus osdp_acu"
  assumes ok: "acu_line_ok acu i addr (bus_ms v)" "line v = ([], [], bus_ms v)" "acu_conf acu = (Some cb, None, None)"
      "crypto_ok (ac_sc_crypto acu)"
    and s: "ap_sc_phase (ac_pds acu ! i) = OSDP_ACU_SC_ESTABLISHED" "\<not> ap_waiting (ac_pds acu ! i)"
      "ap_next_seq (ac_pds acu ! i) = sqn" "sqn \<in> {1, 2, 3}" "command_bytes acu i addr code p b (ap_sc_session (ac_pds acu ! i))"
    and pd: "pd_line_ok pd addr (bus_ms v)" "pd_led_cb pd = None" "pd_buzzer_cb pd = None" "replays pd (tl b) b'"
      "sc_session (pd_sc pd) = s2" "crypto_ok (sc_crypto (pd_sc pd))" "same_cipher (sc_crypto (pd_sc pd)) (ac_sc_crypto acu)"
      "osdp_pd_internal_sc_configured pd" "pd_last_cmd_len pd = 0 \<or> pd_last_cmd_len pd > 4 \<and> pd_cmd_cache pd ! 4 AND 3 = sqn"
    and cmd: "application_command code"
    and r: "sc_in_step s1 (ap_sc_session (ac_pds acu ! i))" "reply_fits tcap r"
      "osdp_sc_wrap_frame (ac_sc_crypto acu) s1 (sc_reply addr sqn integrity r) tcap = Inr (b', s2)"
  obtains acu' pd' where "exchange acu pd v addr code p = (OSDP_OK, acu', pd', cb v (answer_event addr code r))"
    "link_secure acu' i pd' addr (cb v (answer_event addr code r))"
proof -
  note sl = acu_line_slot [OF ok(1)]
  obtain acu' pd' a2 where e: "exchange acu pd v addr code p = (OSDP_OK, acu', pd', cb v (answer_event addr code r))"
      "acu_line_ok acu' i addr (bus_ms v)" "sc_in_step a2 s2" "line (cb v (answer_event addr code r)) = line v"
      "ac_pds acu' ! i = acu_served (bus_ms v) a2
         (acu_commanding (ap_next_seq (ac_pds acu ! i)) code (bus_ms v) (ap_sc_session (ac_pds acu ! i)) (ac_pds acu ! i))"
      "ac_sc_crypto acu' = ac_sc_crypto acu" "acu_conf acu' = acu_conf acu"
      "pd_line_ok pd' addr (bus_ms v)" "pd_sc pd' = pd_sc pd" "pd_last_cmd_len pd' = pd_last_cmd_len pd" "pd_cmd_cache pd' = pd_cmd_cache pd"
    by (rule exchange_replayed [OF ok s(1,2) s(4) [folded s(3)] s(5) pd(1-4) cmd r(1,2) r(3) [folded s(3)]])
  have "osdp_pd_internal_sc_configured pd'"
    using pd(8) e(9) by (auto simp: osdp_pd_internal_sc_configured_def split: if_splits)
  then have "link_secure acu' i pd' addr (cb v (answer_event addr code r))"
    by (intro link_secure_served [OF _ _ _ e(5) _ _ s(4)])
      (use e lineD(3) [OF e(4)] pd(5-7,9) ok(2,4) s(1,3) in \<open>simp_all add: acu_commanding_def mark_pending_def line_def\<close>)
  with that [OF e(1)] show ?thesis .
qed

lemma reply_lost_step:
  fixes acu :: "'a bus osdp_acu"
  assumes sec: "link_secure acu i pd addr w"
    and conf: "acu_conf acu = (Some cb, None, None)" "pd_conf pd = (Some app, None, None, tcap, pcap)"
      "ac_timeout_cb acu = Some tcb" "\<And>e. quiet (\<lambda>w. tcb w e)"
    and cmd: "application_command code" "command_fits (length p) pcap"
    and ans: "app_answer app w code p = ((OSDP_PD_DISPATCH_SEND, r), w')" "line w' = line w" "reply_fits tcap r"
    and cache: "sc_body_len (length p) + 14 \<le> pd_cmd_cache_cap pd" "tcap \<le> pd_rpl_cache_cap pd"
    and dt: "OSDP_ACU_REPLY_TIMEOUT_MS < dt" "dt \<le> OSDP_PD_OFFLINE_TIMEOUT_MS" "acu_fresh acu (bus_ms w + dt)"
  defines "sqn \<equiv> ap_next_seq (ac_pds acu ! i)"
  defines "v \<equiv> tcb (w'\<lparr>bus_ms := bus_ms w + dt\<rparr>) (timeout_event addr code sqn)"
  obtains acu' pd' where "reply_lost_exchange acu pd w addr code p dt = (OSDP_OK, acu', pd', cb v (answer_event addr code r))"
    "link_secure acu' i pd' addr (cb v (answer_event addr code r))"
proof -
  have l: "acu_line_ok acu i addr (bus_ms w)" "sqn \<in> {1, 2, 3}" "crypto_ok (ac_sc_crypto acu)" "bus_down w = []" "bus_up w = []"
      "crypto_ok (sc_crypto (pd_sc pd))" "same_cipher (sc_crypto (pd_sc pd)) (ac_sc_crypto acu)"
      "ap_sc_phase (ac_pds acu ! i) = OSDP_ACU_SC_ESTABLISHED" "\<not> ap_waiting (ac_pds acu ! i)"
      "sc_in_step (ap_sc_session (ac_pds acu ! i)) (sc_session (pd_sc pd))"
    using sec unfolding link_secure_def Let_def sqn_def by blast+
  note sl = acu_line_slot [OF l(1)] and sq = advance_sqn_cases [OF l(2)]
  obtain b a1 s1 integrity pd1 b' s2 where d:
      "osdp_acu_send_command acu w addr code (Some p) (length p)
         = (OSDP_OK, upd_slot acu i (acu_commanding sqn code (bus_ms w) a1), w\<lparr>bus_down := b\<rparr>)" "sc_in_step s1 a1"
      "osdp_sc_wrap_frame (ac_sc_crypto acu) s1 (sc_reply addr sqn integrity r) tcap = Inr (b', s2)"
      "osdp_pd_tick pd (w\<lparr>bus_down := b\<rparr>) = (pd1, w'\<lparr>bus_up := b'\<rparr>)" "pd_line_ok pd1 addr (bus_ms w)"
      "sc_session (pd_sc pd1) = s2" "sc_crypto (pd_sc pd1) = sc_crypto (pd_sc pd)" "osdp_pd_internal_sc_configured pd1"
      "pd_conf pd1 = pd_conf pd" "pd_last_cmd_len pd1 = 0 \<or> pd_last_cmd_len pd1 > 4 \<and> pd_cmd_cache pd1 ! 4 AND 3 = sqn"
      "command_bytes acu i addr code p b a1" "pd_last_comm_ms pd1 = bus_ms w"
      "length (tl b) \<le> pd_cmd_cache_cap pd \<and> length b' \<le> pd_rpl_cache_cap pd \<longrightarrow> replays pd1 (tl b) b'"
    by (rule exchange_down [OF sec conf(2) cmd ans, folded sqn_def])
  let ?acu = "upd_slot acu i (acu_commanding sqn code (bus_ms w) a1)" and ?w = "w'\<lparr>bus_ms := bus_ms w + dt\<rparr>"
  have lw: "line ?w = ([], [], bus_ms ?w)" "bus_ms w' = bus_ms w" "bus_up w' = []" "bus_down w' = []"
    using ans(2) l(4,5) by (simp_all add: line_def)
  have v: "timeout_reported ?acu i ?w = v"
    using conf(3) sl(1,3) by (simp add: timeout_reported_def v_def acu_commanding_def mark_pending_def timeout_event_def upd_slot_def)
  have lv: "line v = ([], [], bus_ms w + dt)"
    using conf(4) lw(1) by (simp add: v_def quiet_def line_def)
  obtain acu2 where g: "osdp_acu_tick ?acu ?w = (acu2, v)" "acu_line_ok acu2 i addr (bus_ms w + dt)"
      "ac_sc_crypto acu2 = ac_sc_crypto acu" "acu_conf acu2 = acu_conf acu" "command_bytes acu2 i addr code p b a1"
      "ac_pds acu2 ! i = give_up (acu_commanding sqn code (bus_ms w) a1 (ac_pds acu ! i))"
    by (rule command_times_out [where w = ?w, OF l(1) _ lw(1) conf(1) d(11), folded sqn_def, unfolded v])
      (use lw(1) dt(1,3) lv in \<open>simp_all add: line_def\<close>)
  have cb2: "command_bytes acu2 i addr code p b (ap_sc_session (ac_pds acu2 ! i))"
    using g(5) by (simp add: g(6) give_up_def acu_commanding_def mark_pending_def)
  have "length (tl b) \<le> pd_cmd_cache_cap pd" "length b' \<le> pd_rpl_cache_cap pd"
    using retry_lengths [OF l(1,3,10) d(11,2,3) sq(5) cmd(2) ans(3)] cache by simp_all
  with d(13) have rp: "replays pd1 (tl b) b'" by blast
  have v': "bus_ms v = bus_ms w + dt" "line v = ([], [], bus_ms v)"
    using lv by (simp_all add: line_def)
  have pl: "pd_line_ok pd1 addr (bus_ms v)"
    using d(5,12) v'(1) dt(2) by (simp add: pd_line_ok_def)
  obtain acu' pd' where e: "exchange acu2 pd1 v addr code p = (OSDP_OK, acu', pd', cb v (answer_event addr code r))"
      "link_secure acu' i pd' addr (cb v (answer_event addr code r))"
    by (rule retry_answered [OF _ v'(2) _ _ _ _ _ l(2) cb2 pl _ _ rp d(6) _ _ d(8,10) cmd(1) _ ans(3)])
      (use g(2-4) conf d(2,3,7,9) l v'(1) in \<open>simp_all add: g(6) give_up_def acu_commanding_def mark_pending_def pd_conf_def\<close>)
  have "w'\<lparr>bus_up := [], bus_ms := bus_ms w + dt\<rparr> = ?w"
    using lw(3) by (cases w') simp
  then have "reply_lost_exchange acu pd w addr code p dt = (OSDP_OK, acu', pd', cb v (answer_event addr code r))"
    using lw(2) by (simp add: reply_lost_exchange_def d(1,4) g(1) e(1))
  then show ?thesis
    by (rule that) (rule e(2))
qed

section \<open>An exchange whose command is lost\<close>

definition command_lost_exchange ::
  "'a bus osdp_acu \<Rightarrow> 'a bus osdp_pd \<Rightarrow> 'a bus \<Rightarrow> byte \<Rightarrow> byte \<Rightarrow> bytes \<Rightarrow> u32
     \<Rightarrow> osdp_status \<times> 'a bus osdp_acu \<times> 'a bus osdp_pd \<times> 'a bus" where
  "command_lost_exchange acu pd w addr code p dt =
     (case osdp_acu_send_command acu w addr code (Some p) (length p) of (st, acu1, w1) \<Rightarrow>
        (case osdp_acu_tick acu1 (w1\<lparr>bus_down := [], bus_ms := bus_ms w1 + dt\<rparr>) of (acu2, w2) \<Rightarrow>
           exchange acu2 pd w2 addr code p))"

lemma command_sent:
  fixes acu :: "'a bus osdp_acu"
  assumes sec: "link_secure acu i pd addr w" and cmd: "application_command code" "command_fits (length p) pcap"
  defines "sqn \<equiv> ap_next_seq (ac_pds acu ! i)"
  obtains b a1 where "command_bytes acu i addr code p b a1" "sc_in_step a1 (sc_session (pd_sc pd))"
    "osdp_acu_send_command acu w addr code (Some p) (length p)
       = (OSDP_OK, upd_slot acu i (acu_commanding sqn code (bus_ms w) a1), w\<lparr>bus_down := b\<rparr>)"
proof -
  define s where "s = ac_pds acu ! i"
  have l: "acu_line_ok acu i addr (bus_ms w)" "bus_down w = []" "ap_sc_phase s = OSDP_ACU_SC_ESTABLISHED" "\<not> ap_waiting s"
      "sqn \<in> {1, 2, 3}" "crypto_ok (ac_sc_crypto acu)" "sc_in_step (ap_sc_session s) (sc_session (pd_sc pd))"
    using sec unfolding link_secure_def Let_def s_def sqn_def by blast+
  note sl = acu_line_slot [OF l(1)] and sq = advance_sqn_cases [OF l(5)]
  note co = sc_command_ok [OF sl(4) cmd(2), of acu s code]
  obtain t b a1 where m: "osdp_sc_wrap_frame (ac_sc_crypto acu) (ap_sc_session s) (sc_command acu s addr code p) OSDP_ACU_BUF_LEN = Inr (b, a1)"
      "osdp_frame_build t OSDP_ACU_BUF_LEN = Inr b" "frame_ptrs_ok t" "length b \<le> 1440" "fr_address t = addr" "\<not> fr_reply t"
      "fr_sequence (as_received t (tl b)) = sqn"
    by (rule wrap_transfer [OF l(6,7) co(1), of OSDP_ACU_BUF_LEN pcap])
      (use co(2) cmd(2) sq(3) in \<open>auto simp: command_fits_def sc_command_def command_frame_def zero_frame_def sqn_def s_def\<close>)
  have "ss_keys a1 = ss_keys (ap_sc_session s) \<and> ss_last_inbound_mac a1 = ss_last_inbound_mac (ap_sc_session s) \<and> ss_established a1"
    using m(1) by (auto simp: osdp_sc_wrap_frame_def Let_def split: if_splits sum.splits)
  then have "sc_in_step a1 (sc_session (pd_sc pd))"
    using l(7) unfolding sc_in_step_def by metis
  moreover have "command_bytes acu i addr code p b a1"
    using m by (auto simp: command_bytes_def s_def sqn_def as_received_def)
  moreover have "osdp_acu_send_command acu w addr code (Some p) (length p)
      = (OSDP_OK, upd_slot acu i (acu_commanding sqn code (bus_ms w) a1), w\<lparr>bus_down := b\<rparr>)"
    using acu_sends_command [OF l(1,2) _ _ cmd(1), of p b a1] l(3,4) m(1) sq(3) by (simp add: s_def sqn_def)
  ultimately show ?thesis using that by blast
qed

lemma command_lost_step:
  fixes acu :: "'a bus osdp_acu"
  assumes sec: "link_secure acu i pd addr w"
    and conf: "acu_conf acu = (Some cb, None, None)" "pd_conf pd = (Some app, None, None, tcap, pcap)"
      "ac_timeout_cb acu = Some tcb" "\<And>e. quiet (\<lambda>w. tcb w e)"
    and cmd: "application_command code" "command_fits (length p) pcap"
    and dt: "OSDP_ACU_REPLY_TIMEOUT_MS < dt" "acu_fresh acu (bus_ms w + dt)" "pd_line_ok pd addr (bus_ms w + dt)"
  defines "v \<equiv> tcb (w\<lparr>bus_ms := bus_ms w + dt\<rparr>) (timeout_event addr code (ap_next_seq (ac_pds acu ! i)))"
  assumes ans: "app_answer app v code p = ((OSDP_PD_DISPATCH_SEND, r), w')" "line w' = line v" "reply_fits tcap r"
  obtains acu' pd' where "command_lost_exchange acu pd w addr code p dt = (OSDP_OK, acu', pd', cb w' (answer_event addr code r))"
    "link_secure acu' i pd' addr (cb w' (answer_event addr code r))"
proof -
  let ?w = "w\<lparr>bus_ms := bus_ms w + dt\<rparr>" and ?sqn = "ap_next_seq (ac_pds acu ! i)"
  have l: "acu_line_ok acu i addr (bus_ms w)" "bus_down w = []" "bus_up w = []" "ap_sc_phase (ac_pds acu ! i) = OSDP_ACU_SC_ESTABLISHED"
    using sec unfolding link_secure_def Let_def by blast+
  note sl = acu_line_slot [OF l(1)]
  obtain b a1 where c: "command_bytes acu i addr code p b a1" "sc_in_step a1 (sc_session (pd_sc pd))"
      "osdp_acu_send_command acu w addr code (Some p) (length p)
         = (OSDP_OK, upd_slot acu i (acu_commanding ?sqn code (bus_ms w) a1), w\<lparr>bus_down := b\<rparr>)"
    by (rule command_sent [OF sec cmd])
  let ?acu = "upd_slot acu i (acu_commanding ?sqn code (bus_ms w) a1)"
  have v: "timeout_reported ?acu i ?w = v"
    using conf(3) sl(1,3) by (simp add: timeout_reported_def v_def acu_commanding_def mark_pending_def timeout_event_def upd_slot_def)
  have lv: "line v = ([], [], bus_ms w + dt)"
    using conf(4) l(2,3) by (simp add: v_def quiet_def line_def)
  obtain acu2 where g: "osdp_acu_tick ?acu ?w = (acu2, v)" "acu_line_ok acu2 i addr (bus_ms ?w)"
      "ac_sc_crypto acu2 = ac_sc_crypto acu" "acu_conf acu2 = acu_conf acu"
      "ac_pds acu2 ! i = give_up (acu_commanding ?sqn code (bus_ms w) a1 (ac_pds acu ! i))"
    by (rule command_times_out [where w = ?w, OF l(1) _ _ conf(1) c(1), unfolded v])
      (use l(2,3) dt(1,2) lv in \<open>simp_all add: line_def\<close>)
  have "link_secure acu2 i pd addr v"
    using sec g(2,3) lv c(2) dt(3) by (simp add: link_secure_def Let_def g(5) give_up_def acu_commanding_def mark_pending_def line_def)
  from exchange_step [OF this _ conf(2) cmd ans] obtain acu' pd' where
      "exchange acu2 pd v addr code p = (OSDP_OK, acu', pd', cb w' (answer_event addr code r))"
      "link_secure acu' i pd' addr (cb w' (answer_event addr code r))"
    using conf(1) g(4) by metis
  moreover have "w\<lparr>bus_down := [], bus_ms := bus_ms w + dt\<rparr> = ?w"
    using l(2) by (cases w) simp
  ultimately show ?thesis
    using that by (simp add: command_lost_exchange_def c(3) g(1))
qed

section \<open>Properties\<close>

text \<open>C3. A lost reply costs time and nothing else: when the reply to a command disappears on the line, the control unit
  reports the timeout to its application, and the repeated command is answered from the device's reply cache. The device's
  application has then been called exactly once with the command, the reply handler exactly once with its answer,
  the session is intact and the next command can go out - provided the caches hold the command and the reply and no offline
  timer runs out in the meantime.\<close>

theorem lost_reply_recovered:
  fixes acu :: "'a bus osdp_acu" and pd :: "'a bus osdp_pd"
  assumes "link_secure acu i pd addr w" and "acu_conf acu = (Some cb, None, None)"
    and "pd_conf pd = (Some app, None, None, tcap, pcap)" and "ac_timeout_cb acu = Some tcb" and "\<And>e. quiet (\<lambda>w. tcb w e)"
    and "application_command code" and "command_fits (length p) pcap"
    and "app_answer app w code p = ((OSDP_PD_DISPATCH_SEND, r), w')" and "line w' = line w" and "reply_fits tcap r"
    and "sc_body_len (length p) + 14 \<le> pd_cmd_cache_cap pd" and "tcap \<le> pd_rpl_cache_cap pd"
    and "OSDP_ACU_REPLY_TIMEOUT_MS < dt" and "dt \<le> OSDP_PD_OFFLINE_TIMEOUT_MS" and "acu_fresh acu (bus_ms w + dt)"
  shows "\<exists>acu' pd' w''. reply_lost_exchange acu pd w addr code p dt = (OSDP_OK, acu', pd', w'') \<and>
      w'' = cb (tcb (w'\<lparr>bus_ms := bus_ms w + dt\<rparr>) (timeout_event addr code (ap_next_seq (ac_pds acu ! i)))) (answer_event addr code r) \<and>
      link_secure acu' i pd' addr w''"
  by (rule reply_lost_step [OF assms]) blast

definition ex_timed_controller :: "osdp_acu_reply_event list bus osdp_acu" where
  "ex_timed_controller = ex_open_controller\<lparr>ac_timeout_cb := Some (\<lambda>w e. w)\<rparr>"

lemma ex_timed_link:
  "link_secure ex_timed_controller 0 ex_open_device 5 ex_bus" "acu_conf ex_timed_controller = (Some ex_record, None, None)"
  using ex_link_secure(1,2)
  by (simp_all add: ex_timed_controller_def link_secure_def acu_line_ok_def acu_quiet_def acu_fresh_def find_slot_by_address_def
      acu_conf_def Let_def)

theorem lost_reply_recovered_witness:
  "\<exists>acu' pd'. reply_lost_exchange ex_timed_controller ex_open_device ex_bus 5 OSDP_CMD_TEXT [1, 2, 3] 300
     = (OSDP_OK, acu', pd', ex_bus\<lparr>bus_ms := 342, bus_app := [reply_event 5 OSDP_CMD_TEXT OSDP_REPLY_MFGREP [1, 2, 3]]\<rparr>)"
proof -
  let ?r = "\<lparr>rp_code = OSDP_REPLY_MFGREP, rp_payload = Some [1, 2, 3], rp_payload_len = 3\<rparr>"
  have a: "app_answer ex_echo ex_bus OSDP_CMD_TEXT [1, 2, 3] = ((OSDP_PD_DISPATCH_SEND, ?r), ex_bus)"
    by (simp add: app_answer_def ex_echo_def apply_app_status_def)
  have "\<exists>acu' pd' w''. reply_lost_exchange ex_timed_controller ex_open_device ex_bus 5 OSDP_CMD_TEXT [1, 2, 3] 300 = (OSDP_OK, acu', pd', w'') \<and>
      w'' = ex_record ((\<lambda>w e. w) (ex_bus\<lparr>bus_ms := bus_ms ex_bus + 300\<rparr>)
         (timeout_event 5 OSDP_CMD_TEXT (ap_next_seq (ac_pds ex_timed_controller ! 0)))) (answer_event 5 OSDP_CMD_TEXT ?r) \<and>
      link_secure acu' 0 pd' 5 w''"
    by (rule lost_reply_recovered [OF ex_timed_link ex_link_secure(3) _ _ _ _ a])
      (simp_all add: ex_timed_controller_def ex_open_controller_def ex_open_device_def ex_device_def osdp_pd_init_def quiet_def application_command_def
        command_fits_def reply_fits_def sc_body_len_def padded_len_def ptr_holds_def acu_fresh_def zero_acu_pd_slot_def)
  then show ?thesis
    by (auto simp: ex_record_def ex_bus_def answer_event_def ptr_bytes_def)
qed

text \<open>C4. A lost command is made good by repeating it: the control unit reports the timeout, the repeated command is the first
  the device sees, its application is called with it once, at the later time, and the reply handler gets the answer.\<close>

theorem lost_command_recovered:
  fixes acu :: "'a bus osdp_acu" and pd :: "'a bus osdp_pd"
  assumes "link_secure acu i pd addr w" and "acu_conf acu = (Some cb, None, None)"
    and "pd_conf pd = (Some app, None, None, tcap, pcap)" and "ac_timeout_cb acu = Some tcb" and "\<And>e. quiet (\<lambda>w. tcb w e)"
    and "application_command code" and "command_fits (length p) pcap"
    and "OSDP_ACU_REPLY_TIMEOUT_MS < dt" and "acu_fresh acu (bus_ms w + dt)" and "pd_line_ok pd addr (bus_ms w + dt)"
    and "app_answer app (tcb (w\<lparr>bus_ms := bus_ms w + dt\<rparr>) (timeout_event addr code (ap_next_seq (ac_pds acu ! i)))) code p
           = ((OSDP_PD_DISPATCH_SEND, r), w')"
    and "line w' = line (tcb (w\<lparr>bus_ms := bus_ms w + dt\<rparr>) (timeout_event addr code (ap_next_seq (ac_pds acu ! i))))" and "reply_fits tcap r"
  shows "\<exists>acu' pd'. command_lost_exchange acu pd w addr code p dt = (OSDP_OK, acu', pd', cb w' (answer_event addr code r)) \<and>
      link_secure acu' i pd' addr (cb w' (answer_event addr code r))"
  by (rule command_lost_step [OF assms]) blast

theorem lost_command_recovered_witness:
  "\<exists>acu' pd'. command_lost_exchange ex_timed_controller ex_open_device ex_bus 5 OSDP_CMD_TEXT [1, 2, 3] 300
     = (OSDP_OK, acu', pd', ex_bus\<lparr>bus_ms := 342, bus_app := [reply_event 5 OSDP_CMD_TEXT OSDP_REPLY_MFGREP [1, 2, 3]]\<rparr>)"
proof -
  let ?r = "\<lparr>rp_code = OSDP_REPLY_MFGREP, rp_payload = Some [1, 2, 3], rp_payload_len = 3\<rparr>"
  let ?v = "(\<lambda>w e. w) (ex_bus\<lparr>bus_ms := bus_ms ex_bus + 300\<rparr>) (timeout_event 5 OSDP_CMD_TEXT (ap_next_seq (ac_pds ex_timed_controller ! 0)))"
  have a: "app_answer ex_echo ?v OSDP_CMD_TEXT [1, 2, 3] = ((OSDP_PD_DISPATCH_SEND, ?r), ?v)"
    by (simp add: app_answer_def ex_echo_def apply_app_status_def)
  have d: "pd_line_ok ex_open_device 5 (bus_ms ex_bus + 300)"
    using ex_link_secure(1) by (simp add: link_secure_def Let_def pd_line_ok_def ex_open_device_def ex_device_def osdp_pd_init_def)
  have "\<exists>acu' pd'. command_lost_exchange ex_timed_controller ex_open_device ex_bus 5 OSDP_CMD_TEXT [1, 2, 3] 300
      = (OSDP_OK, acu', pd', ex_record ?v (answer_event 5 OSDP_CMD_TEXT ?r)) \<and> link_secure acu' 0 pd' 5 (ex_record ?v (answer_event 5 OSDP_CMD_TEXT ?r))"
    by (rule lost_command_recovered [where tcb = "\<lambda>w e. w", OF ex_timed_link ex_link_secure(3) _ _ _ _ _ _ d])
      (simp_all add: a ex_timed_controller_def ex_open_controller_def quiet_def application_command_def
        command_fits_def reply_fits_def sc_body_len_def padded_len_def ptr_holds_def acu_fresh_def zero_acu_pd_slot_def)
  then show ?thesis
    by (auto simp: ex_record_def ex_bus_def answer_event_def ptr_bytes_def)
qed

end
