(* ===== verification/Mock_CLI.thy ===== *)
theory Mock_CLI
  imports Capture SC_Crypto
begin

text \<open>
  The command line of the mock device, \<^verbatim>\<open>tools/osdp-pd-mock/main.c\<close>: \<^verbatim>\<open>parse_hex_keyn\<close> and \<^verbatim>\<open>parse_args\<close>, with
  what they use of the C library. \<^verbatim>\<open>unsigned long\<close> has 64 bits. A message the program prints is not
  part of a result; leaving through \<^verbatim>\<open>exit(0)\<close> is a result of its own.
\<close>

section \<open>Numbers in text\<close>

text \<open>The value of a digit below the base.\<close>

definition digit_in :: "nat \<Rightarrow> char \<Rightarrow> bool" where
  "digit_in base c = (case hex_digit c of None \<Rightarrow> False | Some n \<Rightarrow> n < base)"

definition has_hex_prefix :: "string \<Rightarrow> bool" where
  "has_hex_prefix q \<longleftrightarrow>
     2 < length q \<and> q ! 0 = CHR ''0'' \<and> (q ! 1 = CHR ''x'' \<or> q ! 1 = CHR ''X'') \<and> digit_in 16 (q ! 2)"

text \<open>\<open>strtoul\<close> in base 10 or, for base 0, in the base the prefix says: no digits are 0, a value that does not fit is the
  largest one, and a minus sign negates modulo the width.\<close>

definition strtoul :: "string \<Rightarrow> nat \<Rightarrow> u64" where
  "strtoul s base =
     (let p = dropWhile is_space s;
          neg = (p \<noteq> [] \<and> hd p = CHR ''-'');
          q = (if p \<noteq> [] \<and> (hd p = CHR ''-'' \<or> hd p = CHR ''+'') then tl p else p);
          b = (if base \<noteq> 0 then base else if has_hex_prefix q then 16
               else if q \<noteq> [] \<and> hd q = CHR ''0'' then 8 else 10);
          ds = takeWhile (digit_in b) (if base = 0 \<and> has_hex_prefix q then drop 2 q else q);
          v = foldl (\<lambda>v d. b * v + the (hex_digit d)) 0 ds
      in if v \<ge> 2 ^ 64 then - 1 else if neg then - word_of_nat v else word_of_nat v)"

text \<open>The conversion \<^verbatim>\<open>%2x\<close> of \<open>sscanf\<close>: leading white space does not count, then at most two characters are matched, of
  which the first may be a sign; a lone prefix \<^verbatim>\<open>0x\<close> does not match.\<close>

definition scan_2x :: "string \<Rightarrow> u32 option" where
  "scan_2x s =
     (case dropWhile is_space s of
        [] \<Rightarrow> None
      | c # rest \<Rightarrow>
          if c = CHR ''-'' \<or> c = CHR ''+'' then
            (case rest of
               [] \<Rightarrow> None
             | d # _ \<Rightarrow>
                 (case hex_digit d of
                    None \<Rightarrow> None
                  | Some n \<Rightarrow> Some (if c = CHR ''-'' then - word_of_nat n else word_of_nat n)))
          else
            (case hex_digit c of
               None \<Rightarrow> None
             | Some n \<Rightarrow>
                 (case rest of
                    [] \<Rightarrow> Some (word_of_nat n)
                  | d # _ \<Rightarrow>
                      (case hex_digit d of
                         Some m \<Rightarrow> Some (word_of_nat (16 * n + m))
                       | None \<Rightarrow>
                           if c = CHR ''0'' \<and> (d = CHR ''x'' \<or> d = CHR ''X'') then None
                           else Some (word_of_nat n)))))"

section \<open>The command line\<close>

fun parse_hex_loop :: "string \<Rightarrow> nat list \<Rightarrow> bytes \<Rightarrow> bytes option" where
  "parse_hex_loop s [] out = Some out"
| "parse_hex_loop s (i # is) out =
     (case scan_2x (drop (i * 2) s) of
        None \<Rightarrow> None
      | Some b \<Rightarrow> parse_hex_loop s is (out[i := ucast b]))"

definition parse_hex_keyn :: "string \<Rightarrow> bytes \<Rightarrow> nat \<Rightarrow> bytes option" where
  "parse_hex_keyn s out n = (if length s \<noteq> n * 2 then None else parse_hex_loop s [0..<n] out)"

datatype sc_mode = SC_NONE | SC_SCBKD | SC_SCBK_CUSTOM

record cli =
  cl_port :: "string option"
  cl_baud :: u32
  cl_address :: byte
  cl_sc_mode :: sc_mode
  cl_sc_custom_key :: bytes
  cl_verbose :: nat
  cl_tamper :: bool
  cl_card_every_ms :: u32

datatype parse_result = Parsed cli | Exit_Help | Refused

abbreviation (input) DEFAULT_BAUD :: u32 where "DEFAULT_BAUD \<equiv> 9600"
abbreviation (input) DEFAULT_ADDRESS :: byte where "DEFAULT_ADDRESS \<equiv> 0"

definition cli_defaults :: "string option \<Rightarrow> cli" where
  "cli_defaults env_port =
     \<lparr>cl_port = env_port, cl_baud = DEFAULT_BAUD, cl_address = DEFAULT_ADDRESS, cl_sc_mode = SC_NONE,
      cl_sc_custom_key = replicate OSDP_SC_KEY_LEN 0, cl_verbose = 0, cl_tamper = False, cl_card_every_ms = 0\<rparr>"

text \<open>The option \<^verbatim>\<open>--sc=\<close>; \<open>None\<close> where the program refuses it.\<close>

definition parse_sc_mode :: "cli \<Rightarrow> string \<Rightarrow> cli option" where
  "parse_sc_mode out mode =
     (if mode = ''off'' then Some (out\<lparr>cl_sc_mode := SC_NONE\<rparr>)
      else if mode = ''scbkd'' then Some (out\<lparr>cl_sc_mode := SC_SCBKD\<rparr>)
      else if take 5 mode = ''scbk:'' then
        (case parse_hex_keyn (drop 5 mode) (cl_sc_custom_key out) OSDP_SC_KEY_LEN of
           None \<Rightarrow> None
         | Some key \<Rightarrow> Some (out\<lparr>cl_sc_custom_key := key, cl_sc_mode := SC_SCBK_CUSTOM\<rparr>))
      else None)"

text \<open>One round of the loop: what the argument \<open>a\<close> does, with the arguments that follow it.\<close>

datatype arg_result = Next cli "string list" | Stop parse_result

definition parse_arg :: "cli \<Rightarrow> string \<Rightarrow> string list \<Rightarrow> arg_result" where
  "parse_arg out a argv =
     (if a = ''-h'' \<or> a = ''--help'' then Stop Exit_Help
      else if a = ''-v'' then Next (out\<lparr>cl_verbose := 1\<rparr>) argv
      else if a = ''-vv'' then Next (out\<lparr>cl_verbose := 2\<rparr>) argv
      else if a = ''--tamper'' then Next (out\<lparr>cl_tamper := True\<rparr>) argv
      else if a = ''--card-every'' \<and> argv \<noteq> [] then
        Next (out\<lparr>cl_card_every_ms := ucast (strtoul (hd argv) 10)\<rparr>) (tl argv)
      else if a = ''--port'' \<and> argv \<noteq> [] then Next (out\<lparr>cl_port := Some (hd argv)\<rparr>) (tl argv)
      else if a = ''--baud'' \<and> argv \<noteq> [] then Next (out\<lparr>cl_baud := ucast (strtoul (hd argv) 10)\<rparr>) (tl argv)
      else if a = ''--address'' \<and> argv \<noteq> [] then
        let v = strtoul (hd argv) 0 in
        if v > 0x7E then Stop Refused else Next (out\<lparr>cl_address := ucast v\<rparr>) (tl argv)
      else if take 5 a = ''--sc='' then
        (case parse_sc_mode out (drop 5 a) of None \<Rightarrow> Stop Refused | Some out' \<Rightarrow> Next out' argv)
      else Stop Refused)"

lemma parse_arg_rest: "parse_arg out a argv = Next out' rest \<Longrightarrow> length rest \<le> length argv"
  by (auto simp: parse_arg_def Let_def split: if_splits option.splits)

function parse_loop :: "cli \<Rightarrow> string list \<Rightarrow> parse_result" where
  "parse_loop out [] = Parsed out"
| "parse_loop out (a # argv) =
     (case parse_arg out a argv of
        Stop r \<Rightarrow> r
      | Next out' rest \<Rightarrow> parse_loop out' rest)"
  by pat_completeness auto
termination
  by (relation "measure (\<lambda>(_, argv). length argv)") (auto simp: less_Suc_eq_le intro: parse_arg_rest)

definition parse_args :: "string option \<Rightarrow> string list \<Rightarrow> parse_result" where
  "parse_args env_port argv =
     (case parse_loop (cli_defaults env_port) argv of
        Parsed out \<Rightarrow> (if cl_port out = None \<or> cl_port out = Some [] then Refused else Parsed out)
      | r \<Rightarrow> r)"

section \<open>What the parser accepts\<close>

lemma hex_digit_plain:
  assumes "hex_digit c = Some n"
  shows "\<not> is_space c" "c \<noteq> CHR ''-''" "c \<noteq> CHR ''+''"
  using assms by (auto simp: is_space_def is_ws_def hex_digit_def)

lemma scan_2x_pair: "hex_digit a = Some n \<Longrightarrow> hex_digit b = Some m \<Longrightarrow> scan_2x (a # b # s) = Some (word_of_nat (16 * n + m))"
  by (simp add: scan_2x_def hex_digit_plain)

lemma byte_of_u32: "ucast (word_of_nat k :: u32) = (word_of_nat k :: byte)"
  by (rule bit_word_eqI) (simp add: bit_simps unsigned_of_nat)

text \<open>The byte two hexadecimal digits stand for.\<close>

definition hex_byte :: "string \<Rightarrow> nat \<Rightarrow> byte" where
  "hex_byte s i = word_of_nat (16 * the (hex_digit (s ! (2 * i))) + the (hex_digit (s ! (2 * i + 1))))"

lemma parse_hex_step:
  assumes "\<forall>c \<in> set s. hex_digit c \<noteq> None" "2 * i + 1 < length s"
  shows "parse_hex_loop s (i # is) out = parse_hex_loop s is (out[i := hex_byte s i])"
proof -
  have d: "drop (i * 2) s = s ! (2 * i) # s ! (2 * i + 1) # drop (2 * i + 2) s"
    using assms(2) by (simp add: Cons_nth_drop_Suc mult.commute)
  obtain n m where "hex_digit (s ! (2 * i)) = Some n" "hex_digit (s ! (2 * i + 1)) = Some m"
    using assms by (metis Suc_eq_plus1 Suc_lessD nth_mem option.exhaust)
  then show ?thesis
    by (simp add: d scan_2x_pair hex_byte_def byte_of_u32 del: of_nat_add of_nat_mult)
qed

lemma parse_hex_prefix:
  assumes "\<forall>c \<in> set s. hex_digit c \<noteq> None" "2 * k \<le> length s" "length out = k + m"
  shows "parse_hex_loop s ([0..<k] @ is) out = parse_hex_loop s is (map (hex_byte s) [0..<k] @ drop k out)"
  using assms(2,3)
proof (induction k arbitrary: "is" m)
  case (Suc k)
  have "parse_hex_loop s ([0..<Suc k] @ is) out = parse_hex_loop s (k # is) (map (hex_byte s) [0..<k] @ drop k out)"
    using Suc.IH [of "Suc m" "k # is"] Suc.prems by simp
  also have "\<dots> = parse_hex_loop s is ((map (hex_byte s) [0..<k] @ drop k out)[k := hex_byte s k])"
    using Suc.prems by (intro parse_hex_step [OF assms(1)]) simp
  also have "(map (hex_byte s) [0..<k] @ drop k out)[k := hex_byte s k] = map (hex_byte s) [0..<Suc k] @ drop (Suc k) out"
    using Suc.prems by (simp add: list_update_append Cons_nth_drop_Suc [symmetric])
  finally show ?case .
qed simp

lemma parse_hex_keyn_hex:
  assumes "\<forall>c \<in> set s. hex_digit c \<noteq> None" "length s = 2 * n" "length out = n"
  shows "parse_hex_keyn s out n = Some (map (hex_byte s) [0..<n])"
  using parse_hex_prefix [of s n out 0 "[]"] assms by (simp add: parse_hex_keyn_def)

lemma parse_hex_loop_length: "parse_hex_loop s is out = Some key \<Longrightarrow> length key = length out"
  by (induction "is" arbitrary: out) (auto split: option.splits)

text \<open>What the loop over the arguments keeps of the options.\<close>

definition cli_ok :: "cli \<Rightarrow> bool" where
  "cli_ok c \<longleftrightarrow> cl_address c \<le> 0x7E \<and> length (cl_sc_custom_key c) = OSDP_SC_KEY_LEN"

lemma parse_sc_mode_ok: "parse_sc_mode c m = Some c' \<Longrightarrow> cli_ok c \<Longrightarrow> cli_ok c'"
  by (auto simp: parse_sc_mode_def cli_ok_def parse_hex_keyn_def dest: parse_hex_loop_length split: if_splits option.splits)

lemma address_fits: "(ucast (v :: u64) :: byte) \<le> 0x7E" if "v \<le> 0x7E"
proof -
  have "unat v \<le> 0x7E"
    using that by (simp add: word_le_nat_alt)
  then show ?thesis
    by (simp add: word_le_nat_alt unsigned_ucast_eq take_bit_nat_eq_self)
qed

lemma cli_ok_updates [simp]:
  "cli_ok (c\<lparr>cl_verbose := n\<rparr>) = cli_ok c" "cli_ok (c\<lparr>cl_tamper := b\<rparr>) = cli_ok c" "cli_ok (c\<lparr>cl_card_every_ms := t\<rparr>) = cli_ok c"
  "cli_ok (c\<lparr>cl_port := q\<rparr>) = cli_ok c" "cli_ok (c\<lparr>cl_baud := r\<rparr>) = cli_ok c"
  by (simp_all add: cli_ok_def)

lemma parse_arg_ok: "parse_arg c a argv = Next c' rest \<Longrightarrow> cli_ok c \<Longrightarrow> cli_ok c'"
  using parse_sc_mode_ok [of c "drop 5 a" c'] address_fits [of "strtoul (hd argv) 0"]
  by (auto simp: parse_arg_def Let_def cli_ok_def split: if_splits option.splits)

lemma parse_arg_stop [simp]: "parse_arg c a argv \<noteq> Stop (Parsed c')"
  by (simp add: parse_arg_def Let_def split: option.splits)

lemma parse_loop_ok: "parse_loop c argv = Parsed c' \<Longrightarrow> cli_ok c \<Longrightarrow> cli_ok c'"
  by (induction c argv rule: parse_loop.induct) (auto split: arg_result.splits dest: parse_arg_ok)

section \<open>Properties\<close>

lemma parse_args_parts:
  assumes "parse_args env argv = Parsed c"
  shows parse_args_ok: "cli_ok c" and parse_args_port: "\<exists>port. cl_port c = Some port \<and> port \<noteq> []"
proof -
  have "parse_loop (cli_defaults env) argv = Parsed c" "cl_port c \<noteq> None" "cl_port c \<noteq> Some []"
    using assms by (auto simp: parse_args_def split: parse_result.splits if_splits)
  moreover have "cli_ok (cli_defaults env)"
    by (simp add: cli_ok_def cli_defaults_def)
  ultimately show "cli_ok c" "\<exists>port. cl_port c = Some port \<and> port \<noteq> []"
    using parse_loop_ok [of "cli_defaults env" argv c] by auto
qed

text \<open>Whatever its command line, the mock device starts only with a port to open, a working address other than the
  broadcast address, and a key of the length the Secure Channel asks for.\<close>

theorem command_line_checked:
  assumes "parse_args env argv = Parsed c"
  shows "cl_address c \<le> 0x7E \<and> length (cl_sc_custom_key c) = OSDP_SC_KEY_LEN \<and> (\<exists>port. cl_port c = Some port \<and> port \<noteq> [])"
  using parse_args_parts [OF assms] by (simp add: cli_ok_def)

text \<open>A key given as 32 hexadecimal digits is the key the mock device uses.\<close>

theorem custom_key_read:
  assumes "length s = 2 * OSDP_SC_KEY_LEN" "\<forall>c \<in> set s. hex_digit c \<noteq> None" "port \<noteq> []"
  shows "parse_args env [''--port'', port, ''--sc=scbk:'' @ s]
    = Parsed ((cli_defaults env)\<lparr>cl_port := Some port, cl_sc_mode := SC_SCBK_CUSTOM,
        cl_sc_custom_key := map (hex_byte s) [0..<OSDP_SC_KEY_LEN]\<rparr>)"
proof -
  have "parse_hex_keyn s (replicate 16 0) 16 = Some (map (hex_byte s) [0..<16])"
    using assms by (intro parse_hex_keyn_hex) simp_all
  then have "parse_sc_mode ((cli_defaults env)\<lparr>cl_port := Some port\<rparr>) (''scbk:'' @ s)
      = Some ((cli_defaults env)\<lparr>cl_port := Some port, cl_sc_mode := SC_SCBK_CUSTOM, cl_sc_custom_key := map (hex_byte s) [0..<16]\<rparr>)"
    by (simp add: parse_sc_mode_def cli_defaults_def)
  then show ?thesis
    using assms(3) by (simp add: parse_args_def parse_arg_def cli_defaults_def)
qed

text \<open>The check of the key's text is only on its length: a character that is no hexadecimal digit in the second place of
  a pair ends the conversion of that pair instead of being refused, so a text of 16 such pairs is taken for a key.\<close>

theorem custom_key_stray_digits:
  "parse_hex_keyn (concat (replicate 16 ''1g'')) out 16 = parse_hex_keyn (concat (replicate 16 ''01'')) out 16 \<and>
   parse_hex_keyn (concat (replicate 16 ''1g'')) out 16 \<noteq> None"
  by (simp add: parse_hex_keyn_def upt_rec scan_2x_def is_space_def is_ws_def hex_digit_def numeral_eq_Suc)

theorem command_line_checked_witness:
  "cl_address ((cli_defaults None)\<lparr>cl_port := Some ''tty'', cl_address := 5\<rparr>) \<le> 0x7E \<and>
   (\<exists>port. Some ''tty'' = Some port \<and> port \<noteq> [])"
proof -
  have "parse_args None [''--address'', ''5'', ''--port'', ''tty''] = Parsed ((cli_defaults None)\<lparr>cl_port := Some ''tty'', cl_address := 5\<rparr>)"
    by (simp add: parse_args_def parse_arg_def cli_defaults_def strtoul_def is_space_def is_ws_def has_hex_prefix_def digit_in_def
        hex_digit_def Let_def)
  from command_line_checked [OF this] show ?thesis
    by simp
qed

theorem custom_key_read_witness:
  "parse_args None [''--port'', ''tty'', ''--sc=scbk:'' @ replicate 32 (CHR ''5'')]
     = Parsed ((cli_defaults None)\<lparr>cl_port := Some ''tty'', cl_sc_mode := SC_SCBK_CUSTOM,
         cl_sc_custom_key := map (hex_byte (replicate 32 (CHR ''5''))) [0..<OSDP_SC_KEY_LEN]\<rparr>) \<and>
   hex_byte (replicate 32 (CHR ''5'')) 0 = 0x55"
  using custom_key_read [of "replicate 32 (CHR ''5'')" "''tty''" None] by (simp add: hex_digit_def hex_byte_def)

end
