(* ===== verification/PD_Environment.thy ===== *)
theory PD_Environment
  imports PD_Tick
begin

text \<open>
  What a device's application may rely on about its own state. The library calls the application only through the hooks
  that are bound in the context, and a tick never rebinds them; so a property of the environment that every hook keeps
  is kept by every tick. The property may speak of the device's address: a change of address goes through the hook that
  tells the application of it. The locale \<open>pd_environment\<close> states what is asked of the hooks and derives
  the rule for the tick; an application interprets it with its own hooks.
\<close>

section \<open>The hooks of a context\<close>

text \<open>The bound callbacks and the bound capability records; everything else as after initialisation.\<close>

definition hooks :: "'w osdp_pd \<Rightarrow> 'w osdp_pd" where
  "hooks pd = (osdp_pd_init 0)\<lparr>pd_transport := pd_transport pd, pd_cmd_cb := pd_cmd_cb pd, pd_led_cb := pd_led_cb pd,
     pd_buzzer_cb := pd_buzzer_cb pd, pd_comset_cb := pd_comset_cb pd, pd_comset_applied_cb := pd_comset_applied_cb pd,
     pd_file_cb := pd_file_cb pd, pd_status := pd_status pd, pd_acurxsize_cb := pd_acurxsize_cb pd,
     pd_abort_cb := pd_abort_cb pd, pd_keepactive_cb := pd_keepactive_cb pd, pd_mfg_cb := pd_mfg_cb pd,
     pd_pdcap_records := pd_pdcap_records pd,
     pd_sc := zero_pd_sc\<lparr>sc_crypto := \<lparr>aes128_ecb_encrypt = None, aes128_ecb_decrypt = None,
       rand_bytes = rand_bytes (sc_crypto (pd_sc pd))\<rparr>\<rparr>\<rparr>"

lemma hooks_parts:
  assumes "hooks pd = hooks h"
  shows hooks_records: "pd_pdcap_records pd = pd_pdcap_records h"
    and hooks_fields: "pd_transport pd = pd_transport h" "pd_cmd_cb pd = pd_cmd_cb h" "pd_led_cb pd = pd_led_cb h"
    "pd_buzzer_cb pd = pd_buzzer_cb h" "pd_comset_cb pd = pd_comset_cb h" "pd_comset_applied_cb pd = pd_comset_applied_cb h"
    "pd_file_cb pd = pd_file_cb h" "pd_status pd = pd_status h" "pd_acurxsize_cb pd = pd_acurxsize_cb h"
    "pd_abort_cb pd = pd_abort_cb h" "pd_keepactive_cb pd = pd_keepactive_cb h" "pd_mfg_cb pd = pd_mfg_cb h"
    "rand_bytes (sc_crypto (pd_sc pd)) = rand_bytes (sc_crypto (pd_sc h))"
  using arg_cong [OF assms, of pd_pdcap_records] arg_cong [OF assms, of pd_transport] arg_cong [OF assms, of pd_cmd_cb]
    arg_cong [OF assms, of pd_led_cb]
    arg_cong [OF assms, of pd_buzzer_cb] arg_cong [OF assms, of pd_comset_cb] arg_cong [OF assms, of pd_comset_applied_cb]
    arg_cong [OF assms, of pd_file_cb] arg_cong [OF assms, of pd_status] arg_cong [OF assms, of pd_acurxsize_cb]
    arg_cong [OF assms, of pd_abort_cb] arg_cong [OF assms, of pd_keepactive_cb] arg_cong [OF assms, of pd_mfg_cb]
    arg_cong [OF assms, of "\<lambda>pd. rand_bytes (sc_crypto (pd_sc pd))"]
  by (simp_all add: hooks_def)

lemma hooks_updates [simp]:
  "hooks (pd\<lparr>pd_rx := rx\<rparr>) = hooks pd" "hooks (pd\<lparr>pd_reply_cacheable := b\<rparr>) = hooks pd"
  "hooks (pd\<lparr>pd_have_last := b\<rparr>) = hooks pd" "hooks (pd\<lparr>pd_online := b\<rparr>) = hooks pd"
  "hooks (pd\<lparr>pd_last_comm_ms := t\<rparr>) = hooks pd" "hooks (pd\<lparr>pd_rx_partial_len := n\<rparr>) = hooks pd"
  "hooks (pd\<lparr>pd_rx_partial_ms := t\<rparr>) = hooks pd" "hooks (pd\<lparr>pd_comset_pending := b\<rparr>) = hooks pd"
  "hooks (pd\<lparr>pd_address := a\<rparr>) = hooks pd" "hooks (pd\<lparr>pd_leds := ls\<rparr>) = hooks pd" "hooks (pd\<lparr>pd_buzzers := bs\<rparr>) = hooks pd"
  "hooks (pd\<lparr>pd_event_len := n\<rparr>) = hooks pd"
  by (simp_all add: hooks_def)

lemma hooks_sc: "sc_crypto sc = sc_crypto (pd_sc pd) \<Longrightarrow> hooks (pd\<lparr>pd_sc := sc\<rparr>) = hooks pd"
  by (simp add: hooks_def)

lemma hooks_only_banks: "only_banks pd pd' \<Longrightarrow> hooks pd' = hooks pd"
  by (elim only_banksE) simp

lemma hooks_link:
  assumes "link_view pd' = link_view pd"
  shows "hooks pd' = hooks pd"
proof -
  have "hooks pd = hooks (link_view pd)" for pd :: "'w osdp_pd"
    by (simp add: hooks_def link_view_def)
  with assms show ?thesis by metis
qed

lemma hooks_chlng: "handle_chlng pd w cmd = (b, pd', w') \<Longrightarrow> hooks pd' = hooks pd"
  by (auto simp: handle_chlng_def Let_def hooks_sc split: if_splits option.splits sum.splits prod.splits)

lemma hooks_scrypt: "handle_scrypt pd cmd = (b, pd') \<Longrightarrow> hooks pd' = hooks pd"
  by (auto simp: handle_scrypt_def Let_def hooks_sc split: if_splits sum.splits)

lemma hooks_operational:
  assumes "handle_operational pd w cmd = (b, pd', w')"
  shows "hooks pd' = hooks pd"
proof -
  have d: "hooks pd2 = hooks pd"
    if "osdp_pd_internal_dispatch (set_sc (\<lambda>sc. sc\<lparr>sc_session := s\<rparr>) pd) w ch c p n = (out, r, pd2, w2)" for s ch c p n out r pd2 w2
    using hooks_link [OF dispatch_link [OF that]] by (simp add: hooks_sc)
  show ?thesis
    using assms
    by (auto simp: handle_operational_def Let_def osdp_pd_internal_build_busy_def hooks_sc
        split: if_splits sum.splits prod.splits osdp_pd_dispatch_outcome.splits dest!: d)
qed

lemma hooks_handle_sc: "osdp_pd_internal_handle_sc_into_tx pd w cmd = (b, pd', w') \<Longrightarrow> hooks pd' = hooks pd"
  by (auto simp: osdp_pd_internal_handle_sc_into_tx_def split: if_splits prod.splits
      dest: hooks_chlng hooks_scrypt hooks_operational)

lemma hooks_drop_session [simp]: "hooks (drop_session pd) = hooks pd"
  by (simp add: drop_session_def hooks_sc)

lemma hooks_command:
  assumes "handle_command_into_tx pd w cmd = (b, pd', w')"
  shows "hooks pd' = hooks pd"
proof -
  have d: "hooks pd2 = hooks pd"
    if "osdp_pd_internal_dispatch (drop_session pd) w ch c p n = (out, r, pd2, w2)" for ch c p n out r pd2 w2
    using hooks_link [OF dispatch_link [OF that]] by simp
  show ?thesis
    using assms
    by (auto simp: handle_command_into_tx_def Let_def osdp_pd_internal_build_busy_def
        split: if_splits prod.splits osdp_pd_dispatch_outcome.splits dest!: d dest: hooks_handle_sc)
qed

lemma hooks_send: "send_bytes pd w buf = (pd', w') \<Longrightarrow> hooks pd' = hooks pd \<and> pd_address pd' = pd_address pd"
  by (auto simp: send_bytes_def split: option.splits prod.splits if_splits)

lemma hooks_cache [simp]: "hooks (cache_reply pd cmd tx) = hooks pd" "pd_address (cache_reply pd cmd tx) = pd_address pd"
  by (simp_all add: cache_reply_def Let_def hooks_def)

section \<open>What the hooks keep, a tick keeps\<close>

locale pd_environment =
  fixes h :: "'w osdp_pd" and K :: "byte \<Rightarrow> 'w \<Rightarrow> bool"
  assumes read_keeps: "tr_read (pd_transport h) = Some read \<Longrightarrow> K a w \<Longrightarrow> K a (snd (snd (read w n)))"
    and write_keeps: "tr_write (pd_transport h) = Some write \<Longrightarrow> K a w \<Longrightarrow> K a (snd (write w bs))"
    and clock_keeps: "tr_now_ms (pd_transport h) = Some now_ms \<Longrightarrow> K a w \<Longrightarrow> K a (snd (now_ms w))"
    and command_keeps: "pd_cmd_cb h = Some cmd_cb \<Longrightarrow> K a w \<Longrightarrow> K a (snd (snd (cmd_cb w c p n r)))"
    and led_keeps: "pd_led_cb h = Some led_cb \<Longrightarrow> K a w \<Longrightarrow> K a (led_cb w rd l c)"
    and buzzer_keeps: "pd_buzzer_cb h = Some buzzer_cb \<Longrightarrow> K a w \<Longrightarrow> K a (buzzer_cb w rd b t)"
    and decide_keeps: "pd_comset_cb h = Some decide \<Longrightarrow> K a w \<Longrightarrow> K a (snd (snd (decide w ra rb ea eb)))"
    and applied_keeps: "pd_comset_applied_cb h = Some applied \<Longrightarrow> K a w \<Longrightarrow> K a' (applied w a' baud)"
    and address_untold: "pd_comset_applied_cb h = None \<Longrightarrow> K a w \<Longrightarrow> K a' w"
    and file_keeps: "pd_file_cb h = Some file_cb \<Longrightarrow> K a w \<Longrightarrow> K a (snd (file_cb w info))"
    and local_keeps: "sp_local (pd_status h) = Some local_status \<Longrightarrow> K a w \<Longrightarrow> K a (snd (snd (local_status w t pw)))"
    and inputs_keeps: "sp_inputs (pd_status h) = Some statuses \<Longrightarrow> K a w \<Longrightarrow> K a (snd (snd (statuses w n)))"
    and outputs_keeps: "sp_outputs (pd_status h) = Some statuses \<Longrightarrow> K a w \<Longrightarrow> K a (snd (snd (statuses w n)))"
    and readers_keeps: "sp_readers (pd_status h) = Some statuses \<Longrightarrow> K a w \<Longrightarrow> K a (snd (snd (statuses w n)))"
    and acurxsize_keeps: "pd_acurxsize_cb h = Some acurxsize \<Longrightarrow> K a w \<Longrightarrow> K a (acurxsize w sz)"
    and abort_keeps: "pd_abort_cb h = Some abort \<Longrightarrow> K a w \<Longrightarrow> K a (snd (abort w))"
    and keepactive_keeps: "pd_keepactive_cb h = Some keepactive \<Longrightarrow> K a w \<Longrightarrow> K a (snd (keepactive w ms))"
    and mfg_keeps: "pd_mfg_cb h = Some mfg_cb \<Longrightarrow> K a w \<Longrightarrow> K a (snd (snd (mfg_cb w v m r)))"
    and rand_keeps: "rand_bytes (sc_crypto (pd_sc h)) = Some rnd \<Longrightarrow> K a w \<Longrightarrow> K a (snd (snd (rnd w n)))"
begin

lemma now_kept: "K a (snd (pd_now_ms pd w))" if "hooks pd = hooks h" "K a w"
  using that(2) hooks_fields(1) [OF that(1)] by (auto simp: pd_now_ms_def clock_keeps split: option.splits)

lemma led_slots_kept: "pd_led_cb h = Some cb \<Longrightarrow> K a w \<Longrightarrow> K a (snd (led_refresh_slots cb now ss w))"
  by (induction ss arbitrary: w) (auto simp: Let_def case_prod_beta led_keeps)

lemma buz_slots_kept: "pd_buzzer_cb h = Some cb \<Longrightarrow> K a w \<Longrightarrow> K a (snd (buz_refresh_slots cb now ss w))"
  by (induction ss arbitrary: w) (auto simp: Let_def case_prod_beta buzzer_keeps)

lemma refresh_kept:
  assumes "hooks pd = hooks h" "K a w"
  shows "K a (snd (pd_led_refresh pd now w))" "K a (snd (pd_buz_refresh pd now w))"
  using assms hooks_fields(3,4) [OF assms(1)]
  by (auto simp: pd_led_refresh_def pd_buz_refresh_def case_prod_beta led_slots_kept buz_slots_kept split: option.splits)

lemma observe_kept:
  assumes "hooks pd = hooks h" "K a w" "osdp_pd_internal_observe_command pd w c p n = (s, pd', w')"
  shows "K a w'"
proof -
  have now: "K a w1" if "pd_now_ms pd w = (t, w1)" for t w1
    using now_kept [OF assms(1,2)] that by simp
  have led: "K a w2" if "pd_led_refresh pd1 t w1 = (pd2, w2)" "led_apply_loop pd q t is = (st, pd1)" "K a w1" for pd1 t w1 pd2 w2 q "is" st
    using refresh_kept(1) [of pd1 a w1 t] that hooks_only_banks [OF led_apply_loop_only [OF that(2)]] assms(1) by simp
  have buz: "K a w2" if "pd_buz_refresh (pd1\<lparr>pd_buzzers := bs\<rparr>) t w1 = (pd2, w2)" "pd_buz_slot pd rd = (i, pd1)" "K a w1"
    for pd1 t w1 pd2 w2 bs rd i
    using refresh_kept(2) [of "pd1\<lparr>pd_buzzers := bs\<rparr>" a w1 t] that hooks_only_banks [OF pd_buz_slot_only [OF that(2)]] assms(1)
    by simp
  show ?thesis
    using assms(3,2) unfolding osdp_pd_internal_observe_command_def Let_def
    by (auto split: if_splits prod.splits sum.splits option.splits dest: now led buz)
qed

lemma dispatch_app_kept:
  assumes "hooks pd = hooks h" "K a w" "dispatch_app pd w ch c p n = (out, r, pd', w')"
  shows "K a w'"
proof -
  obtain app0 reply0 w1 where 1: "(case pd_cmd_cb pd of None \<Rightarrow> (OSDP_ERR_NOT_SUPPORTED, ack_reply, w)
      | Some cb \<Rightarrow> cb w c p n ack_reply) = (app0, reply0, w1)"
    by (metis prod_cases3)
  have "K a (snd (snd (cb w c p n ack_reply)))" if "pd_cmd_cb pd = Some cb" for cb
    using command_keeps [of cb a w c p n ack_reply] assms(2) that hooks_fields(2) [OF assms(1)] by simp
  then have "K a w1"
    using 1 assms(2) by (auto split: option.splits)
  moreover obtain obs pd1 w2 where 2: "osdp_pd_internal_observe_command pd w1 c p n = (obs, pd1, w2)"
    by (metis prod_cases3)
  moreover have "w' = w2"
    using assms(3) 1 2 by (auto simp: dispatch_app_def Let_def split: prod.splits if_splits)
  ultimately show ?thesis
    using observe_kept [OF assms(1), of a w1] by blast
qed

lemma comset_kept:
  assumes "hooks pd = hooks h" "K a w" "handle_comset pd w p n = (r, pd', w')"
  shows "K a w'"
proof -
  have "K a (snd (snd (decide w ra rb ea eb)))" if "pd_comset_cb pd = Some decide" for decide ra rb ea eb
    using decide_keeps assms(2) that hooks_fields(5) [OF assms(1)] by simp
  then have "K a w1" if "osdp_pd_internal_comset_effective pd w p n = (e, w1)" for e w1
    using that assms(2)
    by (auto simp: osdp_pd_internal_comset_effective_def Let_def case_prod_beta split: sum.splits option.splits)
  then show ?thesis
    using assms(3) by (auto simp: handle_comset_def split: prod.splits sum.splits)
qed

lemma filetransfer_kept:
  assumes "hooks pd = hooks h" "K a w" "handle_filetransfer pd w p n = (r, pd', w')"
  shows "K a w'"
proof -
  have "K a (snd (file_cb w info))" if "pd_file_cb pd = Some file_cb" for file_cb info
    using file_keeps assms(2) that hooks_fields(7) [OF assms(1)] by simp
  then have "K a w1" if "osdp_pd_internal_filetransfer pd w p n = (e, pd1, w1)" for e pd1 w1
    using that assms(2)
    by (auto simp: osdp_pd_internal_filetransfer_def Let_def case_prod_beta split: sum.splits option.splits if_splits)
  then show ?thesis
    using assms(3) by (auto simp: handle_filetransfer_def split: prod.splits sum.splits)
qed

lemma simple_hooks_kept:
  assumes "hooks pd = hooks h" "K a w"
  shows "handle_abort pd w = (r, pd', w') \<Longrightarrow> K a w'" "handle_acurxsize pd w p n = (r, pd', w') \<Longrightarrow> K a w'"
    "handle_keepactive pd w p n = (r, w') \<Longrightarrow> K a w'"
  using assms(2) abort_keeps acurxsize_keeps keepactive_keeps hooks_fields(9-11) [OF assms(1)]
  by (auto simp: handle_abort_def handle_acurxsize_def handle_keepactive_def Let_def
      split: option.splits prod.splits sum.splits) (metis snd_conv)+

lemma list_status_kept:
  assumes "\<And>f n. provider = Some f \<Longrightarrow> K a (snd (snd (f w n)))" "list_status provider code build w = Some (r, w')"
  shows "K a w'"
  using assms(2) assms(1) [of _ 64] by (fastforce simp: list_status_def Let_def split: option.splits prod.splits sum.splits)

lemma status_kept:
  assumes "hooks pd = hooks h" "K a w" "handle_status_request pd w c = Some (r, w')"
  shows "K a w'"
proof -
  note st = hooks_fields(8) [OF assms(1)]
  have l: "K a (snd (snd (f w t q)))" if "sp_local (pd_status pd) = Some f" for f t q
    using local_keeps that assms(2) st by simp
  have "K a w'" if "list_status (sp_inputs (pd_status pd)) code build w = Some (r, w')" for code build
    using that by (rule list_status_kept [rotated]) (use inputs_keeps assms(2) st in simp)
  moreover have "K a w'" if "list_status (sp_outputs (pd_status pd)) code build w = Some (r, w')" for code build
    using that by (rule list_status_kept [rotated]) (use outputs_keeps assms(2) st in simp)
  moreover have "K a w'" if "list_status (sp_readers (pd_status pd)) code build w = Some (r, w')" for code build
    using that by (rule list_status_kept [rotated]) (use readers_keeps assms(2) st in simp)
  moreover have "K a w1" if "sp_local (pd_status pd) = Some f" "f w 0 0 = (t, q, w1)" for f t q w1
    using l [OF that(1), of 0 0] that(2) by simp
  ultimately show ?thesis
    using assms(3) unfolding handle_status_request_def
    by (auto split: if_splits option.splits prod.splits sum.splits)
qed

lemma mfg_kept:
  assumes "hooks pd = hooks h" "K a w" "handle_mfg_multipart pd w p n = Some (out, r, pd', w')"
  shows "K a w'"
proof -
  have "K a w1" if "pd_mfg_cb pd = Some mfg_cb" "mfg_cb w v m r = (st, r', w1)" for mfg_cb v m r st r' w1
    using mfg_keeps [of mfg_cb a w v m r] assms(2) that hooks_fields(12) [OF assms(1)] by simp
  then show ?thesis
    using assms(2,3) unfolding handle_mfg_multipart_def Let_def
    by (auto split: option.splits sum.splits prod.splits if_splits)
qed

lemma dispatch_kept:
  assumes "hooks pd = hooks h" "K a w" "osdp_pd_internal_dispatch pd w ch c p n = (out, r, pd', w')"
  shows "K a w'"
proof -
  have app: "K a w'" if "dispatch_app pd1 w ch c p n = (out, r, pd', w')" "osdp_pd_internal_dequeue_event pd = (q, pd1) \<or> pd1 = pd" for pd1 q
    using that dispatch_app_kept [of pd1 a w] assms(1,2) hooks_link [OF dequeue_link] by metis
  show ?thesis
    using assms(2,3) unfolding osdp_pd_internal_dispatch_def
    by (auto split: if_splits option.splits prod.splits
        intro: comset_kept [OF assms(1,2)] filetransfer_kept [OF assms(1,2)] simple_hooks_kept [OF assms(1,2)]
          status_kept [OF assms(1,2)] mfg_kept [OF assms(1,2)] app)
qed

lemma chlng_kept:
  assumes "hooks pd = hooks h" "K a w" "handle_chlng pd w cmd = (b, pd', w')"
  shows "K a w'"
proof -
  have "K a w1" if "rand_bytes (sc_crypto (pd_sc pd)) = Some rnd" "rnd w n = (st, bs, w1)" for rnd n st bs w1
    using rand_keeps [of rnd a w n] assms(2) that hooks_fields(13) [OF assms(1)] by simp
  then show ?thesis
    using assms(2,3) by (auto simp: handle_chlng_def Let_def split: if_splits option.splits sum.splits prod.splits)
qed

lemma operational_kept:
  assumes "hooks pd = hooks h" "K a w" "handle_operational pd w cmd = (b, pd', w')"
  shows "K a w'"
proof -
  have "K a w2"
    if "osdp_pd_internal_dispatch (set_sc (\<lambda>sc. sc\<lparr>sc_session := s\<rparr>) pd) w ch c p n = (out, r, pd2, w2)" for s ch c p n out r pd2 w2
    using dispatch_kept [OF _ assms(2) that] assms(1) by (simp add: hooks_sc)
  then show ?thesis
    using assms(2,3)
    by (auto simp: handle_operational_def Let_def split: if_splits sum.splits prod.splits osdp_pd_dispatch_outcome.splits)
qed

lemma command_kept:
  assumes "hooks pd = hooks h" "K a w" "handle_command_into_tx pd w cmd = (b, pd', w')"
  shows "K a w'"
proof -
  have "K a w2"
    if "osdp_pd_internal_dispatch (drop_session pd) w ch c p n = (out, r, pd2, w2)" for ch c p n out r pd2 w2
    using dispatch_kept [OF _ assms(2) that] assms(1) by simp
  then show ?thesis
    using assms(2,3)
    by (auto simp: handle_command_into_tx_def osdp_pd_internal_handle_sc_into_tx_def Let_def
        split: if_splits prod.splits osdp_pd_dispatch_outcome.splits
        intro: chlng_kept [OF assms(1,2)] operational_kept [OF assms(1,2)])
qed

lemma send_loop_kept: "tr_write (pd_transport h) = Some write \<Longrightarrow> K a w \<Longrightarrow> K a (snd (send_loop write buf sent w))"
proof (induction "write" buf sent w rule: send_loop.induct)
  case (1 "write" buf sent w)
  obtain n w1 where "write w (drop sent buf) = (n, w1)" by fastforce
  with write_keeps [OF 1(2,3), of "drop sent buf"] 1 show ?case
    by (subst send_loop.simps) auto
qed

lemma send_bytes_kept: "K a (snd (send_bytes pd w buf))" if "hooks pd = hooks h" "K a w"
proof -
  note t = hooks_fields(1) [OF that(1)]
  have "K a (snd (now_ms w1))" if "tr_now_ms (pd_transport h) = Some now_ms" "K a w1" for now_ms w1
    using clock_keeps that by simp
  moreover have "K a (snd (send_loop write buf 0 w))" if "tr_write (pd_transport h) = Some write" for "write"
    using send_loop_kept that \<open>K a w\<close> by simp
  ultimately show ?thesis
    using that(2) by (auto simp: send_bytes_def t case_prod_beta split: option.splits)
qed

lemma process_frame_kept:
  assumes "hooks pd = hooks h" "K (pd_address pd) w" "process_frame pd w cmd = (pd', w')"
  shows "hooks pd' = hooks h \<and> K (pd_address pd') w'"
proof -
  obtain built pd1 w1 where 1: "handle_command_into_tx (pd\<lparr>pd_reply_cacheable := True\<rparr>) w cmd = (built, pd1, w1)"
    by (metis prod_cases3)
  define pd2 where "pd2 = (if pd_reply_cacheable pd1 then cache_reply pd1 cmd built else pd1\<lparr>pd_have_last := False\<rparr>)"
  obtain pd3 w2 where 3: "(if length built > 0 then send_bytes pd2 w1 built else (pd2, w1)) = (pd3, w2)"
    by fastforce
  have "hooks pd1 = hooks h" "K (pd_address pd) w1" "pd_address pd1 = pd_address pd"
    using hooks_command [OF 1] command_kept [OF _ _ 1, of "pd_address pd"] assms io_view_fields(3) [OF handle_command_io [OF 1]] by simp_all
  then have 2: "hooks pd2 = hooks h" "pd_address pd2 = pd_address pd"
    by (simp_all add: pd2_def)
  then have k3: "hooks pd3 = hooks h" "pd_address pd3 = pd_address pd" "K (pd_address pd) w2"
    using 3 \<open>K (pd_address pd) w1\<close> send_bytes_kept [of pd2 "pd_address pd" w1 built]
    by (auto split: if_splits dest: hooks_send)
  then have k4: "K a' w2" if "pd_comset_applied_cb h = None" for a'
    using address_untold that by blast
  show ?thesis
  proof (cases "is_retransmit pd cmd")
    case True
    then show ?thesis
      using assms send_bytes_kept [OF assms(1,2), of "take (pd_last_reply_len pd) (pd_rpl_cache pd)"]
      by (auto simp: process_frame_def split: if_splits dest: hooks_send)
  next
    case False
    then have "(pd', w') = (if pd_comset_pending pd3 then osdp_pd_internal_apply_comset pd3 w2 else (pd3, w2))"
      using assms(3) unfolding process_frame_def 1 by (simp only: Let_def prod.case if_False 3 flip: pd2_def)
    then show ?thesis
      using k3 k4 applied_keeps [OF _ k3(3)] hooks_fields(6) [OF k3(1)]
      by (auto simp: osdp_pd_internal_apply_comset_def Let_def split: if_splits option.splits)
  qed
qed

lemma tick_frame_kept:
  assumes "hooks pd = hooks h" "K (pd_address pd) w" "tick_frame pd w r cmd = (pd', w')"
  shows "hooks pd' = hooks h \<and> K (pd_address pd') w'"
proof -
  have "hooks pd1 = hooks h \<and> K (pd_address pd1) w1" if "send_bytes pd w tx = (pd1, w1)" for tx pd1 w1
    using send_bytes_kept [OF assms(1,2), of tx] hooks_send [OF that] that assms(1) by simp
  then show ?thesis
    using assms process_frame_kept [OF assms(1,2)]
    by (auto simp: tick_frame_def split: if_splits sum.splits)
qed

lemma frame_loop_kept:
  "hooks pd = hooks h \<Longrightarrow> K (pd_address pd) w \<Longrightarrow> frame_loop pd w = (pd', w') \<Longrightarrow> hooks pd' = hooks h \<and> K (pd_address pd') w'"
proof (induction pd w rule: frame_loop.induct)
  case (1 pd w)
  obtain r cmd rx where n: "osdp_stream_next (pd_rx pd) zero_frame = (r, cmd, rx)"
    using prod_cases3 by blast
  obtain pd1 w1 where t: "tick_frame (pd\<lparr>pd_rx := rx\<rparr>) w r cmd = (pd1, w1)"
    by fastforce
  show ?case
  proof (cases "r = OSDP_ERR_TRUNCATED")
    case True
    then have "pd' = pd\<lparr>pd_rx := rx\<rparr>" "w' = w"
      using 1(4) by (simp_all add: frame_loop.simps [of pd w] n)
    then show ?thesis
      using 1(2,3) by simp
  next
    case False
    then have "frame_loop pd1 w1 = (pd', w')"
      using 1(4) by (simp add: frame_loop.simps [of pd w] n t)
    with 1(1) [OF n [symmetric] refl False t [symmetric]] tick_frame_kept [OF _ _ t] 1(2,3) show ?thesis
      by simp
  qed
qed

lemma read_loop_kept:
  "tr_read (pd_transport h) = Some read \<Longrightarrow> hooks pd = hooks h \<Longrightarrow> K (pd_address pd) w \<Longrightarrow> read_loop read pd w d = (pd', w')
     \<Longrightarrow> hooks pd' = hooks h \<and> K (pd_address pd') w'"
proof (induction read pd w d rule: read_loop.induct)
  case (1 read pd w d)
  obtain n chunk w1 where r: "read w 128 = (n, chunk, w1)"
    by (cases "read w 128")
  have "K (pd_address pd) w1"
    using read_keeps [OF 1(2,4), of 128] r by simp
  moreover have "(pd', w') = (if n \<le> 0 then (pd, w1)
      else let pd1 = pd\<lparr>pd_rx := snd (osdp_stream_feed (pd_rx pd) (Some chunk) (nat n))\<rparr>; d' = d + nat n
           in if d' \<ge> OSDP_STREAM_BUFFER_LEN then (pd1, w1) else read_loop read pd1 w1 d')"
    using 1(5) by (simp add: read_loop.simps [of read pd w d] r)
  ultimately show ?case
    using 1(1) [OF r [symmetric] refl _ refl refl] 1(2,3) by (auto simp: Let_def split: if_splits)
qed

lemma offline_kept:
  assumes "hooks pd = hooks h" "K (pd_address pd) w" "check_offline_timeout pd w = (pd', w')"
  shows "hooks pd' = hooks h \<and> K (pd_address pd') w'"
  using assms clock_keeps [of _ "pd_address pd" w] hooks_fields(1) [OF assms(1)]
  by (fastforce simp: check_offline_timeout_def osdp_pd_clear_events_def split: if_splits option.splits prod.splits)

lemma interchar_kept:
  assumes "hooks pd = hooks h" "K (pd_address pd) w" "check_interchar_timeout pd w = (pd', w')"
  shows "hooks pd' = hooks h \<and> K (pd_address pd') w'"
  using assms clock_keeps [of _ "pd_address pd" w] hooks_fields(1) [OF assms(1)]
  by (fastforce simp: check_interchar_timeout_def Let_def split: if_splits option.splits prod.splits)

lemma refresh_address:
  "pd_led_refresh pd now w = (pd', w') \<Longrightarrow> hooks pd' = hooks pd \<and> pd_address pd' = pd_address pd"
  "pd_buz_refresh pd now w = (pd', w') \<Longrightarrow> hooks pd' = hooks pd \<and> pd_address pd' = pd_address pd"
  by (auto dest!: pd_led_refresh_only pd_buz_refresh_only elim!: only_banksE)

theorem tick_kept:
  assumes "hooks pd = hooks h" "K (pd_address pd) w" "osdp_pd_tick pd w = (pd', w')"
  shows "hooks pd' = hooks h \<and> K (pd_address pd') w'"
proof (cases "tr_read (pd_transport pd)")
  case None
  then show ?thesis using assms by (simp add: osdp_pd_tick_def)
next
  case (Some read)
  obtain pd1 w1 where 1: "check_offline_timeout pd w = (pd1, w1)" by fastforce
  obtain pd2 w2 where 2: "read_loop read pd1 w1 0 = (pd2, w2)" by fastforce
  obtain pd3 w3 where 3: "frame_loop pd2 w2 = (pd3, w3)" by fastforce
  obtain pd4 w4 where 4: "check_interchar_timeout pd3 w3 = (pd4, w4)" by fastforce
  obtain now w5 where 5: "pd_now_ms pd4 w4 = (now, w5)" by fastforce
  obtain pd5 w6 where 6: "pd_led_refresh pd4 now w5 = (pd5, w6)" by fastforce
  have 7: "pd_buz_refresh pd5 now w6 = (pd', w')"
    using assms(3) Some by (simp add: osdp_pd_tick_def 1 2 3 4 5 6)
  have "tr_read (pd_transport h) = Some read"
    using Some hooks_fields(1) [OF assms(1)] by simp
  then have k4: "hooks pd4 = hooks h" "K (pd_address pd4) w4"
    using offline_kept [OF assms(1,2) 1] read_loop_kept [OF _ _ _ 2] frame_loop_kept [OF _ _ 3] interchar_kept [OF _ _ 4] by blast+
  then have "K (pd_address pd4) w6"
    using now_kept [of pd4 "pd_address pd4" w4] refresh_kept(1) [of pd4 "pd_address pd4" w5 now] 5 6 by simp
  then show ?thesis
    using refresh_kept(2) [of pd5 "pd_address pd4" w6 now] refresh_address(1) [OF 6] refresh_address(2) [OF 7] 7 k4 by simp
qed

end

end
