(* ===== verification/Mock_PD.thy ===== *)
theory Mock_PD
  imports Mock_CLI Tiny_AES PD_Invariant PD_Environment
begin

unbundle bit_operations_syntax

text \<open>
  The mock device \<^verbatim>\<open>tools/osdp-pd-mock/main.c\<close>, a device application on top of the library: its command handler and
  hooks, the configuration \<^verbatim>\<open>main\<close> makes from the command line, and the body of its loop. The random source
  of \<^verbatim>\<open>aes_adapter.c\<close> and the tiny-AES port give it its cryptography.

  The environment of the library's callbacks is the application's state together with the platform: the serial
  adapter behind \<^verbatim>\<open>serial.h\<close>, of which there is one per operating system, and the C library's generator are
  functions of the record \<open>platform\<close> on a state of their own. What the program prints is not modelled, so the verbosity
  and the tap on the read callback, which only print, change nothing.
\<close>

section \<open>State\<close>

abbreviation (input) OSDP_LSTATR_NORMAL :: byte where "OSDP_LSTATR_NORMAL \<equiv> 0x00"
abbreviation (input) OSDP_LSTATR_TAMPER :: byte where "OSDP_LSTATR_TAMPER \<equiv> 0x01"
abbreviation (input) OSDP_ISTATR_INACTIVE :: byte where "OSDP_ISTATR_INACTIVE \<equiv> 0x00"
abbreviation (input) OSDP_OSTATR_INACTIVE :: byte where "OSDP_OSTATR_INACTIVE \<equiv> 0x00"
abbreviation (input) OSDP_RSTATR_NORMAL :: byte where "OSDP_RSTATR_NORMAL \<equiv> 0x00"

record 'io platform =
  pf_read :: "'io \<Rightarrow> nat \<Rightarrow> int \<times> bytes \<times> 'io"
  pf_write :: "'io \<Rightarrow> bytes \<Rightarrow> int \<times> 'io"
  pf_now_ms :: "'io \<Rightarrow> u32 \<times> 'io"
  pf_baud_supported :: "u32 \<Rightarrow> bool"
  pf_set_baud :: "'io \<Rightarrow> u32 \<Rightarrow> bool \<times> 'io"
  pf_sleep_ms :: "'io \<Rightarrow> u32 \<Rightarrow> 'io"
  pf_time :: "'io \<Rightarrow> u32"
  pf_srand :: "'io \<Rightarrow> u32 \<Rightarrow> 'io"
  pf_rand :: "'io \<Rightarrow> u32 \<times> 'io"

text \<open>The array \<open>scratch\<close> holds a reply payload until the library has framed it, so it is the payload of the reply; the
  array \<open>events\<close> belongs to the library once it is handed over.\<close>

record app_state =
  as_pdid :: osdp_pdid
  as_pdcap :: "osdp_pdcap_record list"
  as_address :: byte
  as_baud :: u32
  as_verbose :: nat
  as_file_received :: u32
  as_tamper :: bool
  as_acu_rx_size :: u16

record 'io mock =
  mk_app :: app_state
  mk_seeded :: bool
  mk_io :: 'io

definition kDefaultPdid :: osdp_pdid where
  "kDefaultPdid = \<lparr>pi_vendor_code = [0x5A, 0x42, 0x43], pi_model = 0x01, pi_version = 0x00, pi_serial = 1,
     pi_firmware_major = 0, pi_firmware_minor = 1, pi_firmware_build = 0\<rparr>"

definition kDefaultPdcap :: "osdp_pdcap_record list" where
  "kDefaultPdcap =
     map (\<lambda>(f, c, n). \<lparr>pc_function_code = f, pc_compliance_level = c, pc_num_objects = n\<rparr>)
       [(1, 4, 1), (2, 4, 1), (3, 1, 0), (4, 4, 1), (5, 2, 1), (6, 1, 1), (12, 0, 0), (13, 0, 1), (16, 2, 0)]"

section \<open>Cryptography\<close>

definition seed_once_lazily :: "'io platform \<Rightarrow> 'io mock \<Rightarrow> 'io mock" where
  "seed_once_lazily pf w =
     (if \<not> mk_seeded w then w\<lparr>mk_io := pf_srand pf (mk_io w) (pf_time pf (mk_io w)), mk_seeded := True\<rparr> else w)"

fun rand_loop :: "'io platform \<Rightarrow> 'io \<Rightarrow> nat \<Rightarrow> bytes \<times> 'io" where
  "rand_loop pf io 0 = ([], io)"
| "rand_loop pf io (Suc n) =
     (let (r, io1) = pf_rand pf io; (bs, io2) = rand_loop pf io1 n in (ucast (r AND 0xFF) # bs, io2))"

definition adapter_rand :: "'io platform \<Rightarrow> 'io mock \<Rightarrow> nat \<Rightarrow> osdp_status \<times> bytes \<times> 'io mock" where
  "adapter_rand pf w len =
     (let w1 = seed_once_lazily pf w; (out, io) = rand_loop pf (mk_io w1) len
      in (OSDP_OK, out, w1\<lparr>mk_io := io\<rparr>))"

definition pd_mock_aes_seed_rand :: "'io platform \<Rightarrow> 'io mock \<Rightarrow> u32 \<Rightarrow> 'io mock" where
  "pd_mock_aes_seed_rand pf w seed =
     w\<lparr>mk_io := pf_srand pf (mk_io w) (if seed = 0 then pf_time pf (mk_io w) else seed), mk_seeded := True\<rparr>"

definition pd_mock_aes_crypto :: "'io platform \<Rightarrow> 'io mock osdp_sc_crypto" where
  "pd_mock_aes_crypto pf =
     (osdp_sc_tiny_aes128 \<lparr>aes128_ecb_encrypt = None, aes128_ecb_decrypt = None, rand_bytes = None\<rparr>)
       \<lparr>rand_bytes := Some (adapter_rand pf)\<rparr>"

section \<open>Status providers and hooks\<close>

fun cap_scan :: "osdp_pdcap_record list \<Rightarrow> byte \<Rightarrow> byte \<Rightarrow> byte" where
  "cap_scan [] fc dflt = dflt"
| "cap_scan (r # rs) fc dflt = (if pc_function_code r = fc then pc_num_objects r else cap_scan rs fc dflt)"

definition cap_num_objects :: "app_state \<Rightarrow> byte \<Rightarrow> byte \<Rightarrow> byte" where
  "cap_num_objects s fc dflt = cap_scan (as_pdcap s) fc dflt"

definition status_local :: "'io mock \<Rightarrow> byte \<Rightarrow> byte \<Rightarrow> byte \<times> byte \<times> 'io mock" where
  "status_local w tamper pwr =
     (if as_tamper (mk_app w) then OSDP_LSTATR_TAMPER else OSDP_LSTATR_NORMAL, OSDP_LSTATR_NORMAL, w)"

definition status_fill :: "app_state \<Rightarrow> byte \<Rightarrow> byte \<Rightarrow> nat \<Rightarrow> nat \<times> bytes" where
  "status_fill s fc value cap =
     (let n = unat (cap_num_objects s fc 1); n = (if n > cap then cap else n) in (n, replicate n value))"

definition status_inputs :: "'io mock \<Rightarrow> nat \<Rightarrow> nat \<times> bytes \<times> 'io mock" where
  "status_inputs w cap = (case status_fill (mk_app w) 1 OSDP_ISTATR_INACTIVE cap of (n, out) \<Rightarrow> (n, out, w))"

definition status_outputs :: "'io mock \<Rightarrow> nat \<Rightarrow> nat \<times> bytes \<times> 'io mock" where
  "status_outputs w cap = (case status_fill (mk_app w) 2 OSDP_OSTATR_INACTIVE cap of (n, out) \<Rightarrow> (n, out, w))"

definition status_readers :: "'io mock \<Rightarrow> nat \<Rightarrow> nat \<times> bytes \<times> 'io mock" where
  "status_readers w cap = (case status_fill (mk_app w) 13 OSDP_RSTATR_NORMAL cap of (n, out) \<Rightarrow> (n, out, w))"

definition on_abort :: "'io mock \<Rightarrow> osdp_status \<times> 'io mock" where
  "on_abort w = (OSDP_OK, w\<lparr>mk_app := (mk_app w)\<lparr>as_file_received := 0\<rparr>\<rparr>)"

definition on_acurxsize :: "'io mock \<Rightarrow> u16 \<Rightarrow> 'io mock" where
  "on_acurxsize w max_size = w\<lparr>mk_app := (mk_app w)\<lparr>as_acu_rx_size := max_size\<rparr>\<rparr>"

definition on_keepactive :: "'io mock \<Rightarrow> u16 \<Rightarrow> osdp_status \<times> 'io mock" where
  "on_keepactive w time_ms = (OSDP_OK, w)"

section \<open>The command handler\<close>

definition app_handler ::
  "'io mock \<Rightarrow> byte \<Rightarrow> bytes_ptr \<Rightarrow> nat \<Rightarrow> osdp_pd_reply \<Rightarrow> osdp_status \<times> osdp_pd_reply \<times> 'io mock" where
  "app_handler w cmd_code payload payload_len reply =
     (let ack = \<lparr>rp_code = OSDP_REPLY_ACK, rp_payload = None, rp_payload_len = 0\<rparr> in
      if cmd_code = OSDP_CMD_POLL then (OSDP_OK, ack, w)
      else if cmd_code = OSDP_CMD_ID then
        (case osdp_pdid_build (as_pdid (mk_app w)) OSDP_PD_BUF_LEN of
           Inl _ \<Rightarrow> (OSDP_ERR_BAD_PAYLOAD, reply, w)
         | Inr built \<Rightarrow>
             (OSDP_OK, \<lparr>rp_code = OSDP_REPLY_PDID, rp_payload = Some built, rp_payload_len = length built\<rparr>, w))
      else if cmd_code = OSDP_CMD_LED \<or> cmd_code = OSDP_CMD_BUZ \<or> cmd_code = OSDP_CMD_OUT \<or>
              cmd_code = OSDP_CMD_TEXT \<or> cmd_code = OSDP_CMD_KEYSET then (OSDP_OK, ack, w)
      else if cmd_code = OSDP_CMD_MFG then
        (case osdp_mfg_decode payload payload_len of
           Inl _ \<Rightarrow> (OSDP_ERR_BAD_PAYLOAD, reply, w)
         | Inr req \<Rightarrow>
             if take 3 (mf_vendor_code req) \<noteq> take 3 (pi_vendor_code (as_pdid (mk_app w)))
             then (OSDP_ERR_INVALID_ARG, reply, w)
             else
               (case osdp_mfgrep_build
                       \<lparr>mr_vendor_code = take 3 (pi_vendor_code (as_pdid (mk_app w))), mr_data = mf_data req,
                        mr_data_len = mf_data_len req\<rparr> OSDP_PD_BUF_LEN of
                  Inl _ \<Rightarrow> (OSDP_ERR_BAD_PAYLOAD, reply, w)
                | Inr built \<Rightarrow>
                    (OSDP_OK, \<lparr>rp_code = OSDP_REPLY_MFGREP, rp_payload = Some built, rp_payload_len = length built\<rparr>, w)))
      else (OSDP_ERR_NOT_SUPPORTED, reply, w))"

section \<open>COMSET and file transfer\<close>

definition mock_comset_decide ::
  "'io platform \<Rightarrow> 'io mock \<Rightarrow> byte \<Rightarrow> u32 \<Rightarrow> byte \<Rightarrow> u32 \<Rightarrow> byte \<times> u32 \<times> 'io mock" where
  "mock_comset_decide pf w req_addr req_baud eff_addr eff_baud =
     (req_addr, if pf_baud_supported pf req_baud then req_baud else as_baud (mk_app w), w)"

definition mock_comset_applied :: "'io platform \<Rightarrow> 'io mock \<Rightarrow> byte \<Rightarrow> u32 \<Rightarrow> 'io mock" where
  "mock_comset_applied pf w address baud =
     (let w1 = w\<lparr>mk_app := (mk_app w)\<lparr>as_address := address\<rparr>\<rparr> in
      if baud \<noteq> as_baud (mk_app w1) then
        (case pf_set_baud pf (mk_io w1) baud of
           (ok, io) \<Rightarrow>
             let w2 = w1\<lparr>mk_io := io\<rparr>
             in if ok then w2\<lparr>mk_app := (mk_app w2)\<lparr>as_baud := baud\<rparr>\<rparr> else w2)
      else w1)"

definition mock_file_eval :: "'io mock \<Rightarrow> osdp_pd_file_info \<Rightarrow> osdp_status \<times> 'io mock" where
  "mock_file_eval w info = (OSDP_OK, w\<lparr>mk_app := (mk_app w)\<lparr>as_file_received := fi_received info\<rparr>\<rparr>)"

section \<open>Configuration\<close>

definition cuid_from_pdid :: "osdp_pdid \<Rightarrow> bytes" where
  "cuid_from_pdid pdid =
     (case osdp_pdid_build pdid OSDP_PDID_PAYLOAD_BYTES of
        Inl _ \<Rightarrow> replicate OSDP_SC_CUID_LEN 0
      | Inr pdid_bytes \<Rightarrow>
          if length pdid_bytes < OSDP_SC_CUID_LEN then replicate OSDP_SC_CUID_LEN 0
          else take OSDP_SC_CUID_LEN pdid_bytes)"

definition read_tap :: "'io platform \<Rightarrow> 'io mock \<Rightarrow> nat \<Rightarrow> int \<times> bytes \<times> 'io mock" where
  "read_tap pf w cap = (case pf_read pf (mk_io w) cap of (n, buf, io) \<Rightarrow> (n, buf, w\<lparr>mk_io := io\<rparr>))"

definition mock_transport :: "'io platform \<Rightarrow> 'io mock osdp_pd_transport" where
  "mock_transport pf =
     \<lparr>tr_read = Some (read_tap pf),
      tr_write = Some (\<lambda>w buf. case pf_write pf (mk_io w) buf of (n, io) \<Rightarrow> (n, w\<lparr>mk_io := io\<rparr>)),
      tr_now_ms = Some (\<lambda>w. case pf_now_ms pf (mk_io w) of (t, io) \<Rightarrow> (t, w\<lparr>mk_io := io\<rparr>))\<rparr>"

definition mock_app :: "cli \<Rightarrow> app_state" where
  "mock_app cli =
     \<lparr>as_pdid = kDefaultPdid, as_pdcap = kDefaultPdcap, as_address = cl_address cli, as_baud = cl_baud cli,
      as_verbose = cl_verbose cli, as_file_received = 0, as_tamper = cl_tamper cli, as_acu_rx_size = 0\<rparr>"

definition mock_hooks :: "'io platform \<Rightarrow> 'io mock osdp_pd \<Rightarrow> 'io mock osdp_pd" where
  "mock_hooks pf pd =
     (let pd = osdp_pd_set_transport pd (mock_transport pf);
          pd = osdp_pd_set_command_handler pd (Some app_handler);
          pd = osdp_pd_set_comset_handler pd (Some (mock_comset_decide pf)) (Some (mock_comset_applied pf));
          pd = osdp_pd_set_file_stream pd (Some mock_file_eval);
          pd = osdp_pd_set_status_provider pd
                 (Some \<lparr>sp_local = Some status_local, sp_inputs = Some status_inputs,
                        sp_outputs = Some status_outputs, sp_readers = Some status_readers\<rparr>);
          pd = osdp_pd_set_event_queue pd (Some (replicate 512 0)) 512;
          pd = osdp_pd_set_abort_handler pd (Some on_abort);
          pd = osdp_pd_set_acurxsize_handler pd (Some on_acurxsize)
      in osdp_pd_set_keepactive_handler pd (Some on_keepactive))"

definition mock_secure :: "'io platform \<Rightarrow> cli \<Rightarrow> 'io mock osdp_pd \<Rightarrow> 'io mock osdp_pd" where
  "mock_secure pf cli pd =
     (if cl_sc_mode cli \<noteq> SC_NONE then
        let pd = osdp_pd_set_sc_crypto pd (pd_mock_aes_crypto pf);
            pd = osdp_pd_set_sc_cuid pd (cuid_from_pdid (as_pdid (mock_app cli)))
        in if cl_sc_mode cli = SC_SCBKD then osdp_pd_set_sc_scbk_d pd OSDP_SCBK_DEFAULT
           else osdp_pd_set_sc_scbk pd (cl_sc_custom_key cli)
      else pd)"

text \<open>The device \<^verbatim>\<open>main\<close> enters its loop with; the capability set is bound last, and a refusal only warns.\<close>

definition mock_device :: "'io platform \<Rightarrow> cli \<Rightarrow> 'io mock osdp_pd" where
  "mock_device pf cli =
     (let pd = mock_secure pf cli (mock_hooks pf (osdp_pd_init (cl_address cli)))
      in snd (snd (osdp_pd_set_pdcap pd (Some (as_pdcap (mock_app cli))) (length (as_pdcap (mock_app cli))))))"

section \<open>The loop\<close>

record 'io mock_loop =
  ml_pd :: "'io mock osdp_pd"
  ml_env :: "'io mock"
  ml_sc_was_up :: bool
  ml_last_card_ms :: u32
  ml_card_serial :: u32

definition mock_start :: "'io platform \<Rightarrow> cli \<Rightarrow> 'io \<Rightarrow> 'io mock_loop" where
  "mock_start pf cli io =
     \<lparr>ml_pd = mock_device pf cli, ml_env = \<lparr>mk_app = mock_app cli, mk_seeded = False, mk_io = io\<rparr>,
      ml_sc_was_up = False, ml_last_card_ms = 0, ml_card_serial = 0\<rparr>"

definition watch_sc :: "cli \<Rightarrow> 'io mock_loop \<Rightarrow> 'io mock_loop" where
  "watch_sc cli st =
     (if cl_sc_mode cli \<noteq> SC_NONE then
        let sc_now = osdp_pd_sc_established (ml_pd st)
        in if sc_now \<noteq> ml_sc_was_up st then st\<lparr>ml_sc_was_up := sc_now\<rparr> else st
      else st)"

definition card_body :: "u32 \<Rightarrow> bytes result" where
  "card_body card_serial =
     (let bits = [ucast (drop_bit 16 card_serial), ucast (drop_bit 8 card_serial), ucast card_serial, 0]
      in osdp_raw_build \<lparr>rw_reader_no = 0, rw_format_code = 0, rw_bit_count = 26, rw_bit_data = Some bits,
           rw_bit_data_len = length bits\<rparr> 32)"

definition card_read :: "'io platform \<Rightarrow> cli \<Rightarrow> 'io mock_loop \<Rightarrow> 'io mock_loop" where
  "card_read pf cli st =
     (if cl_card_every_ms cli > 0 then
        let (now, io) = pf_now_ms pf (mk_io (ml_env st));
            st = st\<lparr>ml_env := (ml_env st)\<lparr>mk_io := io\<rparr>\<rparr>;
            st = (if ml_last_card_ms st = 0 then st\<lparr>ml_last_card_ms := now\<rparr> else st)
        in if now - ml_last_card_ms st \<ge> cl_card_every_ms cli then
             let st = st\<lparr>ml_last_card_ms := now, ml_card_serial := ml_card_serial st + 1\<rparr>
             in (case card_body (ml_card_serial st) of
                   Inl _ \<Rightarrow> st
                 | Inr body \<Rightarrow>
                     st\<lparr>ml_pd := snd (osdp_pd_enqueue_event (ml_pd st) OSDP_REPLY_RAW (Some body) (length body))\<rparr>)
           else st
      else st)"

definition mock_step :: "'io platform \<Rightarrow> cli \<Rightarrow> 'io mock_loop \<Rightarrow> 'io mock_loop" where
  "mock_step pf cli st =
     (let (pd, w) = osdp_pd_tick (ml_pd st) (ml_env st);
          st = st\<lparr>ml_pd := pd, ml_env := w\<rparr>;
          st = card_read pf cli (watch_sc cli st)
      in st\<lparr>ml_env := (ml_env st)\<lparr>mk_io := pf_sleep_ms pf (mk_io (ml_env st)) 2\<rparr>\<rparr>)"

section \<open>The configured device\<close>

lemma kDefaultPdcap_bound:
  "osdp_pd_set_pdcap pd (Some kDefaultPdcap) (length kDefaultPdcap) = (OSDP_OK, 0, pd\<lparr>pd_pdcap_records := kDefaultPdcap\<rparr>)"
proof -
  have "\<forall>r \<in> set kDefaultPdcap. bind_pdcap_record r = OSDP_OK" by code_simp
  moreover have "\<forall>r \<in> set kDefaultPdcap. check_pdcap_record pd r = OSDP_OK"
    by (simp add: kDefaultPdcap_def check_pdcap_record_def)
  ultimately have "check_loop bind_pdcap_record 0 kDefaultPdcap = None" "check_loop (check_pdcap_record pd) 0 kDefaultPdcap = None"
    by (auto simp: check_loop_None)
  then show ?thesis
    by (simp add: osdp_pd_set_pdcap_def osdp_pd_check_pdcap_def Let_def) (simp add: kDefaultPdcap_def)
qed

lemma mock_device_eq:
  "mock_device pf cli = (mock_secure pf cli (mock_hooks pf (osdp_pd_init (cl_address cli))))\<lparr>pd_pdcap_records := kDefaultPdcap\<rparr>"
  by (simp add: mock_device_def mock_app_def kDefaultPdcap_bound Let_def)

lemmas mock_defs = mock_device_eq mock_secure_def mock_hooks_def pd_setters osdp_pd_set_event_queue_def Let_def

lemma mock_device_hooks:
  "pd_transport (mock_device pf cli) = mock_transport pf" "pd_cmd_cb (mock_device pf cli) = Some app_handler"
  "pd_led_cb (mock_device pf cli) = None" "pd_buzzer_cb (mock_device pf cli) = None"
  "pd_comset_cb (mock_device pf cli) = Some (mock_comset_decide pf)"
  "pd_comset_applied_cb (mock_device pf cli) = Some (mock_comset_applied pf)"
  "pd_file_cb (mock_device pf cli) = Some mock_file_eval"
  "pd_status (mock_device pf cli) = \<lparr>sp_local = Some status_local, sp_inputs = Some status_inputs,
     sp_outputs = Some status_outputs, sp_readers = Some status_readers\<rparr>"
  "pd_acurxsize_cb (mock_device pf cli) = Some on_acurxsize" "pd_abort_cb (mock_device pf cli) = Some on_abort"
  "pd_keepactive_cb (mock_device pf cli) = Some on_keepactive" "pd_mfg_cb (mock_device pf cli) = None"
  "rand_bytes (sc_crypto (pd_sc (mock_device pf cli))) = (if cl_sc_mode cli = SC_NONE then None else Some (adapter_rand pf))"
  "pd_address (mock_device pf cli) = cl_address cli AND 0x7F"
  by (simp_all add: mock_defs osdp_pd_init_def zero_pd_sc_def pd_mock_aes_crypto_def)

text \<open>What the application's state holds in every round of the loop: the identity and the capabilities it started with,
  and the address the device answers to.\<close>

definition mock_keeps :: "cli \<Rightarrow> byte \<Rightarrow> 'io mock \<Rightarrow> bool" where
  "mock_keeps cli a w \<longleftrightarrow> as_address (mk_app w) = a \<and> as_pdid (mk_app w) = kDefaultPdid \<and>
     as_pdcap (mk_app w) = kDefaultPdcap \<and> as_tamper (mk_app w) = cl_tamper cli"

lemma mock_keeps_io [simp]: "mock_keeps cli a (w\<lparr>mk_io := io\<rparr>) = mock_keeps cli a w" "mock_keeps cli a (w\<lparr>mk_seeded := b\<rparr>) = mock_keeps cli a w"
  by (simp_all add: mock_keeps_def)

lemma app_handler_env: "snd (snd (app_handler w c p n r)) = w"
  by (simp add: app_handler_def Let_def split: sum.splits)

lemma adapter_rand_app: "mock_keeps cli a (snd (snd (adapter_rand pf w n))) = mock_keeps cli a w"
  by (simp add: adapter_rand_def seed_once_lazily_def Let_def case_prod_beta)

lemma applied_keeps_app: "mock_keeps cli a w \<Longrightarrow> mock_keeps cli a' (mock_comset_applied pf w a' baud)"
  by (auto simp: mock_comset_applied_def mock_keeps_def Let_def split: prod.splits)

interpretation mock_env: pd_environment "mock_device pf cli" "mock_keeps cli" for pf cli
proof unfold_locales
qed (auto simp: mock_device_hooks mock_transport_def read_tap_def app_handler_env adapter_rand_app applied_keeps_app
    mock_comset_decide_def mock_file_eval_def status_local_def status_inputs_def status_outputs_def status_readers_def
    on_acurxsize_def on_abort_def on_keepactive_def case_prod_beta split: if_splits, simp_all add: mock_keeps_def)

section \<open>Every round of the loop\<close>

lemma pd_reachable_wrap:
  assumes "pd_reachable a pd"
  shows "pd_reachable a (mock_hooks pf pd)" "pd_reachable a (mock_secure pf cli pd)"
  unfolding mock_hooks_def mock_secure_def Let_def
  using assms by (auto intro!: pd_reachable.call [OF _ pd_call.set_transport] pd_reachable.call [OF _ pd_call.set_command_handler]
      pd_reachable.call [OF _ pd_call.set_comset_handler] pd_reachable.call [OF _ pd_call.set_file_stream]
      pd_reachable.call [OF _ pd_call.set_status_provider] pd_reachable.call [OF _ pd_call.set_event_queue]
      pd_reachable.call [OF _ pd_call.set_abort_handler] pd_reachable.call [OF _ pd_call.set_acurxsize_handler]
      pd_reachable.call [OF _ pd_call.set_keepactive_handler] pd_reachable.call [OF _ pd_call.set_sc_crypto]
      pd_reachable.call [OF _ pd_call.set_sc_cuid] pd_reachable.call [OF _ pd_call.set_sc_scbk_d]
      pd_reachable.call [OF _ pd_call.set_sc_scbk] simp: holds_cap_def)

lemma mock_device_reachable: "pd_reachable (cl_address cli) (mock_device pf cli)"
proof -
  let ?pd = "mock_secure pf cli (mock_hooks pf (osdp_pd_init (cl_address cli)))"
  have "pd_reachable (cl_address cli) ?pd"
    by (intro pd_reachable_wrap pd_reachable.init)
  then show ?thesis
    unfolding mock_device_eq by (rule pd_reachable.call) (rule pd_call.set_pdcap [OF kDefaultPdcap_bound])
qed

definition mock_inv :: "'io platform \<Rightarrow> cli \<Rightarrow> 'io mock_loop \<Rightarrow> bool" where
  "mock_inv pf cli st \<longleftrightarrow> pd_reachable (cl_address cli) (ml_pd st) \<and> hooks (ml_pd st) = hooks (mock_device pf cli) \<and>
     mock_keeps cli (pd_address (ml_pd st)) (ml_env st)"

lemma card_body_eq:
  "card_body n = Inr [0, 0, 26, 0, ucast (drop_bit 16 n), ucast (drop_bit 8 n), ucast n, 0]"
  by (simp add: card_body_def osdp_raw_build_def ptr_bytes_def Let_def osdp_pack_write_u16le_def)

lemma enqueue_hooks:
  "hooks (snd (osdp_pd_enqueue_event pd c p n)) = hooks pd" "pd_address (snd (osdp_pd_enqueue_event pd c p n)) = pd_address pd"
  by (simp_all add: osdp_pd_enqueue_event_def hooks_def Let_def split: option.splits)

lemma card_read_inv: "mock_inv pf cli st \<Longrightarrow> mock_inv pf cli (card_read pf cli st)"
proof -
  assume i: "mock_inv pf cli st"
  have e: "pd_reachable a (snd (osdp_pd_enqueue_event pd c (Some b) n))" if "pd_reachable a pd" "b \<noteq> []" "n = length b"
    for a c b n and pd :: "'a mock osdp_pd"
    using pd_reachable.call [OF that(1) pd_call.enqueue_event [of pd c b]] that(2,3) by (simp add: ptr_of_def)
  show ?thesis
    using i by (auto simp: card_read_def mock_inv_def Let_def case_prod_beta enqueue_hooks card_body_eq intro!: e)
qed

lemma mock_step_inv:
  assumes "mock_inv pf cli st"
  shows "mock_inv pf cli (mock_step pf cli st)"
proof -
  obtain pd w where t: "osdp_pd_tick (ml_pd st) (ml_env st) = (pd, w)"
    by fastforce
  have "pd_reachable (cl_address cli) (ml_pd st)" "hooks (ml_pd st) = hooks (mock_device pf cli)"
    "mock_keeps cli (pd_address (ml_pd st)) (ml_env st)"
    using assms by (simp_all add: mock_inv_def)
  then have "mock_inv pf cli (st\<lparr>ml_pd := pd, ml_env := w\<rparr>)"
    using mock_env.tick_kept [OF _ _ t] pd_reachable.call [OF _ pd_call.tick [OF t]] by (simp add: mock_inv_def)
  then have "mock_inv pf cli (watch_sc cli (st\<lparr>ml_pd := pd, ml_env := w\<rparr>))"
    by (simp add: watch_sc_def mock_inv_def Let_def)
  from card_read_inv [OF this] show ?thesis
    by (simp add: mock_step_def t Let_def mock_inv_def)
qed

definition mock_run :: "'io platform \<Rightarrow> cli \<Rightarrow> 'io \<Rightarrow> nat \<Rightarrow> 'io mock_loop" where
  "mock_run pf cli io n = (mock_step pf cli ^^ n) (mock_start pf cli io)"

lemma mock_run_inv:
  assumes "cli_ok cli"
  shows "mock_inv pf cli (mock_run pf cli io n)"
proof (induction n)
  case 0
  have "cl_address cli AND 0x7F = cl_address cli"
    using assms by (intro byte_le_mask7) (simp add: cli_ok_def word_le_nat_alt)
  then show ?case
    using mock_device_reachable by (simp add: mock_run_def mock_start_def mock_inv_def mock_keeps_def mock_app_def mock_device_hooks)
next
  case (Suc n)
  then show ?case using mock_step_inv by (simp add: mock_run_def)
qed

section \<open>Properties\<close>

text \<open>C32. The mock device is safe and its application is never out of step with it: whatever arrives on the line, whatever
  the platform answers and however often the loop runs, the device's storage stays within bounds, and the address the
  application remembers is the one the device answers to, through every address change by osdp_COMSET.\<close>

theorem mock_run_in_step:
  fixes pf :: "'io platform"
  assumes "parse_args env argv = Parsed cli"
  shows "pd_wf (ml_pd (mock_run pf cli io n)) \<and>
    as_address (mk_app (ml_env (mock_run pf cli io n))) = pd_address (ml_pd (mock_run pf cli io n))"
proof -
  have "mock_inv pf cli (mock_run pf cli io n)"
    using assms by (intro mock_run_inv parse_args_ok)
  then show ?thesis
    using pd_reachable_wf by (auto simp: mock_inv_def mock_keeps_def)
qed

text \<open>What the dispatcher does with the commands the application answers, in a device with the mock's hooks.\<close>

lemma mock_dispatch_app:
  assumes "hooks pd = hooks (mock_device pf cli)" "c \<notin> {OSDP_CMD_COMSET, OSDP_CMD_FILETRANSFER, OSDP_CMD_ABORT, OSDP_CMD_ACURXSIZE,
    OSDP_CMD_KEEPACTIVE, OSDP_CMD_LSTAT, OSDP_CMD_ISTAT, OSDP_CMD_OSTAT, OSDP_CMD_RSTAT, OSDP_CMD_CAP, OSDP_CMD_POLL}"
  shows "osdp_pd_internal_dispatch pd w ch c p k = dispatch_app pd w ch c p k"
  using assms(2) hooks_fields(12) [OF assms(1)]
  by (simp add: osdp_pd_internal_dispatch_def handle_status_request_def handle_mfg_multipart_def mock_device_hooks)

lemma mock_app_answer:
  assumes "hooks pd = hooks (mock_device pf cli)" "c \<notin> {OSDP_CMD_LED, OSDP_CMD_BUZ, OSDP_CMD_KEYSET}"
    "app_handler w c p k ack_reply = (s, r, w)" "apply_app_status s r = (OSDP_PD_DISPATCH_SEND, r')"
  shows "dispatch_app pd w ch c p k = (OSDP_PD_DISPATCH_SEND, r', pd, w)"
  using assms(2-4) hooks_fields(2) [OF assms(1)]
  by (simp add: dispatch_app_def mock_device_hooks osdp_pd_internal_observe_command_def osdp_pd_internal_is_observed_command_def)

lemma pdid_answer:
  assumes "as_pdid (mk_app w) = kDefaultPdid"
  obtains built where "app_handler w OSDP_CMD_ID p k r = (OSDP_OK, scratch_reply OSDP_REPLY_PDID built, w)"
    "osdp_pdid_decode (Some built) (length built) = Inr kDefaultPdid"
proof -
  obtain built where b: "osdp_pdid_build kDefaultPdid OSDP_PD_BUF_LEN = Inr built" "built \<noteq> []"
    by (simp add: codec_defs)
  then have "osdp_pdid_decode (ptr_of built) (length built) = Inr kDefaultPdid"
    by (intro pdid.decode_build) (simp_all add: kDefaultPdid_def)
  with b that show thesis
    by (simp add: app_handler_def assms scratch_reply_def ptr_of_def)
qed

text \<open>C33. In every round of the loop the mock device identifies itself as configured: osdp_ID is answered with the
  device's identity and osdp_CAP with the capability set it was given and the records the library computes.\<close>

theorem mock_identifies_itself:
  fixes pf :: "'io platform"
  assumes "parse_args env argv = Parsed cli" and "st = mock_run pf cli io n"
  shows "(\<exists>q. osdp_pd_internal_dispatch (ml_pd st) (ml_env st) ch OSDP_CMD_ID p k
        = (OSDP_PD_DISPATCH_SEND, \<lparr>rp_code = OSDP_REPLY_PDID, rp_payload = Some q, rp_payload_len = length q\<rparr>, ml_pd st, ml_env st) \<and>
      osdp_pdid_decode (Some q) (length q) = Inr kDefaultPdid) \<and>
    (\<exists>q. osdp_pd_internal_dispatch (ml_pd st) (ml_env st) ch OSDP_CMD_CAP p k
        = (OSDP_PD_DISPATCH_SEND, \<lparr>rp_code = OSDP_REPLY_PDCAP, rp_payload = Some q, rp_payload_len = length q\<rparr>, ml_pd st, ml_env st) \<and>
      osdp_pdcap_decode (Some q) (length q) (length q div OSDP_PDCAP_RECORD_BYTES)
        = Inr (sort_key pc_function_code (osdp_pd_internal_fill_reserved_pdcap (ml_pd st) @ kDefaultPdcap)))"
proof -
  have i: "hooks (ml_pd st) = hooks (mock_device pf cli)" "as_pdid (mk_app (ml_env st)) = kDefaultPdid"
    using mock_run_inv [OF parse_args_ok [OF assms(1)], of pf io n] assms(2) by (simp_all add: mock_inv_def mock_keeps_def)
  obtain b where b: "app_handler (ml_env st) OSDP_CMD_ID p k ack_reply = (OSDP_OK, scratch_reply OSDP_REPLY_PDID b, ml_env st)"
    "osdp_pdid_decode (Some b) (length b) = Inr kDefaultPdid"
    by (rule pdid_answer [OF i(2)])
  have "osdp_pd_internal_dispatch (ml_pd st) (ml_env st) ch OSDP_CMD_ID p k
      = (OSDP_PD_DISPATCH_SEND, scratch_reply OSDP_REPLY_PDID b, ml_pd st, ml_env st)"
    by (subst mock_dispatch_app [OF i(1)], simp, rule mock_app_answer [OF i(1) _ b(1)]) (simp_all add: apply_app_status_def)
  moreover have "pd_pdcap_records (ml_pd st) = kDefaultPdcap"
    using hooks_records [OF i(1)] by (simp add: mock_device_eq)
  then obtain q where "handle_pdcap (ml_pd st) = Some (scratch_reply OSDP_REPLY_PDCAP q)"
      "osdp_pdcap_decode (Some q) (length q) (length q div OSDP_PDCAP_RECORD_BYTES)
        = Inr (sort_key pc_function_code (osdp_pd_internal_fill_reserved_pdcap (ml_pd st) @ kDefaultPdcap))"
    using pdcap_reply [of "ml_pd st"] by (auto simp: kDefaultPdcap_def)
  ultimately show ?thesis
    using b(2) by (auto simp: osdp_pd_internal_dispatch_def [of _ _ _ OSDP_CMD_CAP] handle_status_request_def scratch_reply_def)
qed

text \<open>C34. A synthetic card read reaches the control unit: when the interval of \<^verbatim>\<open>--card-every\<close> has passed on the
  platform's clock and nothing else is queued, the round enqueues a card whose number is one more than the last, and the next
  osdp_POLL is answered with an osdp_RAW reply that decodes to this card.\<close>

theorem mock_card_delivered:
  assumes "cl_card_every_ms cli > 0" "pf_now_ms pf (mk_io (ml_env st)) = (now, io)" "ml_last_card_ms st \<noteq> 0"
    and "now - ml_last_card_ms st \<ge> cl_card_every_ms cli" "events_held (ml_pd st) []" "11 \<le> pd_event_cap (ml_pd st)"
    and "serial = ml_card_serial st + 1"
  shows "\<exists>q pd'. osdp_pd_internal_dispatch (ml_pd (card_read pf cli st)) w ch OSDP_CMD_POLL p k
      = (OSDP_PD_DISPATCH_SEND, \<lparr>rp_code = OSDP_REPLY_RAW, rp_payload = Some q, rp_payload_len = length q\<rparr>, pd', w) \<and>
    osdp_raw_decode (Some q) (length q) zero_raw = (OSDP_OK, \<lparr>rw_reader_no = 0, rw_format_code = 0, rw_bit_count = 26,
      rw_bit_data = Some [ucast (drop_bit 16 serial), ucast (drop_bit 8 serial), ucast serial, 0], rw_bit_data_len = 4\<rparr>) \<and>
    ml_card_serial (card_read pf cli st) = serial \<and> \<not> osdp_pd_event_pending pd'"
proof -
  let ?q = "[0, 0, 26, 0, ucast (drop_bit 16 serial), ucast (drop_bit 8 serial), ucast serial, 0] :: bytes"
  let ?pd = "snd (osdp_pd_enqueue_event (ml_pd st) OSDP_REPLY_RAW (Some ?q) (length ?q))"
  have c: "ml_pd (card_read pf cli st) = ?pd" "ml_card_serial (card_read pf cli st) = serial"
    using assms(1-4) by (simp_all add: card_read_def Let_def card_body_eq assms(7))
  have "fst (osdp_pd_enqueue_event (ml_pd st) OSDP_REPLY_RAW (Some ?q) (length ?q)) = OSDP_OK"
    using assms(5,6) by (auto simp: osdp_pd_enqueue_event_def events_held_def Let_def)
  then have "osdp_pd_enqueue_event (ml_pd st) OSDP_REPLY_RAW (ptr_of ?q) (length ?q) = (OSDP_OK, ?pd)"
    by (simp add: ptr_of_def prod_eq_iff)
  from enqueue_held [OF assms(5) this] have h: "events_held ?pd ((OSDP_REPLY_RAW, ?q) # [])"
    by simp
  obtain pd' where d: "osdp_pd_internal_dequeue_event ?pd = (Some (event_reply (OSDP_REPLY_RAW, ?q)), pd')" "events_held pd' []"
    using dequeue_held [OF h] by (cases "osdp_pd_internal_dequeue_event ?pd") simp
  have "osdp_pd_internal_dispatch ?pd w ch OSDP_CMD_POLL p k = (OSDP_PD_DISPATCH_SEND, event_reply (OSDP_REPLY_RAW, ?q), pd', w)"
    unfolding osdp_pd_internal_dispatch_def handle_status_request_def d(1) by simp
  moreover have "\<not> osdp_pd_event_pending pd'"
    using d(2) by (auto simp: osdp_pd_event_pending_def events_held_def)
  moreover have "osdp_raw_decode (Some ?q) (length ?q) zero_raw = (OSDP_OK, \<lparr>rw_reader_no = 0, rw_format_code = 0, rw_bit_count = 26,
      rw_bit_data = Some [ucast (drop_bit 16 serial), ucast (drop_bit 8 serial), ucast serial, 0], rw_bit_data_len = 4\<rparr>)"
    by (simp add: osdp_raw_decode_def osdp_pack_read_u16le_def Let_def)
  ultimately show ?thesis
    unfolding c by (intro exI [of _ ?q] exI [of _ pd']) (simp add: event_reply_def ptr_of_def)
qed

text \<open>The mock device answers osdp_COMSET truthfully: it reports the requested address, and the requested rate
  exactly when its serial adapter supports it, otherwise its current rate; and once the change is applied, the device and the
  application both use the reported address, and the application runs at the reported rate unless the adapter failed to switch.\<close>

theorem mock_comset_truthful:
  assumes "hooks pd = hooks (mock_device pf cli)" "osdp_comset_decode p k = Inr req" "cs_address req \<le> 0x7E"
    and "baud = (if pf_baud_supported pf (cs_baud_rate req) then cs_baud_rate req else as_baud (mk_app w))"
  shows "\<exists>q pd1 pd2 w2. osdp_pd_internal_dispatch pd w ch OSDP_CMD_COMSET p k
      = (OSDP_PD_DISPATCH_SEND, \<lparr>rp_code = OSDP_REPLY_COM, rp_payload = Some q, rp_payload_len = length q\<rparr>, pd1, w) \<and>
    osdp_com_decode (Some q) (length q) = Inr \<lparr>co_address = cs_address req, co_baud_rate = baud\<rparr> \<and>
    osdp_pd_internal_apply_comset pd1 w = (pd2, w2) \<and> pd_address pd2 = cs_address req \<and>
    as_address (mk_app w2) = cs_address req \<and>
    as_baud (mk_app w2) = (if baud = as_baud (mk_app w) \<or> fst (pf_set_baud pf (mk_io w) baud) then baud else as_baud (mk_app w))"
proof -
  let ?com = "\<lparr>co_address = cs_address req, co_baud_rate = baud\<rparr>"
  let ?pd1 = "pd\<lparr>pd_comset_pending := True, pd_comset_new_address := cs_address req, pd_comset_new_baud := baud\<rparr>"
  obtain q where q: "osdp_com_build ?com OSDP_COM_PAYLOAD_BYTES = Inr q"
    by (simp add: osdp_com_build_def)
  have d: "osdp_com_decode (Some q) (length q) = Inr ?com"
    using com.decode_build [OF _ q] q by (auto simp: osdp_com_build_def)
  have h: "pd_comset_cb pd = Some (mock_comset_decide pf)" "pd_comset_applied_cb pd = Some (mock_comset_applied pf)"
    using hooks_fields(5,6) [OF assms(1)] by (simp_all add: mock_device_hooks)
  have n: "\<not> cs_address req > OSDP_PD_MAX_ADDR"
    using assms(3) by (simp add: not_less)
  have "osdp_pd_internal_comset_effective pd w p k = (Inr (cs_address req, baud, q), w)"
    using n q by (simp add: osdp_pd_internal_comset_effective_def assms(2) h mock_comset_decide_def flip: assms(4))
  then have "osdp_pd_internal_dispatch pd w ch OSDP_CMD_COMSET p k = (OSDP_PD_DISPATCH_SEND, scratch_reply OSDP_REPLY_COM q, ?pd1, w)"
    by (simp add: osdp_pd_internal_dispatch_def handle_comset_def)
  moreover have "osdp_pd_internal_apply_comset ?pd1 w
      = (pd\<lparr>pd_comset_pending := False, pd_comset_new_address := cs_address req, pd_comset_new_baud := baud,
           pd_address := cs_address req, pd_have_last := False\<rparr>, mock_comset_applied pf w (cs_address req) baud)"
    by (simp add: osdp_pd_internal_apply_comset_def h Let_def)
  ultimately show ?thesis
    using d by (auto simp: scratch_reply_def mock_comset_applied_def Let_def split: prod.splits)
qed

text \<open>A vendor message with the mock device's own vendor code is echoed: osdp_MFG is answered with an osdp_MFGREP that
  decodes to the same vendor code and data; any other vendor's message is refused with the error for an invalid record.\<close>

theorem mock_mfg_echo:
  assumes "hooks pd = hooks (mock_device pf cli)" "as_pdid (mk_app w) = kDefaultPdid" "length v = 3" "3 + length data \<le> OSDP_PD_BUF_LEN"
  shows "if v = pi_vendor_code kDefaultPdid
    then \<exists>q. osdp_pd_internal_dispatch pd w ch OSDP_CMD_MFG (Some (v @ data)) (3 + length data)
        = (OSDP_PD_DISPATCH_SEND, \<lparr>rp_code = OSDP_REPLY_MFGREP, rp_payload = Some q, rp_payload_len = length q\<rparr>, pd, w) \<and>
      osdp_mfgrep_decode (Some q) (length q) = Inr \<lparr>mr_vendor_code = v, mr_data = ptr_of data, mr_data_len = length data\<rparr>
    else osdp_pd_internal_dispatch pd w ch OSDP_CMD_MFG (Some (v @ data)) (3 + length data)
        = (OSDP_PD_DISPATCH_SEND, nak_into OSDP_NAK_RECORD_INVALID, pd, w)"
proof -
  have d: "osdp_mfg_decode (Some (v @ data)) (3 + length data) = Inr \<lparr>mf_vendor_code = v, mf_data = ptr_of data, mf_data_len = length data\<rparr>"
    using assms(3) by (simp add: codec_defs ptr_of_def)
  have k: "length (pi_vendor_code kDefaultPdid) = 3"
    by (simp add: kDefaultPdid_def)
  have "osdp_mfgrep_build \<lparr>mr_vendor_code = v, mr_data = ptr_of data, mr_data_len = length data\<rparr> OSDP_PD_BUF_LEN = Inr (v @ data)"
    using assms(3,4) by (auto simp: codec_defs ptr_of_def ptr_bytes_def)
  then have "app_handler w OSDP_CMD_MFG (Some (v @ data)) (3 + length data) ack_reply
      = (if v = pi_vendor_code kDefaultPdid then (OSDP_OK, scratch_reply OSDP_REPLY_MFGREP (v @ data), w) else (OSDP_ERR_INVALID_ARG, ack_reply, w))"
    using assms(3) k by (auto simp: app_handler_def assms(2) d scratch_reply_def)
  moreover have "osdp_mfgrep_decode (Some (v @ data)) (length (v @ data)) = Inr \<lparr>mr_vendor_code = v, mr_data = ptr_of data, mr_data_len = length data\<rparr>"
    using assms(3) by (simp add: codec_defs ptr_of_def)
  ultimately show ?thesis
    using mock_app_answer [OF assms(1), of OSDP_CMD_MFG w "Some (v @ data)" "3 + length data"]
    by (subst mock_dispatch_app [OF assms(1)], simp, subst mock_dispatch_app [OF assms(1)], simp)
      (auto simp: apply_app_status_def scratch_reply_def assms(3) k)
qed

text \<open>The example: a platform whose line is silent, whose clock stands at 5000 ms and whose adapter switches to 9600 and
  19200 baud, and a device started with a card interval of 2000 ms.\<close>

definition ex_platform :: "unit platform" where
  "ex_platform = \<lparr>pf_read = \<lambda>io n. (0, [], io), pf_write = \<lambda>io bs. (int (length bs), io), pf_now_ms = \<lambda>io. (5000, io),
     pf_baud_supported = \<lambda>b. b \<in> {9600, 19200}, pf_set_baud = \<lambda>io b. (True, io), pf_sleep_ms = \<lambda>io t. io,
     pf_time = \<lambda>io. 0, pf_srand = \<lambda>io s. io, pf_rand = \<lambda>io. (4, io)\<rparr>"

definition ex_cli :: cli where
  "ex_cli = (cli_defaults None)\<lparr>cl_port := Some ''tty'', cl_card_every_ms := 2000\<rparr>"

lemma ex_cli_parsed: "parse_args None [''--port'', ''tty'', ''--card-every'', ''2000''] = Parsed ex_cli"
  by (simp add: parse_args_def parse_arg_def cli_defaults_def ex_cli_def strtoul_def is_space_def is_ws_def has_hex_prefix_def digit_in_def
      hex_digit_def Let_def)

theorem mock_run_in_step_witness:
  "pd_wf (ml_pd (mock_run ex_platform ex_cli () 7)) \<and>
   as_address (mk_app (ml_env (mock_run ex_platform ex_cli () 7))) = pd_address (ml_pd (mock_run ex_platform ex_cli () 7))"
  by (rule mock_run_in_step [OF ex_cli_parsed])

theorem mock_identifies_itself_witness:
  "\<exists>q. osdp_pdid_decode (Some q) (length q) = Inr kDefaultPdid \<and>
     fst (snd (osdp_pd_internal_dispatch (ml_pd (mock_run ex_platform ex_cli () 7)) (ml_env (mock_run ex_platform ex_cli () 7))
       OSDP_PD_CH_PLAIN OSDP_CMD_ID None 0)) = \<lparr>rp_code = OSDP_REPLY_PDID, rp_payload = Some q, rp_payload_len = length q\<rparr>"
  using mock_identifies_itself [OF ex_cli_parsed refl, of ex_platform "()" 7 OSDP_PD_CH_PLAIN None 0] by auto

definition ex_round :: "unit mock_loop" where
  "ex_round = (mock_start ex_platform ex_cli ())\<lparr>ml_last_card_ms := 3000\<rparr>"

lemma ex_round_queue: "events_held (ml_pd ex_round) []" "pd_event_cap (ml_pd ex_round) = 512" "cl_sc_mode ex_cli = SC_NONE"
  by (simp_all add: ex_round_def mock_start_def mock_defs ex_cli_def cli_defaults_def events_held_def)

theorem mock_card_delivered_witness:
  "\<exists>q pd'. osdp_pd_internal_dispatch (ml_pd (card_read ex_platform ex_cli ex_round)) (ml_env ex_round) OSDP_PD_CH_PLAIN OSDP_CMD_POLL None 0
     = (OSDP_PD_DISPATCH_SEND, \<lparr>rp_code = OSDP_REPLY_RAW, rp_payload = Some q, rp_payload_len = length q\<rparr>, pd', ml_env ex_round) \<and>
   osdp_raw_decode (Some q) (length q) zero_raw
     = (OSDP_OK, \<lparr>rw_reader_no = 0, rw_format_code = 0, rw_bit_count = 26, rw_bit_data = Some [0, 0, 1, 0], rw_bit_data_len = 4\<rparr>)"
proof -
  have "cl_card_every_ms ex_cli = 2000" "pf_now_ms ex_platform (mk_io (ml_env ex_round)) = (5000, mk_io (ml_env ex_round))"
    "ml_last_card_ms ex_round = 3000" "ml_card_serial ex_round = 0"
    by (simp_all add: ex_cli_def ex_platform_def ex_round_def mock_start_def)
  with mock_card_delivered [of ex_cli ex_platform ex_round 5000 "mk_io (ml_env ex_round)" 1 "ml_env ex_round" OSDP_PD_CH_PLAIN None 0]
    ex_round_queue show ?thesis by auto
qed

theorem mock_comset_truthful_witness:
  "\<exists>q pd1 pd2 w2. osdp_pd_internal_dispatch (ml_pd ex_round) (ml_env ex_round) OSDP_PD_CH_PLAIN OSDP_CMD_COMSET (Some [9, 0, 0x4B, 0, 0]) 5
       = (OSDP_PD_DISPATCH_SEND, \<lparr>rp_code = OSDP_REPLY_COM, rp_payload = Some q, rp_payload_len = length q\<rparr>, pd1, ml_env ex_round) \<and>
     osdp_com_decode (Some q) (length q) = Inr \<lparr>co_address = 9, co_baud_rate = 19200\<rparr> \<and>
     osdp_pd_internal_apply_comset pd1 (ml_env ex_round) = (pd2, w2) \<and> as_address (mk_app w2) = 9 \<and> as_baud (mk_app w2) = 19200"
proof -
  have "osdp_comset_decode (Some [9, 0, 0x4B, 0, 0]) 5 = Inr \<lparr>cs_address = 9, cs_baud_rate = 19200\<rparr>"
    by (simp add: osdp_comset_decode_def osdp_pack_read_u32le_def)
  moreover have "hooks (ml_pd ex_round) = hooks (mock_device ex_platform ex_cli)"
    by (simp add: ex_round_def mock_start_def)
  ultimately show ?thesis
    using mock_comset_truthful [of "ml_pd ex_round" ex_platform ex_cli "Some [9, 0, 0x4B, 0, 0]" 5 _ 19200 "ml_env ex_round" OSDP_PD_CH_PLAIN]
    by (fastforce simp: ex_platform_def)
qed

theorem mock_mfg_echo_witness:
  "\<exists>q. osdp_pd_internal_dispatch (ml_pd ex_round) (ml_env ex_round) OSDP_PD_CH_PLAIN OSDP_CMD_MFG (Some ([0x5A, 0x42, 0x43] @ [1, 2])) (3 + length [1 :: byte, 2])
       = (OSDP_PD_DISPATCH_SEND, \<lparr>rp_code = OSDP_REPLY_MFGREP, rp_payload = Some q, rp_payload_len = length q\<rparr>, ml_pd ex_round, ml_env ex_round) \<and>
     osdp_mfgrep_decode (Some q) (length q) = Inr \<lparr>mr_vendor_code = [0x5A, 0x42, 0x43], mr_data = ptr_of [1, 2], mr_data_len = 2\<rparr>"
proof -
  have "hooks (ml_pd ex_round) = hooks (mock_device ex_platform ex_cli)" "as_pdid (mk_app (ml_env ex_round)) = kDefaultPdid"
    by (simp_all add: ex_round_def mock_start_def mock_app_def)
  from mock_mfg_echo [OF this, of "[0x5A, 0x42, 0x43]" "[1, 2]" OSDP_PD_CH_PLAIN] show ?thesis
    by (simp add: kDefaultPdid_def numeral_2_eq_2)
qed

end
