(* ===== verification/Wolfcrypt.thy ===== *)
theory Wolfcrypt
  imports SC_Crypto
begin

text \<open>
  The port \<^verbatim>\<open>ports/wolfcrypt/osdp_sc_wolfcrypt.c\<close>, which binds the Secure Channel's vtable to wolfCrypt. wolfCrypt is
  a package outside the repository: its functions are the members of the record \<open>wolfssl\<close>, on states of
  their own for the cipher object (\<open>'a\<close>), the generator (\<open>'r\<close>) and the library (\<open>'l\<close>). A return code is an
  integer, 0 for success. The context is threaded through every call, since every call changes it; a NULL
  argument is not modelled.
\<close>

section \<open>The port\<close>

datatype aes_dir = AES_ENCRYPTION | AES_DECRYPTION

record ('a, 'r, 'l) wolfssl =
  wolfCrypt_Init :: "'l \<Rightarrow> int \<times> 'l"
  wolfCrypt_Cleanup :: "'l \<Rightarrow> 'l"
  wc_AesInit :: "'a \<Rightarrow> int \<times> 'a"
  wc_AesSetKey :: "'a \<Rightarrow> bytes \<Rightarrow> aes_dir \<Rightarrow> int \<times> 'a"
  wc_AesEcbEncrypt :: "'a \<Rightarrow> bytes \<Rightarrow> int \<times> bytes \<times> 'a"
  wc_AesEcbDecrypt :: "'a \<Rightarrow> bytes \<Rightarrow> int \<times> bytes \<times> 'a"
  wc_AesFree :: "'a \<Rightarrow> 'a"
  wc_InitRng :: "'r \<Rightarrow> int \<times> 'r"
  wc_RNG_GenerateBlock :: "'r \<Rightarrow> nat \<Rightarrow> int \<times> bytes \<times> 'r"
  wc_FreeRng :: "'r \<Rightarrow> 'r"
  zero_aes :: 'a
  zero_rng :: 'r

record ('a, 'r, 'l) osdp_sc_wolfcrypt =
  wx_aes :: 'a
  wx_rng :: 'r
  wx_lib_ready :: bool
  wx_aes_ready :: bool
  wx_rng_ready :: bool
  wx_lib :: 'l

text \<open>The block goes through a local buffer that is copied out on success and wiped; the caller's buffer is only written
  then, so the result is the block or the error.\<close>

definition wolfcrypt_block ::
  "('a, 'r, 'l) wolfssl \<Rightarrow> ('a, 'r, 'l) osdp_sc_wolfcrypt \<Rightarrow> bytes \<Rightarrow> bytes \<Rightarrow> aes_dir
     \<Rightarrow> bytes result \<times> ('a, 'r, 'l) osdp_sc_wolfcrypt" where
  "wolfcrypt_block wc ctx key inp dir =
     (if \<not> wx_aes_ready ctx then (Inl OSDP_ERR_INVALID_ARG, ctx)
      else
        (case wc_AesSetKey wc (wx_aes ctx) key dir of
           (rc, a) \<Rightarrow>
             let ctx = ctx\<lparr>wx_aes := a\<rparr> in
             if rc \<noteq> 0 then (Inl OSDP_ERR_INVALID_ARG, ctx)
             else
               (case (if dir = AES_ENCRYPTION then wc_AesEcbEncrypt wc a inp else wc_AesEcbDecrypt wc a inp) of
                  (rc, tmp, a') \<Rightarrow>
                    let ctx = ctx\<lparr>wx_aes := a'\<rparr> in
                    if rc = 0 then (Inr tmp, ctx) else (Inl OSDP_ERR_INVALID_ARG, ctx))))"

definition wolfcrypt_encrypt ::
  "('a, 'r, 'l) wolfssl \<Rightarrow> ('a, 'r, 'l) osdp_sc_wolfcrypt \<Rightarrow> bytes \<Rightarrow> bytes \<Rightarrow> bytes result \<times> ('a, 'r, 'l) osdp_sc_wolfcrypt" where
  "wolfcrypt_encrypt wc ctx key inp = wolfcrypt_block wc ctx key inp AES_ENCRYPTION"

definition wolfcrypt_decrypt ::
  "('a, 'r, 'l) wolfssl \<Rightarrow> ('a, 'r, 'l) osdp_sc_wolfcrypt \<Rightarrow> bytes \<Rightarrow> bytes \<Rightarrow> bytes result \<times> ('a, 'r, 'l) osdp_sc_wolfcrypt" where
  "wolfcrypt_decrypt wc ctx key inp = wolfcrypt_block wc ctx key inp AES_DECRYPTION"

definition wolfcrypt_rand ::
  "('a, 'r, 'l) wolfssl \<Rightarrow> ('a, 'r, 'l) osdp_sc_wolfcrypt \<Rightarrow> nat \<Rightarrow> bytes result \<times> ('a, 'r, 'l) osdp_sc_wolfcrypt" where
  "wolfcrypt_rand wc ctx len =
     (if \<not> wx_rng_ready ctx then (Inl OSDP_ERR_INVALID_ARG, ctx)
      else if len = 0 then (Inr [], ctx)
      else if len > 0xFFFFFFFF then (Inl OSDP_ERR_INVALID_ARG, ctx)
      else
        (case wc_RNG_GenerateBlock wc (wx_rng ctx) len of
           (rc, out, rng) \<Rightarrow> (if rc = 0 then Inr out else Inl OSDP_ERR_INVALID_ARG, ctx\<lparr>wx_rng := rng\<rparr>)))"

definition osdp_sc_wolfcrypt_free ::
  "('a, 'r, 'l) wolfssl \<Rightarrow> ('a, 'r, 'l) osdp_sc_wolfcrypt \<Rightarrow> ('a, 'r, 'l) osdp_sc_wolfcrypt" where
  "osdp_sc_wolfcrypt_free wc ctx =
     (let ctx = (if wx_rng_ready ctx then ctx\<lparr>wx_rng := wc_FreeRng wc (wx_rng ctx), wx_rng_ready := False\<rparr> else ctx);
          ctx = (if wx_aes_ready ctx then ctx\<lparr>wx_aes := wc_AesFree wc (wx_aes ctx), wx_aes_ready := False\<rparr> else ctx)
      in if wx_lib_ready ctx then ctx\<lparr>wx_lib := wolfCrypt_Cleanup wc (wx_lib ctx), wx_lib_ready := False\<rparr> else ctx)"

text \<open>What a call leaves in the caller's vtable: which members the port has installed there. \<^verbatim>\<open>out->user\<close> points to the
  context exactly when the block operations are bound.\<close>

record wolf_binding =
  wb_aes_bound :: bool
  wb_rand_bound :: bool

definition osdp_sc_wolfcrypt_aes128 ::
  "('a, 'r, 'l) wolfssl \<Rightarrow> ('a, 'r, 'l) osdp_sc_wolfcrypt \<Rightarrow> wolf_binding
     \<Rightarrow> osdp_status \<times> ('a, 'r, 'l) osdp_sc_wolfcrypt \<times> wolf_binding" where
  "osdp_sc_wolfcrypt_aes128 wc ctx out =
     (let ctx = ctx\<lparr>wx_aes := zero_aes wc, wx_rng := zero_rng wc, wx_lib_ready := False, wx_aes_ready := False,
                    wx_rng_ready := False\<rparr>
      in case wolfCrypt_Init wc (wx_lib ctx) of
           (rc, l) \<Rightarrow>
             let ctx = ctx\<lparr>wx_lib := l\<rparr> in
             if rc \<noteq> 0 then (OSDP_ERR_INVALID_ARG, ctx, out)
             else
               let ctx = ctx\<lparr>wx_lib_ready := True\<rparr> in
               (case wc_AesInit wc (wx_aes ctx) of
                  (rc, a) \<Rightarrow>
                    let ctx = ctx\<lparr>wx_aes := a\<rparr> in
                    if rc \<noteq> 0 then (OSDP_ERR_INVALID_ARG, osdp_sc_wolfcrypt_free wc ctx, out)
                    else (OSDP_OK, ctx\<lparr>wx_aes_ready := True\<rparr>, out\<lparr>wb_aes_bound := True\<rparr>)))"

definition osdp_sc_wolfcrypt_rng ::
  "('a, 'r, 'l) wolfssl \<Rightarrow> ('a, 'r, 'l) osdp_sc_wolfcrypt \<Rightarrow> wolf_binding
     \<Rightarrow> osdp_status \<times> ('a, 'r, 'l) osdp_sc_wolfcrypt \<times> wolf_binding" where
  "osdp_sc_wolfcrypt_rng wc ctx out =
     (if \<not> wx_aes_ready ctx \<or> \<not> wb_aes_bound out then (OSDP_ERR_INVALID_ARG, ctx, out)
      else if \<not> wx_rng_ready ctx then
        (case wc_InitRng wc (wx_rng ctx) of
           (rc, rng) \<Rightarrow>
             let ctx = ctx\<lparr>wx_rng := rng\<rparr> in
             if rc \<noteq> 0 then (OSDP_ERR_INVALID_ARG, ctx, out)
             else (OSDP_OK, ctx\<lparr>wx_rng_ready := True\<rparr>, out\<lparr>wb_rand_bound := True\<rparr>))
      else (OSDP_OK, ctx, out\<lparr>wb_rand_bound := True\<rparr>))"

section \<open>What the port relies on\<close>

text \<open>The documented behaviour of wolfCrypt's AES: setting a 16-byte key succeeds whatever the object held before, a block
  operation after it succeeds with 16 bytes, and decrypting under a key undoes encrypting under it.\<close>

definition wolf_aes_ok :: "('a, 'r, 'l) wolfssl \<Rightarrow> bool" where
  "wolf_aes_ok wc \<longleftrightarrow>
     (\<exists>E D. (\<forall>k b. length k = 16 \<longrightarrow> length b = 16 \<longrightarrow> length (E k b) = 16 \<and> D k (E k b) = b) \<and>
       (\<forall>a k. length k = 16 \<longrightarrow>
          fst (wc_AesSetKey wc a k AES_ENCRYPTION) = 0 \<and> fst (wc_AesSetKey wc a k AES_DECRYPTION) = 0 \<and>
          (\<forall>b. length b = 16 \<longrightarrow>
             (let (rc, out, _) = wc_AesEcbEncrypt wc (snd (wc_AesSetKey wc a k AES_ENCRYPTION)) b in rc = 0 \<and> out = E k b) \<and>
             (let (rc, out, _) = wc_AesEcbDecrypt wc (snd (wc_AesSetKey wc a k AES_DECRYPTION)) b in rc = 0 \<and> out = D k b))))"

text \<open>Initialisations of the library are counted: a cleanup takes back one successful initialisation, and a failed one
  leaves the count alone.\<close>

definition wolf_counts :: "('a, 'r, 'l) wolfssl \<Rightarrow> bool" where
  "wolf_counts wc \<longleftrightarrow>
     (\<forall>l. if fst (wolfCrypt_Init wc l) = 0 then wolfCrypt_Cleanup wc (snd (wolfCrypt_Init wc l)) = l
          else snd (wolfCrypt_Init wc l) = l)"

section \<open>Properties\<close>

lemma block_ready: "wolfcrypt_block wc ctx k b dir = (r, ctx') \<Longrightarrow> wx_aes_ready ctx' = wx_aes_ready ctx"
  by (auto simp: wolfcrypt_block_def Let_def split: if_splits prod.splits)

lemma wolfcrypt_blocks:
  assumes "wolf_aes_ok wc"
  obtains E D where "\<And>k b. length k = 16 \<Longrightarrow> length b = 16 \<Longrightarrow> length (E k b) = 16 \<and> D k (E k b) = b"
    and "\<And>ctx k b. length k = 16 \<Longrightarrow> length b = 16 \<Longrightarrow> wx_aes_ready ctx \<Longrightarrow>
      fst (wolfcrypt_encrypt wc ctx k b) = Inr (E k b) \<and> fst (wolfcrypt_decrypt wc ctx k b) = Inr (D k b)"
proof -
  obtain E D where ed: "\<forall>k b. length k = 16 \<longrightarrow> length b = 16 \<longrightarrow> length (E k b) = 16 \<and> D k (E k b) = b"
    and s: "\<forall>a k. length k = 16 \<longrightarrow> fst (wc_AesSetKey wc a k AES_ENCRYPTION) = 0 \<and> fst (wc_AesSetKey wc a k AES_DECRYPTION) = 0 \<and>
          (\<forall>b. length b = 16 \<longrightarrow>
             (let (rc, out, _) = wc_AesEcbEncrypt wc (snd (wc_AesSetKey wc a k AES_ENCRYPTION)) b in rc = 0 \<and> out = E k b) \<and>
             (let (rc, out, _) = wc_AesEcbDecrypt wc (snd (wc_AesSetKey wc a k AES_DECRYPTION)) b in rc = 0 \<and> out = D k b))"
    using assms unfolding wolf_aes_ok_def by (elim exE conjE) (rule that)
  have "fst (wolfcrypt_encrypt wc ctx k b) = Inr (E k b) \<and> fst (wolfcrypt_decrypt wc ctx k b) = Inr (D k b)"
    if kb: "length k = 16" "length b = 16" "wx_aes_ready ctx" for ctx k b
  proof -
    obtain e d where k: "wc_AesSetKey wc (wx_aes ctx) k AES_ENCRYPTION = (0, e)" "wc_AesSetKey wc (wx_aes ctx) k AES_DECRYPTION = (0, d)"
      using s kb(1) by (metis prod.collapse)
    have "(let (rc, out, _) = wc_AesEcbEncrypt wc e b in rc = 0 \<and> out = E k b) \<and>
        (let (rc, out, _) = wc_AesEcbDecrypt wc d b in rc = 0 \<and> out = D k b)"
      using s [THEN spec, of "wx_aes ctx", THEN spec, of k] kb by (simp add: k)
    then obtain e' d' where "wc_AesEcbEncrypt wc e b = (0, E k b, e')" "wc_AesEcbDecrypt wc d b = (0, D k b, d')"
      by (auto split: prod.splits)
    with k kb(3) show ?thesis
      by (simp add: wolfcrypt_encrypt_def wolfcrypt_decrypt_def wolfcrypt_block_def Let_def)
  qed
  with ed that show thesis by blast
qed

text \<open>C36. The wolfCrypt port is a conforming cipher provider: on a context that is ready, in whatever state earlier
  calls left its cipher object, its two block operations satisfy what the Secure Channel asks of a cipher, so a vtable bound
  to them is one for which the Secure Channel's properties hold.\<close>

theorem wolfcrypt_port_conforms:
  assumes "wolf_aes_ok wc" and "wx_aes_ready ctx"
  shows "block_cipher_ok (\<lambda>k b. fst (wolfcrypt_encrypt wc ctx k b)) (\<lambda>k b. fst (wolfcrypt_decrypt wc ctx k b)) \<and>
    (length k = 16 \<longrightarrow> length b = 16 \<longrightarrow>
       (\<exists>c ctx1 ctx2. wolfcrypt_encrypt wc ctx k b = (Inr c, ctx1) \<and> wolfcrypt_decrypt wc ctx1 k c = (Inr b, ctx2) \<and> wx_aes_ready ctx2))"
proof -
  obtain E D where ed: "\<And>k b. length k = 16 \<Longrightarrow> length b = 16 \<Longrightarrow> length (E k b) = 16 \<and> D k (E k b) = b"
    and f: "\<And>ctx k b. length k = 16 \<Longrightarrow> length b = 16 \<Longrightarrow> wx_aes_ready ctx \<Longrightarrow>
      fst (wolfcrypt_encrypt wc ctx k b) = Inr (E k b) \<and> fst (wolfcrypt_decrypt wc ctx k b) = Inr (D k b)"
    by (rule wolfcrypt_blocks [OF assms(1)]) blast
  have "\<exists>c ctx1 ctx2. wolfcrypt_encrypt wc ctx k b = (Inr c, ctx1) \<and> wolfcrypt_decrypt wc ctx1 k c = (Inr b, ctx2) \<and> wx_aes_ready ctx2"
    if kb: "length k = 16" "length b = 16"
  proof -
    obtain ctx1 where 1: "wolfcrypt_encrypt wc ctx k b = (Inr (E k b), ctx1)"
      using f [OF kb assms(2)] by (metis prod.collapse)
    then have r1: "wx_aes_ready ctx1"
      using assms(2) block_ready by (metis wolfcrypt_encrypt_def)
    obtain ctx2 where 2: "wolfcrypt_decrypt wc ctx1 k (E k b) = (Inr b, ctx2)"
      using f [OF kb(1) _ r1, of "E k b"] ed [OF kb] by (metis prod.collapse)
    then have "wx_aes_ready ctx2"
      using r1 block_ready by (metis wolfcrypt_decrypt_def)
    with 1 2 show ?thesis by blast
  qed
  then show ?thesis
    using ed f assms(2) by (auto simp: block_cipher_ok_def)
qed

text \<open>The port gives back what it took: whether binding succeeds, fails to initialise the library or fails to
  initialise the cipher object, freeing the context returns the library to the state it had before, no part of the
  context is left ready, and a second free changes nothing.\<close>

theorem wolfcrypt_free_balanced:
  assumes "wolf_counts wc" and "osdp_sc_wolfcrypt_aes128 wc ctx out = (s, ctx1, out1)"
  shows "wx_lib (osdp_sc_wolfcrypt_free wc ctx1) = wx_lib ctx \<and>
    \<not> wx_lib_ready (osdp_sc_wolfcrypt_free wc ctx1) \<and> \<not> wx_aes_ready (osdp_sc_wolfcrypt_free wc ctx1) \<and>
    \<not> wx_rng_ready (osdp_sc_wolfcrypt_free wc ctx1) \<and>
    osdp_sc_wolfcrypt_free wc (osdp_sc_wolfcrypt_free wc ctx1) = osdp_sc_wolfcrypt_free wc ctx1 \<and>
    (s = OSDP_OK \<longleftrightarrow> wx_aes_ready ctx1) \<and> (s \<noteq> OSDP_OK \<longrightarrow> out1 = out \<and> wx_lib ctx1 = wx_lib ctx)"
proof -
  have "if fst (wolfCrypt_Init wc (wx_lib ctx)) = 0 then wolfCrypt_Cleanup wc (snd (wolfCrypt_Init wc (wx_lib ctx))) = wx_lib ctx
      else snd (wolfCrypt_Init wc (wx_lib ctx)) = wx_lib ctx"
    using assms(1) by (simp add: wolf_counts_def)
  with assms(2) show ?thesis
    by (auto simp: osdp_sc_wolfcrypt_aes128_def osdp_sc_wolfcrypt_free_def Let_def split: prod.splits if_splits)
qed

text \<open>A library that encrypts by exclusive or, and counts its initialisations.\<close>

definition ex_wolfssl :: "(bytes, unit, nat) wolfssl" where
  "ex_wolfssl = \<lparr>wolfCrypt_Init = \<lambda>l. (0, l + 1), wolfCrypt_Cleanup = \<lambda>l. l - 1, wc_AesInit = \<lambda>a. (0, a),
     wc_AesSetKey = \<lambda>a k d. (0, k), wc_AesEcbEncrypt = \<lambda>a b. (0, xor_block b a, a), wc_AesEcbDecrypt = \<lambda>a b. (0, xor_block b a, a),
     wc_AesFree = \<lambda>a. [], wc_InitRng = \<lambda>r. (0, r), wc_RNG_GenerateBlock = \<lambda>r n. (0, replicate n 4, r), wc_FreeRng = \<lambda>r. r,
     zero_aes = [], zero_rng = ()\<rparr>"

definition ex_wolf_ctx :: "(bytes, unit, nat) osdp_sc_wolfcrypt" where
  "ex_wolf_ctx = \<lparr>wx_aes = [], wx_rng = (), wx_lib_ready = True, wx_aes_ready = True, wx_rng_ready = False, wx_lib = 1\<rparr>"

lemma ex_wolfssl_ok: "wolf_aes_ok ex_wolfssl" "wolf_counts ex_wolfssl"
proof -
  show "wolf_aes_ok ex_wolfssl"
    unfolding wolf_aes_ok_def
    by (intro exI [of _ "\<lambda>k b. xor_block b k"] exI [of _ "\<lambda>k b. xor_block b k"]) (simp add: ex_wolfssl_def xor_block_cancel)
qed (simp add: wolf_counts_def ex_wolfssl_def)

theorem wolfcrypt_port_conforms_witness:
  "block_cipher_ok (\<lambda>k b. fst (wolfcrypt_encrypt ex_wolfssl ex_wolf_ctx k b)) (\<lambda>k b. fst (wolfcrypt_decrypt ex_wolfssl ex_wolf_ctx k b))"
  using wolfcrypt_port_conforms [OF ex_wolfssl_ok(1), of ex_wolf_ctx] by (simp add: ex_wolf_ctx_def)

theorem wolfcrypt_free_balanced_witness:
  "\<exists>ctx1 out1. osdp_sc_wolfcrypt_aes128 ex_wolfssl (ex_wolf_ctx\<lparr>wx_lib := 0\<rparr>) \<lparr>wb_aes_bound = False, wb_rand_bound = False\<rparr> = (OSDP_OK, ctx1, out1) \<and>
     wx_lib ctx1 = 1 \<and> wx_lib (osdp_sc_wolfcrypt_free ex_wolfssl ctx1) = 0"
proof -
  obtain s ctx1 out1 where r: "osdp_sc_wolfcrypt_aes128 ex_wolfssl (ex_wolf_ctx\<lparr>wx_lib := 0\<rparr>) \<lparr>wb_aes_bound = False, wb_rand_bound = False\<rparr> = (s, ctx1, out1)"
    by (metis prod_cases3)
  moreover from this have "s = OSDP_OK" "wx_lib ctx1 = 1"
    by (auto simp: osdp_sc_wolfcrypt_aes128_def ex_wolfssl_def Let_def)
  ultimately show ?thesis
    using wolfcrypt_free_balanced [OF ex_wolfssl_ok(2) r] by simp
qed

end
