(* ===== verification/Serial_Posix.thy ===== *)
theory Serial_Posix
  imports Capture
begin

text \<open>
  The serial adapter of the mock tools on POSIX systems, \<^verbatim>\<open>tools/osdp-pd-mock/serial_posix.c\<close> (its sibling under
  \<^verbatim>\<open>tools/osdp-acu-mock\<close> has the same functions without the change of speed). The operating system is the record
  \<open>posix\<close> of its calls on a state \<open>'io\<close>. The write loop repeats a call that would block for as long as it would
  block, so it is a partial function: \<open>None\<close> is a loop that never ends. Of the terminal settings the fields the adapter
  touches are kept; error texts are not.
\<close>

section \<open>The operating system\<close>

datatype speed = B0 | B1200 | B2400 | B4800 | B9600 | B19200 | B38400 | B57600 | B115200 | B230400

datatype write_result = Wrote nat | Would_Block | Write_Failed

datatype set_when = TCSANOW | TCSADRAIN

record termios =
  ti_ispeed :: speed
  ti_ospeed :: speed
  ti_raw :: bool
  ti_clocal :: bool
  ti_cread :: bool
  ti_crtscts :: bool
  ti_parenb :: bool
  ti_cstopb :: bool
  ti_csize :: nat
  ti_vmin :: nat
  ti_vtime :: nat

record 'io posix =
  os_open :: "'io \<Rightarrow> string \<Rightarrow> int \<times> 'io"
  os_close :: "'io \<Rightarrow> int \<Rightarrow> 'io"
  os_read :: "'io \<Rightarrow> int \<Rightarrow> nat \<Rightarrow> int \<times> bytes \<times> 'io"
  os_write :: "'io \<Rightarrow> int \<Rightarrow> bytes \<Rightarrow> write_result \<times> 'io"
  os_nanosleep :: "'io \<Rightarrow> u64 \<Rightarrow> u64 \<Rightarrow> 'io"
  os_clock :: "'io \<Rightarrow> u64 \<times> u64 \<times> 'io"
  os_tcgetattr :: "'io \<Rightarrow> int \<Rightarrow> termios option \<times> 'io"
  os_tcsetattr :: "'io \<Rightarrow> int \<Rightarrow> set_when \<Rightarrow> termios \<Rightarrow> bool \<times> 'io"
  os_tcdrain :: "'io \<Rightarrow> int \<Rightarrow> 'io"
  os_tcflush :: "'io \<Rightarrow> int \<Rightarrow> 'io"
  os_calloc :: "'io \<Rightarrow> bool \<times> 'io"

section \<open>Transport callbacks\<close>

text \<open>The context is the open descriptor.\<close>

record serial_ctx = sx_fd :: int

text \<open>The conversion of a count to a C \<^verbatim>\<open>int\<close> keeps 32 bits.\<close>

definition c_int :: "int \<Rightarrow> int" where
  "c_int n = sint (word_of_int n :: 32 word)"

definition posix_read :: "'io posix \<Rightarrow> serial_ctx option \<Rightarrow> 'io \<Rightarrow> nat \<Rightarrow> int \<times> bytes \<times> 'io" where
  "posix_read os ctx io cap =
     (case ctx of
        None \<Rightarrow> (0, [], io)
      | Some c \<Rightarrow>
          if sx_fd c < 0 then (0, [], io)
          else (case os_read os io (sx_fd c) cap of (n, buf, io1) \<Rightarrow> if n < 0 then (0, buf, io1) else (c_int n, buf, io1)))"

partial_function (option) write_loop :: "'io posix \<Rightarrow> int \<Rightarrow> bytes \<Rightarrow> nat \<Rightarrow> 'io \<Rightarrow> (nat \<times> 'io) option" where
  "write_loop os fd buf tot io =
     (if tot < length buf then
        (case os_write os io fd (drop tot buf) of
           (Wrote n, io1) \<Rightarrow> write_loop os fd buf (tot + n) io1
         | (Would_Block, io1) \<Rightarrow> write_loop os fd buf tot (os_nanosleep os io1 0 1000000)
         | (Write_Failed, io1) \<Rightarrow> Some (tot, io1))
      else Some (tot, io))"

definition posix_write :: "'io posix \<Rightarrow> serial_ctx option \<Rightarrow> 'io \<Rightarrow> bytes \<Rightarrow> (int \<times> 'io) option" where
  "posix_write os ctx io buf =
     (case ctx of
        None \<Rightarrow> Some (0, io)
      | Some c \<Rightarrow>
          if sx_fd c < 0 then Some (0, io)
          else (case write_loop os (sx_fd c) buf 0 io of None \<Rightarrow> None | Some (tot, io1) \<Rightarrow> Some (c_int (int tot), io1)))"

definition posix_now_ms :: "'io posix \<Rightarrow> 'io \<Rightarrow> u32 \<times> 'io" where
  "posix_now_ms os io = (case os_clock os io of (sec, nsec, io1) \<Rightarrow> (ucast (sec * 1000 + nsec div 1000000), io1))"

section \<open>Line speed\<close>

definition baud_to_speed :: "u32 \<Rightarrow> speed" where
  "baud_to_speed baud =
     (if baud = 1200 then B1200 else if baud = 2400 then B2400 else if baud = 4800 then B4800
      else if baud = 9600 then B9600 else if baud = 19200 then B19200 else if baud = 38400 then B38400
      else if baud = 57600 then B57600 else if baud = 115200 then B115200 else if baud = 230400 then B230400
      else B0)"

definition serial_baud_supported :: "u32 \<Rightarrow> bool" where
  "serial_baud_supported baud \<longleftrightarrow> baud_to_speed baud \<noteq> B0"

definition serial_settings :: "speed \<Rightarrow> termios \<Rightarrow> termios" where
  "serial_settings speed tio =
     tio\<lparr>ti_raw := True, ti_ispeed := speed, ti_ospeed := speed, ti_clocal := True, ti_cread := True, ti_crtscts := False,
         ti_parenb := False, ti_cstopb := False, ti_csize := 8, ti_vmin := 0, ti_vtime := 0\<rparr>"

definition serial_open :: "'io posix \<Rightarrow> 'io \<Rightarrow> string option \<Rightarrow> u32 \<Rightarrow> serial_ctx option \<times> 'io" where
  "serial_open os io port_name baud =
     (case port_name of
        None \<Rightarrow> (None, io)
      | Some port \<Rightarrow>
          let speed = baud_to_speed baud in
          if speed = B0 then (None, io)
          else
            (case os_open os io port of
               (fd, io) \<Rightarrow>
                 if fd < 0 then (None, io)
                 else
                   (case os_tcgetattr os io fd of
                      (None, io) \<Rightarrow> (None, os_close os io fd)
                    | (Some tio, io) \<Rightarrow>
                        (case os_tcsetattr os io fd TCSANOW (serial_settings speed tio) of
                           (ok, io) \<Rightarrow>
                             if \<not> ok then (None, os_close os io fd)
                             else
                               (case os_calloc os (os_tcflush os io fd) of
                                  (ok, io) \<Rightarrow>
                                    if \<not> ok then (None, os_close os io fd) else (Some \<lparr>sx_fd = fd\<rparr>, io))))))"

definition serial_set_baud :: "'io posix \<Rightarrow> serial_ctx option \<Rightarrow> 'io \<Rightarrow> u32 \<Rightarrow> bool \<times> 'io" where
  "serial_set_baud os ctx io baud =
     (case ctx of
        None \<Rightarrow> (False, io)
      | Some c \<Rightarrow>
          if sx_fd c < 0 then (False, io)
          else
            let speed = baud_to_speed baud in
            if speed = B0 then (False, io)
            else
              (case os_tcgetattr os (os_tcdrain os io (sx_fd c)) (sx_fd c) of
                 (None, io) \<Rightarrow> (False, io)
               | (Some tio, io) \<Rightarrow>
                   os_tcsetattr os io (sx_fd c) TCSADRAIN (tio\<lparr>ti_ispeed := speed, ti_ospeed := speed\<rparr>)))"

definition serial_close :: "'io posix \<Rightarrow> serial_ctx option \<Rightarrow> 'io \<Rightarrow> 'io" where
  "serial_close os ctx io =
     (case ctx of None \<Rightarrow> io | Some c \<Rightarrow> if sx_fd c \<ge> 0 then os_close os io (sx_fd c) else io)"

definition serial_sleep_ms :: "'io posix \<Rightarrow> 'io \<Rightarrow> u32 \<Rightarrow> 'io" where
  "serial_sleep_ms os io ms = os_nanosleep os io (ucast (ms div 1000)) (ucast (ms mod 1000) * 1000000)"

section \<open>Writing\<close>

text \<open>A line that makes progress: what a write accepts goes on the wire in order, a write that accepts something accepts at
  least a byte and no more than it was given, one that would block becomes possible after finitely many
  sleeps, and no write fails.\<close>

definition line_ok :: "'io posix \<Rightarrow> int \<Rightarrow> ('io \<Rightarrow> bytes) \<Rightarrow> ('io \<Rightarrow> nat) \<Rightarrow> bool" where
  "line_ok os fd wire backlog \<longleftrightarrow>
     (\<forall>io bs. bs \<noteq> [] \<longrightarrow>
        (case os_write os io fd bs of
           (Wrote n, io') \<Rightarrow> 0 < n \<and> n \<le> length bs \<and> wire io' = wire io @ take n bs
         | (Would_Block, io') \<Rightarrow>
             wire (os_nanosleep os io' 0 1000000) = wire io \<and> backlog (os_nanosleep os io' 0 1000000) < backlog io
         | (Write_Failed, io') \<Rightarrow> False))"

lemma write_loop_done:
  assumes "line_ok os fd wire backlog"
  shows "tot \<le> length buf \<Longrightarrow> \<exists>io'. write_loop os fd buf tot io = Some (length buf, io') \<and> wire io' = wire io @ drop tot buf"
proof (induction "(length buf - tot, backlog io)" arbitrary: tot io rule: wf_induct_rule [OF wf_lex_prod [OF wf_less_than wf_less_than]])
  case (1 tot io)
  show ?case
  proof (cases "tot < length buf")
    case False
    with 1(2) show ?thesis by (subst write_loop.simps) simp
  next
    case True
    then have ne: "drop tot buf \<noteq> []" by simp
    obtain r io1 where w: "os_write os io fd (drop tot buf) = (r, io1)"
      by fastforce
    have ok: "case (r, io1) of
           (Wrote n, io') \<Rightarrow> 0 < n \<and> n \<le> length (drop tot buf) \<and> wire io' = wire io @ take n (drop tot buf)
         | (Would_Block, io') \<Rightarrow>
             wire (os_nanosleep os io' 0 1000000) = wire io \<and> backlog (os_nanosleep os io' 0 1000000) < backlog io
         | (Write_Failed, io') \<Rightarrow> False"
      using assms [unfolded line_ok_def, rule_format, OF ne, of io] by (simp only: w)
    show ?thesis
    proof (cases r)
      case (Wrote n)
      have "((length buf - (tot + n), backlog io1), length buf - tot, backlog io) \<in> less_than <*lex*> less_than" "tot + n \<le> length buf"
        using True ok Wrote by auto
      from 1(1) [OF this] ok Wrote obtain io' where
        "write_loop os fd buf (tot + n) io1 = Some (length buf, io')" "wire io' = wire io @ take n (drop tot buf) @ drop (tot + n) buf"
        by auto
      moreover have "take n (drop tot buf) @ drop (tot + n) buf = drop tot buf"
        by (metis add.commute append_take_drop_id drop_drop)
      ultimately show ?thesis
        using True w Wrote by (subst write_loop.simps) simp
    next
      case Would_Block
      then have "((length buf - tot, backlog (os_nanosleep os io1 0 1000000)), length buf - tot, backlog io) \<in> less_than <*lex*> less_than"
        using ok by simp
      from 1(1) [OF this 1(2)] ok show ?thesis
        using True w Would_Block by (subst write_loop.simps) simp
    qed (use ok in simp)
  qed
qed

section \<open>Properties\<close>

lemma c_int_id: "- (2 ^ 31) \<le> n \<Longrightarrow> n < 2 ^ 31 \<Longrightarrow> c_int n = n"
  by (simp add: c_int_def sint_sbintrunc' signed_take_bit_int_eq_self)

text \<open>C37. On a line that makes progress the write callback returns, however often the system would block in between: it
  reports the number of bytes as a C \<^verbatim>\<open>int\<close>, exactly for anything below 2 gigabytes, and the bytes are on the wire in
  order, none lost and none repeated.\<close>

theorem posix_write_complete:
  assumes "line_ok os (sx_fd c) wire backlog" and "0 \<le> sx_fd c"
  shows "\<exists>io' n. posix_write os (Some c) io buf = Some (n, io') \<and> wire io' = wire io @ buf \<and>
    n = c_int (int (length buf)) \<and> (length buf < 2 ^ 31 \<longrightarrow> n = int (length buf))"
proof -
  obtain io' where "write_loop os (sx_fd c) buf 0 io = Some (length buf, io')" "wire io' = wire io @ buf"
    using write_loop_done [OF assms(1), of 0 buf io] by auto
  moreover have "c_int (int (length buf)) = int (length buf)" if "length buf < 2 ^ 31"
    using that by (intro c_int_id) simp_all
  ultimately show ?thesis
    using assms(2) by (simp add: posix_write_def)
qed

text \<open>The descriptors a process holds: opening adds one that was not held, closing removes it, and nothing else the
  adapter calls changes them.\<close>

definition fds_ok :: "'io posix \<Rightarrow> ('io \<Rightarrow> int set) \<Rightarrow> bool" where
  "fds_ok os fds \<longleftrightarrow>
     (\<forall>io p. case os_open os io p of (fd, io') \<Rightarrow> if fd < 0 then fds io' = fds io else fd \<notin> fds io \<and> fds io' = insert fd (fds io)) \<and>
     (\<forall>io fd. fds (os_close os io fd) = fds io - {fd}) \<and> (\<forall>io fd. fds (snd (os_tcgetattr os io fd)) = fds io) \<and>
     (\<forall>io fd t a. fds (snd (os_tcsetattr os io fd t a)) = fds io) \<and> (\<forall>io fd. fds (os_tcflush os io fd) = fds io) \<and>
     (\<forall>io. fds (snd (os_calloc os io)) = fds io)"

text \<open>Opening a port leaks nothing: when it fails, at whichever of its steps, the process holds the descriptors it held
  before; when it succeeds the rate is a supported one, the process holds exactly one more, and closing the port gives
  it back.\<close>

theorem serial_open_no_leak:
  assumes "fds_ok os fds" and "serial_open os io port baud = (r, io')"
  shows "case r of
      None \<Rightarrow> fds io' = fds io
    | Some c \<Rightarrow> serial_baud_supported baud \<and> 0 \<le> sx_fd c \<and> sx_fd c \<notin> fds io \<and> fds io' = insert (sx_fd c) (fds io) \<and>
        fds (serial_close os (Some c) io') = fds io"
proof (cases "port = None \<or> baud_to_speed baud = B0")
  case True
  then show ?thesis using assms(2) by (auto simp: serial_open_def Let_def split: option.splits)
next
  case False
  then obtain p where p: "port = Some p" "baud_to_speed baud \<noteq> B0" by auto
  obtain fd io1 where 1: "os_open os io p = (fd, io1)" by fastforce
  obtain t io2 where 2: "os_tcgetattr os io1 fd = (t, io2)" by fastforce
  obtain b io3 where 3: "os_tcsetattr os io2 fd TCSANOW (serial_settings (baud_to_speed baud) (the t)) = (b, io3)" by fastforce
  obtain b' io4 where 4: "os_calloc os (os_tcflush os io3 fd) = (b', io4)" by fastforce
  have o: "if fd < 0 then fds io1 = fds io else fd \<notin> fds io \<and> fds io1 = insert fd (fds io)"
    using assms(1) [unfolded fds_ok_def, THEN conjunct1, rule_format, of io p] 1 by simp
  have c: "fds (os_close os i fd) = fds i - {fd}" "fds (os_tcflush os i fd) = fds i" "fds (snd (os_tcgetattr os i fd)) = fds i"
    "fds (snd (os_tcsetattr os i fd x y)) = fds i" "fds (snd (os_calloc os i)) = fds i" for i x y
    using assms(1) by (simp_all add: fds_ok_def)
  have k: "fds io2 = fds io1" "fds io3 = fds io2" "fds io4 = fds io3"
    using c(3) [of io1] c(4) [of io2 TCSANOW "serial_settings (baud_to_speed baud) (the t)"] c(5) [of "os_tcflush os io3 fd"] c(2) by (simp_all add: 2 3 4)
  have "(r, io') = (if fd < 0 then (None, io1) else if t = None then (None, os_close os io2 fd)
      else if \<not> b then (None, os_close os io3 fd) else if \<not> b' then (None, os_close os io4 fd) else (Some \<lparr>sx_fd = fd\<rparr>, io4))"
    using assms(2) p 1 2 3 4 by (cases t) (auto simp: serial_open_def split: if_splits)
  then show ?thesis
    using o k c(1) p(2) by (auto simp: serial_close_def serial_baud_supported_def split: if_splits)
qed

text \<open>A system whose line blocks twice before each byte, and which hands out the descriptor 3.\<close>

type_synonym ex_io = "bytes \<times> nat \<times> bool"

definition ex_posix :: "ex_io posix" where
  "ex_posix = \<lparr>os_open = \<lambda>(w, n, held) p. if held then (-1, (w, n, held)) else (3, (w, n, True)),
     os_close = \<lambda>(w, n, held) fd. (w, n, held \<and> fd \<noteq> 3), os_read = \<lambda>io fd cap. (0, [], io),
     os_write = \<lambda>(w, n, held) fd bs. if n > 0 then (Would_Block, (w, n, held)) else (Wrote 1, (w @ take 1 bs, 2, held)),
     os_nanosleep = \<lambda>(w, n, held) s ns. (w, n - 1, held), os_clock = \<lambda>io. (1, 500000000, io),
     os_tcgetattr = \<lambda>io fd. (Some \<lparr>ti_ispeed = B0, ti_ospeed = B0, ti_raw = False, ti_clocal = False, ti_cread = False,
        ti_crtscts = True, ti_parenb = True, ti_cstopb = True, ti_csize = 7, ti_vmin = 1, ti_vtime = 1\<rparr>, io),
     os_tcsetattr = \<lambda>io fd w t. (True, io), os_tcdrain = \<lambda>io fd. io, os_tcflush = \<lambda>io fd. io, os_calloc = \<lambda>io. (True, io)\<rparr>"

theorem posix_write_complete_witness:
  "\<exists>io'. posix_write ex_posix (Some \<lparr>sx_fd = 3\<rparr>) ([], 2, True) [1, 2, 3] = Some (3, io') \<and> fst io' = [1, 2, 3]"
proof -
  have "line_ok ex_posix 3 fst (fst \<circ> snd)"
    by (auto simp: line_ok_def ex_posix_def Suc_le_eq)
  then show ?thesis
    using posix_write_complete [of ex_posix "\<lparr>sx_fd = 3\<rparr>" fst "fst \<circ> snd" "([], 2, True)" "[1, 2, 3]"] by auto
qed

theorem serial_open_no_leak_witness:
  "\<exists>io'. serial_open ex_posix ([], 0, False) (Some ''tty'') 9600 = (Some \<lparr>sx_fd = 3\<rparr>, io') \<and>
     \<not> snd (snd (serial_close ex_posix (Some \<lparr>sx_fd = 3\<rparr>) io'))"
proof -
  let ?fds = "\<lambda>io :: ex_io. if snd (snd io) then {3} else {}"
  have ok: "fds_ok ex_posix ?fds"
    by (simp add: fds_ok_def ex_posix_def)
  obtain io' where o: "serial_open ex_posix ([], 0, False) (Some ''tty'') 9600 = (Some \<lparr>sx_fd = 3\<rparr>, io')"
    by (simp add: serial_open_def ex_posix_def baud_to_speed_def)
  have "?fds (serial_close ex_posix (Some \<lparr>sx_fd = 3\<rparr>) io') = {}"
    using serial_open_no_leak [OF ok o] by (simp split: if_splits)
  with o show ?thesis
    by (simp split: if_splits)
qed

end
