(* ===== verification/Spec2Isabelle.thy ===== *)
theory Spec2Isabelle
  imports Capture Dispatch Multipart Reader_State PD_Invariant Recovery Mock_PD Wolfcrypt Serial_Posix
begin

text \<open>
  A verification library for OSDP-Embedded, a C99 implementation of the Open Supervised Device Protocol: a serial
  protocol between an access control unit (ACU), which polls, and peripheral devices (PD), which answer. The
  program has a portable core (\<^verbatim>\<open>core/\<close>), the peripheral device (\<^verbatim>\<open>pd/\<close>) and the control unit (\<^verbatim>\<open>acu/\<close>); neither allocates
  memory, both are driven by a tick function their application calls, and all input and output goes through callbacks.

  \<^bold>\<open>Layers.\<close> From the bottom up, with the sources under \<^verbatim>\<open>src/\<close> each theory models:

  \<^item> \<open>Prelude\<close>: bytes, status codes, pointers and little-endian packing (\<^verbatim>\<open>osdp_types.h\<close>, \<^verbatim>\<open>pack.h\<close>); the lemmas on lists, options
    and words the other theories share.
  \<^item> \<open>Integrity\<close>: checksum and CRC-16 (\<^verbatim>\<open>checksum.c\<close>, \<^verbatim>\<open>crc16.c\<close>). The table-driven CRC is the bit-serial one.
  \<^item> \<open>Frame\<close>: building and decoding frames (\<^verbatim>\<open>frame.c\<close>). Both directions of the round trip, layout, exact maximum payload,
    detection of single-byte corruption, the output on every error.
  \<^item> \<open>Stream\<close>: the receive buffer that finds frames in a byte stream (\<^verbatim>\<open>stream.c\<close>). It refines a queue of bytes; the locale
    \<open>frame_source\<close> is the interface ACU and PD rely on, interpreted on the array implementation.
  \<^item> \<open>Codec\<close>, \<open>Commands\<close>, \<open>Replies\<close>: the payload codecs (\<^verbatim>\<open>core/src/commands\<close>, \<^verbatim>\<open>core/src/replies\<close>). Every pair of decoder and
    builder is an interpretation of the locale \<open>payload_codec\<close>, which says that the two are inverse to each other.
  \<^item> \<open>Multipart\<close>: fragmentation and reassembly (\<^verbatim>\<open>multipart.c\<close>); \<open>Reader_State\<close>: LED and buzzer timing (\<^verbatim>\<open>led_state.c\<close>, \<^verbatim>\<open>buz_state.c\<close>);
    \<open>Dispatch\<close>: message classification (\<^verbatim>\<open>dispatch_classify.c\<close>).
  \<^item> \<open>SC_Crypto\<close>, \<open>SC_Wrap\<close>: the Secure Channel (\<^verbatim>\<open>core/src/sc\<close>): key derivation, cryptograms, CBC, the two-key MAC, payload
    padding, wrapping and unwrapping of frames. The locale \<open>secure_link\<close> states what two sessions promise each other and derives
    that whole conversations are delivered; its interpretation is on the code's wrap and unwrap.
  \<^item> \<open>PD_State\<close>, \<open>PD_Events\<close>, \<open>PD_Reader\<close>, \<open>PD_PDCAP\<close>, \<open>PD_File\<close>, \<open>PD_Dispatch\<close>, \<open>PD_SC\<close>, \<open>PD_Tick\<close>: the device (\<^verbatim>\<open>osdp_pd.h\<close>, \<^verbatim>\<open>pd.c\<close>,
    \<^verbatim>\<open>pd_dispatch.c\<close>, \<^verbatim>\<open>pd_sc.c\<close>, \<^verbatim>\<open>pd_pdcap.c\<close>): context and configuration, event queue (locale \<open>event_fifo\<close>), LED and buzzer
    banks (locale \<open>slot_bank\<close>: a bank refines a finite map), capability reports, file transfer, command dispatch, the device's side of
    the Secure Channel, and the tick. \<open>PD_Behaviour\<close> has the properties of whole frames: retransmission, BUSY, clear text in secure
    mode, forged commands, partial writes. \<open>PD_Invariant\<close> has the invariant of every reachable context, by rule induction over
    the calls an application can make.
  \<^item> \<open>ACU_State\<close>, \<open>ACU_SC\<close>, \<open>ACU\<close>: the control unit (\<^verbatim>\<open>osdp_acu.h\<close>, \<^verbatim>\<open>acu.c\<close>, \<^verbatim>\<open>acu_sc.c\<close>): slots, banks, the handshake, replies, timeouts,
    sending and the tick. \<open>ACU_Behaviour\<close> has the invariant of every reachable context, by rule induction over the calls an application
    can make, and what repeated replies and clear replies during a session do.
  \<^item> \<open>Link\<close>, \<open>Handshake\<close>, \<open>Exchange\<close>, \<open>Conversation\<close>, \<open>Recovery\<close>: the two programs together, on a line that is one byte queue per direction
    and a clock (locale \<open>byte_port\<close>, interpreted on both ends). The handshake establishes a session; from then on the two programs refine direct calls of the device's application
    by the control unit's (\<open>remote_calls\<close>); a lost command or reply is recovered by repeating the command, and the device's application
    still runs exactly once.

  \<^item> \<open>Capture\<close>: the capture parser (\<^verbatim>\<open>tools/osdp-parser\<close>) on top of stream and dispatch: every line of the capture format is read
    back, and every frame of a capture is reported.

  \<^item> \<open>Tiny_AES\<close>, \<open>Wolfcrypt\<close>: the two crypto ports (\<^verbatim>\<open>ports/tiny\<close> with the vendored \<^verbatim>\<open>vendor/tiny-aes/aes.c\<close>, and \<^verbatim>\<open>ports/wolfcrypt\<close>). The first is
    modelled down to the S-box: decryption undoes encryption, so the assumption on the cipher below is met by code of the repository, and the
    examples of \<open>Conversation\<close> run on it. The second is a binding to a package that is a parameter.
  \<^item> \<open>PD_Environment\<close>: what an application of the device may rely on about its own state. The locale \<open>pd_environment\<close> asks of the application's hooks
    that each keeps a property of the environment and derives that every tick keeps it.
  \<^item> \<open>Mock_CLI\<close>, \<open>Mock_PD\<close>, \<open>Serial_Posix\<close>: the mock device (\<^verbatim>\<open>tools/osdp-pd-mock\<close>), an application of the device: its command line, handlers,
    configuration and loop, which interprets \<open>pd_environment\<close>, and its serial adapter over the calls of the operating system.

  \<^bold>\<open>How state and operations correspond.\<close> A C structure is a record with the same fields (a prefix per structure where field
  names would clash); an enumeration is a datatype with the same constructors; \<^verbatim>\<open>uint8_t\<close>, \<^verbatim>\<open>uint16_t\<close> and \<^verbatim>\<open>uint32_t\<close> are words of that
  width, so time differences and counters wrap as in C; \<^verbatim>\<open>size_t\<close> is a natural number. A function has the name it has in C;
  where it returns a status and a result it is a sum with the status on the left, and where it changes a context it takes and
  returns the context. A pointer that may be NULL is an optional list of the bytes behind it. A callback is a function on the
  environment, which is a type parameter: everything proved holds for every application, transport and crypto port. Callbacks do not
  call back into the context that called them.

  \<^bold>\<open>Parameters.\<close> The AES primitives and the random generator are a port the integrator supplies (\<^verbatim>\<open>osdp_sc_crypto.h\<close>). They are fields of
  a record; theorems that need it assume \<open>crypto_ok\<close>: 16-byte blocks go to 16-byte blocks and decryption undoes encryption, which
  \<open>Tiny_AES\<close> proves of the repository's own port. Nothing else is assumed of the cipher, so the results on forged frames say what has to be forged (the exact MAC bytes), not that it is hard.
  Transports are parameters as well; \<open>Link\<close> instantiates them with an undisturbed line, everything else leaves them open.
  wolfCrypt, the operating system behind the serial adapter, and the platform of the mock device are records of functions on states of
  their own, with what the code relies on as named predicates (\<open>wolf_aes_ok\<close>, \<open>wolf_counts\<close>, \<open>line_ok\<close>, \<open>fds_ok\<close>).

  \<^bold>\<open>Bounds and termination.\<close> No fuel is used. One loop of the code may run forever, the serial adapter's write loop on a line that never becomes
  free; it is a partial function, and shown to return on every line that makes progress. Loops over arrays are structural; the stream's feed loop, the read loops (bounded by
  the stream buffer of 1440 bytes per tick), the frame loops (bounded by the bytes pending in the stream), the write loop and the capture parser's loops are total
  functions with a measure. Buffer sizes are those of the headers: 1440 bytes for a frame, 512 for the device's buffers, or what
  the application binds.

  \<^bold>\<open>Not modelled.\<close> The CBC and CTR modes of the vendored AES (not called), the mock control unit (\<^verbatim>\<open>tools/osdp-acu-mock\<close>: it starts a
  handshake from inside a callback, which the callbacks here cannot do), the Windows serial adapters, the server under \<^verbatim>\<open>tools/osdp-mcp\<close> and
  the Rust bindings (another language), what the tools print, tests, fuzzing harnesses, scripts and continuous integration.
\<close>

end
